(* ===== verification/Prelude.thy ===== *)
theory Prelude
  imports Main "HOL-Library.Word" "HOL-Library.Monad_Syntax"
begin

unbundle bit_operations_syntax

text \<open>
  Shared vocabulary of the development: Rust's fixed-width integers as words, the outcome of a
  call that may not return normally, slices with the bounds checks the compiler inserts, and the
  generic lemmas on lists, options and words that the component theories rely on.

  A computation of type \<open>'a rs\<close> is \<open>Some v\<close> when the Rust code returns \<open>v\<close> and \<open>None\<close> when it
  does not return: an out-of-range index or slice, \<open>unwrap\<close> on \<open>None\<close>, \<open>panic!\<close>,
  \<open>unreachable!\<close>, an arithmetic overflow (a panic with overflow checks on; without them the
  value would wrap, so a theorem that the result is \<open>Some\<close> is valid for both build profiles), or
  a loop that runs for ever. A Rust \<open>Option<T>\<close> is a separate, inner \<open>option\<close>.
\<close>

section \<open>Types\<close>

type_synonym u8 = "8 word"
type_synonym u16 = "16 word"
type_synonym u32 = "32 word"
type_synonym u64 = "64 word"

text \<open>Connection indices and poll tokens are \<open>usize\<close> values of a 64-bit target; slice lengths are
  natural numbers.\<close>

type_synonym usize = "64 word"
type_synonym bytes = "u8 list"

type_synonym 'a rs = "'a option"

text \<open>Collections of facts: \<open>slice_simps\<close> evaluates bounds-checked accesses, \<open>wire_simps\<close> the
  byte-level encodings, \<open>world_simps\<close> the effects on the outside world.\<close>

named_theorems slice_simps
named_theorems wire_simps
named_theorems status_simps
named_theorems world_simps

section \<open>Bounds-checked slices\<close>

text \<open>\<open>xs[i]\<close>, \<open>&xs[i..]\<close>, \<open>&xs[..j]\<close> and \<open>&xs[i..j]\<close>.\<close>

definition idx :: "'a list \<Rightarrow> nat \<Rightarrow> 'a rs" where
  "idx xs i = (if i < length xs then Some (xs ! i) else None)"

definition slice_from :: "'a list \<Rightarrow> nat \<Rightarrow> 'a list rs" where
  "slice_from xs i = (if i \<le> length xs then Some (drop i xs) else None)"

definition slice_to :: "'a list \<Rightarrow> nat \<Rightarrow> 'a list rs" where
  "slice_to xs j = (if j \<le> length xs then Some (take j xs) else None)"

definition slice_range :: "'a list \<Rightarrow> nat \<Rightarrow> nat \<Rightarrow> 'a list rs" where
  "slice_range xs i j = (if i \<le> j \<and> j \<le> length xs then Some (take (j - i) (drop i xs)) else None)"

text \<open>Option's \<open>unwrap\<close>.\<close>

definition unwrap :: "'a option \<Rightarrow> 'a rs" where
  "unwrap x = x"

lemma idx_Some [slice_simps]: "i < length xs \<Longrightarrow> idx xs i = Some (xs ! i)"
  by (simp add: idx_def)

lemma idx_None_iff: "idx xs i = None \<longleftrightarrow> length xs \<le> i"
  by (auto simp: idx_def)

lemma slice_from_Some [slice_simps]: "i \<le> length xs \<Longrightarrow> slice_from xs i = Some (drop i xs)"
  by (simp add: slice_from_def)

lemma slice_to_Some [slice_simps]: "j \<le> length xs \<Longrightarrow> slice_to xs j = Some (take j xs)"
  by (simp add: slice_to_def)

lemma slice_range_Some [slice_simps]:
  "i \<le> j \<Longrightarrow> j \<le> length xs \<Longrightarrow> slice_range xs i j = Some (take (j - i) (drop i xs))"
  by (simp add: slice_range_def)

lemma slice_append [slice_simps]:
  "slice_from (xs @ ys) (length xs) = Some ys"
  "slice_to (xs @ ys) (length xs) = Some xs"
  by (simp_all add: slice_from_def slice_to_def)

lemma unwrap_simps [simp]: "unwrap (Some x) = Some x" "unwrap None = None"
  by (simp_all add: unwrap_def)

section \<open>Two ways to cut a list\<close>

lemma append_cut_before:
  assumes "xs @ ys = us @ vs" and "length xs < length us"
  shows "\<exists>c. xs @ c = us \<and> c \<noteq> []"
proof -
  from assms obtain c where "xs @ c = us" by (auto simp: append_eq_append_conv2)
  with assms(2) show ?thesis by auto
qed

lemma append_cut_after:
  assumes "xs @ ys = us @ vs" and "\<not> length xs < length us"
  shows "\<exists>c. xs = us @ c \<and> c @ ys = vs"
proof -
  from assms(2) have "take (length us) (xs @ ys) = take (length us) xs" by simp
  with assms(1) have "us = take (length us) xs" by simp
  then obtain c where "xs = us @ c" by (metis append_take_drop_id)
  with assms(1) show ?thesis by auto
qed

section \<open>Big-endian 16-bit integers\<close>

text \<open>\<open>put_u16\<close> of the \<open>bytes\<close> crate writes the most significant byte first.\<close>

definition u16_be :: "u16 \<Rightarrow> bytes" where
  "u16_be w = [ucast (drop_bit 8 w), ucast w]"

lemma length_u16_be [simp]: "length (u16_be w) = 2"
  by (simp add: u16_be_def)

lemma u16_of_halves:
  fixes w :: u16
  shows "push_bit 8 (ucast (ucast (drop_bit 8 w :: u16) :: u8) :: u16) OR ucast (ucast w :: u8) = w"
proof (rule bit_word_eqI)
  fix n assume n: "n < LENGTH(16)"
  show "bit (push_bit 8 (ucast (ucast (drop_bit 8 w :: u16) :: u8) :: u16) OR ucast (ucast w :: u8)) n
      = bit w n"
    using n by (cases "n < 8") (auto simp: bit_simps)
qed

lemma halves_of_u16:
  fixes a b :: u8
  defines "w \<equiv> push_bit 8 (ucast a :: u16) OR (ucast b :: u16)"
  shows "ucast (drop_bit 8 w) = a" and "ucast w = b"
proof -
  have zero: "\<not> bit c n" if "8 \<le> n" for c :: u8 and n
    using that bit_imp_le_length [of c n] by auto
  show "ucast (drop_bit 8 w) = a"
    by (rule bit_word_eqI) (auto simp: w_def bit_simps zero)
  show "ucast w = b"
    by (rule bit_word_eqI) (auto simp: w_def bit_simps)
qed

section \<open>Checked arithmetic\<close>

definition add_checked :: "'a::len word \<Rightarrow> 'a word \<Rightarrow> 'a word rs" where
  "add_checked a b = (if unat a + unat b < 2 ^ LENGTH('a) then Some (a + b) else None)"

definition mul_checked :: "'a::len word \<Rightarrow> 'a word \<Rightarrow> 'a word rs" where
  "mul_checked a b = (if unat a * unat b < 2 ^ LENGTH('a) then Some (a * b) else None)"

lemma add_checked_SomeD: "add_checked a b = Some c \<Longrightarrow> unat c = unat a + unat b"
  by (auto simp: add_checked_def unat_word_ariths split: if_splits)

lemma mul_checked_SomeD: "mul_checked a b = Some c \<Longrightarrow> unat c = unat a * unat b"
  by (auto simp: mul_checked_def unat_word_ariths split: if_splits)

end
