(* ===== verification/Rust_Std.thy ===== *)
theory Rust_Std
  imports Prelude
begin

text \<open>
  The parts of the Rust standard library whose behaviour the program depends on: the address
  types of \<open>std::net\<close> with their text parser, \<open>String::from_utf8_lossy\<close> (a \<open>String\<close> is its UTF-8
  bytes), \<open>str::split\<close> on one character, \<open>u32::from_str\<close>, \<open>Vec::swap_remove\<close>, and the
  error kinds of \<open>std::io\<close> that the program distinguishes.
\<close>

section \<open>Errors of I/O calls\<close>

datatype error_kind = WouldBlock | NotConnected | ConnectionReset | UnexpectedEof | InvalidData
  | OtherError nat

type_synonym 'a io = "error_kind + 'a"

section \<open>Addresses\<close>

datatype ipv4_addr = Ipv4Addr u8 u8 u8 u8

datatype ipv6_addr = Ipv6Addr u16 u16 u16 u16 u16 u16 u16 u16

datatype ip_addr = IpV4 ipv4_addr | IpV6 ipv6_addr

text \<open>\<open>SocketAddr::V6\<close> carries the port, the flow information and the scope identifier.\<close>

datatype socket_addr = V4 ipv4_addr u16 | V6 ipv6_addr u16 u32 u32

fun ipv4_octets :: "ipv4_addr \<Rightarrow> bytes" where
  "ipv4_octets (Ipv4Addr a b c d) = [a, b, c, d]"

fun ipv6_octets :: "ipv6_addr \<Rightarrow> bytes" where
  "ipv6_octets (Ipv6Addr a b c d e f g h) =
     u16_be a @ u16_be b @ u16_be c @ u16_be d @ u16_be e @ u16_be f @ u16_be g @ u16_be h"

fun ip_is_ipv4 :: "ip_addr \<Rightarrow> bool" where
  "ip_is_ipv4 (IpV4 _) = True"
| "ip_is_ipv4 (IpV6 _) = False"

fun sock_is_ipv4 :: "socket_addr \<Rightarrow> bool" where
  "sock_is_ipv4 (V4 _ _) = True"
| "sock_is_ipv4 (V6 _ _ _ _) = False"

text \<open>\<open>SocketAddr::new(ip, port)\<close>.\<close>

fun socket_addr_new :: "ip_addr \<Rightarrow> u16 \<Rightarrow> socket_addr" where
  "socket_addr_new (IpV4 a) p = V4 a p"
| "socket_addr_new (IpV6 a) p = V6 a p 0 0"

text \<open>\<open>From<Ipv4Addr> for u32\<close>.\<close>

fun ipv4_to_u32 :: "ipv4_addr \<Rightarrow> u32" where
  "ipv4_to_u32 (Ipv4Addr a b c d) =
     push_bit 24 (ucast a) OR push_bit 16 (ucast b) OR push_bit 8 (ucast c) OR ucast d"

lemma length_ipv4_octets [simp]: "length (ipv4_octets a) = 4"
  by (cases a) simp

lemma length_ipv6_octets [simp]: "length (ipv6_octets a) = 16"
  by (cases a) simp

section \<open>Text of numbers and addresses\<close>

definition digit_val :: "nat \<Rightarrow> u8 \<Rightarrow> nat option" where
  "digit_val radix b =
     (let n = unat b;
          d = (if 48 \<le> n \<and> n \<le> 57 then n - 48
               else if 97 \<le> n \<and> n \<le> 122 then n - 87
               else if 65 \<le> n \<and> n \<le> 90 then n - 55
               else 36)
      in if d < radix then Some d else None)"

fun read_digits :: "nat \<Rightarrow> nat \<Rightarrow> nat option \<Rightarrow> nat \<Rightarrow> nat \<Rightarrow> bytes \<Rightarrow> (nat \<times> nat \<times> bytes) option" where
  "read_digits radix bound max_digits acc count [] = Some (acc, count, [])"
| "read_digits radix bound max_digits acc count (b # bs) =
     (case digit_val radix b of
        None \<Rightarrow> Some (acc, count, b # bs)
      | Some d \<Rightarrow>
          if bound \<le> acc * radix + d then None
          else if (case max_digits of None \<Rightarrow> False | Some m \<Rightarrow> m < Suc count) then None
          else read_digits radix bound max_digits (acc * radix + d) (Suc count) bs)"

definition read_number :: "nat \<Rightarrow> nat \<Rightarrow> nat option \<Rightarrow> bool \<Rightarrow> bytes \<Rightarrow> (nat \<times> bytes) option" where
  "read_number radix bound max_digits allow_zero_prefix bs =
     (case read_digits radix bound max_digits 0 0 bs of
        None \<Rightarrow> None
      | Some (v, count, rest) \<Rightarrow>
          if count = 0 then None
          else if \<not> allow_zero_prefix \<and> take 1 bs = [48] \<and> 1 < count then None
          else Some (v, rest))"

fun read_given_char :: "u8 \<Rightarrow> bytes \<Rightarrow> bytes option" where
  "read_given_char c [] = None"
| "read_given_char c (b # bs) = (if b = c then Some bs else None)"

definition read_separator :: "u8 \<Rightarrow> nat \<Rightarrow> (bytes \<Rightarrow> ('a \<times> bytes) option) \<Rightarrow> bytes \<Rightarrow> ('a \<times> bytes) option" where
  "read_separator sep i inner bs =
     (if 0 < i then (case read_given_char sep bs of None \<Rightarrow> None | Some r \<Rightarrow> inner r) else inner bs)"

definition read_octet :: "nat \<Rightarrow> bytes \<Rightarrow> (nat \<times> bytes) option" where
  "read_octet i = read_separator 46 i (read_number 10 256 (Some 3) False)"

definition read_ipv4_addr :: "bytes \<Rightarrow> (ipv4_addr \<times> bytes) option" where
  "read_ipv4_addr bs = do {
     (a, bs) \<leftarrow> read_octet 0 bs;
     (b, bs) \<leftarrow> read_octet 1 bs;
     (c, bs) \<leftarrow> read_octet 2 bs;
     (d, bs) \<leftarrow> read_octet 3 bs;
     Some (Ipv4Addr (of_nat a) (of_nat b) (of_nat c) (of_nat d), bs) }"

text \<open>\<open>read_groups limit i bs\<close> reads at most \<open>limit - i\<close> groups of an IPv6 address, the last two of
  which may be written as an IPv4 address; it returns the groups, whether they ended in an IPv4
  address, and the rest of the text.\<close>

fun read_groups :: "nat \<Rightarrow> nat \<Rightarrow> bytes \<Rightarrow> u16 list \<times> bool \<times> bytes" where
  "read_groups 0 i bs = ([], False, bs)"
| "read_groups (Suc k) i bs =
     (case (if 0 < k then read_separator 58 i read_ipv4_addr bs else None) of
        Some (Ipv4Addr a b c d, rest) \<Rightarrow>
          ([push_bit 8 (ucast a) OR ucast b, push_bit 8 (ucast c) OR ucast d], True, rest)
      | None \<Rightarrow>
          (case read_separator 58 i (read_number 16 65536 (Some 4) True) bs of
             None \<Rightarrow> ([], False, bs)
           | Some (g, rest) \<Rightarrow>
               (case read_groups k (Suc i) rest of (gs, v4, rest') \<Rightarrow> (of_nat g # gs, v4, rest'))))"

fun ipv6_of_groups :: "u16 list \<Rightarrow> ipv6_addr option" where
  "ipv6_of_groups [a, b, c, d, e, f, g, h] = Some (Ipv6Addr a b c d e f g h)"
| "ipv6_of_groups _ = None"

definition read_ipv6_addr :: "bytes \<Rightarrow> (ipv6_addr \<times> bytes) option" where
  "read_ipv6_addr bs =
     (case read_groups 8 0 bs of (head, head_ipv4, bs) \<Rightarrow>
        if length head = 8 then map_option (\<lambda>a. (a, bs)) (ipv6_of_groups head)
        else if head_ipv4 then None
        else do {
          bs \<leftarrow> read_given_char 58 bs;
          bs \<leftarrow> read_given_char 58 bs;
          (case read_groups (7 - length head) 0 bs of (tail, _, bs) \<Rightarrow>
             map_option (\<lambda>a. (a, bs))
               (ipv6_of_groups (head @ replicate (8 - length head - length tail) 0 @ tail))) })"

text \<open>\<open>str::parse::<Ipv4Addr>()\<close>, \<open>str::parse::<IpAddr>()\<close> and \<open>str::parse::<u32>()\<close>.\<close>

definition parse_ipv4 :: "bytes \<Rightarrow> ipv4_addr option" where
  "parse_ipv4 bs = (case read_ipv4_addr bs of Some (a, []) \<Rightarrow> Some a | _ \<Rightarrow> None)"

definition parse_ip_addr :: "bytes \<Rightarrow> ip_addr option" where
  "parse_ip_addr bs =
     (case read_ipv4_addr bs of
        Some (a, rest) \<Rightarrow> if rest = [] then Some (IpV4 a) else None
      | None \<Rightarrow>
          (case read_ipv6_addr bs of
             Some (a, []) \<Rightarrow> Some (IpV6 a)
           | _ \<Rightarrow> None))"

definition parse_u32 :: "bytes \<Rightarrow> u32 option" where
  "parse_u32 bs =
     (let ds = (case bs of b # r \<Rightarrow> if b = 43 then r else bs | [] \<Rightarrow> [])
      in case read_number 10 (2 ^ 32) None True ds of Some (v, []) \<Rightarrow> Some (of_nat v) | _ \<Rightarrow> None)"

text \<open>The rules by which the simplifier reads a concrete address text.\<close>

lemmas net_parse_simps = read_octet_def read_separator_def read_number_def digit_val_def Let_def

text \<open>\<open>str::parse::<SocketAddr>()\<close>: \<open>a.b.c.d:port\<close>, or \<open>[v6]:port\<close> with an optional scope.\<close>

definition read_port :: "bytes \<Rightarrow> (u16 \<times> bytes) option" where
  "read_port bs = do {
     bs \<leftarrow> read_given_char 58 bs;
     (p, bs) \<leftarrow> read_number 10 65536 None True bs;
     Some (of_nat p, bs) }"

definition read_socket_addr_v4 :: "bytes \<Rightarrow> (socket_addr \<times> bytes) option" where
  "read_socket_addr_v4 bs = do {
     (a, bs) \<leftarrow> read_ipv4_addr bs;
     (p, bs) \<leftarrow> read_port bs;
     Some (V4 a p, bs) }"

definition read_scope_id :: "bytes \<Rightarrow> u32 \<times> bytes" where
  "read_scope_id bs =
     (case Option.bind (read_given_char 37 bs) (read_number 10 (2 ^ 32) None True) of
        None \<Rightarrow> (0, bs)
      | Some (n, rest) \<Rightarrow> (of_nat n, rest))"

definition read_socket_addr_v6 :: "bytes \<Rightarrow> (socket_addr \<times> bytes) option" where
  "read_socket_addr_v6 bs = do {
     bs \<leftarrow> read_given_char 91 bs;
     (a, bs) \<leftarrow> read_ipv6_addr bs;
     (let (scope, bs) = read_scope_id bs in do {
        bs \<leftarrow> read_given_char 93 bs;
        (p, bs) \<leftarrow> read_port bs;
        Some (V6 a p 0 scope, bs) }) }"

definition parse_socket_addr :: "bytes \<Rightarrow> socket_addr option" where
  "parse_socket_addr bs =
     (case (case read_socket_addr_v4 bs of None \<Rightarrow> read_socket_addr_v6 bs | r \<Rightarrow> r) of
        Some (a, []) \<Rightarrow> Some a
      | _ \<Rightarrow> None)"

section \<open>Time\<close>

text \<open>\<open>Instant\<close> and \<open>Duration\<close> in nanoseconds.\<close>

type_synonym instant = nat
type_synonym duration = nat

definition duration_from_secs :: "nat \<Rightarrow> duration" where
  "duration_from_secs s = s * 1000000000"

definition as_secs :: "duration \<Rightarrow> nat" where
  "as_secs d = d div 1000000000"

text \<open>\<open>Instant + Duration\<close> panics beyond the range of a 64-bit signed number of seconds.\<close>

definition instant_add :: "instant \<Rightarrow> duration \<Rightarrow> instant rs" where
  "instant_add t d = (if t + d < 2 ^ 63 * 1000000000 then Some (t + d) else None)"


section \<open>Strings\<close>

text \<open>One step of UTF-8 decoding as \<open>from_utf8_lossy\<close> makes it: \<open>utf8_next b bs\<close> looks at the lead
  byte \<open>b\<close> and the following bytes \<open>bs\<close> and says whether they start with a well-formed character
  and how many bytes of \<open>bs\<close> belong to it (or to the malformed sequence).\<close>

definition is_cont :: "u8 \<Rightarrow> bool" where
  "is_cont b \<longleftrightarrow> b AND 192 = 128"

fun safe_get :: "bytes \<Rightarrow> nat \<Rightarrow> u8" where
  "safe_get bs i = (if i < length bs then bs ! i else 0)"

definition utf8_second_ok :: "u8 \<Rightarrow> u8 \<Rightarrow> bool" where
  "utf8_second_ok b c \<longleftrightarrow>
     (if b = 0xE0 then 0xA0 \<le> c \<and> c \<le> 0xBF
      else if b = 0xED then 0x80 \<le> c \<and> c \<le> 0x9F
      else if b = 0xF0 then 0x90 \<le> c \<and> c \<le> 0xBF
      else if b = 0xF4 then 0x80 \<le> c \<and> c \<le> 0x8F
      else 0x80 \<le> c \<and> c \<le> 0xBF)"

definition utf8_next :: "u8 \<Rightarrow> bytes \<Rightarrow> bool \<times> nat" where
  "utf8_next b bs =
     (if b < 0x80 then (True, 0)
      else if 0xC2 \<le> b \<and> b \<le> 0xDF then
        (if is_cont (safe_get bs 0) then (True, 1) else (False, 0))
      else if 0xE0 \<le> b \<and> b \<le> 0xEF then
        (if \<not> utf8_second_ok b (safe_get bs 0) then (False, 0)
         else if \<not> is_cont (safe_get bs 1) then (False, 1) else (True, 2))
      else if 0xF0 \<le> b \<and> b \<le> 0xF4 then
        (if \<not> utf8_second_ok b (safe_get bs 0) then (False, 0)
         else if \<not> is_cont (safe_get bs 1) then (False, 1)
         else if \<not> is_cont (safe_get bs 2) then (False, 2) else (True, 3))
      else (False, 0))"

fun from_utf8_lossy :: "bytes \<Rightarrow> bytes" where
  "from_utf8_lossy [] = []"
| "from_utf8_lossy (b # bs) =
     (case utf8_next b bs of (ok, n) \<Rightarrow>
        (if ok then b # take n bs else [0xEF, 0xBF, 0xBD]) @ from_utf8_lossy (drop n bs))"

definition is_ascii :: "bytes \<Rightarrow> bool" where
  "is_ascii bs \<longleftrightarrow> (\<forall>b \<in> set bs. b < 0x80)"

lemma from_utf8_lossy_ascii: "is_ascii bs \<Longrightarrow> from_utf8_lossy bs = bs"
  by (induction bs) (auto simp: is_ascii_def utf8_next_def)

text \<open>\<open>str::split(c)\<close> for a one-byte character.\<close>

fun str_split :: "u8 \<Rightarrow> bytes \<Rightarrow> bytes list" where
  "str_split c [] = [[]]"
| "str_split c (b # bs) =
     (if b = c then [] # str_split c bs
      else (case str_split c bs of [] \<Rightarrow> [[b]] | w # ws \<Rightarrow> (b # w) # ws))"

lemma str_split_nonempty [simp]: "str_split c bs \<noteq> []"
  by (induction bs) (auto split: list.splits)

lemma length_str_split: "length (str_split c bs) = Suc (length (filter ((=) c) bs))"
  by (induction bs) (auto split: list.splits)

lemma str_split_no_sep: "c \<notin> set bs \<Longrightarrow> str_split c bs = [bs]"
  by (induction bs) auto

lemma str_split_append: "c \<notin> set w \<Longrightarrow> str_split c (w @ c # bs) = w # str_split c bs"
  by (induction w) auto

lemma str_split_parts: "w \<in> set (str_split c bs) \<Longrightarrow> c \<notin> set w"
  by (induction bs arbitrary: w) (auto split: list.splits if_splits)

section \<open>Vectors\<close>

text \<open>\<open>Vec::swap_remove(i)\<close> panics when \<open>i\<close> is out of range; otherwise the last element takes the
  place of element \<open>i\<close>.\<close>

definition swap_remove :: "'a list \<Rightarrow> nat \<Rightarrow> 'a list rs" where
  "swap_remove xs i =
     (if i < length xs then Some (butlast (xs[i := last xs])) else None)"

end
