(* ===== verification/World.thy ===== *)
theory World
  imports Rust_Std
begin

text \<open>
  The outside world. Sockets, the poll registry (crate \<open>mio\<close>), TLS sessions (crate \<open>rustls\<close>), the
  clock and the name service are not part of the program: every call into them is a field of the
  record \<open>'w sys\<close>, a function of the world state \<open>'w\<close> that returns the call's result and the next
  world. Sockets and sessions are handles. A theorem that relies on the documented behaviour of a
  call states it as a hypothesis about the field, with an observation of the world where needed.
\<close>

type_synonym sock = nat
type_synonym sess = nat

text \<open>A \<open>sockaddr_storage\<close> as the kernel fills it in: the octets of the fields in memory, for the two
  families the program knows. A control message carries its level, its type and an address.\<close>

type_synonym quad = "u8 \<times> u8 \<times> u8 \<times> u8"

datatype sockaddr =
    SockaddrIn quad "u8 \<times> u8"
  | SockaddrIn6 bytes "u8 \<times> u8" quad quad
  | SockaddrOther nat

datatype sock_option = IP_TRANSPARENT | IP_RECVORIGDSTADDR | IPV6_RECVORIGDSTADDR | OtherOption nat
datatype sock_level = SOL_IP | SOL_IPV6 | OtherLevel nat

type_synonym cmsg = "sock_level \<times> sock_option \<times> sockaddr"

text \<open>A read that succeeds is given by the bytes it stored, so their number is its return value.\<close>

record 'w sys =
  instant_now :: "'w \<Rightarrow> instant \<times> 'w"
  poll_register :: "sock \<Rightarrow> usize \<Rightarrow> 'w \<Rightarrow> unit io \<times> 'w"
  poll_reregister :: "sock \<Rightarrow> usize \<Rightarrow> 'w \<Rightarrow> unit io \<times> 'w"
  poll_deregister :: "sock \<Rightarrow> 'w \<Rightarrow> unit io \<times> 'w"
  tcp_connect :: "socket_addr \<Rightarrow> 'w \<Rightarrow> sock io \<times> 'w"
  tcp_accept :: "'w \<Rightarrow> sock io \<times> 'w"
  tcp_set_nodelay :: "sock \<Rightarrow> 'w \<Rightarrow> unit io \<times> 'w"
  tcp_recv :: "sock \<Rightarrow> nat \<Rightarrow> 'w \<Rightarrow> bytes io \<times> 'w"
  tcp_write :: "sock \<Rightarrow> bytes \<Rightarrow> 'w \<Rightarrow> nat io \<times> 'w"
  tcp_shutdown :: "sock \<Rightarrow> 'w \<Rightarrow> unit io \<times> 'w"
  udp_bind :: "socket_addr \<Rightarrow> 'w \<Rightarrow> sock io \<times> 'w"
  udp_local_addr :: "sock \<Rightarrow> 'w \<Rightarrow> socket_addr io"
  udp_send_to :: "sock \<Rightarrow> bytes \<Rightarrow> socket_addr \<Rightarrow> 'w \<Rightarrow> nat io \<times> 'w"
  udp_recv_from :: "sock \<Rightarrow> nat \<Rightarrow> 'w \<Rightarrow> (bytes \<times> socket_addr) io \<times> 'w"
  tls_server_session :: "'w \<Rightarrow> sess io \<times> 'w"
  tls_client_session :: "'w \<Rightarrow> sess io \<times> 'w"
  tls_set_buffer_limit :: "sess \<Rightarrow> nat option \<Rightarrow> 'w \<Rightarrow> 'w"
  tls_read_tls :: "sess \<Rightarrow> sock \<Rightarrow> 'w \<Rightarrow> nat io \<times> 'w"
  tls_process_new_packets :: "sess \<Rightarrow> 'w \<Rightarrow> bool \<times> 'w"
  tls_reader_read :: "sess \<Rightarrow> nat \<Rightarrow> 'w \<Rightarrow> bytes io \<times> 'w"
  tls_reader_read_to_end :: "sess \<Rightarrow> 'w \<Rightarrow> (bytes \<times> error_kind option) \<times> 'w"
  tls_writer_write :: "sess \<Rightarrow> bytes \<Rightarrow> 'w \<Rightarrow> nat io \<times> 'w"
  tls_writer_write_all :: "sess \<Rightarrow> bytes \<Rightarrow> 'w \<Rightarrow> unit io \<times> 'w"
  tls_wants_write :: "sess \<Rightarrow> 'w \<Rightarrow> bool"
  tls_write_tls :: "sess \<Rightarrow> sock \<Rightarrow> 'w \<Rightarrow> nat io \<times> 'w"
  sock_new :: "bool \<Rightarrow> bool \<Rightarrow> 'w \<Rightarrow> sock io \<times> 'w"
  sock_setsockopt :: "sock \<Rightarrow> sock_level \<Rightarrow> sock_option \<Rightarrow> 'w \<Rightarrow> unit io \<times> 'w"
  sock_set_nonblocking :: "sock \<Rightarrow> 'w \<Rightarrow> unit io \<times> 'w"
  sock_set_reuse_address :: "sock \<Rightarrow> 'w \<Rightarrow> unit io \<times> 'w"
  sock_bind :: "sock \<Rightarrow> socket_addr \<Rightarrow> 'w \<Rightarrow> unit io \<times> 'w"
  sock_listen :: "sock \<Rightarrow> nat \<Rightarrow> 'w \<Rightarrow> unit io \<times> 'w"
  sock_getsockname :: "sock \<Rightarrow> 'w \<Rightarrow> sockaddr io \<times> 'w"
  sock_recvmsg :: "sock \<Rightarrow> nat \<Rightarrow> 'w \<Rightarrow> (bytes \<times> sockaddr \<times> cmsg list) io \<times> 'w"

text \<open>An event that \<open>poll\<close> reports.\<close>

record net_event =
  ev_token :: usize
  ev_readable :: bool
  ev_writable :: bool

section \<open>Documented contracts\<close>

text \<open>\<open>Write::write\<close> on a TCP stream: it reports how many bytes from the front of the slice the
  stream took, and takes none on an error. \<open>tx s w\<close> is what socket \<open>s\<close> has taken so far.\<close>

definition tcp_write_contract :: "'w sys \<Rightarrow> (sock \<Rightarrow> 'w \<Rightarrow> bytes) \<Rightarrow> bool" where
  "tcp_write_contract S tx \<longleftrightarrow>
     (\<forall>s d w. case tcp_write S s d w of
        (Inr n, w') \<Rightarrow> n \<le> length d \<and> tx s w' = tx s w @ take n d
      | (Inl e, w') \<Rightarrow> tx s w' = tx s w)"

text \<open>\<open>send_to\<close> on a UDP socket sends the datagram or nothing.\<close>

definition udp_send_contract :: "'w sys \<Rightarrow> (sock \<Rightarrow> 'w \<Rightarrow> (bytes \<times> socket_addr) list) \<Rightarrow> bool" where
  "udp_send_contract S sent \<longleftrightarrow>
     (\<forall>s d a w. case udp_send_to S s d a w of
        (Inr n, w') \<Rightarrow> sent s w' = sent s w @ [(take n d, a)]
      | (Inl e, w') \<Rightarrow> sent s w' = sent s w)"

text \<open>A writer into a TLS session without buffer limit: it takes all bytes, or none on an error.
  \<open>plain c w\<close> is the plaintext written to session \<open>c\<close> so far.\<close>

definition tls_write_contract :: "'w sys \<Rightarrow> (sess \<Rightarrow> 'w \<Rightarrow> bytes) \<Rightarrow> bool" where
  "tls_write_contract S plain \<longleftrightarrow>
     (\<forall>c d w. case tls_writer_write_all S c d w of
        (Inr _, w') \<Rightarrow> plain c w' = plain c w @ d
      | (Inl e, w') \<Rightarrow> plain c w' = plain c w)"

lemma tcp_write_contractD:
  assumes "tcp_write_contract S tx"
  shows "tcp_write S s d w = (Inr n, w') \<Longrightarrow> n \<le> length d \<and> tx s w' = tx s w @ take n d"
    and "tcp_write S s d w = (Inl e, w') \<Longrightarrow> tx s w' = tx s w"
  using assms [unfolded tcp_write_contract_def, rule_format, where s = s and d = d and w = w] by auto

lemma udp_send_contractD:
  assumes "udp_send_contract S sent"
  shows "udp_send_to S s d a w = (Inr n, w') \<Longrightarrow> sent s w' = sent s w @ [(take n d, a)]"
    and "udp_send_to S s d a w = (Inl e, w') \<Longrightarrow> sent s w' = sent s w"
  using assms [unfolded udp_send_contract_def, rule_format, where s = s and d = d and a = a and w = w] by auto

end
