(* ===== verification/Sim_World.thy ===== *)
theory Sim_World
  imports World
begin

text \<open>
  A small concrete world in which the hypotheses on the outside can be discharged: sockets with
  bounded room, datagram queues, and transparent TLS sessions. The closed examples of the
  development run in it.
\<close>

record sim =
  sim_now :: instant
  sim_next :: nat
  sim_rx :: "sock \<Rightarrow> bytes"
  sim_tx :: "sock \<Rightarrow> bytes"
  sim_room :: "sock \<Rightarrow> nat"
  sim_dgrams_in :: "sock \<Rightarrow> (bytes \<times> socket_addr) list"
  sim_dgrams_out :: "sock \<Rightarrow> (bytes \<times> socket_addr) list"
  sim_tls_in :: "sess \<Rightarrow> bytes"
  sim_tls_out :: "sess \<Rightarrow> bytes"
  sim_plain :: "sess \<Rightarrow> bytes"

definition sim_recv :: "sock \<Rightarrow> nat \<Rightarrow> sim \<Rightarrow> bytes io \<times> sim" where
  "sim_recv s n w =
     (if sim_rx w s = [] then (Inl WouldBlock, w)
      else (Inr (take n (sim_rx w s)), w\<lparr>sim_rx := (sim_rx w)(s := drop n (sim_rx w s))\<rparr>))"

definition sim_write :: "sock \<Rightarrow> bytes \<Rightarrow> sim \<Rightarrow> nat io \<times> sim" where
  "sim_write s d w =
     (let n = min (length d) (sim_room w s)
      in if n = 0 then (Inl WouldBlock, w)
         else (Inr n, w\<lparr>sim_tx := (sim_tx w)(s := sim_tx w s @ take n d),
                        sim_room := (sim_room w)(s := sim_room w s - n)\<rparr>))"

definition sim_send_to :: "sock \<Rightarrow> bytes \<Rightarrow> socket_addr \<Rightarrow> sim \<Rightarrow> nat io \<times> sim" where
  "sim_send_to s d a w =
     (if sim_room w s = 0 then (Inl WouldBlock, w)
      else (Inr (length d), w\<lparr>sim_dgrams_out := (sim_dgrams_out w)(s := sim_dgrams_out w s @ [(d, a)]),
                              sim_room := (sim_room w)(s := sim_room w s - 1)\<rparr>))"

definition sim_recv_from :: "sock \<Rightarrow> nat \<Rightarrow> sim \<Rightarrow> (bytes \<times> socket_addr) io \<times> sim" where
  "sim_recv_from s n w =
     (case sim_dgrams_in w s of
        [] \<Rightarrow> (Inl WouldBlock, w)
      | (d, a) # ds \<Rightarrow> (Inr (take n d, a), w\<lparr>sim_dgrams_in := (sim_dgrams_in w)(s := ds)\<rparr>))"

definition sim_read_tls :: "sess \<Rightarrow> sock \<Rightarrow> sim \<Rightarrow> nat io \<times> sim" where
  "sim_read_tls c s w =
     (if sim_rx w s = [] then (Inl WouldBlock, w)
      else (Inr (length (sim_rx w s)),
            w\<lparr>sim_rx := (sim_rx w)(s := []), sim_tls_in := (sim_tls_in w)(c := sim_tls_in w c @ sim_rx w s)\<rparr>))"

definition sim_write_tls :: "sess \<Rightarrow> sock \<Rightarrow> sim \<Rightarrow> nat io \<times> sim" where
  "sim_write_tls c s w =
     (case sim_write s (sim_tls_out w c) w of
        (Inl e, w') \<Rightarrow> (Inl e, w')
      | (Inr n, w') \<Rightarrow> (Inr n, w'\<lparr>sim_tls_out := (sim_tls_out w)(c := drop n (sim_tls_out w c))\<rparr>))"

definition sim_write_plain :: "sess \<Rightarrow> bytes \<Rightarrow> sim \<Rightarrow> sim" where
  "sim_write_plain c d w =
     w\<lparr>sim_plain := (sim_plain w)(c := sim_plain w c @ d), sim_tls_out := (sim_tls_out w)(c := sim_tls_out w c @ d)\<rparr>"

definition sim_fresh :: "sim \<Rightarrow> nat io \<times> sim" where
  "sim_fresh w = (Inr (sim_next w), w\<lparr>sim_next := Suc (sim_next w)\<rparr>)"

text \<open>Datagrams of a transparent socket carry the address they were sent to.\<close>

definition sim_recvmsg :: "sock \<Rightarrow> nat \<Rightarrow> sim \<Rightarrow> (bytes \<times> sockaddr \<times> cmsg list) io \<times> sim" where
  "sim_recvmsg s n w =
     (case sim_dgrams_in w s of
        [] \<Rightarrow> (Inl WouldBlock, w)
      | (d, a) # ds \<Rightarrow>
          (Inr (take n d, SockaddrIn (192, 168, 0, 2) (4, 0),
                [(SOL_IP, IP_RECVORIGDSTADDR, SockaddrIn (8, 8, 8, 8) (0, 53))]),
           w\<lparr>sim_dgrams_in := (sim_dgrams_in w)(s := ds)\<rparr>))"

definition sim_sys :: "sim sys" where
  "sim_sys = \<lparr>
     instant_now = (\<lambda>w. (sim_now w, w)),
     poll_register = (\<lambda>s t w. (Inr (), w)),
     poll_reregister = (\<lambda>s t w. (Inr (), w)),
     poll_deregister = (\<lambda>s w. (Inr (), w)),
     tcp_connect = (\<lambda>a. sim_fresh),
     tcp_accept = (\<lambda>w. (Inl WouldBlock, w)),
     tcp_set_nodelay = (\<lambda>s w. (Inr (), w)),
     tcp_recv = sim_recv,
     tcp_write = sim_write,
     tcp_shutdown = (\<lambda>s w. (Inr (), w)),
     udp_bind = (\<lambda>a. sim_fresh),
     udp_local_addr = (\<lambda>s w. Inr (V4 (Ipv4Addr 0 0 0 0) 40000)),
     udp_send_to = sim_send_to,
     udp_recv_from = sim_recv_from,
     tls_server_session = sim_fresh,
     tls_client_session = sim_fresh,
     tls_set_buffer_limit = (\<lambda>c l w. w),
     tls_read_tls = sim_read_tls,
     tls_process_new_packets = (\<lambda>c w. (True, w)),
     tls_reader_read = (\<lambda>c n w. if sim_tls_in w c = [] then (Inl WouldBlock, w)
        else (Inr (take n (sim_tls_in w c)), w\<lparr>sim_tls_in := (sim_tls_in w)(c := drop n (sim_tls_in w c))\<rparr>)),
     tls_reader_read_to_end = (\<lambda>c w. ((sim_tls_in w c, Some WouldBlock), w\<lparr>sim_tls_in := (sim_tls_in w)(c := [])\<rparr>)),
     tls_writer_write = (\<lambda>c d w. (Inr (length d), sim_write_plain c d w)),
     tls_writer_write_all = (\<lambda>c d w. (Inr (), sim_write_plain c d w)),
     tls_wants_write = (\<lambda>c w. sim_tls_out w c \<noteq> []),
     tls_write_tls = sim_write_tls,
     sock_new = (\<lambda>v4 udp. sim_fresh),
     sock_setsockopt = (\<lambda>s l p w. (Inr (), w)),
     sock_set_nonblocking = (\<lambda>s w. (Inr (), w)),
     sock_set_reuse_address = (\<lambda>s w. (Inr (), w)),
     sock_bind = (\<lambda>s a w. (Inr (), w)),
     sock_listen = (\<lambda>s n w. (Inr (), w)),
     sock_getsockname = (\<lambda>s w. (Inr (SockaddrIn (10, 0, 0, 1) (0, 80)), w)),
     sock_recvmsg = sim_recvmsg\<rparr>"

text \<open>Nothing on the wire, room for a thousand bytes or datagrams on every socket.\<close>

definition sim_idle :: sim where
  "sim_idle = \<lparr>sim_now = 0, sim_next = 10, sim_rx = (\<lambda>_. []), sim_tx = (\<lambda>_. []), sim_room = (\<lambda>_. 1000),
     sim_dgrams_in = (\<lambda>_. []), sim_dgrams_out = (\<lambda>_. []), sim_tls_in = (\<lambda>_. []),
     sim_tls_out = (\<lambda>_. []), sim_plain = (\<lambda>_. [])\<rparr>"

lemma sim_sys_simps [simp]:
  "instant_now sim_sys = (\<lambda>w. (sim_now w, w))"
  "poll_register sim_sys = (\<lambda>s t w. (Inr (), w))"
  "poll_reregister sim_sys = (\<lambda>s t w. (Inr (), w))"
  "poll_deregister sim_sys = (\<lambda>s w. (Inr (), w))"
  "tcp_connect sim_sys = (\<lambda>a. sim_fresh)"
  "tcp_set_nodelay sim_sys = (\<lambda>s w. (Inr (), w))"
  "tcp_recv sim_sys = sim_recv"
  "tcp_write sim_sys = sim_write"
  "tcp_shutdown sim_sys = (\<lambda>s w. (Inr (), w))"
  "udp_bind sim_sys = (\<lambda>a. sim_fresh)"
  "udp_local_addr sim_sys = (\<lambda>s w. Inr (V4 (Ipv4Addr 0 0 0 0) 40000))"
  "tcp_accept sim_sys = (\<lambda>w. (Inl WouldBlock, w))"
  "tls_server_session sim_sys = sim_fresh"
  "tls_client_session sim_sys = sim_fresh"
  "tls_set_buffer_limit sim_sys = (\<lambda>c l w. w)"
  "tls_reader_read_to_end sim_sys =
     (\<lambda>c w. ((sim_tls_in w c, Some WouldBlock), w\<lparr>sim_tls_in := (sim_tls_in w)(c := [])\<rparr>))"
  "udp_send_to sim_sys = sim_send_to"
  "udp_recv_from sim_sys = sim_recv_from"
  "tls_read_tls sim_sys = sim_read_tls"
  "tls_process_new_packets sim_sys = (\<lambda>c w. (True, w))"
  "tls_writer_write_all sim_sys = (\<lambda>c d w. (Inr (), sim_write_plain c d w))"
  "tls_wants_write sim_sys = (\<lambda>c w. sim_tls_out w c \<noteq> [])"
  "tls_write_tls sim_sys = sim_write_tls"
  "sock_new sim_sys = (\<lambda>v4 udp. sim_fresh)"
  "sock_setsockopt sim_sys = (\<lambda>s l p w. (Inr (), w))"
  "sock_set_nonblocking sim_sys = (\<lambda>s w. (Inr (), w))"
  "sock_set_reuse_address sim_sys = (\<lambda>s w. (Inr (), w))"
  "sock_bind sim_sys = (\<lambda>s a w. (Inr (), w))"
  "sock_listen sim_sys = (\<lambda>s n w. (Inr (), w))"
  "sock_getsockname sim_sys = (\<lambda>s w. (Inr (SockaddrIn (10, 0, 0, 1) (0, 80)), w))"
  "sock_recvmsg sim_sys = sim_recvmsg"
  "tls_reader_read sim_sys = (\<lambda>c n w. if sim_tls_in w c = [] then (Inl WouldBlock, w)
        else (Inr (take n (sim_tls_in w c)), w\<lparr>sim_tls_in := (sim_tls_in w)(c := drop n (sim_tls_in w c))\<rparr>))"
  "tls_writer_write sim_sys = (\<lambda>c d w. (Inr (length d), sim_write_plain c d w))"
  by (simp_all add: sim_sys_def)

section \<open>The contracts hold in it\<close>

lemma sim_tcp_contract: "tcp_write_contract sim_sys (\<lambda>s w. sim_tx w s)"
  by (auto simp: tcp_write_contract_def sim_write_def Let_def min_def)

lemma sim_udp_contract: "udp_send_contract sim_sys (\<lambda>s w. sim_dgrams_out w s)"
  by (auto simp: udp_send_contract_def sim_send_to_def)

lemma sim_tls_contract: "tls_write_contract sim_sys (\<lambda>c w. sim_plain w c)"
  by (auto simp: tls_write_contract_def sim_write_plain_def)

end
