(* ===== verification/Status.thy ===== *)
theory Status
  imports Prelude
begin

text \<open>
  The life cycle of a connection (\<open>src/src/status.rs\<close>). The trait \<open>StatusProvider\<close> is a record of its
  required methods over the implementing type \<open>'c\<close> and the outside world \<open>'w\<close>; its provided
  methods are definitions over such a record. The laws an implementation keeps are the locale
  \<open>status_laws\<close>, in which the behaviour of the provided methods is established once; the five
  implementations are interpreted in the theories that define them.
\<close>

section \<open>Model\<close>

datatype conn_status = Connecting | Established | PeerClosed | Shutdown | Deregistered

record ('c, 'w) status_provider =
  set_status :: "conn_status \<Rightarrow> 'c \<Rightarrow> 'c"
  get_status :: "'c \<Rightarrow> conn_status"
  close_conn :: "'c \<Rightarrow> 'w \<Rightarrow> bool \<times> 'c \<times> 'w"
  deregister :: "'c \<Rightarrow> 'w \<Rightarrow> bool \<times> 'c \<times> 'w"
  finish_send :: "'c \<Rightarrow> 'w \<Rightarrow> bool rs"

definition is_deregistered :: "conn_status \<Rightarrow> bool" where
  "is_deregistered s \<longleftrightarrow> s = Deregistered"

definition alive :: "conn_status \<Rightarrow> bool" where
  "alive s \<longleftrightarrow> s = PeerClosed \<or> s = Established"

definition is_shutdown :: "conn_status \<Rightarrow> bool" where
  "is_shutdown s \<longleftrightarrow> s = Shutdown \<or> s = Deregistered"

definition is_connecting :: "conn_status \<Rightarrow> bool" where
  "is_connecting s \<longleftrightarrow> s = Connecting"

definition peer_closed :: "('c, 'w) status_provider \<Rightarrow> 'c \<Rightarrow> 'c" where
  "peer_closed P c =
     (case get_status P c of
        Established \<Rightarrow> set_status P PeerClosed c
      | Connecting \<Rightarrow> set_status P PeerClosed c
      | _ \<Rightarrow> c)"

definition established :: "('c, 'w) status_provider \<Rightarrow> 'c \<Rightarrow> 'c" where
  "established P c = (if get_status P c = Connecting then set_status P Established c else c)"

definition shutdown :: "('c, 'w) status_provider \<Rightarrow> 'c \<Rightarrow> 'w \<Rightarrow> bool \<times> 'c \<times> 'w" where
  "shutdown P c w =
     (if get_status P c \<in> {Established, PeerClosed, Connecting} then
        (case close_conn P c w of (ok, c, w) \<Rightarrow>
           if ok then (True, set_status P Shutdown c, w) else (False, c, w))
      else (True, c, w))"

partial_function (option) check_status :: "('c, 'w) status_provider \<Rightarrow> 'c \<Rightarrow> 'w \<Rightarrow> ('c \<times> 'w) rs" where
  "check_status P c w =
     (case get_status P c of
        Established \<Rightarrow> Some (c, w)
      | Connecting \<Rightarrow> Some (c, w)
      | PeerClosed \<Rightarrow>
          Option.bind (finish_send P c w) (\<lambda>fin.
            if fin then (case shutdown P c w of (ok, c, w) \<Rightarrow> if ok then check_status P c w else Some (c, w))
            else Some (c, w))
      | Shutdown \<Rightarrow>
          (case deregister P c w of (ok, c, w) \<Rightarrow> Some (if ok then set_status P Deregistered c else c, w))
      | Deregistered \<Rightarrow> Some (c, w))"

section \<open>The order of the life cycle\<close>

fun status_rank :: "conn_status \<Rightarrow> nat" where
  "status_rank Connecting = 0"
| "status_rank Established = 1"
| "status_rank PeerClosed = 2"
| "status_rank Shutdown = 3"
| "status_rank Deregistered = 4"

lemma status_rank_inject: "status_rank s = status_rank t \<longleftrightarrow> s = t"
  by (cases s; cases t) simp_all

instantiation conn_status :: linorder
begin

definition less_eq_conn_status :: "conn_status \<Rightarrow> conn_status \<Rightarrow> bool" where
  "s \<le> t \<longleftrightarrow> status_rank s \<le> status_rank t"

definition less_conn_status :: "conn_status \<Rightarrow> conn_status \<Rightarrow> bool" where
  "s < t \<longleftrightarrow> status_rank s < status_rank t"

instance
  by standard (auto simp: less_eq_conn_status_def less_conn_status_def status_rank_inject)

end

lemmas status_order = less_eq_conn_status_def less_conn_status_def

lemma is_shutdown_iff: "is_shutdown s \<longleftrightarrow> Shutdown \<le> s"
  by (cases s) (simp_all add: is_shutdown_def status_order)

lemma is_shutdown_mono: "s \<le> t \<Longrightarrow> is_shutdown s \<Longrightarrow> is_shutdown t"
  by (auto simp: is_shutdown_iff)

lemma shutdown_not_alive: "is_shutdown s \<Longrightarrow> \<not> alive s"
  by (auto simp: is_shutdown_def alive_def)

text \<open>What the handling of an event may do to a status, \<open>peer_closed\<close> and \<open>check_status\<close> apart: it stays,
  connecting ends, or the connection is shut down.\<close>

definition status_moves :: "conn_status \<Rightarrow> conn_status \<Rightarrow> bool" where
  "status_moves s t \<longleftrightarrow> s \<le> t \<and> (t = s \<or> t = max Established s \<or> is_shutdown t)"

lemma status_moves_refl [simp]: "status_moves s s"
  by (simp add: status_moves_def)

lemma status_moves_trans: "status_moves s t \<Longrightarrow> status_moves t u \<Longrightarrow> status_moves s u"
  by (auto simp: status_moves_def le_max_iff_disj intro: is_shutdown_mono)

lemma status_moves_shutdown [simp]: "status_moves s (max Shutdown s)"
  by (simp add: status_moves_def is_shutdown_iff)

lemma status_moves_established [simp]: "status_moves s (max Established s)"
  by (simp add: status_moves_def)

section \<open>What every implementation guarantees\<close>

locale status_laws =
  fixes P :: "('c, 'w) status_provider"
  assumes get_set: "get_status P (set_status P s c) = s"
    and close_ok: "fst (close_conn P c w)"
    and close_status: "get_status P (fst (snd (close_conn P c w))) = get_status P c"
    and deregister_ok: "fst (deregister P c w)"
    and finish_returns: "finish_send P c w \<noteq> None"
begin

lemma peer_closed_status:
  "get_status P (peer_closed P c) = max PeerClosed (get_status P c)"
  by (cases "get_status P c") (simp_all add: peer_closed_def get_set max_def status_order)

lemma established_status: "get_status P (established P c) = max Established (get_status P c)"
  by (cases "get_status P c") (simp_all add: established_def get_set max_def status_order)

lemma shutdown_returns_true: "fst (shutdown P c w)"
  using close_ok [of c w] by (auto simp: shutdown_def split: prod.splits)

lemma shutdown_status: "get_status P (fst (snd (shutdown P c w))) = max Shutdown (get_status P c)"
  using close_ok [of c w]
  by (cases "get_status P c") (auto simp: shutdown_def get_set max_def status_order split: prod.splits)

lemma shutdown_idem: "is_shutdown (get_status P c) \<Longrightarrow> shutdown P c w = (True, c, w)"
  by (auto simp: shutdown_def is_shutdown_def)

text \<open>The loop of \<open>check_status\<close> runs at most twice and ends in a status that the old status and
  \<open>finish_send\<close> determine.\<close>

definition settled :: "'c \<Rightarrow> 'w \<Rightarrow> conn_status" where
  "settled c w =
     (case get_status P c of
        PeerClosed \<Rightarrow> if finish_send P c w = Some True then Deregistered else PeerClosed
      | Shutdown \<Rightarrow> Deregistered
      | s \<Rightarrow> s)"

lemma check_status_shutdown:
  assumes "get_status P c = Shutdown"
  shows "\<exists>c' w'. check_status P c w = Some (c', w') \<and> get_status P c' = Deregistered"
  using assms deregister_ok [of c w]
  by (subst check_status.simps) (auto simp: get_set split: prod.splits)

lemma check_status_settles:
  "\<exists>c' w'. check_status P c w = Some (c', w') \<and> get_status P c' = settled c w"
proof (cases "get_status P c")
  case PeerClosed
  obtain fin where fin: "finish_send P c w = Some fin" using finish_returns [of c w] by auto
  obtain ok c1 w1 where sd: "shutdown P c w = (ok, c1, w1)" by (cases "shutdown P c w")
  with PeerClosed shutdown_returns_true [of c w] shutdown_status [of c w]
  have "ok" "get_status P c1 = Shutdown" by (auto simp: max_def status_order)
  with check_status_shutdown [of c1 w1] PeerClosed fin sd show ?thesis
    by (subst check_status.simps) (auto simp: settled_def)
next
  case Shutdown
  with check_status_shutdown [of c w] show ?thesis by (simp add: settled_def)
qed (subst check_status.simps; simp add: settled_def)+

lemma check_status_returns: "check_status P c w \<noteq> None"
  using check_status_settles [of c w] by auto

lemma check_status_status:
  "check_status P c w = Some (c', w') \<Longrightarrow> get_status P c' = settled c w"
  using check_status_settles [of c w] by auto

text \<open>A connection that is still waiting for its peer's output was left alone.\<close>

lemma check_status_waits:
  assumes "check_status P c w = Some (c', w')" and "get_status P c' = PeerClosed"
  shows "c' = c \<and> w' = w \<and> finish_send P c w = Some False"
proof -
  obtain fin where fin: "finish_send P c w = Some fin" using finish_returns [of c w] by auto
  have "settled c w = PeerClosed" using check_status_status [OF assms(1)] assms(2) by simp
  then have "get_status P c = PeerClosed" "\<not> fin"
    using fin by (auto simp: settled_def split: conn_status.splits if_splits)
  with assms(1) fin show ?thesis by (subst (asm) check_status.simps) simp
qed

lemma settled_ge: "get_status P c \<le> settled c w"
  by (cases "get_status P c") (simp_all add: settled_def status_order)

text \<open>Tearing a connection down, as \<open>destroy\<close> does: \<open>shutdown\<close> and then \<open>check_status\<close> always leave
  it deregistered.\<close>

lemma shutdown_then_check:
  assumes "shutdown P c w = (ok, c1, w1)" and "check_status P c1 w1 = Some (c2, w2)"
  shows "get_status P c2 = Deregistered"
proof -
  from assms(1) shutdown_status [of c w] have "get_status P c1 = max Shutdown (get_status P c)" by simp
  then have "get_status P c1 \<in> {Shutdown, Deregistered}"
    by (cases "get_status P c") (auto simp: max_def status_order)
  with check_status_status [OF assms(2)] show ?thesis by (auto simp: settled_def)
qed

text \<open>No operation moves the status backwards.\<close>

lemma status_never_decreases:
  "get_status P c \<le> get_status P (peer_closed P c)"
  "get_status P c \<le> get_status P (established P c)"
  "get_status P c \<le> get_status P (fst (snd (shutdown P c w)))"
  "check_status P c w = Some (c', w') \<Longrightarrow> get_status P c \<le> get_status P c'"
  by (simp_all add: peer_closed_status established_status shutdown_status check_status_status settled_ge)

text \<open>A view of the world that closing and deregistering do not change, for connections with certain
  handles, is not changed by the life cycle.\<close>

lemma shutdown_view:
  assumes "\<And>c w. H c \<Longrightarrow> view (snd (snd (close_conn P c w))) = view w"
    and "\<And>c w. H c \<Longrightarrow> H (fst (snd (close_conn P c w)))" and "\<And>s c. H c \<Longrightarrow> H (set_status P s c)"
    and "shutdown P c w = (ok, c', w')" and "H c"
  shows "view w' = view w \<and> H c'"
  using assms(1,2) [of c w] assms(3) [of "fst (snd (close_conn P c w))" Shutdown] assms(4,5) close_ok [of c w]
  by (auto simp: shutdown_def split: if_splits prod.splits)

lemma check_status_view:
  assumes cl: "\<And>c w. H c \<Longrightarrow> view (snd (snd (close_conn P c w))) = view w"
    and dr: "\<And>c w. H c \<Longrightarrow> view (snd (snd (deregister P c w))) = view w"
    and h: "\<And>c w. H c \<Longrightarrow> H (fst (snd (close_conn P c w)))" "\<And>s c. H c \<Longrightarrow> H (set_status P s c)"
    and ck: "check_status P c w = Some (c', w')" and "H c"
  shows "view w' = view w"
proof -
  have sd: "view w' = view w" if "get_status P c = Shutdown" "check_status P c w = Some (c', w')" "H c" for c w
    using dr [OF that(3), of w] that(1,2) by (subst (asm) check_status.simps) (auto split: prod.splits)
  show ?thesis
  proof (cases "get_status P c")
    case PeerClosed
    obtain ok c1 w1 where s: "shutdown P c w = (ok, c1, w1)" by (cases "shutdown P c w")
    with shutdown_view [OF cl h s \<open>H c\<close>] have 1: "view w1 = view w" "H c1" by auto
    have "get_status P c1 = Shutdown" using shutdown_status [of c w] s PeerClosed by (simp add: max_def status_order)
    from ck PeerClosed s sd [OF this _ 1(2)] 1(1) show ?thesis
      by (subst (asm) check_status.simps) (auto split: bind_splits if_splits)
  next
    case Shutdown
    from sd [OF this ck \<open>H c\<close>] show ?thesis .
  qed (use ck in \<open>subst (asm) check_status.simps; simp\<close>)+
qed

end

section \<open>What the life cycle leaves alone\<close>

text \<open>An observation of the connection that the required methods do not touch is not touched by the
  provided ones.\<close>

locale status_frame = status_laws P for P :: "('c, 'w) status_provider" +
  fixes obs :: "'c \<Rightarrow> 'o"
  assumes obs_set: "obs (set_status P s c) = obs c"
    and obs_close: "obs (fst (snd (close_conn P c w))) = obs c"
    and obs_deregister: "obs (fst (snd (deregister P c w))) = obs c"
begin

lemma obs_peer_closed: "obs (peer_closed P c) = obs c"
  by (cases "get_status P c") (simp_all add: peer_closed_def obs_set)

lemma obs_established: "obs (established P c) = obs c"
  by (simp add: established_def obs_set)

lemma obs_shutdown: "obs (fst (snd (shutdown P c w))) = obs c"
  using obs_close [of c w] by (auto simp: shutdown_def obs_set split: prod.splits)

lemma obs_check_status_shutdown:
  assumes "check_status P c w = Some (c', w')" and "get_status P c = Shutdown"
  shows "obs c' = obs c"
  using assms obs_deregister [of c w]
  by (subst (asm) check_status.simps) (auto simp: obs_set split: prod.splits)

lemma obs_check_status:
  assumes "check_status P c w = Some (c', w')"
  shows "obs c' = obs c"
proof (cases "get_status P c")
  case PeerClosed
  obtain ok c1 w1 where sd: "shutdown P c w = (ok, c1, w1)" by (cases "shutdown P c w")
  with PeerClosed shutdown_status [of c w] have "get_status P c1 = Shutdown"
    by (simp add: max_def status_order)
  with assms PeerClosed sd obs_shutdown [of c w] obs_check_status_shutdown [of c1 w1 c' w'] show ?thesis
    by (subst (asm) check_status.simps) (auto split: bind_splits if_splits)
next
  case Shutdown
  with assms show ?thesis by (rule obs_check_status_shutdown)
qed (use assms in \<open>subst (asm) check_status.simps; simp\<close>)+

end

end
