(* ===== verification/Tls_Conn.thy ===== *)
theory Tls_Conn
  imports Sim_World Status
begin

text \<open>
  A TLS connection over a non-blocking stream (\<open>src/src/tls_conn.rs\<close>): the session and stream handles,
  the index and poll token of the owning connection, the status and whether the stream took the
  last write. Logging is left out.
\<close>

section \<open>Model\<close>

record tls_conn =
  tc_session :: sess
  tc_stream :: sock
  tc_index :: usize
  tc_token :: usize
  tc_status :: conn_status
  tc_writable :: bool

definition tls_provider :: "'w sys \<Rightarrow> (tls_conn, 'w) status_provider" where
  "tls_provider S = \<lparr>
     set_status = (\<lambda>s c. c\<lparr>tc_status := s\<rparr>),
     get_status = tc_status,
     close_conn = (\<lambda>c w. (True, c, snd (tcp_shutdown S (tc_stream c) w))),
     deregister = (\<lambda>c w. (True, c, snd (poll_deregister S (tc_stream c) w))),
     finish_send = (\<lambda>c w. Some (\<not> tls_wants_write S (tc_session c) w))\<rparr>"

definition tls_shutdown :: "'w sys \<Rightarrow> tls_conn \<Rightarrow> 'w \<Rightarrow> tls_conn \<times> 'w" where
  "tls_shutdown S c w = snd (shutdown (tls_provider S) c w)"

definition tls_check_status :: "'w sys \<Rightarrow> tls_conn \<Rightarrow> 'w \<Rightarrow> (tls_conn \<times> 'w) rs" where
  "tls_check_status S c w = check_status (tls_provider S) c w"

definition tls_close :: "'w sys \<Rightarrow> tls_conn \<Rightarrow> 'w \<Rightarrow> 'w" where
  "tls_close S c w = snd (poll_deregister S (tc_stream c) (snd (tcp_shutdown S (tc_stream c) w)))"

definition tls_conn_new :: "'w sys \<Rightarrow> usize \<Rightarrow> usize \<Rightarrow> sess \<Rightarrow> sock \<Rightarrow> 'w \<Rightarrow> tls_conn \<times> 'w" where
  "tls_conn_new S index token session stream w =
     (\<lparr>tc_session = session, tc_stream = stream, tc_index = index, tc_token = token,
       tc_status = Connecting, tc_writable = True\<rparr>,
      tls_set_buffer_limit S session None w)"

text \<open>\<open>Read::read\<close> into a buffer of \<open>len\<close> bytes. An empty buffer fails the debug assertion.\<close>

partial_function (option) tls_read :: "'w sys \<Rightarrow> tls_conn \<Rightarrow> nat \<Rightarrow> 'w \<Rightarrow> (bytes io \<times> 'w) rs" where
  "tls_read S c len w =
     (if len = 0 then None
      else case tls_reader_read S (tc_session c) len w of
        (Inr bs, w) \<Rightarrow> Some (Inr bs, w)
      | (Inl e, w) \<Rightarrow>
          if e \<noteq> WouldBlock then Some (Inl e, w)
          else (case tls_read_tls S (tc_session c) (tc_stream c) w of
                  (Inr n, w) \<Rightarrow>
                    if n = 0 then Some (Inr [], w)
                    else (case tls_process_new_packets S (tc_session c) w of
                            (ok, w) \<Rightarrow> if ok then tls_read S c len w else Some (Inl InvalidData, w))
                | (Inl e, w) \<Rightarrow> Some (Inl (if e = NotConnected then WouldBlock else e), w)))"

partial_function (option) tls_write :: "'w sys \<Rightarrow> tls_conn \<Rightarrow> bytes \<Rightarrow> 'w \<Rightarrow> (nat io \<times> 'w) rs" where
  "tls_write S c buf w =
     (if buf = [] then None
      else case tls_writer_write S (tc_session c) buf w of
        (Inl e, w) \<Rightarrow> Some (Inl e, w)
      | (Inr n, w) \<Rightarrow>
          if n \<noteq> 0 then Some (Inr n, w)
          else (case tls_write_tls S (tc_session c) (tc_stream c) w of
                  (Inl e, w) \<Rightarrow> Some (Inl (if e = NotConnected then WouldBlock else e), w)
                | (Inr m, w) \<Rightarrow> if 0 < m then tls_write S c buf w else Some (Inr m, w)))"

definition tls_flush :: "'w sys \<Rightarrow> tls_conn \<Rightarrow> 'w \<Rightarrow> unit io \<times> 'w" where
  "tls_flush S c w =
     (case tls_write_tls S (tc_session c) (tc_stream c) w of
        (Inr n, w) \<Rightarrow> (Inr (), w)
      | (Inl e, w) \<Rightarrow> (Inl (if e = NotConnected then WouldBlock else e), w))"

definition tls_reregister :: "'w sys \<Rightarrow> tls_conn \<Rightarrow> 'w \<Rightarrow> bool \<times> tls_conn \<times> 'w" where
  "tls_reregister S c w =
     (case poll_reregister S (tc_stream c) (tc_token c) w of
        (Inl e, w) \<Rightarrow> (False, tls_shutdown S c w)
      | (Inr _, w) \<Rightarrow> (True, c, w))"

definition tls_reset_index :: "'w sys \<Rightarrow> tls_conn \<Rightarrow> usize \<Rightarrow> usize \<Rightarrow> 'w \<Rightarrow> bool \<times> tls_conn \<times> 'w" where
  "tls_reset_index S c index token w = tls_reregister S (c\<lparr>tc_index := index, tc_token := token\<rparr>) w"

definition tls_set_token :: "'w sys \<Rightarrow> tls_conn \<Rightarrow> usize \<Rightarrow> 'w \<Rightarrow> bool \<times> tls_conn \<times> 'w" where
  "tls_set_token S c token w =
     (let c = c\<lparr>tc_token := token\<rparr>
      in case poll_reregister S (tc_stream c) (tc_token c) w of
           (Inl e, w) \<Rightarrow> (False, c, w)
         | (Inr _, w) \<Rightarrow> (True, c, w))"

definition tls_register :: "'w sys \<Rightarrow> tls_conn \<Rightarrow> 'w \<Rightarrow> bool \<times> tls_conn \<times> 'w" where
  "tls_register S c w =
     (case poll_register S (tc_stream c) (tc_token c) w of
        (Inl e, w) \<Rightarrow> (False, tls_shutdown S c w)
      | (Inr _, w) \<Rightarrow> (True, c, w))"

text \<open>The loop at the start of \<open>do_read\<close>: read records from the stream until it blocks, ends or
  fails.\<close>

partial_function (option) tls_fill :: "'w sys \<Rightarrow> tls_conn \<Rightarrow> 'w \<Rightarrow> (tls_conn \<times> 'w) rs" where
  "tls_fill S c w =
     (case tls_read_tls S (tc_session c) (tc_stream c) w of
        (Inr n, w) \<Rightarrow> if n = 0 then Some (tls_shutdown S c w) else tls_fill S c w
      | (Inl e, w) \<Rightarrow>
          if e = WouldBlock \<or> e = NotConnected then Some (c, w) else Some (tls_shutdown S c w))"

definition tls_do_read :: "'w sys \<Rightarrow> tls_conn \<Rightarrow> 'w \<Rightarrow> (bytes option \<times> tls_conn \<times> 'w) rs" where
  "tls_do_read S c w = do {
     (c, w) \<leftarrow> tls_fill S c w;
     (case tls_process_new_packets S (tc_session c) w of
        (ok, w) \<Rightarrow>
          if \<not> ok then Some (None, tls_shutdown S c w)
          else (case tls_reader_read_to_end S (tc_session c) w of
                  ((buffer, err), w) \<Rightarrow>
                    (case (if err \<noteq> None \<and> err \<noteq> Some WouldBlock then tls_shutdown S c w else (c, w)) of
                       (c, w) \<Rightarrow> Some (if buffer = [] then None else Some buffer, c, w)))) }"

partial_function (option) tls_drain :: "'w sys \<Rightarrow> tls_conn \<Rightarrow> 'w \<Rightarrow> (tls_conn \<times> 'w) rs" where
  "tls_drain S c w =
     (if \<not> tls_wants_write S (tc_session c) w then Some (c, w)
      else case tls_write_tls S (tc_session c) (tc_stream c) w of
        (Inr n, w) \<Rightarrow> tls_drain S c w
      | (Inl e, w) \<Rightarrow>
          if e = WouldBlock then Some (c\<lparr>tc_writable := False\<rparr>, w) else Some (tls_shutdown S c w))"

definition tls_do_send :: "'w sys \<Rightarrow> tls_conn \<Rightarrow> 'w \<Rightarrow> (tls_conn \<times> 'w) rs" where
  "tls_do_send S c w =
     (if is_connecting (tc_status c) then Some (c, w)
      else tls_drain S (c\<lparr>tc_writable := True\<rparr>) w)"

definition tls_write_session :: "'w sys \<Rightarrow> tls_conn \<Rightarrow> bytes \<Rightarrow> 'w \<Rightarrow> bool \<times> tls_conn \<times> 'w" where
  "tls_write_session S c data w =
     (case tls_writer_write_all S (tc_session c) data w of
        (Inr _, w) \<Rightarrow> (True, c, w)
      | (Inl e, w) \<Rightarrow> (False, tls_shutdown S c w))"

definition tls_is_writable :: "tls_conn \<Rightarrow> bool" where
  "tls_is_writable c \<longleftrightarrow> tc_writable c \<and> alive (tc_status c)"

section \<open>Life cycle\<close>

interpretation tls: status_laws "tls_provider S" for S :: "'w sys"
  by unfold_locales (simp_all add: tls_provider_def)

lemma tls_provider_status [simp]: "get_status (tls_provider S) = tc_status"
  by (simp add: tls_provider_def)

text \<open>Of the connection, the life cycle changes the status only.\<close>

interpretation tls_frame: status_frame "tls_provider S"
  "\<lambda>c. (tc_session c, tc_stream c, tc_index c, tc_token c, tc_writable c)" for S :: "'w sys"
  by unfold_locales (simp_all add: tls_provider_def)

lemma tls_shutdown_frame [status_simps]:
  "tls_shutdown S c w = (c', w') \<Longrightarrow> c' = c\<lparr>tc_status := max Shutdown (tc_status c)\<rparr>"
  by (cases "tc_status c")
    (auto simp: tls_shutdown_def shutdown_def tls_provider_def max_def status_order)

lemma tls_shutdown_status:
  "tls_shutdown S c w = (c', w') \<Longrightarrow> tc_status c' = max Shutdown (tc_status c)"
  by (auto dest!: tls_shutdown_frame)

text \<open>No operation moves the status backwards or changes the handles.\<close>

definition tls_evolves :: "tls_conn \<Rightarrow> tls_conn \<Rightarrow> bool" where
  "tls_evolves c c' \<longleftrightarrow> tc_status c \<le> tc_status c' \<and> tc_session c' = tc_session c \<and>
     tc_stream c' = tc_stream c \<and> tc_index c' = tc_index c \<and> tc_token c' = tc_token c"

lemma tls_evolves_refl [simp]: "tls_evolves c c"
  by (simp add: tls_evolves_def)

lemma tls_evolves_trans: "tls_evolves a b \<Longrightarrow> tls_evolves b c \<Longrightarrow> tls_evolves a c"
  by (auto simp: tls_evolves_def)

lemma tls_shutdown_evolves: "tls_shutdown S c w = (c', w') \<Longrightarrow> tls_evolves c c'"
  by (auto simp: tls_evolves_def dest!: tls_shutdown_frame)

lemma tls_peer_closed_evolves: "tls_evolves c (peer_closed (tls_provider S) c)"
  using tls_frame.obs_peer_closed [of S c] tls.status_never_decreases(1) [of S c]
  by (simp add: tls_evolves_def)

lemma tls_established_evolves: "tls_evolves c (established (tls_provider S) c)"
  using tls_frame.obs_established [of S c] tls.status_never_decreases(2) [of S c]
  by (simp add: tls_evolves_def)

lemma tls_check_status_evolves: "tls_check_status S c w = Some (c', w') \<Longrightarrow> tls_evolves c c'"
  using tls_frame.obs_check_status [of S c w c' w'] tls.status_never_decreases(4) [of S c w c' w']
  by (simp add: tls_evolves_def tls_check_status_def)

lemma tls_write_session_evolves: "tls_write_session S c d w = (ok, c', w') \<Longrightarrow> tls_evolves c c'"
  by (auto simp: tls_write_session_def dest: tls_shutdown_evolves split: prod.splits sum.splits)

lemma tls_fill_evolves:
  assumes "tls_fill S c w = Some (c', w')"
  shows "tls_evolves c c' \<and> tc_writable c' = tc_writable c"
proof -
  have "tls_evolves c (fst r) \<and> tc_writable (fst r) = tc_writable c"
    if "tls_fill S c w = Some r" for r
  proof (rule tls_fill.raw_induct
      [where P = "\<lambda>S c w r. tls_evolves c (fst r) \<and> tc_writable (fst r) = tc_writable c", OF _ that])
  qed (auto simp: tls_evolves_def dest!: tls_shutdown_frame
      split: prod.splits sum.splits if_splits)
  with assms show ?thesis by force
qed

lemma tls_do_read_evolves:
  assumes "tls_do_read S c w = Some (r, c', w')"
  shows "tls_evolves c c' \<and> tc_writable c' = tc_writable c"
proof -
  from assms obtain c1 w1 where fill: "tls_fill S c w = Some (c1, w1)"
    by (auto simp: tls_do_read_def split: bind_splits)
  from assms fill have "tls_evolves c1 c' \<and> tc_writable c' = tc_writable c1"
    by (auto simp: tls_do_read_def tls_evolves_def dest!: tls_shutdown_frame
        split: prod.splits if_splits)
  with tls_fill_evolves [OF fill] show ?thesis by (auto intro: tls_evolves_trans)
qed

text \<open>The sending loop ends with an empty session, a blocked stream or a closed connection.\<close>

lemma tls_drain_post:
  assumes "tls_drain S c w = Some (c', w')"
  shows "tls_evolves c c' \<and>
    (\<not> tls_wants_write S (tc_session c') w' \<or> \<not> tc_writable c' \<or> is_shutdown (tc_status c'))"
proof -
  have "tls_evolves c (fst r) \<and> (\<not> tls_wants_write S (tc_session (fst r)) (snd r) \<or>
      \<not> tc_writable (fst r) \<or> is_shutdown (tc_status (fst r)))"
    if "tls_drain S c w = Some r" for r
  proof (rule tls_drain.raw_induct
      [where P = "\<lambda>S c w r. tls_evolves c (fst r) \<and> (\<not> tls_wants_write S (tc_session (fst r)) (snd r) \<or>
        \<not> tc_writable (fst r) \<or> is_shutdown (tc_status (fst r)))", OF _ that])
  qed (auto simp: tls_evolves_def is_shutdown_iff dest!: tls_shutdown_frame
      split: prod.splits sum.splits if_splits)
  with assms show ?thesis by force
qed

lemma tls_do_send_evolves:
  assumes "tls_do_send S c w = Some (c', w')"
  shows "tls_evolves c c'"
  using assms tls_drain_post [of S "c\<lparr>tc_writable := True\<rparr>" w c' w']
  by (auto simp: tls_do_send_def tls_evolves_def split: if_splits)

text \<open>Reading and sending leave the status alone or shut the connection down.\<close>

definition tls_kept :: "tls_conn \<Rightarrow> tls_conn \<Rightarrow> bool" where
  "tls_kept c c' \<longleftrightarrow> tc_status c' = tc_status c \<or> tc_status c' = max Shutdown (tc_status c)"

lemma tls_kept_refl [simp]: "tls_kept c c"
  by (simp add: tls_kept_def)

lemma tls_kept_trans: "tls_kept a b \<Longrightarrow> tls_kept b c \<Longrightarrow> tls_kept a c"
  by (auto simp: tls_kept_def)

lemma tls_kept_moves: "tls_kept c c' \<Longrightarrow> status_moves (tc_status c) (tc_status c')"
  by (auto simp: tls_kept_def)

lemma tls_shutdown_kept: "tls_shutdown S c w = (c', w') \<Longrightarrow> tls_kept c c'"
  by (simp add: tls_kept_def tls_shutdown_status)

lemma tls_fill_kept:
  assumes "tls_fill S c w = Some (c', w')"
  shows "tls_kept c c'"
proof -
  have "tls_kept c (fst r)" if "tls_fill S c w = Some r" for r
  proof (rule tls_fill.raw_induct [where P = "\<lambda>S c w r. tls_kept c (fst r)", OF _ that])
  qed (auto dest: tls_shutdown_kept split: prod.splits sum.splits if_splits)
  with assms show ?thesis by force
qed

lemma tls_do_read_kept:
  assumes "tls_do_read S c w = Some (r, c', w')"
  shows "tls_kept c c'"
proof -
  from assms obtain c1 w1 where fill: "tls_fill S c w = Some (c1, w1)"
    by (auto simp: tls_do_read_def split: bind_splits)
  from assms fill have "tls_kept c1 c'"
    by (auto simp: tls_do_read_def dest: tls_shutdown_kept split: prod.splits if_splits)
  with tls_fill_kept [OF fill] show ?thesis by (rule tls_kept_trans)
qed

lemma tls_drain_kept:
  assumes "tls_drain S c w = Some (c', w')"
  shows "tls_kept c c'"
proof -
  have "tls_kept c (fst r)" if "tls_drain S c w = Some r" for r
  proof (rule tls_drain.raw_induct [where P = "\<lambda>S c w r. tls_kept c (fst r)", OF _ that])
  qed (auto simp: tls_kept_def dest: tls_shutdown_status split: prod.splits sum.splits if_splits)
  with assms show ?thesis by force
qed

lemma tls_do_send_kept: "tls_do_send S c w = Some (c', w') \<Longrightarrow> tls_kept c c'"
  using tls_drain_kept [of S "c\<lparr>tc_writable := True\<rparr>" w c' w']
  by (auto simp: tls_do_send_def tls_kept_def split: if_splits)

lemma tls_write_session_kept: "tls_write_session S c d w = (ok, c', w') \<Longrightarrow> tls_kept c c'"
  by (auto simp: tls_write_session_def dest: tls_shutdown_kept split: prod.splits sum.splits)

section \<open>Termination\<close>

text \<open>Input and output are finite: a call that moves bytes takes at least one of what \<open>pend\<close> says is still
  there, and writing does not add to it. The loop of \<open>do_send\<close> also goes on after a write of no byte, so it ends
  only when the stream does not answer \<open>Ok(0)\<close> forever; \<open>tls_output_ends\<close> says so too.\<close>

definition tls_input_finite :: "'w sys \<Rightarrow> (sess \<Rightarrow> sock \<Rightarrow> 'w \<Rightarrow> nat) \<Rightarrow> bool" where
  "tls_input_finite S pend \<longleftrightarrow>
     (\<forall>c s w n w'. tls_read_tls S c s w = (Inr n, w') \<and> 0 < n \<longrightarrow> pend c s w' < pend c s w)"

definition tls_output_finite :: "'w sys \<Rightarrow> (sess \<Rightarrow> sock \<Rightarrow> 'w \<Rightarrow> nat) \<Rightarrow> bool" where
  "tls_output_finite S pend \<longleftrightarrow>
     (\<forall>c s w n w'. tls_wants_write S c w \<and> tls_write_tls S c s w = (Inr n, w') \<longrightarrow>
        pend c s w' \<le> pend c s w \<and> (0 < n \<longrightarrow> pend c s w' < pend c s w))"

definition tls_output_ends :: "'w sys \<Rightarrow> (sess \<Rightarrow> sock \<Rightarrow> 'w \<Rightarrow> nat) \<Rightarrow> bool" where
  "tls_output_ends S pend \<longleftrightarrow> tls_output_finite S pend \<and>
     (\<forall>c s w w'. tls_wants_write S c w \<and> tls_write_tls S c s w = (Inr 0, w') \<longrightarrow> pend c s w' < pend c s w)"

lemma tls_output_endsD:
  "tls_output_ends S pend \<Longrightarrow> tls_wants_write S c w \<Longrightarrow> tls_write_tls S c s w = (Inr n, w') \<Longrightarrow> pend c s w' < pend c s w"
  unfolding tls_output_ends_def tls_output_finite_def by (cases "n = 0") blast+

lemma tls_fill_returns:
  assumes "tls_input_finite S pend"
  shows "tls_fill S c w \<noteq> None"
proof (induction "pend (tc_session c) (tc_stream c) w" arbitrary: w rule: less_induct)
  case less
  show ?case
  proof (cases "\<exists>n w'. tls_read_tls S (tc_session c) (tc_stream c) w = (Inr n, w') \<and> 0 < n")
    case True
    then obtain n w' where r: "tls_read_tls S (tc_session c) (tc_stream c) w = (Inr n, w')" "0 < n"
      by blast
    with assms have "pend (tc_session c) (tc_stream c) w' < pend (tc_session c) (tc_stream c) w"
      by (auto simp: tls_input_finite_def)
    from less [OF this] r show ?thesis by (subst tls_fill.simps) simp
  next
    case False
    then show ?thesis
      by (subst tls_fill.simps) (auto split: prod.split sum.split)
  qed
qed

lemma tls_drain_returns:
  assumes "tls_output_ends S pend"
  shows "tls_drain S c w \<noteq> None"
proof (induction "pend (tc_session c) (tc_stream c) w" arbitrary: w rule: less_induct)
  case less
  show ?case
  proof (cases "tls_wants_write S (tc_session c) w \<and>
      (\<exists>n w'. tls_write_tls S (tc_session c) (tc_stream c) w = (Inr n, w'))")
    case True
    then obtain n w' where r: "tls_write_tls S (tc_session c) (tc_stream c) w = (Inr n, w')" by blast
    with True tls_output_endsD [OF assms] have "pend (tc_session c) (tc_stream c) w' < pend (tc_session c) (tc_stream c) w"
      by blast
    from less [OF this] r True show ?thesis by (subst tls_drain.simps) simp
  next
    case False
    then show ?thesis
      by (subst tls_drain.simps) (auto split: prod.split sum.split)
  qed
qed

lemma tls_do_read_returns: "tls_input_finite S pend \<Longrightarrow> tls_do_read S c w \<noteq> None"
  using tls_fill_returns [of S pend c w]
  by (auto simp: tls_do_read_def split: prod.splits)

lemma tls_do_send_returns: "tls_output_ends S pend \<Longrightarrow> tls_do_send S c w \<noteq> None"
  using tls_drain_returns [of S pend "c\<lparr>tc_writable := True\<rparr>" w]
  by (auto simp: tls_do_send_def)

section \<open>Writes that take nothing\<close>

text \<open>One successful write of the loop, and \<open>k\<close> of them in a row that take no byte.\<close>

inductive tls_writes :: "'w sys \<Rightarrow> tls_conn \<Rightarrow> 'w \<Rightarrow> 'w \<Rightarrow> bool" for S c where
  tls_writes: "tls_wants_write S (tc_session c) w \<Longrightarrow> tls_write_tls S (tc_session c) (tc_stream c) w = (Inr n, w') \<Longrightarrow>
    tls_writes S c w w'"

fun empty_writes :: "'w sys \<Rightarrow> tls_conn \<Rightarrow> nat \<Rightarrow> 'w \<Rightarrow> bool" where
  "empty_writes S c 0 w \<longleftrightarrow> True"
| "empty_writes S c (Suc k) w \<longleftrightarrow> tls_wants_write S (tc_session c) w \<and>
     (case tls_write_tls S (tc_session c) (tc_stream c) w of (Inr n, w') \<Rightarrow> n = 0 \<and> empty_writes S c k w' | (Inl e, w') \<Rightarrow> False)"

lemma tls_drain_writes: "(tls_writes S c)\<^sup>*\<^sup>* w w' \<Longrightarrow> tls_drain S c w = tls_drain S c w'"
proof (induction rule: rtranclp_induct)
  case (step u v)
  from step(2) have "tls_drain S c u = tls_drain S c v" by cases (subst tls_drain.simps, simp)
  with step(3) show ?case by simp
qed simp

lemma tls_drain_spins:
  assumes "\<forall>k. empty_writes S c k w"
  shows "tls_drain S c w = None"
proof -
  have "\<not> (\<forall>k. empty_writes S c k w)" if "tls_drain S c w = Some x" for x
  proof (rule tls_drain.raw_induct [where P = "\<lambda>S c w x. \<not> (\<forall>k. empty_writes S c k w)", OF _ that], goal_cases)
    case (1 g S c w x)
    show ?case
    proof
      assume z: "\<forall>k. empty_writes S c k w"
      then have "empty_writes S c (Suc 0) w" by blast
      then obtain w' where w': "tls_wants_write S (tc_session c) w" "tls_write_tls S (tc_session c) (tc_stream c) w = (Inr 0, w')"
        by (auto split: prod.splits sum.splits)
      have "empty_writes S c k w'" for k using z [rule_format, of "Suc k"] w' by simp
      then have w0: "\<forall>k. empty_writes S c k w'" by blast
      from 1(2) w' have "g S c w' = Some x" by simp
      from 1(1) [OF this] w0 show False by blast
    qed
  qed
  with assms show ?thesis by (cases "tls_drain S c w") auto
qed

lemma tls_drain_returns_or_spins:
  assumes "tls_output_finite S pend"
  shows "pend (tc_session c) (tc_stream c) w \<le> N \<Longrightarrow> \<not> empty_writes S c k w \<Longrightarrow>
    \<forall>v. (tls_writes S c)\<^sup>*\<^sup>* w v \<longrightarrow> (\<exists>k. \<not> empty_writes S c k v) \<Longrightarrow> tls_drain S c w \<noteq> None"
proof (induction N arbitrary: k w rule: less_induct)
  case outer: (less N)
  from outer.prems show ?case
  proof (induction k arbitrary: w)
    case (Suc k)
    show ?case
    proof (cases "tls_wants_write S (tc_session c) w \<and> (\<exists>n w'. tls_write_tls S (tc_session c) (tc_stream c) w = (Inr n, w'))")
      case True
      then obtain n w' where w': "tls_wants_write S (tc_session c) w" "tls_write_tls S (tc_session c) (tc_stream c) w = (Inr n, w')"
        by blast
      have st: "tls_writes S c w w'" using w' by (rule tls_writes)
      have eq: "tls_drain S c w = tls_drain S c w'" by (rule tls_drain_writes) (use st in blast)
      have ok: "\<forall>v. (tls_writes S c)\<^sup>*\<^sup>* w' v \<longrightarrow> (\<exists>k. \<not> empty_writes S c k v)"
        using Suc.prems(3) st by (meson converse_rtranclp_into_rtranclp)
      have le: "pend (tc_session c) (tc_stream c) w' \<le> pend (tc_session c) (tc_stream c) w"
        "0 < n \<Longrightarrow> pend (tc_session c) (tc_stream c) w' < pend (tc_session c) (tc_stream c) w"
        using assms w' unfolding tls_output_finite_def by blast+
      show ?thesis
      proof (cases "n = 0")
        case True
        with w' Suc.prems(2) have "\<not> empty_writes S c k w'" by simp
        from Suc.IH [OF _ this ok] le(1) Suc.prems(1) eq show ?thesis by simp
      next
        case False
        obtain j where "\<not> empty_writes S c j w'" using ok by blast
        from outer.IH [OF _ order_refl this ok] le(2) False Suc.prems(1) eq show ?thesis by simp
      qed
    next
      case False
      then show ?thesis by (subst tls_drain.simps) (auto split: prod.split sum.split)
    qed
  qed simp
qed

section \<open>Properties\<close>

text \<open>C26. When \<open>TlsConn::do_send\<close> ends, and how: it leaves a connection that is still connecting untouched. Else,
  when the session's output is finite, it fails to return in exactly one case, that the stream answers every write
  with \<open>Ok(0)\<close> from some point on while the session still wants to write, which the loop takes for progress. Otherwise
  it ends with nothing left to write, or with the connection marked unwritable (the stream blocked), or with the
  connection shut down. It never moves the status backwards and keeps the handles, index and token.\<close>

theorem tls_do_send_outcome:
  assumes "tls_output_finite S pend"
  shows "(tls_do_send S c w = None \<longleftrightarrow>
      tc_status c \<noteq> Connecting \<and> (\<exists>v. (tls_writes S c)\<^sup>*\<^sup>* w v \<and> (\<forall>k. empty_writes S c k v))) \<and>
    (\<forall>c' w'. tls_do_send S c w = Some (c', w') \<longrightarrow> tls_evolves c c' \<and>
      (if tc_status c = Connecting then c' = c \<and> w' = w
       else \<not> tls_wants_write S (tc_session c') w' \<or> \<not> tls_is_writable c'))"
proof (intro conjI allI impI)
  let ?c = "c\<lparr>tc_writable := True\<rparr>"
  have e: "empty_writes S ?c k v = empty_writes S c k v" for k v by (induction k arbitrary: v) (auto split: prod.splits sum.splits)
  have t: "tls_writes S ?c = tls_writes S c" by (auto simp: fun_eq_iff tls_writes.simps)
  have "tls_drain S ?c w = None \<longleftrightarrow> (\<exists>v. (tls_writes S c)\<^sup>*\<^sup>* w v \<and> (\<forall>k. empty_writes S c k v))"
  proof
    assume n: "tls_drain S ?c w = None"
    show "\<exists>v. (tls_writes S c)\<^sup>*\<^sup>* w v \<and> (\<forall>k. empty_writes S c k v)"
    proof (rule ccontr)
      assume no: "\<not> ?thesis"
      then obtain k where "\<not> empty_writes S c k w" by blast
      from tls_drain_returns_or_spins [OF assms order_refl, where c = ?c and w = w and k = k] this no n show False by (simp add: e t)
    qed
  next
    assume "\<exists>v. (tls_writes S c)\<^sup>*\<^sup>* w v \<and> (\<forall>k. empty_writes S c k v)"
    then show "tls_drain S ?c w = None" using tls_drain_writes [of S ?c w] tls_drain_spins [of S ?c] by (auto simp: e t)
  qed
  then show "tls_do_send S c w = None \<longleftrightarrow>
      tc_status c \<noteq> Connecting \<and> (\<exists>v. (tls_writes S c)\<^sup>*\<^sup>* w v \<and> (\<forall>k. empty_writes S c k v))"
    by (simp add: tls_do_send_def is_connecting_def)
next
  fix c' w' assume r: "tls_do_send S c w = Some (c', w')"
  then show "tls_evolves c c'" by (rule tls_do_send_evolves)
  show "if tc_status c = Connecting then c' = c \<and> w' = w
       else \<not> tls_wants_write S (tc_session c') w' \<or> \<not> tls_is_writable c'"
    using r tls_drain_post [of S "c\<lparr>tc_writable := True\<rparr>" w c' w']
    by (auto simp: tls_do_send_def tls_is_writable_def is_connecting_def dest: shutdown_not_alive split: if_splits)
qed

lemma sim_input_finite: "tls_input_finite sim_sys (\<lambda>c s w. length (sim_rx w s))"
  by (auto simp: tls_input_finite_def sim_read_tls_def split: if_splits)

lemma sim_output_finite: "tls_output_ends sim_sys (\<lambda>c s w. length (sim_tls_out w c))"
  by (auto simp: tls_output_ends_def tls_output_finite_def sim_write_tls_def sim_write_def Let_def
      split: prod.splits sum.splits if_splits)

definition sample_tls :: tls_conn where
  "sample_tls = \<lparr>tc_session = 1, tc_stream = 1, tc_index = 2, tc_token = 4, tc_status = Established,
     tc_writable = True\<rparr>"

text \<open>A stream that takes what fits, and one that takes nothing and does not say that it blocks.\<close>

abbreviation spin_sys :: "sim sys" where
  "spin_sys \<equiv> sim_sys\<lparr>tls_write_tls := (\<lambda>c s w. (Inr 0, w))\<rparr>"

theorem tls_do_send_outcome_witness:
  "(\<exists>c' w'. tls_do_send sim_sys sample_tls (sim_write_plain 1 [7, 8] sim_idle) = Some (c', w') \<and>
      (\<not> tls_wants_write sim_sys (tc_session c') w' \<or> \<not> tls_is_writable c')) \<and>
   tls_do_send spin_sys sample_tls (sim_write_plain 1 [7, 8] sim_idle) = None"
proof -
  let ?w = "sim_write_plain 1 [7, 8] sim_idle"
  have f: "tls_output_finite sim_sys (\<lambda>c s w. length (sim_tls_out w c))" using sim_output_finite by (simp add: tls_output_ends_def)
  have g: "tls_output_finite spin_sys (\<lambda>c s w. 0)" by (simp add: tls_output_finite_def)
  have nc: "tc_status sample_tls \<noteq> Connecting" by (simp add: sample_tls_def)
  have "empty_writes spin_sys sample_tls k ?w" for k
    by (induction k) (simp_all add: sample_tls_def sim_write_plain_def)
  then have "tls_do_send spin_sys sample_tls ?w = None" using tls_do_send_outcome [OF g, of sample_tls ?w] nc by blast
  moreover have "tls_do_send sim_sys sample_tls ?w \<noteq> None" using tls_do_send_returns [OF sim_output_finite] by blast
  then obtain c' w' where "tls_do_send sim_sys sample_tls ?w = Some (c', w')" by auto
  with tls_do_send_outcome [OF f, of sample_tls ?w] nc have "\<exists>c' w'. tls_do_send sim_sys sample_tls ?w = Some (c', w') \<and>
      (\<not> tls_wants_write sim_sys (tc_session c') w' \<or> \<not> tls_is_writable c')" by auto
  ultimately show ?thesis by blast
qed

end
