(* ===== verification/Tcp_Util.thy ===== *)
theory Tcp_Util
  imports Tls_Conn
begin

text \<open>
  The two copy loops between a plain TCP stream and a TLS connection (\<open>src/src/tcp_util.rs\<close>).
\<close>

section \<open>Model\<close>

text \<open>\<open>tcp_read\<close> reads into \<open>recv_buf\<close> and writes what it got to the TLS session, until the stream
  blocks, ends or fails, or the session refuses.\<close>

partial_function (option) tcp_read :: "'w sys \<Rightarrow> sock \<Rightarrow> bytes \<Rightarrow> tls_conn \<Rightarrow> 'w \<Rightarrow>
    (bool \<times> bytes \<times> tls_conn \<times> 'w) rs" where
  "tcp_read S conn recv_buf c w =
     (case tcp_recv S conn (length recv_buf) w of
        (Inr bs, w) \<Rightarrow>
          if length recv_buf < length bs then None
          else (case bs @ drop (length bs) recv_buf of recv_buf \<Rightarrow>
            if bs = [] then Some (False, recv_buf, c, w)
            else (case tls_write_session S c (take (length bs) recv_buf) w of (ok, c, w) \<Rightarrow>
                    if ok then tcp_read S conn recv_buf c w else Some (True, recv_buf, c, w)))
      | (Inl e, w) \<Rightarrow> Some (e = WouldBlock, recv_buf, c, w))"

text \<open>\<open>tcp_send\<close> writes \<open>data\<close> until the stream blocks, and keeps what is left in \<open>send_buffer\<close>.\<close>

function tcp_send :: "'w sys \<Rightarrow> sock \<Rightarrow> bytes \<Rightarrow> bytes \<Rightarrow> 'w \<Rightarrow> (bool \<times> bytes \<times> 'w) rs" where
  "tcp_send S conn send_buffer data w =
     (if data = [] then Some (True, send_buffer, w)
      else case tcp_write S conn data w of
        (Inr n, w) \<Rightarrow>
          if n = 0 then Some (False, send_buffer, w)
          else if length data < n then None
          else tcp_send S conn send_buffer (drop n data) w
      | (Inl e, w) \<Rightarrow>
          if e = WouldBlock then Some (True, send_buffer @ data, w)
          else Some (False, send_buffer, w))"
  by pat_completeness auto
termination
  by (relation "measure (\<lambda>(S, conn, send_buffer, data, w). length data)") auto

declare tcp_send.simps [simp del]

section \<open>Sending\<close>

text \<open>No byte is lost, duplicated or reordered: what the stream has taken, followed by what is still
  buffered, grows by exactly the data. After a failure the stream has taken a prefix of it.\<close>

lemma tcp_send_conserves:
  assumes "tcp_write_contract S tx"
  shows "\<exists>ok buf w'. tcp_send S s b d w = Some (ok, buf, w') \<and>
    (\<exists>d1 d2. d = d1 @ d2 \<and> tx s w' = tx s w @ d1 \<and> buf = (if ok then b @ d2 else b))"
  using assms
proof (induction S s b d w rule: tcp_send.induct)
  case (1 S s b d w)
  note contract = tcp_write_contractD [OF "1.prems"]
  show ?case
  proof (cases "d = []")
    case True
    then show ?thesis by (auto simp: tcp_send.simps)
  next
    case d: False
    obtain r w1 where wr: "tcp_write S s d w = (r, w1)" by (cases "tcp_write S s d w")
    show ?thesis
    proof (cases r)
      case (Inl e)
      with wr have "tx s w1 = tx s w" using contract(2) [of s d w e w1] by simp
      with d wr Inl show ?thesis by (auto simp: tcp_send.simps [of S s b d w] intro: exI [of _ "[]"])
    next
      case (Inr n)
      with wr have n: "n \<le> length d" "tx s w1 = tx s w @ take n d"
        using contract(1) [of s d w n w1] by simp_all
      show ?thesis
      proof (cases "n = 0")
        case True
        with d wr Inr n show ?thesis
          by (auto simp: tcp_send.simps [of S s b d w] intro: exI [of _ "[]"])
      next
        case False
        from "1.IH" [OF d wr [symmetric] Inr False _ "1.prems"] n(1)
        obtain ok buf w' d1 d2 where "tcp_send S s b (drop n d) w1 = Some (ok, buf, w')"
          and "drop n d = d1 @ d2" "tx s w' = tx s w1 @ d1" "buf = (if ok then b @ d2 else b)"
          by auto
        moreover from this have "d = (take n d @ d1) @ d2" by (metis append_assoc append_take_drop_id)
        ultimately show ?thesis
          using d wr Inr False n by (auto simp: tcp_send.simps [of S s b d w])
      qed
    qed
  qed
qed

text \<open>Nothing left over means the stream took everything.\<close>

lemma tcp_send_all:
  assumes "tcp_write_contract S tx" and "tcp_send S s [] d w = Some (True, [], w')"
  shows "tx s w' = tx s w @ d"
  using tcp_send_conserves [OF assms(1), of s "[]" d w] assms(2) by auto

section \<open>Reading\<close>

text \<open>\<open>avail s w\<close> are the bytes of stream \<open>s\<close> that have not been read yet; a successful read takes some
  from the front. Writing to a session does not touch the streams' input, and reading a stream does
  not touch the sessions' plaintext.\<close>

definition relay_contract :: "'w sys \<Rightarrow> (sock \<Rightarrow> 'w \<Rightarrow> bytes) \<Rightarrow> (sess \<Rightarrow> 'w \<Rightarrow> bytes) \<Rightarrow> bool" where
  "relay_contract S avail plain \<longleftrightarrow>
     (\<forall>s n w. case tcp_recv S s n w of
        (Inr bs, w') \<Rightarrow> length bs \<le> n \<and> avail s w = bs @ avail s w' \<and> (\<forall>c. plain c w' = plain c w)
      | (Inl e, w') \<Rightarrow> avail s w' = avail s w \<and> (\<forall>c. plain c w' = plain c w)) \<and>
     (\<forall>c d w. case tls_writer_write_all S c d w of
        (Inr _, w') \<Rightarrow> plain c w' = plain c w @ d \<and> (\<forall>s. avail s w' = avail s w)
      | (Inl e, w') \<Rightarrow> plain c w' = plain c w \<and> (\<forall>s. avail s w' = avail s w)) \<and>
     (\<forall>s w w' r. tcp_shutdown S s w = (r, w') \<longrightarrow>
        (\<forall>c. plain c w' = plain c w) \<and> (\<forall>t. avail t w' = avail t w))"

lemma relay_recv:
  assumes "relay_contract S avail plain"
  shows "tcp_recv S s n w = (Inr bs, w') \<Longrightarrow>
      length bs \<le> n \<and> avail s w = bs @ avail s w' \<and> plain c w' = plain c w"
    and "tcp_recv S s n w = (Inl e, w') \<Longrightarrow> avail s w' = avail s w \<and> plain c w' = plain c w"
  using assms [unfolded relay_contract_def, THEN conjunct1, rule_format, where s = s and n = n and w = w]
  by auto

lemma relay_write:
  assumes "relay_contract S avail plain" and "tls_write_session S c d w = (ok, c', w')"
  shows "avail s w' = avail s w \<and> (if ok then c' = c \<and> plain (tc_session c) w' = plain (tc_session c) w @ d
    else c' = c\<lparr>tc_status := max Shutdown (tc_status c)\<rparr> \<and> plain (tc_session c) w' = plain (tc_session c) w)"
proof -
  from assms(1) have wr: "case tls_writer_write_all S (tc_session c) d w of
        (Inr _, w') \<Rightarrow> plain (tc_session c) w' = plain (tc_session c) w @ d \<and> (\<forall>s. avail s w' = avail s w)
      | (Inl e, w') \<Rightarrow> plain (tc_session c) w' = plain (tc_session c) w \<and> (\<forall>s. avail s w' = avail s w)"
    by (simp add: relay_contract_def)
  have sd: "c2 = c\<lparr>tc_status := max Shutdown (tc_status c)\<rparr> \<and> avail s w2 = avail s w1 \<and> plain k w2 = plain k w1"
    if "tls_shutdown S c w1 = (c2, w2)" for w1 w2 c2 s k
  proof -
    have "avail s w2 = avail s w1 \<and> plain k w2 = plain k w1"
      using assms(1) that
      by (auto simp: relay_contract_def tls_shutdown_def shutdown_def tls_provider_def
          split: if_splits) (metis prod.collapse)+
    with tls_shutdown_frame [OF that] show ?thesis by simp
  qed
  from assms(2) wr show ?thesis
    by (auto simp: tls_write_session_def dest!: sd [where s = s and k = "tc_session c"]
        split: prod.splits sum.splits)
qed

text \<open>The relay loop terminates, and moves bytes from the stream to the session in order; only a
  session that refuses a write, and is shut down for it, can lose the chunk just read.\<close>

definition relayed :: "(sock \<Rightarrow> 'w \<Rightarrow> bytes) \<Rightarrow> (sess \<Rightarrow> 'w \<Rightarrow> bytes) \<Rightarrow> sock \<Rightarrow> tls_conn \<Rightarrow> 'w \<Rightarrow>
    tls_conn \<Rightarrow> 'w \<Rightarrow> bool" where
  "relayed avail plain s c w c' w' \<longleftrightarrow>
     (\<exists>lost. plain (tc_session c) w' @ lost @ avail s w' = plain (tc_session c) w @ avail s w \<and>
        (if lost = [] then c' = c else c' = c\<lparr>tc_status := max Shutdown (tc_status c)\<rparr>))"

lemma tcp_read_relays:
  assumes "relay_contract S avail plain"
  shows "\<exists>ok rb c' w'. tcp_read S s recv_buf c w = Some (ok, rb, c', w') \<and>
    length rb = length recv_buf \<and> relayed avail plain s c w c' w'"
proof (induction "length (avail s w)" arbitrary: recv_buf w rule: less_induct)
  case less
  obtain r w1 where rd: "tcp_recv S s (length recv_buf) w = (r, w1)"
    by (cases "tcp_recv S s (length recv_buf) w")
  show ?case
  proof (cases r)
    case (Inl e)
    with relay_recv(2) [OF assms, of s] rd show ?thesis
      by (subst tcp_read.simps) (auto simp: relayed_def)
  next
    case (Inr bs)
    with relay_recv(1) [OF assms, of s "length recv_buf" w bs w1] rd
    have bs: "length bs \<le> length recv_buf" "avail s w = bs @ avail s w1"
      "plain (tc_session c) w1 = plain (tc_session c) w" by auto
    let ?rb = "bs @ drop (length bs) recv_buf"
    obtain ok c1 w2 where wr: "tls_write_session S c bs w1 = (ok, c1, w2)"
      by (cases "tls_write_session S c bs w1")
    note rw = relay_write [OF assms wr, of s]
    show ?thesis
    proof (cases "bs \<noteq> [] \<and> ok")
      case True
      with rw bs have "length (avail s w2) < length (avail s w)" by simp
      from less [OF this, of ?rb] obtain ok' rb c' w' where
        rec: "tcp_read S s ?rb c w2 = Some (ok', rb, c', w')" "length rb = length recv_buf"
        "relayed avail plain s c w2 c' w'" using bs(1) by auto
      with True rw bs have "relayed avail plain s c w c' w'" by (auto simp: relayed_def)
      with True rec rw rd Inr bs wr show ?thesis by (subst tcp_read.simps) simp
    next
      case False
      then show ?thesis
        using rd Inr bs wr rw by (subst tcp_read.simps) (auto simp: relayed_def)
    qed
  qed
qed

end
