(* ===== verification/Config.thy ===== *)
theory Config
  imports Rust_Std
begin

text \<open>
  The command line options (\<open>src/src/config.rs\<close>) and what \<open>Opts::setup\<close> derives from them: the
  server address, the unspecified address of the same family, the idle timeouts as durations and
  the digest of the password. The SHA-224 digest in hexadecimal (crates \<open>sha2\<close> and \<open>hex\<close>) and
  the host lookup (crate \<open>dns_lookup\<close>, or \<open>utils::resolve\<close> when a DNS server is given) are
  parameters.
\<close>

section \<open>Options\<close>

record proxy_args =
  pa_hostname :: bytes
  pa_port :: u16
  pa_pool_size :: nat

record server_args =
  sa_cert :: bytes
  sa_key :: bytes
  sa_remote_addr :: bytes
  sa_dns_cache_time :: nat
  sa_check_auth :: bool
  sa_alpn :: "bytes list"

record wintun_args =
  wa_wintun :: bytes
  wa_name :: bytes
  wa_buffer_size :: nat
  wa_hostname :: bytes
  wa_port :: u16
  wa_pool_size :: nat
  wa_mtu :: nat
  wa_udp_rx_meta_size :: nat
  wa_udp_rx_buffer_size :: nat
  wa_udp_tx_meta_size :: nat
  wa_udp_tx_buffer_size :: nat
  wa_tcp_rx_buffer_size :: nat
  wa_tcp_tx_buffer_size :: nat
  wa_route_ipset :: "bytes option"
  wa_inverse_route :: bool
  wa_dns_server_addr :: "bytes option"

record dns_args =
  da_tun_name :: bytes
  da_blocked_domain_list :: bytes
  da_dns_listen_address :: bytes
  da_trusted_dns :: bytes
  da_poisoned_dns :: bytes
  da_dns_cache_time :: nat
  da_add_route :: bool

datatype mode = Proxy proxy_args | Server server_args | Wintun wintun_args | Dns dns_args

record opts =
  mode :: mode
  log_file :: bytes
  local_addr :: bytes
  password :: bytes
  log_level :: u8
  udp_idle_timeout :: nat
  tcp_idle_timeout :: nat
  sha_pass :: bytes
  pass_len :: nat
  back_addr :: "socket_addr option"
  udp_header_len :: nat
  empty_addr :: "socket_addr option"
  udp_idle_duration :: duration
  tcp_idle_duration :: duration

text \<open>The accessors of the mode's arguments panic in another mode.\<close>

definition get_server_args :: "opts \<Rightarrow> server_args rs" where
  "get_server_args cfg = (case mode cfg of Server a \<Rightarrow> Some a | _ \<Rightarrow> None)"

definition get_proxy_args :: "opts \<Rightarrow> proxy_args rs" where
  "get_proxy_args cfg = (case mode cfg of Proxy a \<Rightarrow> Some a | _ \<Rightarrow> None)"

definition get_wintun_args :: "opts \<Rightarrow> wintun_args rs" where
  "get_wintun_args cfg = (case mode cfg of Wintun a \<Rightarrow> Some a | _ \<Rightarrow> None)"

definition get_dns_args :: "opts \<Rightarrow> dns_args rs" where
  "get_dns_args cfg = (case mode cfg of Dns a \<Rightarrow> Some a | _ \<Rightarrow> None)"

section \<open>Logging\<close>

datatype level_filter = Trace | Debug | Info | Warn | Error | Off

definition setup_logger_level :: "u8 \<Rightarrow> level_filter" where
  "setup_logger_level level =
     (if level = 0 then Trace else if level = 1 then Debug else if level = 2 then Info
      else if level = 3 then Warn else if level = 4 then Error else Off)"

text \<open>The arguments of \<open>log::error!\<close> are evaluated when the filter lets error messages through.\<close>

definition error_enabled :: "opts \<Rightarrow> bool" where
  "error_enabled cfg \<longleftrightarrow> setup_logger_level (log_level cfg) \<noteq> Off"

definition debug_enabled :: "opts \<Rightarrow> bool" where
  "debug_enabled cfg \<longleftrightarrow> setup_logger_level (log_level cfg) \<in> {Trace, Debug}"

section \<open>Setup\<close>

definition digest_pass :: "(bytes \<Rightarrow> bytes) \<Rightarrow> opts \<Rightarrow> opts" where
  "digest_pass sha224_hex cfg =
     (let result = sha224_hex (password cfg)
      in cfg\<lparr>pass_len := length result, sha_pass := result\<rparr>)"

definition check_pass :: "opts \<Rightarrow> bytes \<Rightarrow> bytes option" where
  "check_pass cfg pass = (if sha_pass cfg = pass then Some (password cfg) else None)"

definition get_pass :: "opts \<Rightarrow> bytes" where
  "get_pass cfg = sha_pass cfg"

text \<open>The inner loop of \<open>Opts::resolve\<close>: an IPv4 answer ends it, an IPv6 answer is only taken when
  there is no address yet.\<close>

fun resolve_answers :: "u16 \<Rightarrow> ip_addr list \<Rightarrow> socket_addr option \<Rightarrow> socket_addr option" where
  "resolve_answers port [] addr = addr"
| "resolve_answers port (ip # ips) addr =
     (if ip_is_ipv4 ip then Some (socket_addr_new ip port)
      else if addr = None then resolve_answers port ips (Some (socket_addr_new ip port))
      else resolve_answers port ips addr)"

text \<open>The outer loop makes the attempts \<open>0..10\<close>, sleeping after a failed one; \<open>lookup i\<close> is the
  answer of attempt \<open>i\<close>.\<close>

fun resolve_attempts :: "(nat \<Rightarrow> ip_addr list option) \<Rightarrow> u16 \<Rightarrow> nat list \<Rightarrow> socket_addr option \<Rightarrow>
    socket_addr option" where
  "resolve_attempts lookup port [] addr = addr"
| "resolve_attempts lookup port (i # is) addr =
     (let addr' = (case lookup i of None \<Rightarrow> addr | Some response \<Rightarrow> resolve_answers port response addr)
      in if addr' = None then resolve_attempts lookup port is addr' else addr')"

definition opts_resolve :: "(bytes \<Rightarrow> bytes option \<Rightarrow> nat \<Rightarrow> ip_addr list option) \<Rightarrow> opts \<Rightarrow> bytes \<Rightarrow>
    u16 \<Rightarrow> bytes option \<Rightarrow> opts rs" where
  "opts_resolve lookup cfg hostname port dns_server =
     (let addr = resolve_attempts (lookup hostname dns_server) port [0..<10] (back_addr cfg)
      in if addr = None then None else Some (cfg\<lparr>back_addr := addr\<rparr>))"

definition unspecified_v4 :: socket_addr where
  "unspecified_v4 = V4 (Ipv4Addr 0 0 0 0) 0"

definition unspecified_v6 :: socket_addr where
  "unspecified_v6 = V6 (Ipv6Addr 0 0 0 0 0 0 0 0) 0 0 0"

text \<open>The first half of \<open>setup\<close> finds the server address for the mode.\<close>

definition setup_back_addr :: "(bytes \<Rightarrow> bytes option \<Rightarrow> nat \<Rightarrow> ip_addr list option) \<Rightarrow> opts \<Rightarrow>
    opts rs" where
  "setup_back_addr lookup cfg =
     (case mode cfg of
        Server args \<Rightarrow> do {
          addr \<leftarrow> unwrap (parse_socket_addr (sa_remote_addr args));
          Some (cfg\<lparr>back_addr := Some addr\<rparr>) }
      | Proxy args \<Rightarrow> opts_resolve lookup cfg (pa_hostname args) (pa_port args) None
      | Wintun args \<Rightarrow>
          opts_resolve lookup cfg (wa_hostname args) (wa_port args) (wa_dns_server_addr args)
      | Dns _ \<Rightarrow> Some cfg)"

definition setup_empty_addr :: "opts \<Rightarrow> opts" where
  "setup_empty_addr cfg =
     (case back_addr cfg of
        None \<Rightarrow> cfg
      | Some addr \<Rightarrow>
          cfg\<lparr>empty_addr := Some (if sock_is_ipv4 addr then unspecified_v4 else unspecified_v6)\<rparr>)"

definition opts_setup :: "(bytes \<Rightarrow> bytes) \<Rightarrow> (bytes \<Rightarrow> bytes option \<Rightarrow> nat \<Rightarrow> ip_addr list option) \<Rightarrow>
    opts \<Rightarrow> opts rs" where
  "opts_setup sha224_hex lookup cfg = do {
     cfg \<leftarrow> setup_back_addr lookup cfg;
     let cfg = setup_empty_addr cfg;
     let cfg = cfg\<lparr>udp_idle_duration := duration_from_secs (udp_idle_timeout cfg),
                   tcp_idle_duration := duration_from_secs (tcp_idle_timeout cfg)\<rparr>;
     Some (digest_pass sha224_hex cfg) }"

section \<open>Properties\<close>

text \<open>What the rest of the program relies on after \<open>setup\<close>.\<close>

definition opts_ready :: "opts \<Rightarrow> bool" where
  "opts_ready cfg \<longleftrightarrow>
     pass_len cfg = length (sha_pass cfg) \<and>
     (case back_addr cfg of
        None \<Rightarrow> True
      | Some a \<Rightarrow> (\<exists>e. empty_addr cfg = Some e \<and> sock_is_ipv4 e = sock_is_ipv4 a)) \<and>
     udp_idle_duration cfg = duration_from_secs (udp_idle_timeout cfg) \<and>
     tcp_idle_duration cfg = duration_from_secs (tcp_idle_timeout cfg)"

lemma resolve_answers_spec:
  "resolve_answers port ips addr =
     (case find ip_is_ipv4 ips of
        Some ip \<Rightarrow> Some (socket_addr_new ip port)
      | None \<Rightarrow>
          (case addr of
             Some a \<Rightarrow> Some a
           | None \<Rightarrow> (case ips of [] \<Rightarrow> None | ip # _ \<Rightarrow> Some (socket_addr_new ip port))))"
proof (induction ips arbitrary: addr)
  case Nil
  then show ?case by (cases addr) auto
next
  case (Cons ip ips)
  then show ?case by (cases addr) (auto split: option.splits)
qed

lemma resolve_attempts_None_iff:
  "resolve_attempts lookup port is None = None \<longleftrightarrow>
     (\<forall>i \<in> set is. lookup i = None \<or> lookup i = Some [])"
proof (induction "is")
  case (Cons i "is")
  have answers: "resolve_answers port ips None = None \<longleftrightarrow> ips = []" for ips
    by (simp add: resolve_answers_spec split: option.split list.split)
  show ?case
  proof (cases "lookup i")
    case None
    with Cons.IH show ?thesis by simp
  next
    case (Some ips)
    with Cons.IH answers [of ips] show ?thesis
      by (cases "ips = []") (auto simp: Let_def)
  qed
qed simp

text \<open>Finding the server address changes nothing else.\<close>

lemma setup_back_addr_frame:
  assumes "setup_back_addr lookup cfg = Some cfg'"
  obtains a where "cfg' = cfg\<lparr>back_addr := a\<rparr>"
proof -
  have "\<exists>a. cfg' = cfg\<lparr>back_addr := a\<rparr>"
    using assms
  proof (cases "mode cfg")
    case (Dns x)
    with assms have "cfg' = cfg\<lparr>back_addr := back_addr cfg\<rparr>" by (simp add: setup_back_addr_def)
    then show ?thesis ..
  qed (auto simp: setup_back_addr_def opts_resolve_def Let_def split: bind_splits if_splits)
  with that show thesis by blast
qed

lemma setup_empty_addr_simps [simp]:
  "back_addr (setup_empty_addr cfg) = back_addr cfg"
  "mode (setup_empty_addr cfg) = mode cfg"
  "local_addr (setup_empty_addr cfg) = local_addr cfg"
  "password (setup_empty_addr cfg) = password cfg"
  "udp_idle_timeout (setup_empty_addr cfg) = udp_idle_timeout cfg"
  "tcp_idle_timeout (setup_empty_addr cfg) = tcp_idle_timeout cfg"
  by (simp_all add: setup_empty_addr_def split: option.split)

lemma setup_empty_addr_family:
  "back_addr cfg = Some a \<Longrightarrow>
     \<exists>e. empty_addr (setup_empty_addr cfg) = Some e \<and> sock_is_ipv4 e = sock_is_ipv4 a"
  by (simp add: setup_empty_addr_def unspecified_v4_def unspecified_v6_def)

text \<open>C28. \<open>Opts::setup\<close> establishes what the rest of the program relies on: when it returns, the
  recorded password length is the length of the digest, the unspecified address used for binding
  has the family of the server address, and the idle durations are the configured seconds. It
  keeps the mode, the listen address and the password.\<close>

theorem opts_setup_ready:
  assumes "opts_setup sha224_hex lookup cfg = Some cfg'"
  shows "opts_ready cfg' \<and> sha_pass cfg' = sha224_hex (password cfg) \<and>
    mode cfg' = mode cfg \<and> local_addr cfg' = local_addr cfg \<and> password cfg' = password cfg"
proof -
  from assms obtain c where c: "setup_back_addr lookup cfg = Some c"
    and cfg': "cfg' = digest_pass sha224_hex
      ((setup_empty_addr c)\<lparr>udp_idle_duration := duration_from_secs (udp_idle_timeout c),
         tcp_idle_duration := duration_from_secs (tcp_idle_timeout c)\<rparr>)"
    by (auto simp: opts_setup_def split: bind_splits)
  from c obtain a where "c = cfg\<lparr>back_addr := a\<rparr>" by (rule setup_back_addr_frame)
  then show ?thesis
    using setup_empty_addr_family [of c]
    by (auto simp: cfg' opts_ready_def digest_pass_def Let_def split: option.split)
qed

text \<open>A server configuration: it listens on \<open>0.0.0.0:443\<close> and passes unknown traffic to
  \<open>127.0.0.1:80\<close>.\<close>

definition sample_opts :: opts where
  "sample_opts = \<lparr>mode = Server \<lparr>sa_cert = [], sa_key = [],
       sa_remote_addr = [49, 50, 55, 46, 48, 46, 48, 46, 49, 58, 56, 48],
       sa_dns_cache_time = 300, sa_check_auth = False, sa_alpn = []\<rparr>,
     log_file = [], local_addr = [48, 46, 48, 46, 48, 46, 48, 58, 52, 52, 51], password = [112], log_level = 2,
     udp_idle_timeout = 60, tcp_idle_timeout = 600, sha_pass = [], pass_len = 0,
     back_addr = None, udp_header_len = 0, empty_addr = None, udp_idle_duration = 0, tcp_idle_duration = 0\<rparr>"

definition sample_ready :: opts where
  "sample_ready = sample_opts\<lparr>sha_pass := [97, 98, 99, 48], pass_len := 4,
     back_addr := Some (V4 (Ipv4Addr 127 0 0 1) 80), empty_addr := Some unspecified_v4,
     udp_idle_duration := 60000000000, tcp_idle_duration := 600000000000\<rparr>"

lemma sample_setup:
  "opts_setup (\<lambda>_. [97, 98, 99, 48]) (\<lambda>_ _ _. None) sample_opts = Some sample_ready"
proof -
  have "parse_socket_addr [49, 50, 55, 46, 48, 46, 48, 46, 49, 58, 56, 48] =
      Some (V4 (Ipv4Addr 127 0 0 1) 80)"
    by (simp add: parse_socket_addr_def read_socket_addr_v4_def read_ipv4_addr_def read_port_def
        net_parse_simps)
  then show ?thesis
    by (simp add: opts_setup_def setup_back_addr_def setup_empty_addr_def digest_pass_def
        sample_opts_def sample_ready_def duration_from_secs_def)
qed

theorem opts_setup_ready_witness:
  "opts_setup (\<lambda>_. [97, 98, 99, 48]) (\<lambda>_ _ _. None) sample_opts = Some sample_ready \<and>
   opts_ready sample_ready"
  using sample_setup opts_setup_ready [OF sample_setup] by blast

end
