(* ===== verification/Proto.thy ===== *)
theory Proto
  imports Config
begin

text \<open>
  The Trojan wire format (\<open>src/src/proto.rs\<close>): the request that opens a connection, the header of
  a UDP packet, and their generators. A slice \<open>&[u8]\<close> is a byte list; a \<open>BytesMut\<close> that is written
  to is the list of bytes in it, and the generators append. The smoltcp address types appear with
  the constructors the program matches on; smoltcp's \<open>Ipv6Address::from_bytes\<close> and its conversion
  of a standard address are parameters.
\<close>

section \<open>Constants and data\<close>

definition CONNECT :: u8 where "CONNECT = 0x01"
definition UDP_ASSOCIATE :: u8 where "UDP_ASSOCIATE = 0x03"
definition MAX_PACKET_SIZE :: nat where "MAX_PACKET_SIZE = 1450"
definition IPV4 :: u8 where "IPV4 = 0x01"
definition DOMAIN :: u8 where "DOMAIN = 0x03"
definition IPV6 :: u8 where "IPV6 = 0x04"

lemmas proto_consts = CONNECT_def UDP_ASSOCIATE_def MAX_PACKET_SIZE_def IPV4_def DOMAIN_def IPV6_def

text \<open>smoltcp's \<open>IpAddress\<close> and \<open>IpEndpoint\<close>; an IPv6 address is its sixteen octets.\<close>

datatype ip_address = SmolIpv4 ipv4_addr | SmolIpv6 bytes | SmolOther

record ip_endpoint =
  addr :: ip_address
  port :: u16

datatype sock5_address = Endpoint ip_endpoint | Socket socket_addr | Domain bytes u16 | NoAddress

record trojan_request =
  command :: u8
  address :: sock5_address
  payload :: bytes

record 'a udp_associate =
  udp_address :: 'a
  udp_length :: nat
  udp_payload :: bytes

text \<open>\<open>UdpParseResult\<close> is the instance at \<open>socket_addr\<close>, \<open>UdpParseResultEndpoint\<close> the one at
  \<open>ip_endpoint\<close>.\<close>

datatype 'a udp_parse_result = Packet "'a udp_associate" | InvalidProtocol | Continued

section \<open>Addresses on the wire\<close>

definition to_u16 :: "bytes \<Rightarrow> u16 rs" where
  "to_u16 buffer = do {
     a \<leftarrow> idx buffer 0;
     b \<leftarrow> idx buffer 1;
     Some (push_bit 8 (ucast a) OR ucast b) }"

definition to_u16_at :: "bytes \<Rightarrow> nat \<Rightarrow> u16 rs" where
  "to_u16_at buffer i = Option.bind (slice_from buffer i) to_u16"

definition parse_address :: "u8 \<Rightarrow> bytes \<Rightarrow> (nat \<times> sock5_address) option rs" where
  "parse_address atyp buffer =
     (if atyp = IPV4 then
        (if length buffer < 6 then Some None
         else do {
           p \<leftarrow> to_u16_at buffer 4;
           a \<leftarrow> idx buffer 0; b \<leftarrow> idx buffer 1; c \<leftarrow> idx buffer 2; d \<leftarrow> idx buffer 3;
           Some (Some (6, Socket (V4 (Ipv4Addr a b c d) p))) })
      else if atyp = DOMAIN then do {
        l \<leftarrow> idx buffer 0;
        let length' = unat l;
        if length buffer < length' + 3 then Some None
        else do {
          name \<leftarrow> slice_range buffer 1 (length' + 1);
          let domain = from_utf8_lossy name;
          p \<leftarrow> to_u16_at buffer (length' + 1);
          (case parse_ip_addr domain of
             Some ip \<Rightarrow> Some (Some (length' + 3, Socket (socket_addr_new ip p)))
           | None \<Rightarrow> Some (Some (length' + 3, Domain domain p))) } }
      else if atyp = IPV6 then
        (if length buffer < 18 then Some None
         else do {
           a \<leftarrow> to_u16 buffer;
           b \<leftarrow> to_u16_at buffer 2;
           c \<leftarrow> to_u16_at buffer 4;
           d \<leftarrow> to_u16_at buffer 6;
           e \<leftarrow> to_u16_at buffer 8;
           f \<leftarrow> to_u16_at buffer 10;
           g \<leftarrow> to_u16_at buffer 12;
           h \<leftarrow> to_u16_at buffer 14;
           p \<leftarrow> to_u16_at buffer 16;
           Some (Some (18, Socket (V6 (Ipv6Addr a b c d e f g h) p 0 0))) })
      else Some None)"

text \<open>The functions of smoltcp the parser calls: \<open>Ipv6Address::from_bytes\<close>, which may panic, and
  \<open>IpAddress::from\<close> for a standard address.\<close>

record smoltcp_ops =
  ipv6_from_bytes :: "bytes \<Rightarrow> bytes rs"
  ip_address_from :: "ip_addr \<Rightarrow> ip_address"

definition parse_address_endpoint :: "smoltcp_ops \<Rightarrow> u8 \<Rightarrow> bytes \<Rightarrow>
    (nat \<times> sock5_address) option rs" where
  "parse_address_endpoint SM atyp buffer =
     (if atyp = IPV4 then
        (if length buffer < 6 then Some None
         else do {
           p \<leftarrow> to_u16_at buffer 4;
           a \<leftarrow> idx buffer 0; b \<leftarrow> idx buffer 1; c \<leftarrow> idx buffer 2; d \<leftarrow> idx buffer 3;
           Some (Some (6, Endpoint \<lparr>addr = SmolIpv4 (Ipv4Addr a b c d), port = p\<rparr>)) })
      else if atyp = DOMAIN then do {
        l \<leftarrow> idx buffer 0;
        let length' = unat l;
        if length buffer < length' + 3 then Some None
        else do {
          name \<leftarrow> slice_range buffer 1 (length' + 1);
          let domain = from_utf8_lossy name;
          p \<leftarrow> to_u16_at buffer (length' + 1);
          (case parse_ip_addr domain of
             Some ip \<Rightarrow> Some (Some (length' + 3, Endpoint \<lparr>addr = ip_address_from SM ip, port = p\<rparr>))
           | None \<Rightarrow> Some (Some (length' + 3, Domain domain p))) } }
      else if atyp = IPV6 then
        (if length buffer < 18 then Some None
         else do {
           a \<leftarrow> ipv6_from_bytes SM buffer;
           p \<leftarrow> to_u16_at buffer 16;
           Some (Some (18, Endpoint \<lparr>addr = SmolIpv6 a, port = p\<rparr>)) })
      else Some None)"

fun sock5_generate :: "bytes \<Rightarrow> socket_addr \<Rightarrow> bytes" where
  "sock5_generate buffer (V4 ip p) = buffer @ [IPV4] @ ipv4_octets ip @ u16_be p"
| "sock5_generate buffer (V6 ip p flowinfo scope) = buffer @ [IPV6] @ ipv6_octets ip @ u16_be p"

definition sock5_generate_endpoint :: "bytes \<Rightarrow> ip_endpoint \<Rightarrow> bytes rs" where
  "sock5_generate_endpoint buffer endpoint =
     (case addr endpoint of
        SmolIpv4 v4 \<Rightarrow> Some (buffer @ [IPV4] @ ipv4_octets v4 @ u16_be (port endpoint))
      | SmolIpv6 v6 \<Rightarrow> Some (buffer @ [IPV6] @ v6 @ u16_be (port endpoint))
      | SmolOther \<Rightarrow> None)"

section \<open>Requests\<close>

abbreviation CR :: u8 where "CR \<equiv> 13"
abbreviation LF :: u8 where "LF \<equiv> 10"

definition trojan_request_parse :: "opts \<Rightarrow> bytes \<Rightarrow> trojan_request option rs" where
  "trojan_request_parse cfg buffer =
     (if length buffer < pass_len cfg then Some None
      else do {
        pre \<leftarrow> slice_to buffer (pass_len cfg);
        let pass = from_utf8_lossy pre;
        if check_pass cfg pass = None then Some None
        else do {
          buffer \<leftarrow> slice_from buffer (pass_len cfg);
          bad \<leftarrow> (if length buffer < 2 then Some True
                 else do { b0 \<leftarrow> idx buffer 0; b1 \<leftarrow> idx buffer 1; Some (b0 \<noteq> CR \<or> b1 \<noteq> LF) });
          if bad then
            (if error_enabled cfg then do { _ \<leftarrow> idx buffer 0; _ \<leftarrow> idx buffer 1; Some None }
             else Some None)
          else do {
            buffer \<leftarrow> slice_from buffer 2;
            if length buffer < 3 then Some None
            else do {
              cmd \<leftarrow> idx buffer 0;
              if cmd \<noteq> CONNECT \<and> cmd \<noteq> UDP_ASSOCIATE then Some None
              else do {
                atyp \<leftarrow> idx buffer 1;
                buffer \<leftarrow> slice_from buffer 2;
                r \<leftarrow> parse_address atyp buffer;
                (case r of
                   None \<Rightarrow> Some None
                 | Some (n, a) \<Rightarrow> do {
                     buffer \<leftarrow> slice_from buffer n;
                     b0 \<leftarrow> idx buffer 0;
                     bad \<leftarrow> (if b0 \<noteq> CR then Some True
                            else do { b1 \<leftarrow> idx buffer 1; Some (b1 \<noteq> LF) });
                     if bad then Some None
                     else do {
                       rest \<leftarrow> slice_from buffer 2;
                       Some (Some \<lparr>command = cmd, address = a, payload = rest\<rparr>) } }) } } } } })"

definition trojan_request_generate :: "opts \<Rightarrow> bytes \<Rightarrow> u8 \<Rightarrow> socket_addr \<Rightarrow> bytes" where
  "trojan_request_generate cfg buffer cmd a =
     sock5_generate (buffer @ get_pass cfg @ [CR, LF] @ [cmd]) a @ [CR, LF]"

definition trojan_request_generate_endpoint :: "opts \<Rightarrow> bytes \<Rightarrow> u8 \<Rightarrow> ip_endpoint \<Rightarrow> bytes rs" where
  "trojan_request_generate_endpoint cfg buffer cmd e = do {
     buffer \<leftarrow> sock5_generate_endpoint (buffer @ get_pass cfg @ [CR, LF] @ [cmd]) e;
     Some (buffer @ [CR, LF]) }"

section \<open>UDP packets\<close>

text \<open>\<open>UdpAssociate::parse\<close> and \<open>parse_endpoint\<close> have the same body, once with \<open>parse_address\<close> and
  \<open>Sock5Address::Socket\<close>, once with \<open>parse_address_endpoint\<close> and \<open>Sock5Address::Endpoint\<close>;
  \<open>accept\<close> is the final match on the address.\<close>

definition udp_parse_with :: "(u8 \<Rightarrow> bytes \<Rightarrow> (nat \<times> sock5_address) option rs) \<Rightarrow>
    (sock5_address \<Rightarrow> 'a option) \<Rightarrow> bytes \<Rightarrow> 'a udp_parse_result rs" where
  "udp_parse_with parse_addr accept buffer =
     (if length buffer < 11 then Some Continued
      else do {
        atyp \<leftarrow> idx buffer 0;
        buffer \<leftarrow> slice_from buffer 1;
        r \<leftarrow> parse_addr atyp buffer;
        (case r of
           None \<Rightarrow> Some InvalidProtocol
         | Some (n, a) \<Rightarrow> do {
             buffer \<leftarrow> slice_from buffer n;
             if length buffer < 4 then Some Continued
             else do {
               l \<leftarrow> to_u16 buffer;
               let length' = unat l;
               if MAX_PACKET_SIZE < length' then Some InvalidProtocol
               else if length buffer < length' + 4 then Some Continued
               else do {
                 b2 \<leftarrow> idx buffer 2;
                 b3 \<leftarrow> idx buffer 3;
                 if b2 \<noteq> CR \<or> b3 \<noteq> LF then Some InvalidProtocol
                 else (case accept a of
                         Some x \<Rightarrow> do {
                           rest \<leftarrow> slice_from buffer 4;
                           Some (Packet \<lparr>udp_address = x, udp_length = length', udp_payload = rest\<rparr>) }
                       | None \<Rightarrow> Some InvalidProtocol) } } }) })"

fun accept_socket :: "sock5_address \<Rightarrow> socket_addr option" where
  "accept_socket (Socket a) = Some a"
| "accept_socket _ = None"

fun accept_endpoint :: "sock5_address \<Rightarrow> ip_endpoint option" where
  "accept_endpoint (Endpoint e) = Some e"
| "accept_endpoint _ = None"

definition udp_parse :: "bytes \<Rightarrow> socket_addr udp_parse_result rs" where
  "udp_parse = udp_parse_with parse_address accept_socket"

definition udp_parse_endpoint :: "smoltcp_ops \<Rightarrow> bytes \<Rightarrow> ip_endpoint udp_parse_result rs" where
  "udp_parse_endpoint SM = udp_parse_with (parse_address_endpoint SM) accept_endpoint"

definition udp_generate :: "bytes \<Rightarrow> socket_addr \<Rightarrow> u16 \<Rightarrow> bytes" where
  "udp_generate buffer a len = sock5_generate buffer a @ u16_be len @ [CR, LF]"

definition udp_generate_endpoint :: "bytes \<Rightarrow> ip_endpoint \<Rightarrow> u16 \<Rightarrow> bytes rs" where
  "udp_generate_endpoint buffer e len = do {
     buffer \<leftarrow> sock5_generate_endpoint buffer e;
     Some (buffer @ u16_be len @ [CR, LF]) }"

section \<open>Byte-level lemmas\<close>

lemma to_u16_u16_be [wire_simps]: "to_u16 (u16_be w @ r) = Some w"
  by (simp add: to_u16_def u16_be_def idx_def u16_of_halves)

lemma to_u16_Some: "2 \<le> length b \<Longrightarrow> to_u16 b = Some (push_bit 8 (ucast (b ! 0)) OR ucast (b ! 1))"
  by (auto simp: to_u16_def idx_def)

lemma to_u16_at_Some:
  "i + 2 \<le> length b \<Longrightarrow>
     to_u16_at b i = Some (push_bit 8 (ucast (b ! i)) OR ucast (b ! Suc i))"
  by (simp add: to_u16_at_def slice_from_def to_u16_Some)

lemma to_u16_at_append [wire_simps]: "length xs = i \<Longrightarrow> to_u16_at (xs @ u16_be w @ r) i = Some w"
  by (auto simp: to_u16_at_def slice_from_def to_u16_u16_be)

text \<open>What is left of an address once it has been on the wire: flow information and scope of an
  IPv6 socket address are not transmitted.\<close>

fun wire_addr :: "socket_addr \<Rightarrow> socket_addr" where
  "wire_addr (V4 ip p) = V4 ip p"
| "wire_addr (V6 ip p flowinfo scope) = V6 ip p 0 0"

fun sock5_atyp :: "socket_addr \<Rightarrow> u8" where
  "sock5_atyp (V4 _ _) = IPV4"
| "sock5_atyp (V6 _ _ _ _) = IPV6"

fun sock5_body :: "socket_addr \<Rightarrow> bytes" where
  "sock5_body (V4 ip p) = ipv4_octets ip @ u16_be p"
| "sock5_body (V6 ip p _ _) = ipv6_octets ip @ u16_be p"

lemma sock5_generate_eq: "sock5_generate buffer a = buffer @ sock5_atyp a # sock5_body a"
  by (cases a) simp_all

lemma length_sock5_body: "length (sock5_body a) = (if sock_is_ipv4 a then 6 else 18)"
  by (cases a) simp_all

lemma parse_address_ipv4:
  "parse_address IPV4 (ipv4_octets ip @ u16_be p @ r) = Some (Some (6, Socket (V4 ip p)))"
  by (cases ip) (simp add: parse_address_def to_u16_at_def slice_from_def idx_def to_u16_u16_be)

lemma parse_address_ipv6:
  "parse_address IPV6 (ipv6_octets ip @ u16_be p @ r) = Some (Some (18, Socket (V6 ip p 0 0)))"
  by (cases ip)
    (simp add: parse_address_def proto_consts to_u16_at_Some to_u16_Some u16_be_def u16_of_halves)

lemma parse_address_generated:
  "parse_address (sock5_atyp a) (sock5_body a @ r) =
     Some (Some (length (sock5_body a), Socket (wire_addr a)))"
  by (cases a) (simp_all add: parse_address_ipv4 parse_address_ipv6)

lemma parse_address_endpoint_ipv4:
  "parse_address_endpoint SM IPV4 (ipv4_octets ip @ u16_be p @ r) =
     Some (Some (6, Endpoint \<lparr>addr = SmolIpv4 ip, port = p\<rparr>))"
  by (cases ip)
    (simp add: parse_address_endpoint_def to_u16_at_def slice_from_def idx_def to_u16_u16_be)

text \<open>Neither address parser reads out of range once the buffer holds a byte, and the size it
  reports lies within the buffer; the endpoint parser can only fail in \<open>from_bytes\<close>.\<close>

lemma parse_address_total:
  assumes "b \<noteq> []"
  shows "\<exists>r. parse_address t b = Some r \<and> (\<forall>n s. r = Some (n, s) \<longrightarrow> n \<le> length b)"
  using assms
  by (auto simp: parse_address_def idx_def slice_range_def to_u16_at_Some to_u16_Some Let_def
      split: option.splits)

lemma parse_address_endpoint_total:
  assumes "b \<noteq> []" and "t \<noteq> IPV6"
  shows "\<exists>r. parse_address_endpoint SM t b = Some r \<and> (\<forall>n s. r = Some (n, s) \<longrightarrow> n \<le> length b)"
  using assms
  by (auto simp: parse_address_endpoint_def idx_def slice_range_def to_u16_at_Some to_u16_Some Let_def
      split: option.splits)

text \<open>The address parser of the server yields socket addresses and domains only.\<close>

lemma parse_address_kind:
  "parse_address t b = Some (Some (n, a)) \<Longrightarrow> (\<exists>s. a = Socket s) \<or> (\<exists>d p. a = Domain d p)"
  by (auto simp: parse_address_def Let_def split: if_splits bind_splits option.splits)

lemma trojan_request_parse_kind:
  "trojan_request_parse cfg b = Some (Some r) \<Longrightarrow> (\<exists>s. address r = Socket s) \<or> (\<exists>d p. address r = Domain d p)"
  by (auto simp: trojan_request_parse_def Let_def dest!: parse_address_kind
      split: if_splits bind_splits option.splits)

section \<open>The UDP frame, for any address format\<close>

text \<open>What the frame parser needs from an address parser: on a nonempty buffer and an address type
  it supports, it returns, and the size it reports lies within the buffer.\<close>

locale addr_parser =
  fixes parse_addr :: "u8 \<Rightarrow> bytes \<Rightarrow> (nat \<times> sock5_address) option rs"
    and accept :: "sock5_address \<Rightarrow> 'a option"
    and supported :: "u8 \<Rightarrow> bool"
  assumes parse_addr_total: "b \<noteq> [] \<Longrightarrow> supported t \<Longrightarrow>
      \<exists>r. parse_addr t b = Some r \<and> (\<forall>n s. r = Some (n, s) \<longrightarrow> n \<le> length b)"
begin

text \<open>The frame parser then never panics, and a packet it delivers is complete, not longer than
  the maximum, and followed by exactly the unread rest of the input.\<close>

lemma frame_total:
  assumes "b = [] \<or> supported (hd b)"
  shows "udp_parse_with parse_addr accept b \<noteq> None"
proof (cases "length b < 11")
  case True
  then show ?thesis by (simp add: udp_parse_with_def)
next
  case False
  then obtain t c where b: "b = t # c" and c: "10 \<le> length c" by (cases b) auto
  from c have "c \<noteq> []" by auto
  with assms b obtain r where r: "parse_addr t c = Some r" "\<forall>n s. r = Some (n, s) \<longrightarrow> n \<le> length c"
    using parse_addr_total [of c t] by auto
  then show ?thesis
    using False
    by (auto simp: udp_parse_with_def b idx_def slice_from_def to_u16_Some Let_def split: option.splits)
qed

lemma frame_sound:
  assumes "udp_parse_with parse_addr accept b = Some (Packet p)"
  shows "udp_length p \<le> MAX_PACKET_SIZE \<and> udp_length p \<le> length (udp_payload p) \<and>
    (\<exists>n. 5 \<le> n \<and> udp_payload p = drop n b) \<and> length (udp_payload p) < length b"
  using assms
  by (auto simp: udp_parse_with_def idx_def slice_from_def to_u16_Some Let_def not_less
      split: option.splits if_splits bind_splits intro!: exI [of _ "5 + n" for n])

end

text \<open>An address format that can be written: the type byte, the bytes that follow it, and the
  address the receiver recovers.\<close>

locale udp_frame = addr_parser parse_addr accept supported
  for parse_addr and accept :: "sock5_address \<Rightarrow> 'a option" and supported +
  fixes writable_addr :: "'a \<Rightarrow> bool"
    and atyp_of :: "'a \<Rightarrow> u8"
    and body_of :: "'a \<Rightarrow> bytes"
    and received :: "'a \<Rightarrow> 'a"
  assumes parse_written: "writable_addr a \<Longrightarrow>
      \<exists>s. parse_addr (atyp_of a) (body_of a @ r) = Some (Some (length (body_of a), s)) \<and>
          accept s = Some (received a)"
    and body_length: "writable_addr a \<Longrightarrow> 6 \<le> length (body_of a)"
begin

lemma frame_roundtrip:
  assumes a: "writable_addr a" and len: "unat len \<le> MAX_PACKET_SIZE" "unat len \<le> length d"
  shows "udp_parse_with parse_addr accept (atyp_of a # body_of a @ u16_be len @ [CR, LF] @ d) =
    Some (Packet \<lparr>udp_address = received a, udp_length = unat len, udp_payload = d\<rparr>)"
proof -
  obtain s where "parse_addr (atyp_of a) (body_of a @ u16_be len @ [CR, LF] @ d) =
      Some (Some (length (body_of a), s))" "accept s = Some (received a)"
    using parse_written [OF a] by blast
  then show ?thesis
    using body_length [OF a] len
    by (simp add: udp_parse_with_def idx_def slice_from_def to_u16_u16_be nth_append Let_def)
qed

text \<open>A frame cut off after its address is reported as incomplete, whatever is missing.\<close>

lemma frame_prefix:
  assumes a: "writable_addr a" and len: "unat len \<le> MAX_PACKET_SIZE"
    and cut: "u16_be len @ [CR, LF] @ d = c @ c'" "length d = unat len" "c' \<noteq> []"
  shows "udp_parse_with parse_addr accept (atyp_of a # body_of a @ c) = Some Continued"
proof -
  obtain s where p: "parse_addr (atyp_of a) (body_of a @ c) = Some (Some (length (body_of a), s))"
    using parse_written [OF a] by blast
  from arg_cong [OF cut(1), of length] cut(2,3) have c: "length c < unat len + 4"
    by (cases c') simp_all
  show ?thesis
  proof (cases "length c < 4")
    case True
    with p show ?thesis by (simp add: udp_parse_with_def idx_def slice_from_def)
  next
    case False
    with arg_cong [OF cut(1), of "take 2"] have "u16_be len = take 2 c" by simp
    then obtain c2 where "c = u16_be len @ c2" by (metis append_take_drop_id)
    with p c len False show ?thesis
      by (simp add: udp_parse_with_def idx_def slice_from_def to_u16_u16_be Let_def)
  qed
qed

end

text \<open>Both formats of the program are instances: \<open>parse\<close>/\<open>generate\<close> on socket addresses, and
  \<open>parse_endpoint\<close>/\<open>generate_endpoint\<close> on IPv4 endpoints.\<close>

interpretation sock_frame: udp_frame parse_address accept_socket "\<lambda>_. True" "\<lambda>_. True"
  sock5_atyp sock5_body wire_addr
proof unfold_locales
  show "\<exists>r. parse_address t b = Some r \<and> (\<forall>n s. r = Some (n, s) \<longrightarrow> n \<le> length b)"
    if "b \<noteq> []" for b t
    using that by (rule parse_address_total)
  show "\<exists>s. parse_address (sock5_atyp a) (sock5_body a @ r) = Some (Some (length (sock5_body a), s)) \<and>
      accept_socket s = Some (wire_addr a)" for a r
    by (simp add: parse_address_generated)
  show "6 \<le> length (sock5_body a)" for a
    by (simp add: length_sock5_body)
qed

definition endpoint_body :: "ip_endpoint \<Rightarrow> bytes" where
  "endpoint_body e = (case addr e of SmolIpv4 v4 \<Rightarrow> ipv4_octets v4 @ u16_be (port e) | _ \<Rightarrow> [])"

definition endpoint_is_v4 :: "ip_endpoint \<Rightarrow> bool" where
  "endpoint_is_v4 e = (case addr e of SmolIpv4 _ \<Rightarrow> True | _ \<Rightarrow> False)"

interpretation endpoint_frame: udp_frame "parse_address_endpoint SM" accept_endpoint "\<lambda>t. t \<noteq> IPV6"
  endpoint_is_v4 "\<lambda>_. IPV4" endpoint_body "\<lambda>e. e"
  for SM
proof unfold_locales
  show "\<exists>r. parse_address_endpoint SM t b = Some r \<and> (\<forall>n s. r = Some (n, s) \<longrightarrow> n \<le> length b)"
    if "b \<noteq> []" "t \<noteq> IPV6" for b t
    using that by (rule parse_address_endpoint_total)
  show "\<exists>s. parse_address_endpoint SM IPV4 (endpoint_body e @ r) =
      Some (Some (length (endpoint_body e), s)) \<and> accept_endpoint s = Some e"
    if "endpoint_is_v4 e" for e r
    using that
    by (cases e) (auto simp: endpoint_is_v4_def endpoint_body_def parse_address_endpoint_ipv4
        split: ip_address.splits)
  show "6 \<le> length (endpoint_body e)" if "endpoint_is_v4 e" for e
    using that by (auto simp: endpoint_is_v4_def endpoint_body_def split: ip_address.splits)
qed

section \<open>Properties\<close>

text \<open>The request a client generates, cut into its parts.\<close>

lemma trojan_request_generate_eq:
  "trojan_request_generate cfg [] cmd a =
     sha_pass cfg @ CR # LF # cmd # sock5_atyp a # sock5_body a @ [CR, LF]"
  by (simp add: trojan_request_generate_def sock5_generate_eq get_pass_def)

text \<open>A digest in hexadecimal is ASCII, so comparing it as a string is comparing its bytes.\<close>

definition digest_ok :: "opts \<Rightarrow> bool" where
  "digest_ok cfg \<longleftrightarrow> pass_len cfg = length (sha_pass cfg) \<and> is_ascii (sha_pass cfg)"

text \<open>The parser after the password: the part of \<open>parse\<close> that reads CRLF, command, address, CRLF.\<close>

lemma trojan_request_parse_authenticated:
  assumes "digest_ok cfg"
  shows "trojan_request_parse cfg (sha_pass cfg @ CR # LF # cmd # t # b) =
    (if b = [] \<or> cmd \<noteq> CONNECT \<and> cmd \<noteq> UDP_ASSOCIATE then Some None
     else Option.bind (parse_address t b) (\<lambda>r.
       case r of None \<Rightarrow> Some None
       | Some (n, a) \<Rightarrow> Option.bind (slice_from b n) (\<lambda>c.
           Option.bind (idx c 0) (\<lambda>b0.
             Option.bind (if b0 \<noteq> CR then Some True else Option.bind (idx c 1) (\<lambda>b1. Some (b1 \<noteq> LF))) (\<lambda>bad.
               if bad then Some None
               else Option.bind (slice_from c 2) (\<lambda>rest.
                 Some (Some \<lparr>command = cmd, address = a, payload = rest\<rparr>)))))))"
  using assms
  by (cases b) (simp_all add: trojan_request_parse_def digest_ok_def slice_to_def slice_from_def
      idx_def check_pass_def from_utf8_lossy_ascii)

text \<open>Decoding replaces malformed bytes by a non-ASCII character, so only the digest itself decodes
  to the digest.\<close>

lemma utf8_next_ascii: "b < 0x80 \<Longrightarrow> utf8_next b bs = (True, 0)"
  by (simp add: utf8_next_def)

lemma from_utf8_lossy_ascii_inv: "is_ascii (from_utf8_lossy b) \<Longrightarrow> from_utf8_lossy b = b"
proof (induction b rule: from_utf8_lossy.induct)
  case (2 b bs)
  obtain ok n where n: "utf8_next b bs = (ok, n)" by (cases "utf8_next b bs")
  with 2(2) have ok: "ok" and b: "b < 0x80"
    by (auto simp: is_ascii_def split: if_splits)
  with n have "n = 0" by (simp add: utf8_next_ascii)
  with 2 n ok show ?case by (simp add: is_ascii_def)
qed simp

lemma check_pass_iff:
  assumes "digest_ok cfg"
  shows "check_pass cfg (from_utf8_lossy b) \<noteq> None \<longleftrightarrow> b = sha_pass cfg"
  using assms from_utf8_lossy_ascii_inv [of b] from_utf8_lossy_ascii [of b]
  by (auto simp: digest_ok_def check_pass_def split: if_splits)

text \<open>A buffer that does not start with the digest is passed over without a panic.\<close>

lemma trojan_request_parse_unauthenticated:
  assumes "digest_ok cfg" and "\<nexists>b. buf = sha_pass cfg @ b"
  shows "trojan_request_parse cfg buf = Some None"
proof (cases "length buf < pass_len cfg")
  case False
  have "take (pass_len cfg) buf \<noteq> sha_pass cfg"
    using assms(2) by (metis append_take_drop_id)
  with assms(1) have "check_pass cfg (from_utf8_lossy (take (pass_len cfg) buf)) = None"
    using check_pass_iff by blast
  with False show ?thesis by (simp add: trojan_request_parse_def slice_to_def)
qed (simp add: trojan_request_parse_def)

text \<open>The inputs on which the request parser reads out of range, after the password: fewer than two
  bytes where the first CRLF is expected and error messages enabled (the message prints both
  bytes), or an address that ends the buffer, or ends it up to a single CR.\<close>

definition request_overrun :: "opts \<Rightarrow> bytes \<Rightarrow> bool" where
  "request_overrun cfg b \<longleftrightarrow>
     length b < 2 \<and> error_enabled cfg \<or>
     (\<exists>cmd t c n a. b = CR # LF # cmd # t # c \<and> c \<noteq> [] \<and> (cmd = CONNECT \<or> cmd = UDP_ASSOCIATE) \<and>
        parse_address t c = Some (Some (n, a)) \<and> (n = length c \<or> Suc n = length c \<and> c ! n = CR))"

lemma trojan_request_parse_short:
  assumes "digest_ok cfg" and "\<nexists>cmd t c. b = CR # LF # cmd # t # c"
  shows "trojan_request_parse cfg (sha_pass cfg @ b) =
    (if length b < 2 \<and> error_enabled cfg then None else Some None)"
proof -
  consider "length b < 2" | x y c where "b = x # y # c" "x \<noteq> CR \<or> y \<noteq> LF"
    | c where "b = CR # LF # c" "length c < 2"
    using assms(2)
    by (cases b; cases "tl b"; cases "tl (tl b)"; cases "tl (tl (tl b))") auto
  then show ?thesis
    using assms(1)
    by cases (auto simp: trojan_request_parse_def digest_ok_def slice_to_def slice_from_def
        idx_def check_pass_def from_utf8_lossy_ascii)
qed

lemma trojan_request_parse_overrun:
  assumes "digest_ok cfg"
  shows "trojan_request_parse cfg (sha_pass cfg @ b) = None \<longleftrightarrow> request_overrun cfg b"
proof (cases "\<exists>cmd t c. b = CR # LF # cmd # t # c")
  case False
  with trojan_request_parse_short [OF assms] show ?thesis
    by (auto simp: request_overrun_def)
next
  case True
  then obtain cmd t c where b: "b = CR # LF # cmd # t # c" by blast
  show ?thesis
  proof (cases "c = []")
    case True
    then show ?thesis
      by (simp add: b trojan_request_parse_authenticated [OF assms] request_overrun_def)
  next
    case False
    then obtain r where r: "parse_address t c = Some r" "\<forall>n s. r = Some (n, s) \<longrightarrow> n \<le> length c"
      using parse_address_total [of c t] by blast
    with False show ?thesis
      by (auto simp: b trojan_request_parse_authenticated [OF assms] request_overrun_def
          slice_from_def idx_def split: option.splits)
  qed
qed

lemma trojan_request_parse_generated:
  assumes "digest_ok cfg" and "cmd = CONNECT \<or> cmd = UDP_ASSOCIATE"
  shows "trojan_request_parse cfg (trojan_request_generate cfg [] cmd a @ d) =
    Some (Some \<lparr>command = cmd, address = Socket (wire_addr a), payload = d\<rparr>)"
proof -
  have "sock5_body a \<noteq> []" using length_sock5_body [of a] by (auto split: if_splits)
  with assms show ?thesis
    by (auto simp: trojan_request_generate_eq trojan_request_parse_authenticated
        parse_address_generated slice_from_def idx_def)
qed

lemma trojan_request_parse_None:
  assumes "digest_ok cfg"
  shows "trojan_request_parse cfg buf = None \<longleftrightarrow> (\<exists>b. buf = sha_pass cfg @ b \<and> request_overrun cfg b)"
proof (cases "\<exists>b. buf = sha_pass cfg @ b")
  case True
  then show ?thesis using trojan_request_parse_overrun [OF assms] by auto
next
  case False
  then show ?thesis using trojan_request_parse_unauthenticated [OF assms] by auto
qed

text \<open>An IPv4 frame cut short anywhere, its address included, is reported as incomplete.\<close>

lemma udp_parse_cut_v4:
  assumes "unat len \<le> MAX_PACKET_SIZE" and "length d = unat len"
    and "udp_generate [] (V4 ip p) len @ d = c @ c'" and "c' \<noteq> []"
  shows "udp_parse c = Some Continued"
proof (cases "length c < 11")
  case True
  then show ?thesis by (simp add: udp_parse_def udp_parse_with_def)
next
  case False
  let ?h = "IPV4 # sock5_body (V4 ip p)"
  have eq: "?h @ (u16_be len @ [CR, LF] @ d) = c @ c'"
    using assms(3) by (simp add: udp_generate_def)
  from arg_cong [OF eq, of "take 7"] False have "?h = take 7 c" by simp
  then obtain e where c: "c = ?h @ e" by (metis append_take_drop_id)
  with eq have "u16_be len @ [CR, LF] @ d = e @ c'" by simp
  from sock_frame.frame_prefix [OF TrueI assms(1) this assms(2,4), of "V4 ip p"] show ?thesis
    by (simp add: c udp_parse_def)
qed

text \<open>C14. A server parses the request its client generated: for either command, any target address
  and any payload behind the request, \<open>TrojanRequest::parse\<close> recovers the command, the target
  address (without the IPv6 flow information and scope, which are not transmitted) and the payload.\<close>

theorem trojan_request_roundtrip:
  assumes "digest_ok cfg" and "cmd = CONNECT \<or> cmd = UDP_ASSOCIATE"
  shows "trojan_request_parse cfg (trojan_request_generate cfg [] cmd a @ d) =
    Some (Some \<lparr>command = cmd, address = Socket (wire_addr a), payload = d\<rparr>)"
  using assms by (rule trojan_request_parse_generated)

lemma sample_digest: "digest_ok sample_ready"
  by (simp add: digest_ok_def sample_ready_def is_ascii_def)

theorem trojan_request_roundtrip_witness:
  "digest_ok sample_ready \<and>
   trojan_request_parse sample_ready
     (trojan_request_generate sample_ready [] CONNECT (V4 (Ipv4Addr 1 2 3 4) 80) @ [71, 69, 84]) =
   Some (Some \<lparr>command = CONNECT, address = Socket (V4 (Ipv4Addr 1 2 3 4) 80), payload = [71, 69, 84]\<rparr>)"
  using sample_digest
    trojan_request_roundtrip [OF sample_digest, of CONNECT "V4 (Ipv4Addr 1 2 3 4) 80" "[71, 69, 84]"]
  by simp

text \<open>C21. \<open>TrojanRequest::parse\<close> panics on exactly the inputs described by
  \<open>request_overrun\<close>, behind a correct password: nothing an unauthenticated peer sends makes it
  panic, but an authenticated client's request that is cut right after the password, right after
  the address, or after the CR behind the address, does.\<close>

theorem trojan_request_parse_panics_iff:
  assumes "digest_ok cfg"
  shows "trojan_request_parse cfg buf = None \<longleftrightarrow> (\<exists>b. buf = sha_pass cfg @ b \<and> request_overrun cfg b)"
  using assms by (rule trojan_request_parse_None)

theorem trojan_request_parse_panics_iff_witness:
  "digest_ok sample_ready \<and>
   trojan_request_parse sample_ready (sha_pass sample_ready @ [13, 10, 1, 1, 9, 9, 9, 9, 0, 80]) = None"
proof -
  have "parse_address 1 [9, 9, 9, 9, 0, 80] = Some (Some (6, Socket (V4 (Ipv4Addr 9 9 9 9) 80)))"
    by code_simp
  then have "request_overrun sample_ready [13, 10, 1, 1, 9, 9, 9, 9, 0, 80]"
    by (simp add: request_overrun_def CONNECT_def)
  then show ?thesis
    using sample_digest trojan_request_parse_panics_iff [OF sample_digest] by blast
qed

text \<open>C23. \<open>UdpAssociate::parse\<close> never panics, whatever bytes it is given, and a packet it delivers
  is complete, at most \<open>MAX_PACKET_SIZE\<close> bytes long, and followed by a proper suffix of the input,
  so that a loop over the rest makes progress.\<close>

theorem udp_parse_safe:
  "\<exists>r. udp_parse b = Some r \<and>
     (case r of
        Packet p \<Rightarrow> udp_length p \<le> MAX_PACKET_SIZE \<and> udp_length p \<le> length (udp_payload p) \<and>
          (\<exists>n. 5 \<le> n \<and> udp_payload p = drop n b) \<and> length (udp_payload p) < length b
      | _ \<Rightarrow> True)"
proof -
  obtain r where r: "udp_parse b = Some r"
    using sock_frame.frame_total [of b] by (auto simp: udp_parse_def)
  with sock_frame.frame_sound [of b] show ?thesis
    by (auto simp: udp_parse_def split: udp_parse_result.split)
qed

text \<open>C24. A UDP header written by \<open>UdpAssociate::generate\<close> in front of at least the announced number
  of bytes is read back by \<open>UdpAssociate::parse\<close>: same address (as transmitted), same length, and
  the bytes behind the header.\<close>

theorem udp_roundtrip:
  assumes "unat len \<le> MAX_PACKET_SIZE" and "unat len \<le> length d"
  shows "udp_parse (udp_generate [] a len @ d) =
    Some (Packet \<lparr>udp_address = wire_addr a, udp_length = unat len, udp_payload = d\<rparr>)"
  using sock_frame.frame_roundtrip [OF TrueI assms, of a]
  by (simp add: udp_parse_def udp_generate_def sock5_generate_eq)

theorem udp_roundtrip_witness:
  "unat (3 :: u16) \<le> MAX_PACKET_SIZE \<and>
   udp_parse (udp_generate [] (V4 (Ipv4Addr 8 8 8 8) 53) 3 @ [1, 2, 3, 4]) =
   Some (Packet \<lparr>udp_address = V4 (Ipv4Addr 8 8 8 8) 53, udp_length = 3, udp_payload = [1, 2, 3, 4]\<rparr>)"
  using udp_roundtrip [of 3 "[1, 2, 3, 4]" "V4 (Ipv4Addr 8 8 8 8) 53"]
  by (simp add: MAX_PACKET_SIZE_def)

text \<open>Cutting an IPv4 packet short anywhere, in its header or in its payload, makes the parser
  ask for more data: a packet that arrives in pieces is never rejected.\<close>

theorem udp_parse_prefix_v4:
  assumes "unat len \<le> MAX_PACKET_SIZE" and "length d = unat len"
    and "udp_generate [] (V4 ip p) len @ d = c @ c'" and "c' \<noteq> []"
  shows "udp_parse c = Some Continued"
  using assms by (rule udp_parse_cut_v4)

theorem udp_parse_prefix_v4_witness:
  "udp_generate [] (V4 (Ipv4Addr 8 8 8 8) 53) 2 @ [7, 9] =
     [1, 8, 8, 8, 8, 0, 53, 0, 2, 13, 10, 7] @ [9] \<and>
   udp_parse [1, 8, 8, 8, 8, 0, 53, 0, 2, 13, 10, 7] = Some Continued"
proof -
  have eq: "udp_generate [] (V4 (Ipv4Addr 8 8 8 8) 53) 2 @ [7, 9] =
      [1, 8, 8, 8, 8, 0, 53, 0, 2, 13, 10, 7] @ [9]"
    by (simp add: udp_generate_def u16_be_def IPV4_def)
  show ?thesis
    using eq udp_parse_prefix_v4 [OF _ _ eq] by (simp add: MAX_PACKET_SIZE_def)
qed

text \<open>An IPv6 packet cut short inside its address is rejected as a protocol violation instead of
  awaiting the rest: with 11 to 18 bytes received, \<open>UdpAssociate::parse\<close> answers
  \<open>InvalidProtocol\<close>, on which its callers close the connection.\<close>

theorem udp_parse_prefix_v6_rejected:
  assumes "11 \<le> n" and "n \<le> 18"
  shows "udp_parse (take n (udp_generate [] (V6 ip p fl sc) len @ d)) = Some InvalidProtocol"
proof -
  obtain m where n: "n = Suc m" using assms(1) by (cases n) auto
  let ?b = "take m (sock5_body (V6 ip p fl sc) @ u16_be len @ [CR, LF] @ d)"
  have b: "take n (udp_generate [] (V6 ip p fl sc) len @ d) = IPV6 # ?b"
    by (simp add: udp_generate_def n)
  have "length ?b = m" using assms n by simp
  moreover from this have "parse_address IPV6 ?b = Some None"
    using assms n by (simp add: parse_address_def proto_consts)
  ultimately show ?thesis
    using assms n unfolding b by (simp add: udp_parse_def udp_parse_with_def idx_def slice_from_def)
qed

theorem udp_parse_prefix_v6_rejected_witness:
  "udp_parse (take 12 (udp_generate [] (V6 (Ipv6Addr 1 2 3 4 5 6 7 8) 53 0 0) 1 @ [7])) =
     Some InvalidProtocol"
  using udp_parse_prefix_v6_rejected [of 12 "Ipv6Addr 1 2 3 4 5 6 7 8" 53 0 0 1 "[7]"] by simp

text \<open>The endpoint variants interoperate with the socket-address variants for IPv4: what
  \<open>generate_endpoint\<close> writes, the server's \<open>parse\<close> reads as the same address and port, and what the
  server's \<open>generate\<close> writes, \<open>parse_endpoint\<close> reads as the same endpoint.\<close>

theorem udp_endpoint_interop_v4:
  assumes "unat len \<le> MAX_PACKET_SIZE" and "unat len \<le> length d"
  shows "\<exists>h. udp_generate_endpoint [] \<lparr>addr = SmolIpv4 ip, port = p\<rparr> len = Some h \<and>
      udp_parse (h @ d) =
        Some (Packet \<lparr>udp_address = V4 ip p, udp_length = unat len, udp_payload = d\<rparr>) \<and>
      udp_parse_endpoint SM (udp_generate [] (V4 ip p) len @ d) =
        Some (Packet \<lparr>udp_address = \<lparr>addr = SmolIpv4 ip, port = p\<rparr>, udp_length = unat len,
                      udp_payload = d\<rparr>)"
  using sock_frame.frame_roundtrip [OF TrueI assms, of "V4 ip p"]
    endpoint_frame.frame_roundtrip [OF _ assms, of "\<lparr>addr = SmolIpv4 ip, port = p\<rparr>" SM]
  by (simp add: udp_generate_endpoint_def sock5_generate_endpoint_def udp_parse_def
      udp_parse_endpoint_def udp_generate_def endpoint_is_v4_def endpoint_body_def)

theorem udp_endpoint_interop_v4_witness:
  "unat (1 :: u16) \<le> MAX_PACKET_SIZE \<and>
   udp_parse_endpoint \<lparr>ipv6_from_bytes = Some, ip_address_from = (\<lambda>_. SmolOther)\<rparr>
     (udp_generate [] (V4 (Ipv4Addr 8 8 4 4) 53) 1 @ [7]) =
   Some (Packet \<lparr>udp_address = \<lparr>addr = SmolIpv4 (Ipv4Addr 8 8 4 4), port = 53\<rparr>, udp_length = 1,
                 udp_payload = [7]\<rparr>)"
  using udp_endpoint_interop_v4 [of 1 "[7]" "Ipv4Addr 8 8 4 4" 53
      "\<lparr>ipv6_from_bytes = Some, ip_address_from = (\<lambda>_. SmolOther)\<rparr>"]
  by (auto simp: MAX_PACKET_SIZE_def)

text \<open>C25. \<open>parse_address_endpoint\<close> hands \<open>Ipv6Address::from_bytes\<close> the whole rest of the buffer, which
  is at least 18 bytes long. smoltcp documents that this function panics unless it is given exactly
  sixteen octets, so every UDP packet the server sends from an IPv6 address makes the receiving
  client panic.\<close>

theorem udp_parse_endpoint_v6_panics:
  assumes "\<forall>b. length b \<noteq> 16 \<longrightarrow> ipv6_from_bytes SM b = None"
  shows "udp_parse_endpoint SM (udp_generate [] (V6 ip p fl sc) len @ d) = None"
  using assms
  by (simp add: udp_parse_endpoint_def udp_parse_with_def udp_generate_def idx_def slice_from_def
      parse_address_endpoint_def proto_consts)

theorem udp_parse_endpoint_v6_panics_witness:
  "udp_parse_endpoint
     \<lparr>ipv6_from_bytes = (\<lambda>b. if length b = 16 then Some b else None), ip_address_from = (\<lambda>_. SmolOther)\<rparr>
     (udp_generate [] (V6 (Ipv6Addr 1 2 3 4 5 6 7 8) 53 0 0) 1 @ [7]) = None"
  by (rule udp_parse_endpoint_v6_panics) simp

end
