(* ===== verification/Backend.thy ===== *)
theory Backend
  imports Tcp_Util Proto
begin

text \<open>
  The server's two backends, \<open>src/src/server/tcp_backend.rs\<close> and \<open>src/src/server/udp_backend.rs\<close>, and
  the trait \<open>Backend\<close> of \<open>src/src/server/tls_server.rs\<close>, whose object type \<open>Box<dyn Backend>\<close> is the
  datatype \<open>backend\<close>. The byte counters of the UDP backend, which nothing reads, wrap around.
\<close>

section \<open>TCP backend\<close>

record tcp_backend =
  tb_conn :: sock
  tb_status :: conn_status
  tb_index :: usize
  tb_timeout :: duration
  tb_send_buffer :: bytes
  tb_recv_buffer :: bytes

definition tcp_backend_provider :: "'w sys \<Rightarrow> (tcp_backend, 'w) status_provider" where
  "tcp_backend_provider S = \<lparr>
     set_status = (\<lambda>s b. b\<lparr>tb_status := s\<rparr>),
     get_status = tb_status,
     close_conn = (\<lambda>b w. (True, b, snd (tcp_shutdown S (tb_conn b) w))),
     deregister = (\<lambda>b w. (True, b, snd (poll_deregister S (tb_conn b) w))),
     finish_send = (\<lambda>b w. Some (tb_send_buffer b = []))\<rparr>"

definition tcp_backend_new :: "'w sys \<Rightarrow> opts \<Rightarrow> sock \<Rightarrow> usize \<Rightarrow> usize \<Rightarrow> 'w \<Rightarrow> tcp_backend io \<times> 'w" where
  "tcp_backend_new S cfg conn index token w =
     (case poll_register S conn token w of
        (Inl e, w) \<Rightarrow> (Inl e, w)
      | (Inr _, w) \<Rightarrow>
          (case tcp_set_nodelay S conn w of
             (Inl e, w) \<Rightarrow> (Inl e, w)
           | (Inr _, w) \<Rightarrow>
               (Inr \<lparr>tb_conn = conn, tb_status = Established, tb_index = index,
                     tb_timeout = tcp_idle_duration cfg, tb_send_buffer = [],
                     tb_recv_buffer = replicate MAX_PACKET_SIZE 0\<rparr>, w)))"

definition tcp_backend_do_send :: "'w sys \<Rightarrow> tcp_backend \<Rightarrow> bytes \<Rightarrow> 'w \<Rightarrow> (tcp_backend \<times> 'w) rs" where
  "tcp_backend_do_send S b data w = do {
     (ok, buf, w) \<leftarrow> tcp_send S (tb_conn b) (tb_send_buffer b) data w;
     let b = b\<lparr>tb_send_buffer := buf\<rparr>;
     Some (if ok then (b, w) else snd (shutdown (tcp_backend_provider S) b w)) }"

definition tcp_backend_dispatch :: "'w sys \<Rightarrow> tcp_backend \<Rightarrow> bytes \<Rightarrow> 'w \<Rightarrow> (tcp_backend \<times> 'w) rs" where
  "tcp_backend_dispatch S b buffer w =
     (if tb_send_buffer b = [] then tcp_backend_do_send S b buffer w
      else tcp_backend_do_send S (b\<lparr>tb_send_buffer := []\<rparr>) (tb_send_buffer b @ buffer) w)"

definition tcp_backend_writable :: "tcp_backend \<Rightarrow> bool" where
  "tcp_backend_writable b \<longleftrightarrow> tb_send_buffer b = [] \<and> alive (tb_status b)"

definition tcp_backend_do_read :: "'w sys \<Rightarrow> tcp_backend \<Rightarrow> tls_conn \<Rightarrow> 'w \<Rightarrow>
    (tcp_backend \<times> tls_conn \<times> 'w) rs" where
  "tcp_backend_do_read S b c w = do {
     (ok, rb, c, w) \<leftarrow> tcp_read S (tb_conn b) (tb_recv_buffer b) c w;
     let b = b\<lparr>tb_recv_buffer := rb\<rparr>;
     let (b, w) = (if ok then (b, w) else snd (shutdown (tcp_backend_provider S) b w));
     (c, w) \<leftarrow> tls_do_send S c w;
     Some (b, c, w) }"

section \<open>UDP backend\<close>

record udp_backend =
  ub_socket :: sock
  ub_send_buffer :: bytes
  ub_recv_body :: bytes
  ub_recv_head :: bytes
  ub_index :: usize
  ub_status :: conn_status
  ub_timeout :: duration
  ub_bytes_read :: usize
  ub_bytes_sent :: usize
  ub_remote_addr :: socket_addr

definition udp_backend_provider :: "'w sys \<Rightarrow> (udp_backend, 'w) status_provider" where
  "udp_backend_provider S = \<lparr>
     set_status = (\<lambda>s b. b\<lparr>ub_status := s\<rparr>),
     get_status = ub_status,
     close_conn = (\<lambda>b w. (True, b, w)),
     deregister = (\<lambda>b w. (True, b, snd (poll_deregister S (ub_socket b) w))),
     finish_send = (\<lambda>b w. map_option (\<lambda>r. \<not> (case r of Packet _ \<Rightarrow> True | _ \<Rightarrow> False))
                            (udp_parse (ub_send_buffer b)))\<rparr>"

definition udp_backend_new :: "'w sys \<Rightarrow> opts \<Rightarrow> sock \<Rightarrow> usize \<Rightarrow> usize \<Rightarrow> 'w \<Rightarrow>
    (udp_backend io \<times> 'w) rs" where
  "udp_backend_new S cfg socket index token w =
     (case poll_register S socket token w of
        (Inl e, w) \<Rightarrow> Some (Inl e, w)
      | (Inr _, w) \<Rightarrow>
          (case udp_local_addr S socket w of
             Inl e \<Rightarrow> None
           | Inr remote_addr \<Rightarrow>
               Some (Inr \<lparr>ub_socket = socket, ub_send_buffer = [], ub_recv_body = replicate MAX_PACKET_SIZE 0,
                     ub_recv_head = [], ub_index = index, ub_status = Established,
                     ub_timeout = udp_idle_duration cfg, ub_bytes_read = 0, ub_bytes_sent = 0,
                     ub_remote_addr = remote_addr\<rparr>, w)))"

definition udp_backend_shutdown :: "'w sys \<Rightarrow> udp_backend \<Rightarrow> 'w \<Rightarrow> udp_backend \<times> 'w" where
  "udp_backend_shutdown S b w = snd (shutdown (udp_backend_provider S) b w)"

lemma udp_parse_progress:
  "udp_parse b = Some (Packet p) \<Longrightarrow> length (udp_payload p) < length b"
  using sock_frame.frame_sound [of b p] by (simp add: udp_parse_def)

function udp_backend_do_send :: "'w sys \<Rightarrow> udp_backend \<Rightarrow> bytes \<Rightarrow> 'w \<Rightarrow> (udp_backend \<times> 'w) rs" where
  "udp_backend_do_send S b buffer w =
     (case udp_parse buffer of
        None \<Rightarrow> None
      | Some (Packet packet) \<Rightarrow>
          if length (udp_payload packet) < udp_length packet then None
          else (case udp_send_to S (ub_socket b) (take (udp_length packet) (udp_payload packet))
                       (udp_address packet) w of
                  (Inr n, w) \<Rightarrow>
                    if n \<noteq> udp_length packet then
                      Some (udp_backend_shutdown S (b\<lparr>ub_bytes_sent := ub_bytes_sent b + of_nat n\<rparr>) w)
                    else udp_backend_do_send S (b\<lparr>ub_bytes_sent := ub_bytes_sent b + of_nat n\<rparr>)
                           (drop (udp_length packet) (udp_payload packet)) w
                | (Inl e, w) \<Rightarrow>
                    if e = WouldBlock then Some (b\<lparr>ub_send_buffer := ub_send_buffer b @ buffer\<rparr>, w)
                    else Some (udp_backend_shutdown S b w))
      | Some InvalidProtocol \<Rightarrow> Some (udp_backend_shutdown S b w)
      | Some Continued \<Rightarrow> Some (b\<lparr>ub_send_buffer := ub_send_buffer b @ buffer\<rparr>, w))"
  by pat_completeness auto
termination
  by (relation "measure (\<lambda>(S, b, buffer, w). length buffer)") (auto dest: udp_parse_progress)

declare udp_backend_do_send.simps [simp del]

definition udp_backend_dispatch :: "'w sys \<Rightarrow> udp_backend \<Rightarrow> bytes \<Rightarrow> 'w \<Rightarrow> (udp_backend \<times> 'w) rs" where
  "udp_backend_dispatch S b buffer w =
     (if ub_send_buffer b = [] then udp_backend_do_send S b buffer w
      else udp_backend_do_send S (b\<lparr>ub_send_buffer := []\<rparr>) (ub_send_buffer b @ buffer) w)"

definition udp_backend_writable :: "udp_backend \<Rightarrow> bool" where
  "udp_backend_writable b \<longleftrightarrow> alive (ub_status b)"

partial_function (option) udp_backend_read_loop :: "'w sys \<Rightarrow> udp_backend \<Rightarrow> tls_conn \<Rightarrow> 'w \<Rightarrow>
    (udp_backend \<times> tls_conn \<times> 'w) rs" where
  "udp_backend_read_loop S b c w =
     (case udp_recv_from S (ub_socket b) (length (ub_recv_body b)) w of
        (Inr (bs, a), w) \<Rightarrow>
          if length (ub_recv_body b) < length bs then None
          else (case b\<lparr>ub_remote_addr := a, ub_bytes_read := ub_bytes_read b + of_nat (length bs),
                       ub_recv_body := bs @ drop (length bs) (ub_recv_body b),
                       ub_recv_head := udp_generate [] a (of_nat (length bs))\<rparr> of b \<Rightarrow>
                  (case tls_write_session S c (ub_recv_head b) w of (ok, c, w) \<Rightarrow>
                     if \<not> ok then Some (b, c, w)
                     else (case tls_write_session S c (take (length bs) (ub_recv_body b)) w of (ok, c, w) \<Rightarrow>
                             if ok then udp_backend_read_loop S b c w else Some (b, c, w))))
      | (Inl e, w) \<Rightarrow>
          if e = WouldBlock then Some (b, c, w)
          else (case udp_backend_shutdown S b w of (b, w) \<Rightarrow> Some (b, c, w)))"

definition udp_backend_do_read :: "'w sys \<Rightarrow> udp_backend \<Rightarrow> tls_conn \<Rightarrow> 'w \<Rightarrow>
    (udp_backend \<times> tls_conn \<times> 'w) rs" where
  "udp_backend_do_read S b c w = do {
     (b, c, w) \<leftarrow> udp_backend_read_loop S b c w;
     (c, w) \<leftarrow> tls_do_send S c w;
     Some (b, c, w) }"

section \<open>Backend objects\<close>

datatype backend = TcpBackend tcp_backend | UdpBackend udp_backend

fun backend_status :: "backend \<Rightarrow> conn_status" where
  "backend_status (TcpBackend b) = tb_status b"
| "backend_status (UdpBackend b) = ub_status b"

fun backend_dispatch :: "'w sys \<Rightarrow> backend \<Rightarrow> bytes \<Rightarrow> 'w \<Rightarrow> (backend \<times> 'w) rs" where
  "backend_dispatch S (TcpBackend b) d w = map_option (map_prod TcpBackend id) (tcp_backend_dispatch S b d w)"
| "backend_dispatch S (UdpBackend b) d w = map_option (map_prod UdpBackend id) (udp_backend_dispatch S b d w)"

fun backend_do_read :: "'w sys \<Rightarrow> backend \<Rightarrow> tls_conn \<Rightarrow> 'w \<Rightarrow> (backend \<times> tls_conn \<times> 'w) rs" where
  "backend_do_read S (TcpBackend b) c w = map_option (map_prod TcpBackend id) (tcp_backend_do_read S b c w)"
| "backend_do_read S (UdpBackend b) c w = map_option (map_prod UdpBackend id) (udp_backend_do_read S b c w)"

fun backend_writable :: "backend \<Rightarrow> bool" where
  "backend_writable (TcpBackend b) = tcp_backend_writable b"
| "backend_writable (UdpBackend b) = udp_backend_writable b"

fun backend_get_timeout :: "backend \<Rightarrow> duration" where
  "backend_get_timeout (TcpBackend b) = tb_timeout b"
| "backend_get_timeout (UdpBackend b) = ub_timeout b"

text \<open>\<open>t2 - t1\<close> of two instants saturates at zero.\<close>

definition backend_timeout :: "backend \<Rightarrow> instant \<Rightarrow> instant \<Rightarrow> bool" where
  "backend_timeout b t1 t2 \<longleftrightarrow> backend_get_timeout b < t2 - t1"

fun backend_set_status :: "conn_status \<Rightarrow> backend \<Rightarrow> backend" where
  "backend_set_status s (TcpBackend b) = TcpBackend (b\<lparr>tb_status := s\<rparr>)"
| "backend_set_status s (UdpBackend b) = UdpBackend (b\<lparr>ub_status := s\<rparr>)"

fun backend_close_conn :: "'w sys \<Rightarrow> backend \<Rightarrow> 'w \<Rightarrow> bool \<times> backend \<times> 'w" where
  "backend_close_conn S (TcpBackend b) w =
     (case close_conn (tcp_backend_provider S) b w of (ok, b, w) \<Rightarrow> (ok, TcpBackend b, w))"
| "backend_close_conn S (UdpBackend b) w =
     (case close_conn (udp_backend_provider S) b w of (ok, b, w) \<Rightarrow> (ok, UdpBackend b, w))"

fun backend_deregister :: "'w sys \<Rightarrow> backend \<Rightarrow> 'w \<Rightarrow> bool \<times> backend \<times> 'w" where
  "backend_deregister S (TcpBackend b) w =
     (case deregister (tcp_backend_provider S) b w of (ok, b, w) \<Rightarrow> (ok, TcpBackend b, w))"
| "backend_deregister S (UdpBackend b) w =
     (case deregister (udp_backend_provider S) b w of (ok, b, w) \<Rightarrow> (ok, UdpBackend b, w))"

fun backend_finish_send :: "'w sys \<Rightarrow> backend \<Rightarrow> 'w \<Rightarrow> bool rs" where
  "backend_finish_send S (TcpBackend b) w = finish_send (tcp_backend_provider S) b w"
| "backend_finish_send S (UdpBackend b) w = finish_send (udp_backend_provider S) b w"

definition backend_provider :: "'w sys \<Rightarrow> (backend, 'w) status_provider" where
  "backend_provider S = \<lparr>
     set_status = backend_set_status,
     get_status = backend_status,
     close_conn = backend_close_conn S,
     deregister = backend_deregister S,
     finish_send = backend_finish_send S\<rparr>"

section \<open>Life cycle of the backends\<close>

lemma udp_parse_returns: "udp_parse b \<noteq> None"
  using sock_frame.frame_total [of b] by (simp add: udp_parse_def)

interpretation tcpb: status_laws "tcp_backend_provider S" for S :: "'w sys"
  by unfold_locales (simp_all add: tcp_backend_provider_def)

interpretation udpb: status_laws "udp_backend_provider S" for S :: "'w sys"
  using udp_parse_returns by unfold_locales (auto simp: udp_backend_provider_def)

interpretation backend: status_laws "backend_provider S" for S :: "'w sys"
proof unfold_locales
  fix s :: conn_status and c :: backend and w :: 'w
  show "get_status (backend_provider S) (set_status (backend_provider S) s c) = s"
    by (cases c) (simp_all add: backend_provider_def)
  show "fst (close_conn (backend_provider S) c w)"
    by (cases c) (simp_all add: backend_provider_def tcp_backend_provider_def udp_backend_provider_def)
  show "get_status (backend_provider S) (fst (snd (close_conn (backend_provider S) c w))) =
      get_status (backend_provider S) c"
    by (cases c) (simp_all add: backend_provider_def tcp_backend_provider_def udp_backend_provider_def)
  show "fst (deregister (backend_provider S) c w)"
    by (cases c) (simp_all add: backend_provider_def tcp_backend_provider_def udp_backend_provider_def)
  show "finish_send (backend_provider S) c w \<noteq> None"
    using tcpb.finish_returns udpb.finish_returns by (cases c) (simp_all add: backend_provider_def)
qed

lemma provider_status [simp]:
  "get_status (tcp_backend_provider S) = tb_status"
  "get_status (udp_backend_provider S) = ub_status"
  "get_status (backend_provider S) = backend_status"
  by (simp_all add: tcp_backend_provider_def udp_backend_provider_def backend_provider_def)

fun backend_ident :: "backend \<Rightarrow> sock \<times> usize \<times> duration" where
  "backend_ident (TcpBackend b) = (tb_conn b, tb_index b, tb_timeout b)"
| "backend_ident (UdpBackend b) = (ub_socket b, ub_index b, ub_timeout b)"

fun backend_is_tcp :: "backend \<Rightarrow> bool" where
  "backend_is_tcp (TcpBackend b) = True"
| "backend_is_tcp (UdpBackend b) = False"

interpretation backend_frame: status_frame "backend_provider S" "\<lambda>b. (backend_is_tcp b, backend_ident b)"
  for S :: "'w sys"
proof unfold_locales
  fix s :: conn_status and b :: backend and w :: 'w
  show "(backend_is_tcp (set_status (backend_provider S) s b), backend_ident (set_status (backend_provider S) s b)) =
      (backend_is_tcp b, backend_ident b)"
    by (cases b) (simp_all add: backend_provider_def)
  show "(backend_is_tcp (fst (snd (close_conn (backend_provider S) b w))),
      backend_ident (fst (snd (close_conn (backend_provider S) b w)))) = (backend_is_tcp b, backend_ident b)"
    by (cases b) (simp_all add: backend_provider_def tcp_backend_provider_def udp_backend_provider_def)
  show "(backend_is_tcp (fst (snd (deregister (backend_provider S) b w))),
      backend_ident (fst (snd (deregister (backend_provider S) b w)))) = (backend_is_tcp b, backend_ident b)"
    by (cases b) (simp_all add: backend_provider_def tcp_backend_provider_def udp_backend_provider_def)
qed

lemma tcp_backend_shutdown_frame:
  "snd (shutdown (tcp_backend_provider S) b w) = (b', w') \<Longrightarrow>
     b' = b\<lparr>tb_status := max Shutdown (tb_status b)\<rparr>"
  by (cases "tb_status b") (auto simp: shutdown_def tcp_backend_provider_def max_def status_order)

lemma udp_backend_shutdown_frame:
  "udp_backend_shutdown S b w = (b', w') \<Longrightarrow>
     b' = b\<lparr>ub_status := max Shutdown (ub_status b)\<rparr> \<and> w' = w"
  by (cases "ub_status b")
    (auto simp: udp_backend_shutdown_def shutdown_def udp_backend_provider_def max_def status_order)

lemma udp_backend_shutdown_eq:
  "udp_backend_shutdown S b w = (b\<lparr>ub_status := max Shutdown (ub_status b)\<rparr>, w)"
  using udp_backend_shutdown_frame by (metis prod.collapse)

section \<open>What the server relies on from a backend\<close>

text \<open>The contract of the trait: forwarding and reading never move a status backwards, neither the
  backend's nor that of the TLS connection it writes to, they keep the backend's identity (its
  handle, index and timeout) and the connection's handles, and only a live backend is writable.\<close>

locale backend_laws =
  fixes status :: "'b \<Rightarrow> conn_status"
    and ident :: "'b \<Rightarrow> sock \<times> usize \<times> duration"
    and dispatch :: "'b \<Rightarrow> bytes \<Rightarrow> 'w \<Rightarrow> ('b \<times> 'w) rs"
    and do_read :: "'b \<Rightarrow> tls_conn \<Rightarrow> 'w \<Rightarrow> ('b \<times> tls_conn \<times> 'w) rs"
    and writable :: "'b \<Rightarrow> bool"
  assumes dispatch_keeps: "dispatch b d w = Some (b', w') \<Longrightarrow> status b \<le> status b' \<and> ident b' = ident b"
    and do_read_keeps: "do_read b c w = Some (b', c', w') \<Longrightarrow>
      status b \<le> status b' \<and> ident b' = ident b \<and> tls_evolves c c'"
    and writable_alive: "writable b \<Longrightarrow> alive (status b)"
begin

lemma closed_stays_closed:
  assumes "is_shutdown (status b)"
  shows "dispatch b d w = Some (b', w') \<Longrightarrow> is_shutdown (status b') \<and> \<not> writable b'"
    and "do_read b c w = Some (b', c', w') \<Longrightarrow> is_shutdown (status b') \<and> \<not> writable b'"
  using assms is_shutdown_mono dispatch_keeps do_read_keeps writable_alive shutdown_not_alive
  by blast+

end

lemma tcp_backend_do_send_keeps:
  "tcp_backend_do_send S b d w = Some (b', w') \<Longrightarrow>
     tb_status b \<le> tb_status b' \<and> tb_conn b' = tb_conn b \<and> tb_index b' = tb_index b \<and> tb_timeout b' = tb_timeout b"
  by (auto simp: tcp_backend_do_send_def Let_def dest!: tcp_backend_shutdown_frame
      split: bind_splits if_splits)

lemma tcp_read_evolves:
  assumes "tcp_read S s rb c w = Some (ok, rb', c', w')"
  shows "tls_evolves c c'"
proof -
  have "tls_evolves c (fst (snd (snd r)))" if "tcp_read S s rb c w = Some r" for r
  proof (rule tcp_read.raw_induct [where P = "\<lambda>S s rb c w r. tls_evolves c (fst (snd (snd r)))", OF _ that],
      goal_cases)
    case (1 f S s rb c w r)
    show ?case
      using 1(2)
      by (auto split: prod.splits sum.splits if_splits
          dest!: 1(1) tls_write_session_evolves intro: tls_evolves_trans)
  qed
  with assms show ?thesis by force
qed

lemma tcp_read_kept:
  assumes "tcp_read S s rb c w = Some (ok, rb', c', w')"
  shows "tls_kept c c'"
proof -
  have "tls_kept c (fst (snd (snd r)))" if "tcp_read S s rb c w = Some r" for r
  proof (rule tcp_read.raw_induct [where P = "\<lambda>S s rb c w r. tls_kept c (fst (snd (snd r)))", OF _ that],
      goal_cases)
    case (1 f S s rb c w r)
    show ?case
      using 1(2)
      by (auto split: prod.splits sum.splits if_splits
          dest!: 1(1) tls_write_session_kept intro: tls_kept_trans)
  qed
  with assms show ?thesis by force
qed

lemma tcp_backend_do_read_keeps:
  assumes "tcp_backend_do_read S b c w = Some (b', c', w')"
  shows "tb_status b \<le> tb_status b' \<and> tb_conn b' = tb_conn b \<and> tb_index b' = tb_index b \<and>
    tb_timeout b' = tb_timeout b \<and> tls_evolves c c'"
  using assms
  by (auto simp: tcp_backend_do_read_def Let_def
      dest!: tcp_backend_shutdown_frame tcp_read_evolves tls_do_send_evolves
      split: bind_splits if_splits prod.splits intro: tls_evolves_trans)

lemma udp_backend_do_send_keeps:
  assumes "udp_backend_do_send S b d w = Some (b', w')"
  shows "ub_status b \<le> ub_status b' \<and> ub_socket b' = ub_socket b \<and> ub_index b' = ub_index b \<and>
    ub_timeout b' = ub_timeout b"
  using assms
proof (induction S b d w rule: udp_backend_do_send.induct)
  case (1 S b d w)
  show ?case
  proof (cases "\<exists>p n w1. udp_parse d = Some (Packet p) \<and> udp_length p \<le> length (udp_payload p) \<and>
      udp_send_to S (ub_socket b) (take (udp_length p) (udp_payload p)) (udp_address p) w = (Inr n, w1) \<and>
      n = udp_length p")
    case True
    then obtain p w1 where p: "udp_parse d = Some (Packet p)" "\<not> length (udp_payload p) < udp_length p"
      "udp_send_to S (ub_socket b) (take (udp_length p) (udp_payload p)) (udp_address p) w = (Inr (udp_length p), w1)"
      by force
    have "\<not> udp_length p \<noteq> udp_length p" by simp
    from "1.IH" [OF p(1) refl p(2) p(3) [symmetric] refl this] "1.prems" p show ?thesis
      by (simp add: udp_backend_do_send.simps [of S b d w])
  next
    case False
    with "1.prems" show ?thesis
      by (auto simp: udp_backend_do_send.simps [of S b d w] dest!: udp_backend_shutdown_frame
          split: option.splits udp_parse_result.splits if_splits prod.splits sum.splits)
  qed
qed


lemma udp_backend_dispatch_keeps:
  assumes "udp_backend_dispatch S b d w = Some (b', w')"
  shows "ub_status b \<le> ub_status b' \<and> ub_socket b' = ub_socket b \<and> ub_index b' = ub_index b \<and>
    ub_timeout b' = ub_timeout b"
  using assms udp_backend_do_send_keeps [of S "b\<lparr>ub_send_buffer := []\<rparr>" "ub_send_buffer b @ d" w b' w']
    udp_backend_do_send_keeps [of S b d w b' w']
  by (auto simp: udp_backend_dispatch_def split: if_splits)

lemma udp_backend_read_loop_keeps:
  assumes "udp_backend_read_loop S b c w = Some (b', c', w')"
  shows "ub_status b \<le> ub_status b' \<and> ub_socket b' = ub_socket b \<and> ub_index b' = ub_index b \<and>
    ub_timeout b' = ub_timeout b \<and> tls_evolves c c'"
proof -
  define K where "K = (\<lambda>(b :: udp_backend) (b' :: udp_backend) c c'. ub_status b \<le> ub_status b' \<and> ub_socket b' = ub_socket b \<and>
    ub_index b' = ub_index b \<and> ub_timeout b' = ub_timeout b \<and> tls_evolves c c')"
  have "K b (fst r) c (fst (snd r))" if "udp_backend_read_loop S b c w = Some r" for r
  proof (rule udp_backend_read_loop.raw_induct
      [where P = "\<lambda>S b c w r. K b (fst r) c (fst (snd r))", OF _ that], goal_cases)
    case (1 f S b c w r)
    show ?case
      using 1(2)
      by (auto simp: K_def split: prod.splits sum.splits if_splits
          dest!: 1(1) [unfolded K_def] tls_write_session_evolves udp_backend_shutdown_frame
          intro: tls_evolves_trans)
  qed
  with assms show ?thesis by (force simp: K_def)
qed

lemma udp_backend_do_read_keeps:
  assumes "udp_backend_do_read S b c w = Some (b', c', w')"
  shows "ub_status b \<le> ub_status b' \<and> ub_socket b' = ub_socket b \<and> ub_index b' = ub_index b \<and>
    ub_timeout b' = ub_timeout b \<and> tls_evolves c c'"
  using assms
  by (auto simp: udp_backend_do_read_def dest!: udp_backend_read_loop_keeps tls_do_send_evolves
      split: bind_splits intro: tls_evolves_trans)


interpretation tcpb: backend_laws tb_status "\<lambda>b. (tb_conn b, tb_index b, tb_timeout b)"
  "tcp_backend_dispatch S" "tcp_backend_do_read S" tcp_backend_writable for S :: "'w sys"
  by unfold_locales
    (auto simp: tcp_backend_dispatch_def tcp_backend_writable_def
      dest!: tcp_backend_do_send_keeps tcp_backend_do_read_keeps split: if_splits)

interpretation udpb: backend_laws ub_status "\<lambda>b. (ub_socket b, ub_index b, ub_timeout b)"
  "udp_backend_dispatch S" "udp_backend_do_read S" udp_backend_writable for S :: "'w sys"
  by unfold_locales
    (auto simp: udp_backend_writable_def dest!: udp_backend_dispatch_keeps udp_backend_do_read_keeps)

interpretation backend: backend_laws backend_status backend_ident
  "backend_dispatch S" "backend_do_read S" backend_writable for S :: "'w sys"
proof unfold_locales
  fix b b' :: backend and d and c c' :: tls_conn and w w' :: 'w
  show "backend_dispatch S b d w = Some (b', w') \<Longrightarrow>
      backend_status b \<le> backend_status b' \<and> backend_ident b' = backend_ident b"
    by (cases b) (auto dest!: tcpb.dispatch_keeps udpb.dispatch_keeps)
  show "backend_do_read S b c w = Some (b', c', w') \<Longrightarrow>
      backend_status b \<le> backend_status b' \<and> backend_ident b' = backend_ident b \<and> tls_evolves c c'"
    by (cases b) (auto dest!: tcpb.do_read_keeps udpb.do_read_keeps)
  show "backend_writable b \<Longrightarrow> alive (backend_status b)"
    by (cases b) (auto simp: tcpb.writable_alive udpb.writable_alive)
qed

section \<open>Every call returns\<close>

text \<open>The documented behaviour of the calls that the loops depend on: a read stores at most as many
  bytes as there is room for, a write takes at most what it was given, what is pending on a socket
  (\<open>tp\<close>, \<open>up\<close>) shrinks with every read and is not changed by encrypting, the TLS sessions' input
  and output are finite, and a bound socket has a local address.\<close>

definition io_contract :: "'w sys \<Rightarrow> (sess \<Rightarrow> sock \<Rightarrow> 'w \<Rightarrow> nat) \<Rightarrow> (sess \<Rightarrow> sock \<Rightarrow> 'w \<Rightarrow> nat) \<Rightarrow>
    (sock \<Rightarrow> 'w \<Rightarrow> nat) \<Rightarrow> (sock \<Rightarrow> 'w \<Rightarrow> nat) \<Rightarrow> bool" where
  "io_contract S tin tout tp up \<longleftrightarrow>
     tls_input_finite S tin \<and> tls_output_ends S tout \<and>
     (\<forall>s d w n w'. tcp_write S s d w = (Inr n, w') \<longrightarrow> n \<le> length d) \<and>
     (\<forall>s n w bs w'. tcp_recv S s n w = (Inr bs, w') \<longrightarrow> length bs \<le> n \<and> (bs \<noteq> [] \<longrightarrow> tp s w' < tp s w)) \<and>
     (\<forall>s n w bs a w'. udp_recv_from S s n w = (Inr (bs, a), w') \<longrightarrow> length bs \<le> n \<and> up s w' < up s w) \<and>
     (\<forall>c d w r w' s. tls_writer_write_all S c d w = (r, w') \<longrightarrow> tp s w' = tp s w \<and> up s w' = up s w) \<and>
     (\<forall>s w. \<exists>a. udp_local_addr S s w = Inr a)"

lemma tls_write_session_pending:
  assumes "io_contract S tin tout tp up" and "tls_write_session S c d w = (True, c', w')"
  shows "tp s w' = tp s w \<and> up s w' = up s w"
  using assms by (auto simp: io_contract_def tls_write_session_def split: prod.splits sum.splits)

text \<open>Forwarding datagrams returns, whatever bytes arrive and whatever the socket answers.\<close>

lemma udp_backend_do_send_returns: "udp_backend_do_send S b d w \<noteq> None"
proof (induction S b d w rule: udp_backend_do_send.induct)
  case (1 S b d w)
  have fits: "\<not> length (udp_payload p) < udp_length p" if "udp_parse d = Some (Packet p)" for p
    using sock_frame.frame_sound [of d p] that by (simp add: udp_parse_def)
  show ?case
    using 1 fits udp_parse_returns [of d] unfolding udp_backend_do_send.simps [of S b d w]
    by (auto split: option.splits udp_parse_result.splits prod.splits sum.splits)
qed

lemma tcp_send_returns:
  assumes "io_contract S tin tout tp up"
  shows "tcp_send S s b d w \<noteq> None"
proof (induction "length d" arbitrary: d w rule: less_induct)
  case less
  have wr: "n \<le> length d" if "tcp_write S s d w = (Inr n, w')" for n w'
    using assms [unfolded io_contract_def, THEN conjunct2, THEN conjunct2, THEN conjunct1, rule_format, OF that] .
  show ?case
    using less [of "drop _ d"] wr
    by (subst tcp_send.simps) (auto simp: not_less split: prod.split sum.split)
qed

lemma tcp_read_returns:
  assumes "io_contract S tin tout tp up"
  shows "tcp_read S s rb c w \<noteq> None"
proof (induction "tp s w" arbitrary: rb c w rule: less_induct)
  case less
  have rd: "length bs \<le> length rb" "bs \<noteq> [] \<Longrightarrow> tp s w' < tp s w"
    if "tcp_recv S s (length rb) w = (Inr bs, w')" for bs w'
    using assms that by (auto simp: io_contract_def)
  have IH: "tcp_read S s rb' c' w2 \<noteq> None"
    if "tcp_recv S s (length rb) w = (Inr bs, w')" "bs \<noteq> []" "tls_write_session S c bs w' = (True, c', w2)"
    for bs w' c' w2 rb'
    using less [of w2 rb' c'] rd(2) [OF that(1,2)] tls_write_session_pending [OF assms that(3), of s] by simp
  show ?case
    using rd(1) IH by (subst tcp_read.simps) (auto split: prod.split sum.split simp: not_less)
qed

lemma udp_backend_read_loop_returns:
  assumes "io_contract S tin tout tp up"
  shows "udp_backend_read_loop S b c w \<noteq> None"
proof (induction "up (ub_socket b) w" arbitrary: b c w rule: less_induct)
  case less
  have rd: "length bs \<le> length (ub_recv_body b) \<and> up (ub_socket b) w' < up (ub_socket b) w"
    if "udp_recv_from S (ub_socket b) (length (ub_recv_body b)) w = (Inr (bs, a), w')" for bs a w'
    using assms that by (auto simp: io_contract_def)
  have IH: "udp_backend_read_loop S b' c2 w3 \<noteq> None"
    if "udp_recv_from S (ub_socket b) (length (ub_recv_body b)) w = (Inr (bs, a), w1)" "ub_socket b' = ub_socket b"
      "tls_write_session S c h w1 = (True, c1, w2)" "tls_write_session S c1 bs w2 = (True, c2, w3)"
    for bs a w1 h c1 w2 c2 w3 b'
    using less [of b' w3 c2] rd [OF that(1)] that(2)
      tls_write_session_pending [OF assms that(3), of "ub_socket b"]
      tls_write_session_pending [OF assms that(4), of "ub_socket b"] by simp
  show ?case
  proof (cases "udp_recv_from S (ub_socket b) (length (ub_recv_body b)) w")
    case (Pair r w1)
    show ?thesis
    proof (cases r)
      case (Inr x)
      with Pair rd IH show ?thesis
        by (cases x; subst udp_backend_read_loop.simps) (auto split: prod.split simp: not_less)
    qed (use Pair in \<open>subst udp_backend_read_loop.simps; auto split: prod.split\<close>)
  qed
qed

lemma backend_dispatch_returns:
  assumes "io_contract S tin tout tp up"
  shows "backend_dispatch S b d w \<noteq> None"
proof (cases b)
  case (TcpBackend t)
  have "tcp_backend_do_send S t' d' w \<noteq> None" for t' d'
    using tcp_send_returns [OF assms, of "tb_conn t'" "tb_send_buffer t'" d' w]
    by (auto simp: tcp_backend_do_send_def Let_def simp del: not_None_eq)
  then show ?thesis by (simp add: TcpBackend tcp_backend_dispatch_def)
next
  case (UdpBackend u)
  then show ?thesis
    by (simp add: udp_backend_dispatch_def udp_backend_do_send_returns del: not_None_eq)
qed

lemma backend_do_read_returns:
  assumes "io_contract S tin tout tp up"
  shows "backend_do_read S b c w \<noteq> None"
proof -
  have out: "tls_do_send S c w \<noteq> None" for c w
    using assms tls_do_send_returns by (auto simp: io_contract_def)
  show ?thesis
  proof (cases b)
    case (TcpBackend t)
    with tcp_read_returns [OF assms, of "tb_conn t" "tb_recv_buffer t" c w] out show ?thesis
      by (auto simp: tcp_backend_do_read_def Let_def bind_eq_None_conv simp del: not_None_eq split: prod.splits)
  next
    case (UdpBackend u)
    with udp_backend_read_loop_returns [OF assms, of u c w] out show ?thesis
      by (auto simp: udp_backend_do_read_def bind_eq_None_conv simp del: not_None_eq split: prod.splits)
  qed
qed

section \<open>Forwarding to a TCP target\<close>

text \<open>A sequence of dispatches, one per decrypted chunk.\<close>

fun tcp_backend_dispatches :: "'w sys \<Rightarrow> tcp_backend \<Rightarrow> bytes list \<Rightarrow> 'w \<Rightarrow> (tcp_backend \<times> 'w) rs" where
  "tcp_backend_dispatches S b [] w = Some (b, w)"
| "tcp_backend_dispatches S b (d # ds) w = do {
     (b, w) \<leftarrow> tcp_backend_dispatch S b d w;
     tcp_backend_dispatches S b ds w }"

text \<open>Shutting a stream down sends nothing.\<close>

definition tcp_shutdown_quiet :: "'w sys \<Rightarrow> (sock \<Rightarrow> 'w \<Rightarrow> bytes) \<Rightarrow> bool" where
  "tcp_shutdown_quiet S tx \<longleftrightarrow> (\<forall>s t w. tx t (snd (tcp_shutdown S s w)) = tx t w)"

lemma tcp_shutdown_tx:
  assumes "tcp_shutdown_quiet S tx" "snd (shutdown (tcp_backend_provider S) b w) = (b', w')"
  shows "tx t w' = tx t w"
  using assms by (auto simp: tcp_shutdown_quiet_def shutdown_def tcp_backend_provider_def split: if_splits)

lemma tcp_backend_do_send_conserves:
  assumes tx: "tcp_write_contract S tx" "tcp_shutdown_quiet S tx" and [simp]: "tb_send_buffer b = []"
  shows "\<exists>b' w' d1 d2. tcp_backend_do_send S b d w = Some (b', w') \<and> tb_conn b' = tb_conn b \<and>
    d = d1 @ d2 \<and> tx (tb_conn b) w' = tx (tb_conn b) w @ d1 \<and>
    (is_shutdown (tb_status b') \<and> tb_send_buffer b' = [] \<or> tb_status b' = tb_status b \<and> tb_send_buffer b' = d2)"
proof -
  obtain ok buf w1 d1 d2 where snd: "tcp_send S (tb_conn b) [] d w = Some (ok, buf, w1)"
    "d = d1 @ d2" "tx (tb_conn b) w1 = tx (tb_conn b) w @ d1" "buf = (if ok then d2 else [])"
    using tcp_send_conserves [OF tx(1), of "tb_conn b" "[]" d w] by (metis append_Nil)
  show ?thesis
  proof (cases ok)
    case True
    with snd show ?thesis by (auto simp: tcp_backend_do_send_def)
  next
    case False
    obtain b' w' where sd: "snd (shutdown (tcp_backend_provider S) (b\<lparr>tb_send_buffer := buf\<rparr>) w1) = (b', w')"
      by fastforce
    with tcp_backend_shutdown_frame [OF sd] tcp_shutdown_tx [OF tx(2) sd, of "tb_conn b"] False snd
    show ?thesis by (auto simp: tcp_backend_do_send_def is_shutdown_iff)
  qed
qed


lemma tcp_backend_dispatch_conserves:
  assumes tx: "tcp_write_contract S tx" "tcp_shutdown_quiet S tx"
  shows "\<exists>b' w' d1 d2. tcp_backend_dispatch S b d w = Some (b', w') \<and> tb_conn b' = tb_conn b \<and>
    tb_send_buffer b @ d = d1 @ d2 \<and> tx (tb_conn b) w' = tx (tb_conn b) w @ d1 \<and>
    (is_shutdown (tb_status b') \<and> tb_send_buffer b' = [] \<or> tb_status b' = tb_status b \<and> tb_send_buffer b' = d2)"
  using tcp_backend_do_send_conserves [OF tx, of b d w]
    tcp_backend_do_send_conserves [OF tx, of "b\<lparr>tb_send_buffer := []\<rparr>" "tb_send_buffer b @ d" w]
  by (cases "tb_send_buffer b = []") (simp_all add: tcp_backend_dispatch_def)

text \<open>C12. The TCP backend forwards a stream of chunks without losing, duplicating or reordering a
  byte: however the target's socket splits or blocks the writes, \<open>dispatch\<close> returns for every
  chunk, and as long as the backend has not been shut down by a socket error, what the socket has
  taken followed by what is still buffered is what was there before followed by all the chunks.\<close>

theorem tcp_backend_forwards:
  assumes "tcp_write_contract S tx" and "tcp_shutdown_quiet S tx"
  shows "\<exists>b' w'. tcp_backend_dispatches S b ds w = Some (b', w') \<and> tb_conn b' = tb_conn b \<and>
    (is_shutdown (tb_status b') \<or>
     tb_status b' = tb_status b \<and>
     tx (tb_conn b) w' @ tb_send_buffer b' = tx (tb_conn b) w @ tb_send_buffer b @ concat ds)"
proof (induction ds arbitrary: b w)
  case (Cons d ds)
  obtain b1 w1 d1 d2 where one: "tcp_backend_dispatch S b d w = Some (b1, w1)" "tb_conn b1 = tb_conn b"
    "tb_send_buffer b @ d = d1 @ d2" "tx (tb_conn b) w1 = tx (tb_conn b) w @ d1"
    "is_shutdown (tb_status b1) \<or> tb_status b1 = tb_status b \<and> tb_send_buffer b1 = d2"
    using tcp_backend_dispatch_conserves [OF assms, of b d w] by blast
  obtain b2 w2 where rest: "tcp_backend_dispatches S b1 ds w1 = Some (b2, w2)" "tb_conn b2 = tb_conn b1"
    "is_shutdown (tb_status b2) \<or> tb_status b2 = tb_status b1 \<and>
     tx (tb_conn b) w2 @ tb_send_buffer b2 = tx (tb_conn b) w1 @ tb_send_buffer b1 @ concat ds"
    using Cons [of b1 w1] one(2) by auto
  have "tx (tb_conn b) w @ d1 @ d2 @ concat ds = tx (tb_conn b) w @ tb_send_buffer b @ d @ concat ds"
    using one(3) by (metis append_assoc)
  with one rest show ?case by auto
qed simp

lemma sim_shutdown_quiet: "tcp_shutdown_quiet sim_sys (\<lambda>s w. sim_tx w s)"
  by (simp add: tcp_shutdown_quiet_def)

definition sample_tcp_backend :: tcp_backend where
  "sample_tcp_backend = \<lparr>tb_conn = 3, tb_status = Established, tb_index = 2, tb_timeout = 600,
     tb_send_buffer = [1], tb_recv_buffer = replicate 4 0\<rparr>"

theorem tcp_backend_forwards_witness:
  "tcp_write_contract sim_sys (\<lambda>s w. sim_tx w s) \<and> tcp_shutdown_quiet sim_sys (\<lambda>s w. sim_tx w s) \<and>
   (\<exists>b' w'. tcp_backend_dispatches sim_sys sample_tcp_backend [[2, 3], [4]] (sim_idle\<lparr>sim_room := \<lambda>_. 2\<rparr>)
      = Some (b', w') \<and>
      (is_shutdown (tb_status b') \<or> sim_tx w' 3 @ tb_send_buffer b' = [1, 2, 3, 4]))"
  using sim_tcp_contract sim_shutdown_quiet
    tcp_backend_forwards [OF sim_tcp_contract sim_shutdown_quiet, of sample_tcp_backend "[[2, 3], [4]]"
      "sim_idle\<lparr>sim_room := \<lambda>_. 2\<rparr>"]
  by (auto simp: sample_tcp_backend_def sim_idle_def)

section \<open>Forwarding datagrams\<close>

text \<open>The stream a client sends: each datagram behind its header. The target addresses are IPv4; an
  IPv6 header that arrives in pieces is rejected by the parser.\<close>

definition udp_frame_bytes :: "socket_addr \<times> bytes \<Rightarrow> bytes" where
  "udp_frame_bytes x = udp_generate [] (fst x) (of_nat (length (snd x))) @ snd x"

definition udp_stream :: "(socket_addr \<times> bytes) list \<Rightarrow> bytes" where
  "udp_stream xs = concat (map udp_frame_bytes xs)"

definition udp_sendable :: "socket_addr \<times> bytes \<Rightarrow> bool" where
  "udp_sendable x \<longleftrightarrow> sock_is_ipv4 (fst x) \<and> length (snd x) \<le> MAX_PACKET_SIZE"

lemma udp_sendable_length: "udp_sendable x \<Longrightarrow> unat (of_nat (length (snd x)) :: u16) = length (snd x)"
  by (simp add: udp_sendable_def MAX_PACKET_SIZE_def unat_of_nat take_bit_nat_eq_self_iff)

lemma udp_parse_frame:
  assumes "udp_sendable x"
  shows "udp_parse (udp_frame_bytes x @ r) =
    Some (Packet \<lparr>udp_address = fst x, udp_length = length (snd x), udp_payload = snd x @ r\<rparr>)"
proof -
  have "wire_addr (fst x) = fst x" using assms by (cases "fst x") (auto simp: udp_sendable_def)
  with sock_frame.frame_roundtrip
    [where a = "fst x" and len = "of_nat (length (snd x))" and d = "snd x @ r"] assms show ?thesis
    by (simp add: udp_parse_def udp_frame_bytes_def udp_generate_def sock5_generate_eq
        udp_sendable_length udp_sendable_def)
qed

lemma udp_parse_cut_frame:
  assumes "udp_sendable x" and "c @ c' = udp_frame_bytes x" and "c' \<noteq> []"
  shows "udp_parse c = Some Continued"
proof -
  obtain ip p where "fst x = V4 ip p" using assms(1) by (cases "fst x") (auto simp: udp_sendable_def)
  then show ?thesis
    using udp_parse_cut_v4 [of "of_nat (length (snd x))" "snd x" ip p c c'] assms
    by (simp add: udp_sendable_length udp_frame_bytes_def) (simp add: udp_sendable_def)
qed

text \<open>What may be left over after sending, when \<open>rest\<close> is still to arrive: the datagrams \<open>rs\<close> that
  have not been sent, cut at \<open>rest\<close>. The first of them is incomplete, or the socket refused it.\<close>

definition udp_pending :: "'w sys \<Rightarrow> sock \<Rightarrow> bytes \<Rightarrow> bytes \<Rightarrow> (socket_addr \<times> bytes) list \<Rightarrow> bool" where
  "udp_pending S s buf rest rs \<longleftrightarrow>
     buf @ rest = udp_stream rs \<and>
     (rs = [] \<or> length buf < length (udp_frame_bytes (hd rs)) \<or>
      (\<exists>w. fst (udp_send_to S s (snd (hd rs)) (fst (hd rs)) w) = Inl WouldBlock))"

lemma udp_backend_do_send_stream:
  assumes "udp_send_contract S sent"
  shows "list_all udp_sendable ps \<Longrightarrow> buf @ rest = udp_stream ps \<Longrightarrow>
    \<exists>b' w'. udp_backend_do_send S b buf w = Some (b', w') \<and> ub_socket b' = ub_socket b \<and>
      (is_shutdown (ub_status b') \<or>
       (\<exists>qs rs buf2. ps = qs @ rs \<and> sent (ub_socket b) w' = sent (ub_socket b) w @ map prod.swap qs \<and>
          ub_status b' = ub_status b \<and> ub_send_buffer b' = ub_send_buffer b @ buf2 \<and>
          udp_pending S (ub_socket b) buf2 rest rs))"
proof (induction ps arbitrary: b buf w)
  case Nil
  then show ?case
    by (auto simp: udp_stream_def udp_pending_def udp_backend_do_send.simps [of S b "[]"] udp_parse_def
        udp_parse_with_def intro!: exI [of _ "[]"])
next
  case (Cons p ps)
  from Cons.prems have p: "udp_sendable p" and eq: "buf @ rest = udp_frame_bytes p @ udp_stream ps"
    by (simp_all add: udp_stream_def)
  show ?case
  proof (cases "length buf < length (udp_frame_bytes p)")
    case True
    with eq obtain c' where c': "buf @ c' = udp_frame_bytes p" "c' \<noteq> []"
      using append_cut_before by blast
    with Cons.prems True udp_parse_cut_frame [OF p c'] show ?thesis
      by (auto simp: udp_backend_do_send.simps [of S b buf] udp_pending_def intro!: exI [of _ "[]"])
  next
    case False
    with eq obtain buf1 where b1: "buf = udp_frame_bytes p @ buf1" "buf1 @ rest = udp_stream ps"
      using append_cut_after by blast
    note pkt = udp_parse_frame [OF p, of buf1, folded b1(1)]
    obtain r w1 where snd: "udp_send_to S (ub_socket b) (snd p) (fst p) w = (r, w1)" by fastforce
    show ?thesis
    proof (cases "r = Inr (length (snd p))")
      case True
      let ?b = "b\<lparr>ub_bytes_sent := ub_bytes_sent b + of_nat (length (snd p))\<rparr>"
      obtain b' w' where rec: "udp_backend_do_send S ?b buf1 w1 = Some (b', w')" "ub_socket b' = ub_socket b"
        and post: "is_shutdown (ub_status b') \<or>
          (\<exists>qs rs buf2. ps = qs @ rs \<and> sent (ub_socket b) w' = sent (ub_socket b) w1 @ map prod.swap qs \<and>
             ub_status b' = ub_status b \<and> ub_send_buffer b' = ub_send_buffer b @ buf2 \<and>
             udp_pending S (ub_socket b) buf2 rest rs)"
        using Cons.IH [OF _ b1(2), of ?b w1] Cons.prems(1) by auto
      from udp_send_contractD(1) [OF assms, of "ub_socket b" "snd p" "fst p" w] snd True
      have "sent (ub_socket b) w1 = sent (ub_socket b) w @ [prod.swap p]" by (simp add: prod.swap_def)
      with rec post pkt snd True show ?thesis
        by (auto simp: udp_backend_do_send.simps [of S b buf]
            intro: exI [of _ "p # qs" for qs])
          (metis append.assoc append_Cons append_Nil list.simps(9))+
    next
      case other: False
      show ?thesis
      proof (cases "r = Inl WouldBlock")
        case True
        with snd have "fst (udp_send_to S (ub_socket b) (snd p) (fst p) w) = Inl WouldBlock" by simp
        then have "udp_pending S (ub_socket b) buf rest (p # ps)"
          using Cons.prems(2) by (auto simp: udp_pending_def)
        with True snd pkt udp_send_contractD(2) [OF assms, of "ub_socket b" "snd p" "fst p" w] show ?thesis
          by (auto simp: udp_backend_do_send.simps [of S b buf] intro!: exI [of _ "[]"])
      next
        case False
        with other snd pkt show ?thesis
          by (auto simp: udp_backend_do_send.simps [of S b buf] udp_backend_shutdown_eq is_shutdown_iff
              split: sum.splits)
      qed
    qed
  qed
qed

fun udp_backend_dispatches :: "'w sys \<Rightarrow> udp_backend \<Rightarrow> bytes list \<Rightarrow> 'w \<Rightarrow> (udp_backend \<times> 'w) rs" where
  "udp_backend_dispatches S b [] w = Some (b, w)"
| "udp_backend_dispatches S b (d # ds) w = do {
     (b, w) \<leftarrow> udp_backend_dispatch S b d w;
     udp_backend_dispatches S b ds w }"

lemma udp_backend_dispatch_eq:
  "udp_backend_dispatch S b d w = udp_backend_do_send S (b\<lparr>ub_send_buffer := []\<rparr>) (ub_send_buffer b @ d) w"
proof (cases "ub_send_buffer b = []")
  case True
  then have b: "b\<lparr>ub_send_buffer := []\<rparr> = b" by simp
  show ?thesis unfolding b udp_backend_dispatch_def by (simp add: True)
qed (simp add: udp_backend_dispatch_def)

lemma udp_backend_dispatches_closed:
  "\<exists>b' w'. udp_backend_dispatches S b ds w = Some (b', w') \<and>
     (is_shutdown (ub_status b) \<longrightarrow> is_shutdown (ub_status b'))"
proof (induction ds arbitrary: b w)
  case (Cons d ds)
  obtain b1 w1 where one: "udp_backend_dispatch S b d w = Some (b1, w1)"
    using udp_backend_do_send_returns [of S "b\<lparr>ub_send_buffer := []\<rparr>" "ub_send_buffer b @ d" w]
    by (auto simp: udp_backend_dispatch_eq)
  with Cons [of b1 w1] udpb.closed_stays_closed(1) [OF _ one] show ?case by auto
qed simp

lemma udp_backend_dispatches_stream:
  assumes "udp_send_contract S sent"
  shows "list_all udp_sendable ps \<Longrightarrow> udp_pending S (ub_socket b) (ub_send_buffer b) (concat ds) ps \<Longrightarrow>
    \<exists>b' w'. udp_backend_dispatches S b ds w = Some (b', w') \<and>
      (is_shutdown (ub_status b') \<or>
       (\<exists>qs rs. ps = qs @ rs \<and> sent (ub_socket b) w' = sent (ub_socket b) w @ map prod.swap qs \<and>
          ub_status b' = ub_status b \<and> udp_pending S (ub_socket b) (ub_send_buffer b') [] rs))"
proof (induction ds arbitrary: b w ps)
  case (Cons d ds)
  have "(ub_send_buffer b @ d) @ concat ds = udp_stream ps"
    using Cons.prems(2) by (simp add: udp_pending_def)
  from udp_backend_do_send_stream [OF assms Cons.prems(1) this, of "b\<lparr>ub_send_buffer := []\<rparr>" w]
  obtain b1 w1 where one: "udp_backend_dispatch S b d w = Some (b1, w1)" "ub_socket b1 = ub_socket b"
    and post: "is_shutdown (ub_status b1) \<or>
       (\<exists>qs rs. ps = qs @ rs \<and> sent (ub_socket b) w1 = sent (ub_socket b) w @ map prod.swap qs \<and>
          ub_status b1 = ub_status b \<and> udp_pending S (ub_socket b) (ub_send_buffer b1) (concat ds) rs)"
    by (auto simp: udp_backend_dispatch_eq)
  from post show ?case
  proof (elim disjE exE conjE)
    assume "is_shutdown (ub_status b1)"
    with one udp_backend_dispatches_closed [of S b1 ds w1] show ?thesis by auto
  next
    fix qs rs assume 1: "ps = qs @ rs" "sent (ub_socket b) w1 = sent (ub_socket b) w @ map prod.swap qs"
      "ub_status b1 = ub_status b" "udp_pending S (ub_socket b) (ub_send_buffer b1) (concat ds) rs"
    with Cons.prems(1) one(2) Cons.IH [of rs b1 w1] obtain b' w' where
      2: "udp_backend_dispatches S b1 ds w1 = Some (b', w')" "is_shutdown (ub_status b') \<or>
       (\<exists>qs' rs'. rs = qs' @ rs' \<and> sent (ub_socket b) w' = sent (ub_socket b) w1 @ map prod.swap qs' \<and>
          ub_status b' = ub_status b1 \<and> udp_pending S (ub_socket b) (ub_send_buffer b') [] rs')"
      by auto
    show ?thesis
    proof (cases "is_shutdown (ub_status b')")
      case False
      with 2 obtain qs' rs' where "rs = qs' @ rs'"
        "sent (ub_socket b) w' = sent (ub_socket b) w1 @ map prod.swap qs'"
        "ub_status b' = ub_status b1" "udp_pending S (ub_socket b) (ub_send_buffer b') [] rs'" by blast
      with 1 have "ps = (qs @ qs') @ rs'"
        "sent (ub_socket b) w' = sent (ub_socket b) w @ map prod.swap (qs @ qs')" "ub_status b' = ub_status b"
        "udp_pending S (ub_socket b) (ub_send_buffer b') [] rs'" by simp_all
      with 2(1) one(1) show ?thesis
        by (intro exI [of _ b'] exI [of _ w'] conjI disjI2 exI [of _ "qs @ qs'"] exI [of _ rs']) simp_all
    qed (use one 2 in auto)
  qed
qed auto

text \<open>C11. The UDP backend delivers the datagrams a client sends: however the stream of framed IPv4
  datagrams is cut into chunks, \<open>dispatch\<close> returns for each, and unless the backend has been shut
  down by a socket error, the datagrams sent are, in order and with their own address and bytes, a
  prefix of the client's; the frames of the others are buffered completely, and the first of them
  is one that the socket refused because it would block.\<close>

theorem udp_backend_delivers:
  assumes "udp_send_contract S sent" and "list_all udp_sendable ps"
    and "ub_send_buffer b = []" and "concat ds = udp_stream ps"
  shows "\<exists>b' w'. udp_backend_dispatches S b ds w = Some (b', w') \<and>
    (is_shutdown (ub_status b') \<or>
     (\<exists>qs rs. ps = qs @ rs \<and> sent (ub_socket b) w' = sent (ub_socket b) w @ map (\<lambda>(a, d). (d, a)) qs \<and>
        ub_status b' = ub_status b \<and> ub_send_buffer b' = udp_stream rs \<and>
        (rs \<noteq> [] \<longrightarrow>
           (\<exists>w0. fst (udp_send_to S (ub_socket b) (snd (hd rs)) (fst (hd rs)) w0) = Inl WouldBlock))))"
proof -
  have swap: "(\<lambda>(a, d). (d, a)) = (prod.swap :: socket_addr \<times> bytes \<Rightarrow> _)" by (auto simp: fun_eq_iff)
  have "length (udp_frame_bytes p) > 0" for p :: "socket_addr \<times> bytes"
    by (simp add: udp_frame_bytes_def udp_generate_def)
  with assms(3,4) have "udp_pending S (ub_socket b) (ub_send_buffer b) (concat ds) ps"
    by (auto simp: udp_pending_def)
  from udp_backend_dispatches_stream [OF assms(1,2) this, of w] show ?thesis
    unfolding swap
    by (elim exE conjE disjE) (force simp: udp_pending_def udp_stream_def neq_Nil_conv)+
qed

definition sample_udp_backend :: udp_backend where
  "sample_udp_backend = \<lparr>ub_socket = 3, ub_send_buffer = [], ub_recv_body = replicate 4 0, ub_recv_head = [],
     ub_index = 2, ub_status = Established, ub_timeout = 60, ub_bytes_read = 0, ub_bytes_sent = 0,
     ub_remote_addr = V4 (Ipv4Addr 0 0 0 0) 40000\<rparr>"

abbreviation sample_datagrams :: "(socket_addr \<times> bytes) list" where
  "sample_datagrams \<equiv> [(V4 (Ipv4Addr 8 8 8 8) 53, [7]), (V4 (Ipv4Addr 9 9 9 9) 53, [8, 9])]"

theorem udp_backend_delivers_witness:
  "list_all udp_sendable sample_datagrams \<and>
   concat [take 5 (udp_stream sample_datagrams), drop 5 (udp_stream sample_datagrams)] =
     udp_stream sample_datagrams \<and>
   (\<exists>b' w'. udp_backend_dispatches sim_sys sample_udp_backend
        [take 5 (udp_stream sample_datagrams), drop 5 (udp_stream sample_datagrams)]
        (sim_idle\<lparr>sim_room := \<lambda>_. 1\<rparr>) = Some (b', w') \<and>
      (is_shutdown (ub_status b') \<or> (\<exists>qs rs. sample_datagrams = qs @ rs \<and>
         sim_dgrams_out w' 3 = map (\<lambda>(a, d). (d, a)) qs \<and> ub_send_buffer b' = udp_stream rs)))"
proof -
  have ok: "list_all udp_sendable sample_datagrams"
    by (simp add: udp_sendable_def MAX_PACKET_SIZE_def)
  have cut: "concat [take 5 (udp_stream sample_datagrams), drop 5 (udp_stream sample_datagrams)] =
     udp_stream sample_datagrams" by simp
  have idle: "ub_send_buffer sample_udp_backend = []" by (simp add: sample_udp_backend_def)
  have env: "ub_socket sample_udp_backend = 3" "sim_dgrams_out (sim_idle\<lparr>sim_room := \<lambda>_. 1\<rparr>) 3 = []"
    by (simp_all add: sample_udp_backend_def sim_idle_def)
  from udp_backend_delivers [OF sim_udp_contract ok idle cut, of "sim_idle\<lparr>sim_room := \<lambda>_. 1\<rparr>"]
  show ?thesis unfolding env using ok cut by (elim exE conjE disjE) auto
qed

text \<open>\<open>check_status\<close> on a backend always returns, and the status it leaves is determined by the
  status before: a backend closed by its peer is deregistered as soon as everything for it has been
  sent and stays as it is until then, a backend that was shut down is deregistered, and any other
  status is unchanged.\<close>

theorem backend_check_status:
  "\<exists>b' w'. check_status (backend_provider S) b w = Some (b', w') \<and>
     backend_status b' =
       (case backend_status b of
          PeerClosed \<Rightarrow> if backend_finish_send S b w = Some True then Deregistered else PeerClosed
        | Shutdown \<Rightarrow> Deregistered
        | s \<Rightarrow> s)"
proof -
  have "finish_send (backend_provider S) = backend_finish_send S" by (simp add: backend_provider_def)
  with backend.check_status_settles [of S b w] show ?thesis by (auto simp: backend.settled_def)
qed

end
