(* ===== verification/Resolver.thy ===== *)
theory Resolver
  imports Sim_World "HOL-Library.Multiset"
begin

text \<open>
  The asynchronous name resolver with its cache (\<open>src/src/resolver.rs\<close>). A domain is looked up by a
  task on the thread pool (\<open>rayon::spawn\<close>), which sends its answer over a channel; the event loop
  consumes the channel, fills the cache and hands every answer to a callback. The tasks that were
  spawned and have not finished are part of the state, and \<open>resolver_step\<close> interleaves them with the
  event loop in any order. The lookup itself (\<open>utils::resolve\<close>, which drives a DNS message library,
  and the crate \<open>dns_lookup\<close>) is a parameter of the task.
\<close>

section \<open>Model\<close>

record dns_entry =
  entry_address :: ip_addr
  entry_expired_time :: instant

record resolve_job =
  job_domain :: bytes
  job_token :: usize
  job_server :: "bytes option"

record dns_resolver =
  rv_receiver :: bool
  rv_channel :: "(usize \<times> bytes \<times> ip_addr option) list"
  rv_jobs :: "resolve_job list"
  rv_cache :: "bytes \<rightharpoonup> dns_entry"
  rv_cache_duration :: duration
  rv_token :: usize
  rv_server :: "bytes option"

definition resolver_new :: "usize \<Rightarrow> bytes option \<Rightarrow> dns_resolver" where
  "resolver_new token server =
     \<lparr>rv_receiver = True, rv_channel = [], rv_jobs = [], rv_cache = Map.empty,
      rv_cache_duration = duration_from_secs 10, rv_token = token, rv_server = server\<rparr>"

definition set_cache_timeout :: "dns_resolver \<Rightarrow> u64 \<Rightarrow> dns_resolver" where
  "set_cache_timeout r timeout = r\<lparr>rv_cache_duration := duration_from_secs (unat timeout)\<rparr>"

definition update_dns :: "'w sys \<Rightarrow> dns_resolver \<Rightarrow> bytes \<Rightarrow> ip_addr \<Rightarrow> 'w \<Rightarrow> (dns_resolver \<times> 'w) rs" where
  "update_dns S r domain address w =
     (case instant_now S w of (now, w) \<Rightarrow> do {
        expired_time \<leftarrow> instant_add now (rv_cache_duration r);
        Some (r\<lparr>rv_cache := (rv_cache r)(domain \<mapsto>
                  \<lparr>entry_address = address, entry_expired_time = expired_time\<rparr>)\<rparr>, w) })"

definition query_dns :: "'w sys \<Rightarrow> dns_resolver \<Rightarrow> bytes \<Rightarrow> 'w \<Rightarrow> ip_addr option \<times> dns_resolver \<times> 'w" where
  "query_dns S r domain w =
     (case rv_cache r domain of
        Some entry \<Rightarrow>
          (case instant_now S w of (now, w) \<Rightarrow>
             if now < entry_expired_time entry then (Some (entry_address entry), r, w)
             else (None, r\<lparr>rv_cache := (rv_cache r)(domain := None)\<rparr>, w))
      | None \<Rightarrow> (None, r, w))"

text \<open>\<open>resolve\<close> spawns a task; a request without a token is answered under the resolver's own.\<close>

definition resolve :: "dns_resolver \<Rightarrow> bytes \<Rightarrow> usize option \<Rightarrow> dns_resolver" where
  "resolve r domain token =
     r\<lparr>rv_jobs := rv_jobs r @ [\<lparr>job_domain = domain,
          job_token = (case token of Some t \<Rightarrow> t | None \<Rightarrow> rv_token r), job_server = rv_server r\<rparr>]\<rparr>"

text \<open>The loop over the answers in the task: the last assignment wins, and the first IPv4 address
  ends the loop.\<close>

fun pick_address :: "ip_addr option \<Rightarrow> ip_addr list \<Rightarrow> ip_addr option rs" where
  "pick_address address [] = Some address"
| "pick_address address (addr # ips) = do {
     let address = (if address = None \<or> ip_is_ipv4 addr then Some addr else address);
     a \<leftarrow> unwrap address;
     if ip_is_ipv4 a then Some address else pick_address address ips }"

text \<open>The rest of the task body: task \<open>i\<close> ends with the outcome of its lookup.\<close>

definition job_finish :: "(bytes option \<Rightarrow> bytes \<Rightarrow> ip_addr list option) \<Rightarrow> dns_resolver \<Rightarrow> nat \<Rightarrow>
    dns_resolver rs" where
  "job_finish lookup r i = do {
     job \<leftarrow> idx (rv_jobs r) i;
     address \<leftarrow> (case lookup (job_server job) (job_domain job) of
        Some ips \<Rightarrow> pick_address None ips
      | None \<Rightarrow> Some None);
     Some (r\<lparr>rv_jobs := take i (rv_jobs r) @ drop (Suc i) (rv_jobs r),
            rv_channel := rv_channel r @ [(job_token job, job_domain job, address)]\<rparr>) }"

text \<open>\<open>consume\<close> takes the receiver out of the resolver while it drains the channel, calls \<open>f\<close> for
  every answer and puts the receiver back. An answer that a task sends meanwhile is one that was in
  the channel before, or stays for the next call.\<close>

fun consume_messages :: "'w sys \<Rightarrow> (usize \<Rightarrow> ip_addr option \<Rightarrow> 's \<Rightarrow> 'w \<Rightarrow> ('s \<times> 'w) rs) \<Rightarrow> dns_resolver \<Rightarrow>
    (usize \<times> bytes \<times> ip_addr option) list \<Rightarrow> 's \<Rightarrow> 'w \<Rightarrow> (dns_resolver \<times> 's \<times> 'w) rs" where
  "consume_messages S f r [] s w = Some (r, s, w)"
| "consume_messages S f r ((token, domain, ip) # ms) s w = do {
     (r, w) \<leftarrow> (case ip of Some ip \<Rightarrow> update_dns S r domain ip w | None \<Rightarrow> Some (r, w));
     (s, w) \<leftarrow> f token ip s w;
     consume_messages S f r ms s w }"

definition consume :: "'w sys \<Rightarrow> (usize \<Rightarrow> ip_addr option \<Rightarrow> 's \<Rightarrow> 'w \<Rightarrow> ('s \<times> 'w) rs) \<Rightarrow> dns_resolver \<Rightarrow>
    's \<Rightarrow> 'w \<Rightarrow> (dns_resolver \<times> 's \<times> 'w) rs" where
  "consume S f r s w =
     (if \<not> rv_receiver r then None
      else do {
        (r, s, w) \<leftarrow> consume_messages S f (r\<lparr>rv_receiver := False, rv_channel := []\<rparr>) (rv_channel r) s w;
        Some (r\<lparr>rv_receiver := True\<rparr>, s, w) })"

section \<open>Choosing an address\<close>

lemma pick_address_from:
  "pick_address (Some a) ips =
     Some (Some (if ip_is_ipv4 a then (if ips = [] \<or> \<not> ip_is_ipv4 (hd ips) then a else hd ips)
                 else case find ip_is_ipv4 ips of Some x \<Rightarrow> x | None \<Rightarrow> a))"
  by (induction ips arbitrary: a) auto

text \<open>The resolver task answers with the first IPv4 address of the lookup if there is one, with
  the first address otherwise, and with none only if the lookup returned no address. It never
  panics.\<close>

theorem pick_address_prefers_ipv4:
  "pick_address None ips =
     Some (case find ip_is_ipv4 ips of
             Some x \<Rightarrow> Some x
           | None \<Rightarrow> (case ips of [] \<Rightarrow> None | x # _ \<Rightarrow> Some x))"
  by (cases ips) (auto simp: pick_address_from split: option.split)

section \<open>The cache\<close>

lemma update_dns_query:
  assumes "update_dns S r d a w = Some (r', w')"
  shows "fst (query_dns S r' d2 w2) =
    (if d2 = d then (if fst (instant_now S w2) < fst (instant_now S w) + rv_cache_duration r then Some a else None)
     else fst (query_dns S r d2 w2))"
  using assms
  by (auto simp: update_dns_def query_dns_def instant_add_def split: bind_splits prod.splits option.splits if_splits)

text \<open>An address that was put into the cache is what later queries for that domain return, until
  the cache duration is over and never after; queries for other domains are not affected. A query
  that returns nothing leaves no entry for its domain behind.\<close>

theorem dns_cache_correct:
  assumes "update_dns S r d a w = Some (r', w')"
  shows "fst (query_dns S r' d2 w2) =
      (if d2 = d then (if fst (instant_now S w2) < fst (instant_now S w) + rv_cache_duration r then Some a else None)
       else fst (query_dns S r d2 w2)) \<and>
    (query_dns S r' d2 w2 = (None, r2, w3) \<longrightarrow> rv_cache r2 d2 = None)"
  using update_dns_query [OF assms]
  by (auto simp: query_dns_def split: option.splits prod.splits if_splits)

abbreviation sample_domain :: bytes where "sample_domain \<equiv> [97, 46, 98]"

theorem dns_cache_correct_witness:
  "\<exists>r' w'. update_dns sim_sys (resolver_new 2 None) sample_domain (IpV4 (Ipv4Addr 1 2 3 4)) sim_idle = Some (r', w') \<and>
     fst (query_dns sim_sys r' sample_domain (sim_idle\<lparr>sim_now := 9000000000\<rparr>)) = Some (IpV4 (Ipv4Addr 1 2 3 4)) \<and>
     fst (query_dns sim_sys r' sample_domain (sim_idle\<lparr>sim_now := 10000000000\<rparr>)) = None"
proof -
  obtain r' w' where up: "update_dns sim_sys (resolver_new 2 None) sample_domain
      (IpV4 (Ipv4Addr 1 2 3 4)) sim_idle = Some (r', w')"
    by (simp add: update_dns_def sim_idle_def instant_add_def resolver_new_def duration_from_secs_def)
  show ?thesis
    using up dns_cache_correct [OF up, of sample_domain "sim_idle\<lparr>sim_now := 9000000000\<rparr>"]
      dns_cache_correct [OF up, of sample_domain "sim_idle\<lparr>sim_now := 10000000000\<rparr>"]
    by (auto simp: sim_idle_def resolver_new_def duration_from_secs_def)
qed

section \<open>Requests and answers, interleaved\<close>

text \<open>The reachable states of a resolver, with the requests made so far (domain and token under
  which the answer is expected) and the answers the callback has seen. \<open>L\<close> are the lookups the name
  service may perform; every task uses one of them, and tasks finish in any order.\<close>

inductive resolver_reach :: "'w sys \<Rightarrow> (bytes option \<Rightarrow> bytes \<Rightarrow> ip_addr list option) set \<Rightarrow> dns_resolver \<Rightarrow>
    dns_resolver \<Rightarrow> (bytes \<times> usize) list \<Rightarrow> (usize \<times> ip_addr option) list \<Rightarrow> bool"
  for S :: "'w sys" and L and r0 where
  reach_init: "resolver_reach S L r0 r0 [] []"
| reach_request: "resolver_reach S L r0 r q a \<Longrightarrow>
    resolver_reach S L r0 (resolve r d t) (q @ [(d, case t of Some t \<Rightarrow> t | None \<Rightarrow> rv_token r)]) a"
| reach_query: "resolver_reach S L r0 r q a \<Longrightarrow> query_dns S r d w = (x, r', w') \<Longrightarrow>
    resolver_reach S L r0 r' q a"
| reach_finish: "resolver_reach S L r0 r q a \<Longrightarrow> lookup \<in> L \<Longrightarrow> job_finish lookup r i = Some r' \<Longrightarrow>
    resolver_reach S L r0 r' q a"
| reach_consume: "resolver_reach S L r0 r q a \<Longrightarrow>
    consume S (\<lambda>t ip a w. Some (a @ [(t, ip)], w)) r a w = Some (r', a', w') \<Longrightarrow>
    resolver_reach S L r0 r' q a'"

text \<open>The invariant: every request is in exactly one of the stages task, channel, answer, and an
  address in the channel or in the cache is one that a lookup of that very domain returned.\<close>

definition looked_up :: "(bytes option \<Rightarrow> bytes \<Rightarrow> ip_addr list option) set \<Rightarrow> bytes option \<Rightarrow> bytes \<Rightarrow>
    ip_addr \<Rightarrow> bool" where
  "looked_up L server d a \<longleftrightarrow> (\<exists>lookup\<in>L. \<exists>ips. lookup server d = Some ips \<and> a \<in> set ips)"

definition cache_ok :: "(bytes option \<Rightarrow> bytes \<Rightarrow> ip_addr list option) set \<Rightarrow> dns_resolver \<Rightarrow> bool" where
  "cache_ok L r \<longleftrightarrow> (\<forall>d e. rv_cache r d = Some e \<longrightarrow> looked_up L (rv_server r) d (entry_address e))"

definition channel_ok :: "(bytes option \<Rightarrow> bytes \<Rightarrow> ip_addr list option) set \<Rightarrow> bytes option \<Rightarrow>
    (usize \<times> bytes \<times> ip_addr option) list \<Rightarrow> bool" where
  "channel_ok L server ms \<longleftrightarrow> (\<forall>(t, d, ip)\<in>set ms. \<forall>a. ip = Some a \<longrightarrow> looked_up L server d a)"

definition resolver_inv :: "(bytes option \<Rightarrow> bytes \<Rightarrow> ip_addr list option) set \<Rightarrow> dns_resolver \<Rightarrow>
    (bytes \<times> usize) list \<Rightarrow> (usize \<times> ip_addr option) list \<Rightarrow> bool" where
  "resolver_inv L r q a \<longleftrightarrow>
     rv_receiver r \<and> cache_ok L r \<and> channel_ok L (rv_server r) (rv_channel r) \<and>
     (\<forall>j\<in>set (rv_jobs r). job_server j = rv_server r) \<and>
     mset (map snd q) = mset (map job_token (rv_jobs r)) + mset (map fst (rv_channel r)) + mset (map fst a)"

lemma pick_address_mem:
  "pick_address acc ips = Some (Some a) \<Longrightarrow> a \<in> set ips \<or> acc = Some a"
proof (induction ips arbitrary: acc)
  case (Cons x ips)
  then show ?case by (cases acc) (auto simp: Let_def split: if_splits)
qed simp

lemma job_finish_inv:
  assumes "resolver_inv L r q a" and "lookup \<in> L" and "job_finish lookup r i = Some r'"
  shows "resolver_inv L r' q a"
proof -
  obtain j ip where i: "i < length (rv_jobs r)" and j: "j = rv_jobs r ! i"
    and ip: "(case lookup (job_server j) (job_domain j) of Some ips \<Rightarrow> pick_address None ips | None \<Rightarrow> Some None) = Some ip"
    and r': "r' = r\<lparr>rv_jobs := take i (rv_jobs r) @ drop (Suc i) (rv_jobs r),
            rv_channel := rv_channel r @ [(job_token j, job_domain j, ip)]\<rparr>"
    using assms(3) by (auto simp: job_finish_def idx_def split: bind_splits if_splits)
  have js: "rv_jobs r = take i (rv_jobs r) @ j # drop (Suc i) (rv_jobs r)"
    using i j id_take_nth_drop by blast
  have "job_server j = rv_server r" using assms(1) i j by (simp add: resolver_inv_def)
  with ip assms(2) have "looked_up L (rv_server r) (job_domain j) x" if "ip = Some x" for x
    using that by (auto simp: looked_up_def dest: pick_address_mem split: option.splits)
  moreover have "mset (map job_token (rv_jobs r)) =
      add_mset (job_token j) (mset (map job_token (rv_jobs r')))"
    by (subst js) (simp add: r')
  moreover have "set (rv_jobs r') \<subseteq> set (rv_jobs r)" by (auto simp: r' dest: in_set_takeD in_set_dropD)
  ultimately show ?thesis
    using assms(1) by (auto simp: resolver_inv_def r' cache_ok_def channel_ok_def)
qed

lemma update_dns_cache_ok:
  "update_dns S r d x w = Some (r', w') \<Longrightarrow> cache_ok L r \<Longrightarrow> looked_up L (rv_server r) d x \<Longrightarrow>
     cache_ok L r' \<and> (\<exists>c. r' = r\<lparr>rv_cache := c\<rparr>)"
  by (auto simp: update_dns_def cache_ok_def split: bind_splits prod.splits if_splits)

lemma consume_messages_inv:
  "consume_messages S (\<lambda>t ip a w. Some (a @ [(t, ip)], w)) r ms a w = Some (r', a', w') \<Longrightarrow>
   cache_ok L r \<Longrightarrow> channel_ok L (rv_server r) ms \<Longrightarrow>
     cache_ok L r' \<and> (\<exists>c. r' = r\<lparr>rv_cache := c\<rparr>) \<and> mset (map fst a') = mset (map fst a) + mset (map fst ms)"
proof (induction ms arbitrary: r a w)
  case (Cons m ms)
  obtain t d ip where m: "m = (t, d, ip)" by (cases m)
  from Cons.prems(1) obtain r1 w1 where
    up: "(case ip of Some ip \<Rightarrow> update_dns S r d ip w | None \<Rightarrow> Some (r, w)) = Some (r1, w1)"
    and rest: "consume_messages S (\<lambda>t ip a w. Some (a @ [(t, ip)], w)) r1 ms (a @ [(t, ip)]) w1 = Some (r', a', w')"
    by (auto simp: m split: bind_splits)
  have r1: "cache_ok L r1" "\<exists>c. r1 = r\<lparr>rv_cache := c\<rparr>"
    using up update_dns_cache_ok [of S r d _ w r1 w1 L] Cons.prems(2,3)
    by (auto simp: m channel_ok_def split: option.splits intro!: exI [of _ "rv_cache r"])
  with Cons.IH [OF rest r1(1)] Cons.prems(3) show ?case by (auto simp: m channel_ok_def)
qed (auto intro!: exI [of _ "rv_cache r'"])

lemma resolver_reach_inv:
  assumes "resolver_reach S L r0 r q a" and "resolver_inv L r0 [] []"
  shows "resolver_inv L r q a"
  using assms
proof (induction rule: resolver_reach.induct)
  case (reach_request r q a d t)
  then show ?case
    by (auto simp: resolver_inv_def resolve_def cache_ok_def channel_ok_def)
next
  case (reach_query r q a d w x r' w')
  then show ?case
    by (auto simp: resolver_inv_def query_dns_def cache_ok_def split: option.splits prod.splits if_splits)
next
  case (reach_finish r q a lookup i r')
  then show ?case using job_finish_inv by blast
next
  case (reach_consume r q a w r' a' w')
  then obtain r2 where r2: "consume_messages S (\<lambda>t ip a w. Some (a @ [(t, ip)], w))
      (r\<lparr>rv_receiver := False, rv_channel := []\<rparr>) (rv_channel r) a w = Some (r2, a', w')"
    and r': "r' = r2\<lparr>rv_receiver := True\<rparr>" and inv: "resolver_inv L r q a"
    by (auto simp: consume_def split: bind_splits if_splits)
  from consume_messages_inv [OF r2, of L] inv show ?case
    by (auto simp: resolver_inv_def r' cache_ok_def channel_ok_def)
qed

lemma resolver_new_inv: "resolver_inv L (resolver_new t s) [] []"
  by (simp add: resolver_inv_def resolver_new_def cache_ok_def channel_ok_def)

text \<open>C22. Starting from a new resolver and in any interleaving of requests, queries, finishing tasks
  and \<open>consume\<close>, every request is answered at most once under its own token and none is forgotten:
  the tokens requested are those of the running tasks, of the answers in the channel and of the
  answers delivered. What the cache holds for a domain is an address that a lookup of that domain
  by the configured server returned.\<close>

theorem resolver_answers_every_request:
  assumes "resolver_reach S L (resolver_new t server) r q a"
  shows "mset (map snd q) = mset (map job_token (rv_jobs r)) + mset (map fst (rv_channel r)) + mset (map fst a) \<and>
    (\<forall>d e. rv_cache r d = Some e \<longrightarrow> (\<exists>lookup\<in>L. \<exists>ips. lookup (rv_server r) d = Some ips \<and> entry_address e \<in> set ips))"
  using resolver_reach_inv [OF assms resolver_new_inv]
  by (auto simp: resolver_inv_def cache_ok_def looked_up_def)

abbreviation sample_lookup :: "bytes option \<Rightarrow> bytes \<Rightarrow> ip_addr list option" where
  "sample_lookup \<equiv> \<lambda>_ _. Some [IpV4 (Ipv4Addr 1 2 3 4)]"

theorem resolver_answers_every_request_witness:
  "\<exists>r. resolver_reach sim_sys {sample_lookup} (resolver_new 2 None) r [(sample_domain, 7)] [] \<and>
     rv_channel r = [(7, sample_domain, Some (IpV4 (Ipv4Addr 1 2 3 4)))] \<and>
     {#7#} = mset (map job_token (rv_jobs r)) + mset (map fst (rv_channel r)) + {#}"
proof -
  let ?r = "resolve (resolver_new 2 None) sample_domain (Some 7)"
  have 1: "resolver_reach sim_sys {sample_lookup} (resolver_new 2 None) ?r [(sample_domain, 7)] []"
    using reach_request [OF reach_init, of sim_sys "{sample_lookup}" "resolver_new 2 None" sample_domain "Some 7"]
    by simp
  obtain r where r: "job_finish sample_lookup ?r 0 = Some r"
    "rv_channel r = [(7, sample_domain, Some (IpV4 (Ipv4Addr 1 2 3 4)))]"
    by (simp add: job_finish_def resolve_def resolver_new_def idx_def)
  have 2: "resolver_reach sim_sys {sample_lookup} (resolver_new 2 None) r [(sample_domain, 7)] []"
    by (rule reach_finish [OF 1 _ r(1)]) simp
  show ?thesis
    using 2 r(2) resolver_answers_every_request [OF 2] by auto
qed

end
