(* ===== verification/Server_Connection.thy ===== *)
theory Server_Connection
  imports Backend Resolver
begin

text \<open>
  One connection of the server (\<open>src/src/server/connection.rs\<close>): the TLS side towards the client, the
  backend towards the target, and the state machine that reads the request, waits for the name
  service, connects and forwards. The resolver is passed along as the code passes
  \<open>Option<&mut DnsResolver>\<close>.
\<close>

section \<open>Model\<close>

definition MIN_INDEX :: usize where "MIN_INDEX = 2"
definition CHANNEL_CNT :: usize where "CHANNEL_CNT = 2"
definition CHANNEL_PROXY :: usize where "CHANNEL_PROXY = 0"
definition CHANNEL_BACKEND :: usize where "CHANNEL_BACKEND = 1"
definition RESOLVER :: usize where "RESOLVER = 2"
definition LISTENER :: usize where "LISTENER = 1"
definition MAX_INDEX :: usize where "MAX_INDEX = (- 1) div CHANNEL_CNT"

lemmas server_consts = MIN_INDEX_def CHANNEL_CNT_def CHANNEL_PROXY_def CHANNEL_BACKEND_def
  RESOLVER_def LISTENER_def

datatype forward_status = HandShake | DnsWait | TCPForward | UDPForward

record connection =
  sc_index :: usize
  sc_proxy :: tls_conn
  sc_status :: forward_status
  sc_sock5_addr :: sock5_address
  sc_command :: u8
  sc_last_active_time :: instant
  sc_backend :: "backend option"
  sc_target_addr :: "socket_addr option"
  sc_data :: bytes
  sc_read_backend :: bool
  sc_read_proxy :: bool

datatype poll_event = Network net_event | DnsEvent usize "ip_addr option"

definition connection_new :: "'w sys \<Rightarrow> usize \<Rightarrow> tls_conn \<Rightarrow> 'w \<Rightarrow> connection \<times> 'w" where
  "connection_new S index proxy w =
     (case instant_now S w of (now, w) \<Rightarrow>
        (\<lparr>sc_index = index, sc_proxy = proxy, sc_status = HandShake, sc_sock5_addr = NoAddress,
          sc_command = 0, sc_last_active_time = now, sc_backend = None, sc_target_addr = None,
          sc_data = [], sc_read_backend = False, sc_read_proxy = False\<rparr>, w))"

definition proxy_shutdown :: "'w sys \<Rightarrow> connection \<Rightarrow> 'w \<Rightarrow> connection \<times> 'w" where
  "proxy_shutdown S c w = (case tls_shutdown S (sc_proxy c) w of (p, w) \<Rightarrow> (c\<lparr>sc_proxy := p\<rparr>, w))"

definition proxy_check_status :: "'w sys \<Rightarrow> connection \<Rightarrow> 'w \<Rightarrow> (connection \<times> 'w) rs" where
  "proxy_check_status S c w = do {
     (p, w) \<leftarrow> tls_check_status S (sc_proxy c) w;
     Some (c\<lparr>sc_proxy := p\<rparr>, w) }"

definition backend_check_status_of :: "'w sys \<Rightarrow> connection \<Rightarrow> 'w \<Rightarrow> (connection \<times> 'w) rs" where
  "backend_check_status_of S c w =
     (case sc_backend c of
        None \<Rightarrow> Some (c, w)
      | Some b \<Rightarrow> do {
          (b, w) \<leftarrow> check_status (backend_provider S) b w;
          Some (c\<lparr>sc_backend := Some b\<rparr>, w) })"

definition conn_destroy :: "'w sys \<Rightarrow> connection \<Rightarrow> 'w \<Rightarrow> (connection \<times> 'w) rs" where
  "conn_destroy S c w = do {
     let (c, w) = proxy_shutdown S c w;
     (c, w) \<leftarrow> proxy_check_status S c w;
     (case sc_backend c of
        None \<Rightarrow> Some (c, w)
      | Some b \<Rightarrow>
          (case shutdown (backend_provider S) b w of (_, b, w) \<Rightarrow>
             backend_check_status_of S (c\<lparr>sc_backend := Some b\<rparr>) w)) }"

text \<open>\<open>elapsed\<close> saturates at zero, like the difference of instants.\<close>

definition conn_timeout :: "'w sys \<Rightarrow> opts \<Rightarrow> connection \<Rightarrow> instant \<Rightarrow> 'w \<Rightarrow> bool \<times> 'w" where
  "conn_timeout S cfg c recent w =
     (case sc_backend c of
        Some b \<Rightarrow> (backend_timeout b (sc_last_active_time c) recent, w)
      | None \<Rightarrow> (case instant_now S w of (now, w) \<Rightarrow>
          (tcp_idle_timeout cfg < as_secs (now - sc_last_active_time c), w)))"

definition proxy_token :: "usize \<Rightarrow> bool" where
  "proxy_token token \<longleftrightarrow> token mod CHANNEL_CNT = CHANNEL_PROXY"

definition target_token :: "connection \<Rightarrow> usize rs" where
  "target_token c = do {
     t \<leftarrow> mul_checked (sc_index c) CHANNEL_CNT;
     add_checked t CHANNEL_BACKEND }"

definition conn_destroyed :: "connection \<Rightarrow> bool" where
  "conn_destroyed c \<longleftrightarrow>
     (case sc_backend c of
        Some b \<Rightarrow> is_deregistered (tc_status (sc_proxy c)) \<and> is_deregistered (backend_status b)
      | None \<Rightarrow> is_deregistered (tc_status (sc_proxy c)))"

text \<open>The request: its command and address go into the connection, its payload stays in the buffer.
  A buffer that is not a request is passed through to the default target.\<close>

definition handshake_request :: "opts \<Rightarrow> connection \<Rightarrow> bytes \<Rightarrow> (connection \<times> bytes) rs" where
  "handshake_request cfg c buffer = do {
     request \<leftarrow> trojan_request_parse cfg buffer;
     (case request of
        Some r \<Rightarrow> Some (c\<lparr>sc_command := command r, sc_sock5_addr := address r\<rparr>, payload r)
      | None \<Rightarrow> Some (c\<lparr>sc_command := CONNECT, sc_sock5_addr := NoAddress\<rparr>, buffer)) }"

definition try_handshake :: "'w sys \<Rightarrow> opts \<Rightarrow> connection \<Rightarrow> bytes \<Rightarrow> dns_resolver \<Rightarrow> 'w \<Rightarrow>
    (bool \<times> connection \<times> bytes \<times> dns_resolver \<times> 'w) rs" where
  "try_handshake S cfg c buffer resolver w = do {
     (c, buffer) \<leftarrow> handshake_request cfg c buffer;
     (case sc_sock5_addr c of
        Domain domain prt \<Rightarrow>
          if sc_command c \<noteq> CONNECT then Some (True, c, buffer, resolver, w)
          else (case query_dns S resolver domain w of
                  (Some ip, resolver, w) \<Rightarrow>
                    Some (True, c\<lparr>sc_target_addr := Some (socket_addr_new ip prt)\<rparr>, buffer, resolver, w)
                | (None, resolver, w) \<Rightarrow> do {
                    token \<leftarrow> target_token c;
                    Some (True, c, buffer, resolve resolver domain (Some token), w) })
      | Socket a \<Rightarrow> Some (True, c\<lparr>sc_target_addr := Some a\<rparr>, buffer, resolver, w)
      | NoAddress \<Rightarrow>
          if debug_enabled cfg \<and> back_addr cfg = None then None
          else Some (True, c\<lparr>sc_target_addr := back_addr cfg\<rparr>, buffer, resolver, w)
      | Endpoint _ \<Rightarrow> None) }"

definition try_setup_tcp_target :: "'w sys \<Rightarrow> opts \<Rightarrow> connection \<Rightarrow> 'w \<Rightarrow> (bool \<times> connection \<times> 'w) rs" where
  "try_setup_tcp_target S cfg c w = do {
     target \<leftarrow> unwrap (sc_target_addr c);
     (case tcp_connect S target w of
        (Inr s, w) \<Rightarrow> do {
          token \<leftarrow> target_token c;
          (case tcp_backend_new S cfg s (sc_index c) token w of
             (Inr backend, w) \<Rightarrow>
               if sc_data c \<noteq> [] then do {
                 (backend, w) \<leftarrow> tcp_backend_dispatch S backend (sc_data c) w;
                 Some (True, c\<lparr>sc_data := [], sc_backend := Some (TcpBackend backend)\<rparr>, w) }
               else Some (True, c\<lparr>sc_backend := Some (TcpBackend backend)\<rparr>, w)
           | (Inl e, w) \<Rightarrow> (case proxy_shutdown S c w of (c, w) \<Rightarrow> Some (True, c, w))) }
      | (Inl e, w) \<Rightarrow> (case proxy_shutdown S c w of (c, w) \<Rightarrow> Some (False, c, w))) }"

definition try_setup_udp_target :: "'w sys \<Rightarrow> opts \<Rightarrow> connection \<Rightarrow> 'w \<Rightarrow> (bool \<times> connection \<times> 'w) rs" where
  "try_setup_udp_target S cfg c w = do {
     empty \<leftarrow> unwrap (empty_addr cfg);
     (case udp_bind S empty w of
        (Inl e, w) \<Rightarrow> (case proxy_shutdown S c w of (c, w) \<Rightarrow> Some (False, c, w))
      | (Inr s, w) \<Rightarrow> do {
          token \<leftarrow> target_token c;
          (r, w) \<leftarrow> udp_backend_new S cfg s (sc_index c) token w;
          (case r of
             Inr backend \<Rightarrow> Some (True, c\<lparr>sc_backend := Some (UdpBackend backend)\<rparr>, w)
           | Inl e \<Rightarrow> (case proxy_shutdown S c w of (c, w) \<Rightarrow> Some (True, c, w))) }) }"

text \<open>The loop of \<open>dispatch\<close>: each round moves the connection to a later status or ends.\<close>

fun forward_rank :: "forward_status \<Rightarrow> nat" where
  "forward_rank HandShake = 2"
| "forward_rank DnsWait = 1"
| "forward_rank TCPForward = 0"
| "forward_rank UDPForward = 0"

definition dispatch_backend :: "'w sys \<Rightarrow> connection \<Rightarrow> bytes \<Rightarrow> 'w \<Rightarrow> (connection \<times> 'w) rs" where
  "dispatch_backend S c buffer w =
     (case sc_backend c of
        Some b \<Rightarrow> do { (b, w) \<leftarrow> backend_dispatch S b buffer w; Some (c\<lparr>sc_backend := Some b\<rparr>, w) }
      | None \<Rightarrow> Some (c, w))"

function conn_dispatch :: "'w sys \<Rightarrow> opts \<Rightarrow> connection \<Rightarrow> bytes \<Rightarrow> dns_resolver option \<Rightarrow> 'w \<Rightarrow>
    (connection \<times> dns_resolver option \<times> 'w) rs" where
  "conn_dispatch S cfg c buffer resolver w =
     (case sc_status c of
        HandShake \<Rightarrow>
          (case resolver of
             None \<Rightarrow> None
           | Some r \<Rightarrow>
               (case try_handshake S cfg c buffer r w of
                  None \<Rightarrow> None
                | Some (ok, c, buffer, r, w) \<Rightarrow>
                    if ok then conn_dispatch S cfg (c\<lparr>sc_status := DnsWait\<rparr>) buffer (Some r) w
                    else Some (c, Some r, w)))
      | DnsWait \<Rightarrow>
          if sc_command c = CONNECT then
            (case c\<lparr>sc_data := sc_data c @ buffer\<rparr> of c \<Rightarrow>
               if sc_target_addr c = None then Some (c, resolver, w)
               else (case try_setup_tcp_target S cfg c w of
                       None \<Rightarrow> None
                     | Some (ok, c, w) \<Rightarrow>
                         if ok then conn_dispatch S cfg (c\<lparr>sc_status := TCPForward\<rparr>) [] resolver w
                         else Some (c, resolver, w)))
          else (case try_setup_udp_target S cfg c w of
                  None \<Rightarrow> None
                | Some (ok, c, w) \<Rightarrow>
                    if ok then conn_dispatch S cfg (c\<lparr>sc_status := UDPForward\<rparr>) buffer resolver w
                    else Some (c, resolver, w))
      | _ \<Rightarrow> do { (c, w) \<leftarrow> dispatch_backend S c buffer w; Some (c, resolver, w) })"
  by pat_completeness auto
termination
  by (relation "measure (\<lambda>(S, cfg, c, buffer, resolver, w). forward_rank (sc_status c))") auto

declare conn_dispatch.simps [simp del]

definition try_resolve :: "'w sys \<Rightarrow> opts \<Rightarrow> connection \<Rightarrow> ip_addr option \<Rightarrow> 'w \<Rightarrow> (connection \<times> 'w) rs" where
  "try_resolve S cfg c ip w =
     (if sc_status c = DnsWait then
        (case sc_sock5_addr c of
           Domain domain prt \<Rightarrow>
             (case ip of
                Some a \<Rightarrow> do {
                  (c, _, w) \<leftarrow> conn_dispatch S cfg (c\<lparr>sc_target_addr := Some (socket_addr_new a prt)\<rparr>) [] None w;
                  Some (c, w) }
              | None \<Rightarrow> Some (proxy_shutdown S c w))
         | _ \<Rightarrow> Some (c, w))
      else Some (c, w))"

definition try_send_proxy :: "'w sys \<Rightarrow> connection \<Rightarrow> 'w \<Rightarrow> (connection \<times> 'w) rs" where
  "try_send_proxy S c w = do {
     (p, w) \<leftarrow> tls_do_send S (sc_proxy c) w;
     Some (c\<lparr>sc_proxy := p\<rparr>, w) }"

definition try_read_proxy :: "'w sys \<Rightarrow> opts \<Rightarrow> connection \<Rightarrow> dns_resolver option \<Rightarrow> 'w \<Rightarrow>
    (connection \<times> dns_resolver option \<times> 'w) rs" where
  "try_read_proxy S cfg c resolver w = do {
     (r, p, w) \<leftarrow> tls_do_read S (sc_proxy c) w;
     (case r of
        Some buffer \<Rightarrow> conn_dispatch S cfg (c\<lparr>sc_proxy := p\<rparr>) buffer resolver w
      | None \<Rightarrow> Some (c\<lparr>sc_proxy := p\<rparr>, resolver, w)) }"

definition read_backend :: "'w sys \<Rightarrow> connection \<Rightarrow> 'w \<Rightarrow> (connection \<times> 'w) rs" where
  "read_backend S c w =
     (case sc_backend c of
        Some b \<Rightarrow> do {
          (b, p, w) \<leftarrow> backend_do_read S b (sc_proxy c) w;
          Some (c\<lparr>sc_backend := Some b, sc_proxy := p\<rparr>, w) }
      | None \<Rightarrow> Some (c, w))"

text \<open>The branches of \<open>ready\<close>: an event of the client's socket, an event of the target's socket, and
  what follows every event.\<close>

definition proxy_readable :: "'w sys \<Rightarrow> opts \<Rightarrow> connection \<Rightarrow> dns_resolver option \<Rightarrow> 'w \<Rightarrow>
    (connection \<times> dns_resolver option \<times> 'w) rs" where
  "proxy_readable S cfg c resolver w =
     (if (case sc_backend c of Some b \<Rightarrow> backend_writable b | None \<Rightarrow> True)
      then try_read_proxy S cfg c resolver w
      else Some (c\<lparr>sc_read_proxy := True\<rparr>, resolver, w))"

definition proxy_writable :: "'w sys \<Rightarrow> connection \<Rightarrow> 'w \<Rightarrow> (connection \<times> 'w) rs" where
  "proxy_writable S c w = do {
     (c, w) \<leftarrow> try_send_proxy S (c\<lparr>sc_proxy := established (tls_provider S) (sc_proxy c)\<rparr>) w;
     if tls_is_writable (sc_proxy c) \<and> sc_read_backend c then do {
       (c, w) \<leftarrow> read_backend S c w;
       Some (c\<lparr>sc_read_backend := False\<rparr>, w) }
     else Some (c, w) }"

definition target_readable :: "'w sys \<Rightarrow> connection \<Rightarrow> 'w \<Rightarrow> (connection \<times> 'w) rs" where
  "target_readable S c w =
     (if tls_is_writable (sc_proxy c) then read_backend S c w
      else Some (c\<lparr>sc_read_backend := True\<rparr>, w))"

definition target_writable :: "'w sys \<Rightarrow> opts \<Rightarrow> connection \<Rightarrow> dns_resolver option \<Rightarrow> 'w \<Rightarrow>
    (connection \<times> dns_resolver option \<times> 'w) rs" where
  "target_writable S cfg c resolver w = do {
     (c, w) \<leftarrow> dispatch_backend S c [] w;
     if (case sc_backend c of Some b \<Rightarrow> backend_writable b | None \<Rightarrow> False) \<and> sc_read_proxy c then do {
       (c, resolver, w) \<leftarrow> try_read_proxy S cfg c resolver w;
       Some (c\<lparr>sc_read_proxy := False\<rparr>, resolver, w) }
     else Some (c, resolver, w) }"

definition conn_event :: "'w sys \<Rightarrow> opts \<Rightarrow> connection \<Rightarrow> poll_event \<Rightarrow> dns_resolver option \<Rightarrow> 'w \<Rightarrow>
    (connection \<times> dns_resolver option \<times> 'w) rs" where
  "conn_event S cfg c event resolver w =
     (case event of
        Network e \<Rightarrow>
          if proxy_token (ev_token e) then do {
            (c, resolver, w) \<leftarrow> (if ev_readable e then proxy_readable S cfg c resolver w else Some (c, resolver, w));
            (c, w) \<leftarrow> (if ev_writable e then proxy_writable S c w else Some (c, w));
            Some (c, resolver, w) }
          else if sc_status c \<in> {UDPForward, TCPForward} \<and> sc_backend c \<noteq> None then do {
            (c, w) \<leftarrow> (if ev_readable e then target_readable S c w else Some (c, w));
            (if ev_writable e then target_writable S cfg c resolver w else Some (c, resolver, w)) }
          else Some (c, resolver, w)
      | DnsEvent _ ip \<Rightarrow> do { (c, w) \<leftarrow> try_resolve S cfg c ip w; Some (c, resolver, w) })"

definition propagate_close :: "'w sys \<Rightarrow> connection \<Rightarrow> connection" where
  "propagate_close S c =
     (case sc_backend c of
        None \<Rightarrow> c
      | Some b \<Rightarrow>
          (let b = (if is_shutdown (tc_status (sc_proxy c)) then peer_closed (backend_provider S) b else b);
               p = (if is_shutdown (backend_status b) then peer_closed (tls_provider S) (sc_proxy c) else sc_proxy c)
           in c\<lparr>sc_backend := Some b, sc_proxy := p\<rparr>))"

definition conn_ready :: "'w sys \<Rightarrow> opts \<Rightarrow> connection \<Rightarrow> poll_event \<Rightarrow> dns_resolver option \<Rightarrow> 'w \<Rightarrow>
    (connection \<times> dns_resolver option \<times> 'w) rs" where
  "conn_ready S cfg c event resolver w = do {
     let (now, w) = instant_now S w;
     (c, resolver, w) \<leftarrow> conn_event S cfg (c\<lparr>sc_last_active_time := now\<rparr>) event resolver w;
     let c = propagate_close S c;
     (c, w) \<leftarrow> proxy_check_status S c w;
     (c, w) \<leftarrow> backend_check_status_of S c w;
     Some (c, resolver, w) }"

section \<open>Invariant\<close>

text \<open>What holds between two events. Before the request has been read there is nothing of the target.
  A connection that waits is a \<open>CONNECT\<close> to a domain whose address is not known yet, unless the
  client side was shut down. A forwarding connection has the backend of its kind, made with the
  connection's own index and with no data left to hand over, unless the client side was shut
  down.\<close>

abbreviation proxy_closed :: "connection \<Rightarrow> bool" where
  "proxy_closed c \<equiv> is_shutdown (tc_status (sc_proxy c))"

definition backend_of_conn :: "bool \<Rightarrow> connection \<Rightarrow> bool" where
  "backend_of_conn tcp c \<longleftrightarrow>
     (case sc_backend c of
        None \<Rightarrow> proxy_closed c
      | Some b \<Rightarrow> backend_is_tcp b = tcp \<and> fst (snd (backend_ident b)) = sc_index c \<and> sc_data c = [])"

definition conn_inv :: "connection \<Rightarrow> bool" where
  "conn_inv c \<longleftrightarrow>
     (case sc_status c of
        HandShake \<Rightarrow> sc_backend c = None \<and> sc_data c = [] \<and> sc_target_addr c = None
      | DnsWait \<Rightarrow> sc_backend c = None \<and> (sc_command c \<noteq> CONNECT \<longrightarrow> sc_data c = []) \<and>
          (proxy_closed c \<or> sc_command c = CONNECT \<and> sc_target_addr c = None \<and>
             (\<exists>d p. sc_sock5_addr c = Domain d p))
      | TCPForward \<Rightarrow> backend_of_conn True c
      | UDPForward \<Rightarrow> backend_of_conn False c)"

definition conn_keeps :: "connection \<Rightarrow> connection \<Rightarrow> bool" where
  "conn_keeps c c' \<longleftrightarrow> sc_index c' = sc_index c \<and> tls_evolves (sc_proxy c) (sc_proxy c')"

lemma conn_keeps_refl [simp]: "conn_keeps c c"
  by (simp add: conn_keeps_def)

lemma conn_keeps_trans: "conn_keeps a b \<Longrightarrow> conn_keeps b c \<Longrightarrow> conn_keeps a c"
  by (auto simp: conn_keeps_def intro: tls_evolves_trans)

lemma conn_keeps_closed: "conn_keeps c c' \<Longrightarrow> proxy_closed c \<Longrightarrow> proxy_closed c'"
  by (auto simp: conn_keeps_def tls_evolves_def intro: is_shutdown_mono)

lemma proxy_shutdown_spec:
  "proxy_shutdown S c w = (c', w') \<Longrightarrow>
     (\<exists>p. c' = c\<lparr>sc_proxy := p\<rparr>) \<and> conn_keeps c c' \<and> proxy_closed c'"
  by (auto simp: proxy_shutdown_def conn_keeps_def is_shutdown_iff
      dest: tls_shutdown_evolves tls_shutdown_status split: prod.splits)

text \<open>Updating the client side along its life cycle keeps the invariant.\<close>

lemma conn_inv_proxy: "conn_inv c \<Longrightarrow> tls_evolves (sc_proxy c) p \<Longrightarrow> conn_inv (c\<lparr>sc_proxy := p\<rparr>)"
  by (auto simp: conn_inv_def backend_of_conn_def tls_evolves_def
      split: forward_status.splits option.splits dest: is_shutdown_mono)

lemma conn_inv_flags [simp]:
  "conn_inv (c\<lparr>sc_read_proxy := x\<rparr>) = conn_inv c"
  "conn_inv (c\<lparr>sc_read_backend := x\<rparr>) = conn_inv c"
  "conn_inv (c\<lparr>sc_last_active_time := t\<rparr>) = conn_inv c"
  by (simp_all add: conn_inv_def backend_of_conn_def split: forward_status.splits option.splits)

lemma conn_inv_backend:
  assumes "conn_inv c" and "sc_backend c = Some b"
    and "backend_is_tcp b' = backend_is_tcp b" and "backend_ident b' = backend_ident b"
  shows "conn_inv (c\<lparr>sc_backend := Some b'\<rparr>)"
  using assms by (auto simp: conn_inv_def backend_of_conn_def split: forward_status.splits)

lemma backend_dispatch_kind:
  "backend_dispatch S b d w = Some (b', w') \<Longrightarrow> backend_is_tcp b' = backend_is_tcp b"
  by (cases b) auto

lemma backend_do_read_kind:
  "backend_do_read S b p w = Some (b', p', w') \<Longrightarrow> backend_is_tcp b' = backend_is_tcp b"
  by (cases b) auto

lemma dispatch_backend_inv:
  assumes "dispatch_backend S c d w = Some (c', w')"
  shows "(conn_inv c \<longrightarrow> conn_inv c') \<and> conn_keeps c c'"
proof (cases "sc_backend c")
  case (Some b)
  with assms obtain b' where r: "backend_dispatch S b d w = Some (b', w')"
    and c': "c' = c\<lparr>sc_backend := Some b'\<rparr>"
    by (auto simp: dispatch_backend_def split: bind_splits)
  from backend.dispatch_keeps [OF r] backend_dispatch_kind [OF r] show ?thesis
    using conn_inv_backend [OF _ Some, of b'] by (auto simp: c' conn_keeps_def)
qed (use assms in \<open>simp add: dispatch_backend_def\<close>)

lemma read_backend_inv:
  assumes "read_backend S c w = Some (c', w')"
  shows "(conn_inv c \<longrightarrow> conn_inv c') \<and> conn_keeps c c'"
proof (cases "sc_backend c")
  case (Some b)
  with assms obtain b' p where r: "backend_do_read S b (sc_proxy c) w = Some (b', p, w')"
    and c': "c' = c\<lparr>sc_backend := Some b', sc_proxy := p\<rparr>"
    by (auto simp: read_backend_def split: bind_splits)
  from backend.do_read_keeps [OF r] backend_do_read_kind [OF r] show ?thesis
    using conn_inv_proxy [of "c\<lparr>sc_backend := Some b'\<rparr>" p] conn_inv_backend [OF _ Some, of b']
    by (auto simp: c' conn_keeps_def)
qed (use assms in \<open>simp add: read_backend_def\<close>)

section \<open>Setting up the target\<close>

lemma tcp_backend_new_ident:
  "tcp_backend_new S cfg s i t w = (Inr b, w') \<Longrightarrow> tb_index b = i \<and> tb_conn b = s \<and> tb_send_buffer b = []"
  by (auto simp: tcp_backend_new_def split: prod.splits sum.splits)

lemma udp_backend_new_ident:
  "udp_backend_new S cfg s i t w = Some (Inr b, w') \<Longrightarrow> ub_index b = i \<and> ub_socket b = s \<and> ub_send_buffer b = []"
  by (auto simp: udp_backend_new_def split: prod.splits sum.splits)

text \<open>Both setups end with a backend of their kind that belongs to the connection and has taken over
  the data, or with the client side shut down.\<close>

definition target_ready :: "bool \<Rightarrow> connection \<Rightarrow> connection \<Rightarrow> bool" where
  "target_ready tcp c c' \<longleftrightarrow> conn_keeps c c' \<and> sc_status c' = sc_status c \<and> backend_of_conn tcp c'"

lemma try_setup_tcp_target_post:
  assumes "try_setup_tcp_target S cfg c w = Some (ok, c', w')" and "sc_backend c = None"
  shows "if ok then target_ready True c c' else (\<exists>p. c' = c\<lparr>sc_proxy := p\<rparr>) \<and> conn_keeps c c' \<and> proxy_closed c'"
  using assms
  by (auto simp: try_setup_tcp_target_def target_ready_def backend_of_conn_def conn_keeps_def
      split: prod.splits sum.splits bind_splits if_splits
      dest!: tcp_backend_new_ident proxy_shutdown_spec [unfolded conn_keeps_def] tcpb.dispatch_keeps)

lemma try_setup_udp_target_post:
  assumes "try_setup_udp_target S cfg c w = Some (ok, c', w')" and "sc_backend c = None" and "sc_data c = []"
  shows "if ok then target_ready False c c' else (\<exists>p. c' = c\<lparr>sc_proxy := p\<rparr>) \<and> conn_keeps c c' \<and> proxy_closed c'"
  using assms
  by (auto simp: try_setup_udp_target_def target_ready_def backend_of_conn_def conn_keeps_def
      split: prod.splits sum.splits bind_splits if_splits
      dest!: udp_backend_new_ident proxy_shutdown_spec [unfolded conn_keeps_def])

text \<open>The round of \<open>dispatch\<close> in status \<open>DnsWait\<close>, whether it is entered from the handshake, from a
  resolver answer or with more data.\<close>

definition dns_pre :: "connection \<Rightarrow> bool" where
  "dns_pre c \<longleftrightarrow> sc_status c = DnsWait \<and> sc_backend c = None \<and> (sc_command c \<noteq> CONNECT \<longrightarrow> sc_data c = []) \<and>
     (proxy_closed c \<or> (sc_command c = CONNECT \<and> sc_target_addr c = None \<longrightarrow> (\<exists>d p. sc_sock5_addr c = Domain d p)))"

lemma conn_dispatch_forward:
  assumes "sc_status c = TCPForward \<or> sc_status c = UDPForward"
  shows "conn_dispatch S cfg c d rv w = map_option (\<lambda>(c, w). (c, rv, w)) (dispatch_backend S c d w)"
  using assms by (cases "dispatch_backend S c d w") (auto simp: conn_dispatch.simps [of S cfg c])

lemma conn_dispatch_DnsWait_inv:
  assumes "conn_dispatch S cfg c d rv w = Some (c', rv', w')" and "dns_pre c"
  shows "conn_inv c' \<and> conn_keeps c c'"
proof -
  have st: "sc_status c = DnsWait" "sc_backend c = None" using assms(2) by (simp_all add: dns_pre_def)
  have fwd: "conn_inv c' \<and> conn_keeps c c'"
    if "target_ready tcp c1 c2" "conn_keeps c c1"
      "conn_dispatch S cfg (c2\<lparr>sc_status := if tcp then TCPForward else UDPForward\<rparr>) d2 rv w2 = Some (c', rv', w')"
    for tcp c1 c2 d2 w2
  proof -
    let ?c = "c2\<lparr>sc_status := if tcp then TCPForward else UDPForward\<rparr>"
    have 1: "conn_inv ?c" "conn_keeps c1 ?c"
      using that(1) by (auto simp: target_ready_def conn_inv_def backend_of_conn_def conn_keeps_def split: option.splits)
    have "dispatch_backend S ?c d2 w2 = Some (c', w')"
      using that(3) conn_dispatch_forward [of ?c S cfg d2 rv w2] by auto
    from dispatch_backend_inv [OF this] 1 show ?thesis
      using conn_keeps_trans [OF conn_keeps_trans [OF that(2) 1(2)]] by blast
  qed
  show ?thesis
  proof (cases "sc_command c = CONNECT")
    case True
    let ?c = "c\<lparr>sc_data := sc_data c @ d\<rparr>"
    have kc: "conn_keeps c ?c" by (simp add: conn_keeps_def)
    show ?thesis
    proof (cases "sc_target_addr c")
      case None
      with assms st True show ?thesis
        by (auto simp: conn_dispatch.simps [of S cfg c] conn_inv_def dns_pre_def conn_keeps_def)
    next
      case (Some a)
      with assms st True obtain ok c2 w2 where
        su: "try_setup_tcp_target S cfg ?c w = Some (ok, c2, w2)"
        and rest: "if ok then conn_dispatch S cfg (c2\<lparr>sc_status := TCPForward\<rparr>) [] rv w2 = Some (c', rv', w')
          else c' = c2"
        by (auto simp: conn_dispatch.simps [of S cfg c] split: option.splits if_splits)
      from try_setup_tcp_target_post [OF su] st have
        post: "if ok then target_ready True ?c c2 else (\<exists>p. c2 = ?c\<lparr>sc_proxy := p\<rparr>) \<and> conn_keeps ?c c2 \<and> proxy_closed c2"
        by simp
      show ?thesis
      proof (cases ok)
        case True
        with fwd [of True ?c c2 "[]" w2] post rest kc show ?thesis by simp
      next
        case False
        with post rest st True kc show ?thesis
          by (auto simp: conn_inv_def intro: conn_keeps_trans)
      qed
    qed
  next
    case False
    with assms st obtain ok c2 w2 where
      su: "try_setup_udp_target S cfg c w = Some (ok, c2, w2)"
      and rest: "if ok then conn_dispatch S cfg (c2\<lparr>sc_status := UDPForward\<rparr>) d rv w2 = Some (c', rv', w')
        else c' = c2"
      by (auto simp: conn_dispatch.simps [of S cfg c] split: option.splits if_splits)
    have data: "sc_data c = []" using assms(2) False by (simp add: dns_pre_def)
    note post = try_setup_udp_target_post [OF su st(2) data]
    show ?thesis
    proof (cases ok)
      case True
      with fwd [of False c c2 d w2] post rest show ?thesis by simp
    next
      case ok: False
      with post rest st False data show ?thesis by (auto simp: conn_inv_def)
    qed
  qed
qed

lemma try_handshake_post:
  assumes "try_handshake S cfg c d rv w = Some (ok, c', d', rv', w')" and "back_addr cfg \<noteq> None"
    and "conn_inv c" and "sc_status c = HandShake"
  shows "ok \<and> dns_pre (c'\<lparr>sc_status := DnsWait\<rparr>) \<and> sc_proxy c' = sc_proxy c \<and> sc_index c' = sc_index c"
proof -
  obtain c1 where hs: "handshake_request cfg c d = Some (c1, d')" and
    c1: "\<exists>cmd a. c1 = c\<lparr>sc_command := cmd, sc_sock5_addr := a\<rparr>"
    using assms(1)
    by (auto simp: try_handshake_def handshake_request_def
        split: bind_splits option.splits sock5_address.splits if_splits prod.splits)
  have "sc_backend c = None" "sc_data c = []" "sc_target_addr c = None"
    using assms(3,4) by (simp_all add: conn_inv_def)
  then show ?thesis
    using assms(1,2) hs c1
    by (auto simp: try_handshake_def dns_pre_def
        split: bind_splits option.splits sock5_address.splits if_splits prod.splits)
qed

lemma conn_dispatch_inv:
  assumes "conn_dispatch S cfg c d rv w = Some (c', rv', w')" and "back_addr cfg \<noteq> None" and "conn_inv c"
  shows "conn_inv c' \<and> conn_keeps c c'"
proof (cases "sc_status c")
  case HandShake
  with assms(1) obtain r ok c1 d1 r1 w1 where hs: "try_handshake S cfg c d r w = Some (ok, c1, d1, r1, w1)"
    and rest: "if ok then conn_dispatch S cfg (c1\<lparr>sc_status := DnsWait\<rparr>) d1 (Some r1) w1 = Some (c', rv', w')
      else c' = c1"
    by (auto simp: conn_dispatch.simps [of S cfg c] split: option.splits if_splits)
  from try_handshake_post [OF hs assms(2,3) HandShake] rest
    conn_dispatch_DnsWait_inv [of S cfg "c1\<lparr>sc_status := DnsWait\<rparr>" d1 "Some r1" w1 c' rv' w']
  show ?thesis by (auto simp: conn_keeps_def)
next
  case DnsWait
  with assms(3) have "dns_pre c" by (auto simp: conn_inv_def dns_pre_def)
  with assms(1) show ?thesis by (rule conn_dispatch_DnsWait_inv)
next
  case TCPForward
  with assms conn_dispatch_forward [of c S cfg d rv w] dispatch_backend_inv [of S c d w c' w'] show ?thesis by auto
next
  case UDPForward
  with assms conn_dispatch_forward [of c S cfg d rv w] dispatch_backend_inv [of S c d w c' w'] show ?thesis by auto
qed

lemma try_resolve_inv:
  assumes "try_resolve S cfg c ip w = Some (c', w')" and "conn_inv c"
  shows "conn_inv c' \<and> conn_keeps c c'"
proof (cases "sc_status c = DnsWait \<and> (\<exists>d p. sc_sock5_addr c = Domain d p)")
  case False
  with assms show ?thesis by (auto simp: try_resolve_def split: if_splits sock5_address.splits)
next
  case True
  then obtain d p where st: "sc_status c = DnsWait" "sc_sock5_addr c = Domain d p" by blast
  show ?thesis
  proof (cases ip)
    case None
    with assms(1) st have "proxy_shutdown S c w = (c', w')" by (simp add: try_resolve_def)
    from proxy_shutdown_spec [OF this] assms(2) conn_inv_proxy show ?thesis
      by (auto simp: conn_keeps_def)
  next
    case (Some a)
    let ?c = "c\<lparr>sc_target_addr := Some (socket_addr_new a p)\<rparr>"
    from assms(1) st Some obtain rv' where
      run: "conn_dispatch S cfg ?c [] None w = Some (c', rv', w')"
      by (auto simp: try_resolve_def split: bind_splits)
    have "dns_pre ?c" using assms(2) st by (auto simp: conn_inv_def dns_pre_def)
    from conn_dispatch_DnsWait_inv [OF run this] show ?thesis by (simp add: conn_keeps_def)
  qed
qed

section \<open>Events\<close>

lemma try_read_proxy_inv:
  assumes "try_read_proxy S cfg c rv w = Some (c', rv', w')" and "back_addr cfg \<noteq> None" and "conn_inv c"
  shows "conn_inv c' \<and> conn_keeps c c'"
proof -
  from assms(1) obtain r p w1 where rd: "tls_do_read S (sc_proxy c) w = Some (r, p, w1)"
    and rest: "(case r of Some buffer \<Rightarrow> conn_dispatch S cfg (c\<lparr>sc_proxy := p\<rparr>) buffer rv w1
      | None \<Rightarrow> Some (c\<lparr>sc_proxy := p\<rparr>, rv, w1)) = Some (c', rv', w')"
    by (auto simp: try_read_proxy_def split: bind_splits)
  have "conn_inv (c\<lparr>sc_proxy := p\<rparr>)" and "conn_keeps c (c\<lparr>sc_proxy := p\<rparr>)"
    using tls_do_read_evolves [OF rd] assms(3) by (simp_all add: conn_inv_proxy conn_keeps_def)
  with rest show ?thesis
    by (auto split: option.splits dest!: conn_dispatch_inv [OF _ assms(2)] intro: conn_keeps_trans)
qed

lemma proxy_readable_inv:
  assumes "proxy_readable S cfg c rv w = Some (c', rv', w')" and "back_addr cfg \<noteq> None" and "conn_inv c"
  shows "conn_inv c' \<and> conn_keeps c c'"
proof (cases "case sc_backend c of Some b \<Rightarrow> backend_writable b | None \<Rightarrow> True")
  case True
  with assms show ?thesis
    using try_read_proxy_inv [of S cfg c rv w c' rv' w'] by (simp add: proxy_readable_def)
next
  case False
  with assms show ?thesis by (auto simp: proxy_readable_def conn_keeps_def)
qed

lemma try_send_proxy_inv:
  assumes "try_send_proxy S c w = Some (c', w')" and "conn_inv c"
  shows "conn_inv c' \<and> conn_keeps c c'"
  using assms
  by (auto simp: try_send_proxy_def conn_keeps_def conn_inv_proxy dest!: tls_do_send_evolves split: bind_splits)

lemma proxy_writable_inv:
  assumes "proxy_writable S c w = Some (c', w')" and "conn_inv c"
  shows "conn_inv c' \<and> conn_keeps c c'"
proof -
  let ?c = "c\<lparr>sc_proxy := established (tls_provider S) (sc_proxy c)\<rparr>"
  have 0: "conn_inv ?c" "conn_keeps c ?c"
    using assms(2) by (simp_all add: conn_inv_proxy tls_established_evolves conn_keeps_def)
  from assms(1) obtain c1 w1 where snd: "try_send_proxy S ?c w = Some (c1, w1)"
    and rest: "(if tls_is_writable (sc_proxy c1) \<and> sc_read_backend c1 then do {
       (c, w) \<leftarrow> read_backend S c1 w1; Some (c\<lparr>sc_read_backend := False\<rparr>, w) } else Some (c1, w1)) = Some (c', w')"
    by (auto simp: proxy_writable_def split: bind_splits)
  have 1: "conn_inv c1" "conn_keeps c c1"
    using try_send_proxy_inv [OF snd 0(1)] 0(2) conn_keeps_trans by blast+
  from rest have "conn_inv c' \<and> conn_keeps c1 c'"
    using 1(1) by (auto simp: conn_keeps_def dest!: read_backend_inv split: if_splits bind_splits)
  with 1 show ?thesis using conn_keeps_trans [OF 1(2)] by blast
qed

lemma target_readable_inv:
  assumes "target_readable S c w = Some (c', w')" and "conn_inv c"
  shows "conn_inv c' \<and> conn_keeps c c'"
  using assms read_backend_inv [of S c w c' w']
  by (auto simp: target_readable_def conn_keeps_def split: if_splits)

lemma target_writable_inv:
  assumes "target_writable S cfg c rv w = Some (c', rv', w')" and "back_addr cfg \<noteq> None" and "conn_inv c"
  shows "conn_inv c' \<and> conn_keeps c c'"
proof -
  from assms(1) obtain c1 w1 where dp: "dispatch_backend S c [] w = Some (c1, w1)"
    and rest: "(if (case sc_backend c1 of Some b \<Rightarrow> backend_writable b | None \<Rightarrow> False) \<and> sc_read_proxy c1 then do {
       (c, resolver, w) \<leftarrow> try_read_proxy S cfg c1 rv w1; Some (c\<lparr>sc_read_proxy := False\<rparr>, resolver, w) }
       else Some (c1, rv, w1)) = Some (c', rv', w')"
    by (auto simp: target_writable_def split: bind_splits)
  have 1: "conn_inv c1" "conn_keeps c c1" using dispatch_backend_inv [OF dp] assms(3) by blast+
  from rest have "conn_inv c' \<and> conn_keeps c1 c'"
    using 1(1)
    by (auto simp: conn_keeps_def dest!: try_read_proxy_inv [OF _ assms(2) 1(1)] split: if_splits bind_splits)
  with 1 show ?thesis using conn_keeps_trans [OF 1(2)] by blast
qed

lemma conn_event_inv:
  assumes "conn_event S cfg c ev rv w = Some (c', rv', w')" and "back_addr cfg \<noteq> None" and "conn_inv c"
  shows "conn_inv c' \<and> conn_keeps c c'"
proof (cases ev)
  case (DnsEvent t ip)
  with assms try_resolve_inv [of S cfg c ip w] show ?thesis
    by (auto simp: conn_event_def split: bind_splits dest!: try_resolve_inv)
next
  case (Network e)
  show ?thesis
  proof (cases "proxy_token (ev_token e)")
    case True
    with assms(1) Network obtain c1 w1 where
      1: "(if ev_readable e then proxy_readable S cfg c rv w else Some (c, rv, w)) = Some (c1, rv', w1)"
      and 2: "(if ev_writable e then proxy_writable S c1 w1 else Some (c1, w1)) = Some (c', w')"
      by (auto simp: conn_event_def split: bind_splits)
    from 1 have c1: "conn_inv c1" "conn_keeps c c1"
      using proxy_readable_inv [OF _ assms(2,3), of S rv w c1 rv' w1] assms(3) by (auto split: if_splits)
    with 2 proxy_writable_inv [of S c1 w1 c' w'] show ?thesis
      using conn_keeps_trans [OF c1(2)] by (auto split: if_splits)
  next
    case False
    show ?thesis
    proof (cases "sc_status c \<in> {UDPForward, TCPForward} \<and> sc_backend c \<noteq> None")
      case True
      with False assms(1) Network obtain c1 w1 where
        1: "(if ev_readable e then target_readable S c w else Some (c, w)) = Some (c1, w1)"
        and 2: "(if ev_writable e then target_writable S cfg c1 rv w1 else Some (c1, rv, w1)) = Some (c', rv', w')"
        by (auto simp: conn_event_def split: bind_splits)
      from 1 have c1: "conn_inv c1" "conn_keeps c c1"
        using target_readable_inv [of S c w c1 w1] assms(3) by (auto split: if_splits)
      with 2 target_writable_inv [OF _ assms(2) c1(1), of S rv w1 c' rv' w'] show ?thesis
        using conn_keeps_trans [OF c1(2)] by (auto split: if_splits)
    qed (use False Network assms in \<open>auto simp: conn_event_def\<close>)
  qed
qed

lemma propagate_close_inv: "conn_inv c \<Longrightarrow> conn_inv (propagate_close S c) \<and> conn_keeps c (propagate_close S c)"
proof (cases "sc_backend c")
  case (Some b)
  assume inv: "conn_inv c"
  let ?b = "if proxy_closed c then peer_closed (backend_provider S) b else b"
  let ?p = "if is_shutdown (backend_status ?b) then peer_closed (tls_provider S) (sc_proxy c) else sc_proxy c"
  have b: "backend_is_tcp ?b = backend_is_tcp b" "backend_ident ?b = backend_ident b"
    using backend_frame.obs_peer_closed [of S b] by simp_all
  have p: "tls_evolves (sc_proxy c) ?p" by (simp add: tls_peer_closed_evolves)
  have eq: "propagate_close S c = c\<lparr>sc_backend := Some ?b, sc_proxy := ?p\<rparr>"
    unfolding propagate_close_def Let_def Some by simp
  show ?thesis
    unfolding eq using conn_inv_proxy [OF conn_inv_backend [OF inv Some b], of ?p] p
    by (simp add: conn_keeps_def del: if_split)
qed (simp add: propagate_close_def)

lemma proxy_check_status_inv:
  assumes "proxy_check_status S c w = Some (c', w')"
  shows "(conn_inv c \<longrightarrow> conn_inv c') \<and> conn_keeps c c' \<and> sc_backend c' = sc_backend c"
  using assms
  by (auto simp: proxy_check_status_def conn_keeps_def conn_inv_proxy
      split: bind_splits dest!: tls_check_status_evolves)

lemma backend_check_status_of_inv:
  assumes "backend_check_status_of S c w = Some (c', w')"
  shows "(conn_inv c \<longrightarrow> conn_inv c') \<and> conn_keeps c c' \<and> sc_proxy c' = sc_proxy c"
proof (cases "sc_backend c")
  case (Some b)
  with assms obtain b' where r: "check_status (backend_provider S) b w = Some (b', w')"
    and c': "c' = c\<lparr>sc_backend := Some b'\<rparr>"
    by (auto simp: backend_check_status_of_def split: bind_splits)
  show ?thesis
    using backend_frame.obs_check_status [OF r] conn_inv_backend [OF _ Some, of b']
    by (auto simp: c' conn_keeps_def)
qed (use assms in \<open>simp add: backend_check_status_of_def\<close>)

lemma conn_ready_parts:
  assumes "conn_ready S cfg c ev rv w = Some (c', rv', w')"
  obtains now w0 c1 w1 c2 w2 where "instant_now S w = (now, w0)"
    "conn_event S cfg (c\<lparr>sc_last_active_time := now\<rparr>) ev rv w0 = Some (c1, rv', w1)"
    "proxy_check_status S (propagate_close S c1) w1 = Some (c2, w2)"
    "backend_check_status_of S c2 w2 = Some (c', w')"
  using assms by (auto simp: conn_ready_def split: bind_splits prod.splits)

lemma conn_ready_keeps:
  assumes "conn_ready S cfg c ev rv w = Some (c', rv', w')" and "back_addr cfg \<noteq> None" and "conn_inv c"
  shows "conn_inv c' \<and> conn_keeps c c'"
proof -
  obtain now w0 c1 w1 c2 w2 where
    ev: "conn_event S cfg (c\<lparr>sc_last_active_time := now\<rparr>) ev rv w0 = Some (c1, rv', w1)"
    and pc: "proxy_check_status S (propagate_close S c1) w1 = Some (c2, w2)"
    and bc: "backend_check_status_of S c2 w2 = Some (c', w')"
    by (rule conn_ready_parts [OF assms(1)])
  have c0: "conn_inv (c\<lparr>sc_last_active_time := now\<rparr>)" using assms(3) by simp
  note 1 = conn_event_inv [OF ev assms(2) c0]
  note 2 = propagate_close_inv [of c1 S]
  note 3 = proxy_check_status_inv [OF pc]
  note 4 = backend_check_status_of_inv [OF bc]
  have "conn_keeps (c\<lparr>sc_last_active_time := now\<rparr>) c'"
    using 1 2 3 4 conn_keeps_trans by metis
  with 1 2 3 4 show ?thesis by (simp add: conn_keeps_def)
qed

text \<open>Handling an event, of the client's socket, of the target's socket or of the resolver,
  preserves the invariant of the connection's state machine, keeps its index and the handles of
  its client side, and never moves the status of the client side backwards.\<close>

theorem conn_ready_invariant:
  assumes "conn_ready S cfg c ev rv w = Some (c', rv', w')" and "back_addr cfg \<noteq> None" and "conn_inv c"
  shows "conn_inv c' \<and> sc_index c' = sc_index c \<and> tls_evolves (sc_proxy c) (sc_proxy c')"
  using conn_ready_keeps [OF assms] by (simp add: conn_keeps_def)

section \<open>Every event is handled\<close>

lemma unat_MAX_INDEX: "unat MAX_INDEX = 2 ^ 63 - 1"
  by (simp add: MAX_INDEX_def CHANNEL_CNT_def unat_div_distrib)

lemma target_token_returns: "sc_index c \<le> MAX_INDEX \<Longrightarrow> target_token c \<noteq> None"
  using unat_MAX_INDEX
  by (auto simp: target_token_def mul_checked_def add_checked_def server_consts word_le_nat_alt unat_word_ariths)

lemma try_setup_tcp_target_returns:
  assumes "io_contract S tin tout tp up" and "sc_target_addr c \<noteq> None" and "sc_index c \<le> MAX_INDEX"
  shows "try_setup_tcp_target S cfg c w \<noteq> None"
proof -
  have "tcp_backend_dispatch S b d w \<noteq> None" for b d w
    using backend_dispatch_returns [OF assms(1), of "TcpBackend b" d w] by simp
  with assms target_token_returns [of c] show ?thesis
    by (auto simp: try_setup_tcp_target_def bind_eq_None_conv simp del: not_None_eq split: prod.splits sum.splits)
qed

lemma try_setup_udp_target_returns:
  assumes "io_contract S tin tout tp up" and "empty_addr cfg \<noteq> None" and "sc_index c \<le> MAX_INDEX"
  shows "try_setup_udp_target S cfg c w \<noteq> None"
proof -
  have loc: "\<exists>a. udp_local_addr S s w = Inr a" for s w
    using assms(1) unfolding io_contract_def by blast
  have "udp_backend_new S cfg s i t w \<noteq> None" for s i t w
    using loc by (auto simp: udp_backend_new_def split: prod.splits sum.splits) (metis Inl_Inr_False)
  with assms target_token_returns [of c] show ?thesis
    by (auto simp: try_setup_udp_target_def bind_eq_None_conv simp del: not_None_eq split: prod.splits sum.splits)
qed

lemma dispatch_backend_returns: "io_contract S tin tout tp up \<Longrightarrow> dispatch_backend S c d w \<noteq> None"
  using backend_dispatch_returns [of S tin tout tp up]
  by (auto simp: dispatch_backend_def bind_eq_None_conv simp del: not_None_eq split: option.splits prod.splits)

lemma read_backend_returns: "io_contract S tin tout tp up \<Longrightarrow> read_backend S c w \<noteq> None"
  using backend_do_read_returns [of S tin tout tp up]
  by (auto simp: read_backend_def bind_eq_None_conv simp del: not_None_eq split: option.splits prod.splits)

lemma try_handshake_returns:
  assumes "trojan_request_parse cfg d \<noteq> None" and "back_addr cfg \<noteq> None" and "sc_index c \<le> MAX_INDEX"
  shows "\<exists>c' d' rv' w'. try_handshake S cfg c d rv w = Some (True, c', d', rv', w') \<and>
    sc_index c' = sc_index c \<and> sc_status c' = sc_status c"
proof -
  obtain c1 d1 where hs: "handshake_request cfg c d = Some (c1, d1)"
    and c1: "sc_index c1 = sc_index c" "sc_status c1 = sc_status c"
    and a: "sc_sock5_addr c1 = NoAddress \<or> (\<exists>s. sc_sock5_addr c1 = Socket s) \<or> (\<exists>d p. sc_sock5_addr c1 = Domain d p)"
    using assms(1) trojan_request_parse_kind [of cfg d]
    by (cases "trojan_request_parse cfg d"; cases "the (trojan_request_parse cfg d)")
      (auto simp: handshake_request_def)
  have t: "target_token c1 \<noteq> None" using target_token_returns [of c1] assms(3) c1 by simp
  obtain x rv' w' where q: "query_dns S rv dd w = (x, rv', w')" if "sc_sock5_addr c1 = Domain dd p" for dd p
    by (metis prod_cases3 sock5_address.inject(3))
  from a assms(2) t c1 show ?thesis
    by (elim disjE exE) (auto simp: try_handshake_def hs dest!: q split: option.splits)
qed

lemma conn_dispatch_DnsWait_returns:
  assumes "io_contract S tin tout tp up" and "empty_addr cfg \<noteq> None" and "sc_index c \<le> MAX_INDEX"
    and "sc_status c = DnsWait"
  shows "conn_dispatch S cfg c d rv w \<noteq> None"
proof -
  have fwd: "conn_dispatch S cfg (c2\<lparr>sc_status := st\<rparr>) d2 rv w2 \<noteq> None"
    if "st = TCPForward \<or> st = UDPForward" for c2 d2 w2 st
    using that dispatch_backend_returns [OF assms(1)] conn_dispatch_forward [of "c2\<lparr>sc_status := st\<rparr>" S cfg d2 rv w2]
    by auto
  have tcp: "try_setup_tcp_target S cfg (c\<lparr>sc_data := x\<rparr>) w \<noteq> None" if "sc_target_addr c \<noteq> None" for x
    using try_setup_tcp_target_returns [OF assms(1), of "c\<lparr>sc_data := x\<rparr>"] that assms(3) by simp
  show ?thesis
    using tcp fwd try_setup_udp_target_returns [OF assms(1-3), of w] assms(4)
    by (subst conn_dispatch.simps) (auto split: option.splits simp del: not_None_eq)
qed

lemma conn_dispatch_returns:
  assumes "io_contract S tin tout tp up" and "empty_addr cfg \<noteq> None" and "back_addr cfg \<noteq> None"
    and "sc_index c \<le> MAX_INDEX"
    and "sc_status c = HandShake \<Longrightarrow> rv \<noteq> None \<and> trojan_request_parse cfg d \<noteq> None"
  shows "conn_dispatch S cfg c d rv w \<noteq> None"
proof (cases "sc_status c")
  case HandShake
  with assms(5) obtain r where r: "rv = Some r" "trojan_request_parse cfg d \<noteq> None" by auto
  from try_handshake_returns [OF r(2) assms(3,4), of S r w] obtain c' d' r' w' where
    hs: "try_handshake S cfg c d r w = Some (True, c', d', r', w')" "sc_index c' = sc_index c" by blast
  with conn_dispatch_DnsWait_returns [OF assms(1,2), of "c'\<lparr>sc_status := DnsWait\<rparr>" d' "Some r'" w'] assms(4)
  show ?thesis
    by (simp add: conn_dispatch.simps [of S cfg c] HandShake r hs del: not_None_eq)
next
  case DnsWait
  with conn_dispatch_DnsWait_returns [OF assms(1,2,4)] show ?thesis by blast
next
  case TCPForward
  with dispatch_backend_returns [OF assms(1)] conn_dispatch_forward [of c S cfg d rv w] show ?thesis by auto
next
  case UDPForward
  with dispatch_backend_returns [OF assms(1)] conn_dispatch_forward [of c S cfg d rv w] show ?thesis by auto
qed

text \<open>The condition under which handling an event can panic: the connection has not read its request
  yet, and the bytes that the event delivers make the request parser panic.\<close>

definition fatal_request :: "'w sys \<Rightarrow> opts \<Rightarrow> connection \<Rightarrow> 'w \<Rightarrow> bool" where
  "fatal_request S cfg c w \<longleftrightarrow> sc_status c = HandShake \<and>
     (\<exists>r p w'. tls_do_read S (sc_proxy c) w = Some (Some r, p, w') \<and> trojan_request_parse cfg r = None)"

lemma try_read_proxy_returns:
  assumes "io_contract S tin tout tp up" and "empty_addr cfg \<noteq> None" and "back_addr cfg \<noteq> None"
    and "sc_index c \<le> MAX_INDEX" and "sc_status c = HandShake \<Longrightarrow> rv \<noteq> None" and "\<not> fatal_request S cfg c w"
  shows "try_read_proxy S cfg c rv w \<noteq> None"
proof -
  obtain r p w1 where rd: "tls_do_read S (sc_proxy c) w = Some (r, p, w1)"
    using tls_do_read_returns [of S tin "sc_proxy c" w] assms(1) by (auto simp: io_contract_def)
  show ?thesis
  proof (cases r)
    case (Some buf)
    with rd assms(6) have "sc_status c = HandShake \<Longrightarrow> trojan_request_parse cfg buf \<noteq> None"
      by (auto simp: fatal_request_def)
    with conn_dispatch_returns [OF assms(1-3), of "c\<lparr>sc_proxy := p\<rparr>" rv buf w1] assms(4,5) Some rd show ?thesis
      by (simp add: try_read_proxy_def del: not_None_eq)
  qed (simp add: try_read_proxy_def rd)
qed

lemma proxy_writable_returns:
  assumes "io_contract S tin tout tp up"
  shows "proxy_writable S c w \<noteq> None"
proof -
  have "tls_do_send S p w \<noteq> None" for p w
    using assms tls_do_send_returns by (auto simp: io_contract_def)
  with read_backend_returns [OF assms] show ?thesis
    by (auto simp: proxy_writable_def try_send_proxy_def bind_eq_None_conv simp del: not_None_eq split: prod.splits)
qed

lemma dispatch_backend_status: "dispatch_backend S c d w = Some (c', w') \<Longrightarrow>
    sc_status c' = sc_status c \<and> sc_index c' = sc_index c"
  by (auto simp: dispatch_backend_def split: option.splits bind_splits)

lemma target_writable_returns:
  assumes "io_contract S tin tout tp up" and "empty_addr cfg \<noteq> None" and "back_addr cfg \<noteq> None"
    and "sc_index c \<le> MAX_INDEX" and "sc_status c \<noteq> HandShake"
  shows "target_writable S cfg c rv w \<noteq> None"
proof -
  obtain c1 w1 where dp: "dispatch_backend S c [] w = Some (c1, w1)"
    using dispatch_backend_returns [OF assms(1), of c "[]" w] by auto
  from dispatch_backend_status [OF dp] assms(4,5) have "try_read_proxy S cfg c1 rv w1 \<noteq> None"
    by (intro try_read_proxy_returns [OF assms(1-3)]) (auto simp: fatal_request_def)
  with dp show ?thesis
    by (auto simp: target_writable_def bind_eq_None_conv simp del: not_None_eq split: prod.splits)
qed

lemma try_resolve_returns:
  assumes "io_contract S tin tout tp up" and "empty_addr cfg \<noteq> None" and "sc_index c \<le> MAX_INDEX"
  shows "try_resolve S cfg c ip w \<noteq> None"
proof -
  have "conn_dispatch S cfg (c\<lparr>sc_target_addr := x\<rparr>) [] None w \<noteq> None" if "sc_status c = DnsWait" for x
    using conn_dispatch_DnsWait_returns [OF assms(1,2), of "c\<lparr>sc_target_addr := x\<rparr>"] assms(3) that by simp
  then show ?thesis
    by (auto simp: try_resolve_def bind_eq_None_conv simp del: not_None_eq
        split: sock5_address.splits option.splits prod.splits)
qed

lemma conn_event_returns:
  assumes "io_contract S tin tout tp up" and "empty_addr cfg \<noteq> None" and "back_addr cfg \<noteq> None"
    and "sc_index c \<le> MAX_INDEX" and "\<And>e. ev = Network e \<Longrightarrow> rv \<noteq> None" and "\<not> fatal_request S cfg c w"
  shows "conn_event S cfg c ev rv w \<noteq> None"
proof (cases ev)
  case (DnsEvent t ip)
  with try_resolve_returns [OF assms(1,2,4)] show ?thesis
    by (auto simp: conn_event_def bind_eq_None_conv simp del: not_None_eq split: prod.splits)
next
  case (Network e)
  have rd: "proxy_readable S cfg c rv w \<noteq> None"
    using try_read_proxy_returns [OF assms(1-4) _ assms(6), of rv] assms(5) Network
    by (simp add: proxy_readable_def)
  have tr: "target_readable S c w \<noteq> None"
    using read_backend_returns [OF assms(1)] by (simp add: target_readable_def)
  have tw: "target_writable S cfg c1 rv w1 \<noteq> None"
    if "sc_status c1 = sc_status c" "sc_index c1 = sc_index c" "sc_status c \<in> {UDPForward, TCPForward}" for c1 w1
    using that target_writable_returns [OF assms(1-3), of c1 rv w1] assms(4) by auto
  have st: "sc_status c1 = sc_status c \<and> sc_index c1 = sc_index c" if "target_readable S c w = Some (c1, w1)" for c1 w1
    using that by (auto simp: target_readable_def read_backend_def split: if_splits option.splits bind_splits)
  show ?thesis
  proof (cases "proxy_token (ev_token e)")
    case True
    with Network rd proxy_writable_returns [OF assms(1)] show ?thesis
      by (auto simp: conn_event_def bind_eq_None_conv simp del: not_None_eq split: prod.splits)
  next
    case False
    obtain c1 w1 where c1: "(if ev_readable e then target_readable S c w else Some (c, w)) = Some (c1, w1)"
      using tr by (cases "ev_readable e") auto
    with st have "sc_status c1 = sc_status c" "sc_index c1 = sc_index c" by (auto split: if_splits)
    with tw [of c1 w1] False Network c1 show ?thesis by (simp add: conn_event_def del: not_None_eq)
  qed
qed

lemma proxy_check_status_returns: "proxy_check_status S c w \<noteq> None"
  using tls.check_status_returns [of S "sc_proxy c" w]
  by (auto simp: proxy_check_status_def tls_check_status_def bind_eq_None_conv simp del: not_None_eq)

lemma backend_check_status_of_returns: "backend_check_status_of S c w \<noteq> None"
  using backend.check_status_returns [of S]
  by (auto simp: backend_check_status_of_def bind_eq_None_conv simp del: not_None_eq
      split: option.splits prod.splits)

lemma conn_ready_returns:
  assumes "io_contract S tin tout tp up" and "empty_addr cfg \<noteq> None" and "back_addr cfg \<noteq> None"
    and "sc_index c \<le> MAX_INDEX" and "\<And>e. ev = Network e \<Longrightarrow> rv \<noteq> None"
    and "\<not> fatal_request S cfg c (snd (instant_now S w))"
  shows "conn_ready S cfg c ev rv w \<noteq> None"
proof -
  obtain now w0 where t: "instant_now S w = (now, w0)" by (cases "instant_now S w")
  have "\<not> fatal_request S cfg (c\<lparr>sc_last_active_time := now\<rparr>) w0"
    using assms(6) t by (simp add: fatal_request_def)
  from conn_event_returns [OF assms(1-3) _ assms(5) this] assms(4) have
    "conn_event S cfg (c\<lparr>sc_last_active_time := now\<rparr>) ev rv w0 \<noteq> None" by simp
  with t proxy_check_status_returns [of S] backend_check_status_of_returns [of S] show ?thesis
    by (auto simp: conn_ready_def bind_eq_None_conv Let_def simp del: not_None_eq split: prod.splits)
qed

text \<open>C1. The server survives every event. If the calls to the outside behave as documented, the
  configuration has been set up and the connection's index is one the server hands out, then
  \<open>Connection::ready\<close> returns for every network event (with the resolver at hand) and for every
  resolver answer (without it), except for one case: the connection has not read its request, and
  the bytes just received start with the correct password and are cut where the request parser
  reads on. In particular no client that does not know the password can make it panic.\<close>

theorem conn_ready_survives:
  assumes "io_contract S tin tout tp up" and "opts_ready cfg" and "back_addr cfg \<noteq> None"
    and "is_ascii (sha_pass cfg)" and "sc_index c \<le> MAX_INDEX"
    and "rv = None \<longrightarrow> (\<exists>t ip. ev = DnsEvent t ip)"
    and "conn_ready S cfg c ev rv w = None"
  shows "sc_status c = HandShake \<and>
    (\<exists>b p w'. tls_do_read S (sc_proxy c) (snd (instant_now S w)) = Some (Some (sha_pass cfg @ b), p, w') \<and>
       request_overrun cfg b)"
proof -
  have d: "digest_ok cfg" and e: "empty_addr cfg \<noteq> None"
    using assms(2-4) by (auto simp: digest_ok_def opts_ready_def)
  have "fatal_request S cfg c (snd (instant_now S w))"
    using conn_ready_returns [OF assms(1) e assms(3,5), of ev rv w] assms(6,7) by auto
  then show ?thesis
    using trojan_request_parse_None [OF d] by (auto simp: fatal_request_def)
qed

lemma sim_io_contract:
  "io_contract sim_sys (\<lambda>c s w. length (sim_rx w s)) (\<lambda>c s w. length (sim_tls_out w c))
     (\<lambda>s w. length (sim_rx w s)) (\<lambda>s w. length (sim_dgrams_in w s))"
  unfolding io_contract_def
  by (auto simp: sim_input_finite sim_output_finite sim_write_def sim_recv_def sim_recv_from_def sim_write_plain_def
      Let_def split: if_splits list.splits)

text \<open>The simulated session hands over what its stream received.\<close>

lemma sim_tls_fill:
  "tls_fill sim_sys c w = Some (c, if sim_rx w (tc_stream c) = [] then w
     else w\<lparr>sim_rx := (sim_rx w)(tc_stream c := []),
            sim_tls_in := (sim_tls_in w)(tc_session c := sim_tls_in w (tc_session c) @ sim_rx w (tc_stream c))\<rparr>)"
  by (subst tls_fill.simps, subst tls_fill.simps) (auto simp: sim_read_tls_def)

definition sample_conn :: connection where
  "sample_conn = \<lparr>sc_index = 2, sc_proxy = sample_tls, sc_status = HandShake, sc_sock5_addr = NoAddress,
     sc_command = 0, sc_last_active_time = 0, sc_backend = None, sc_target_addr = None, sc_data = [],
     sc_read_backend = False, sc_read_proxy = False\<rparr>"

definition received :: "bytes \<Rightarrow> sim" where
  "received d = sim_idle\<lparr>sim_rx := (\<lambda>_. [])(1 := d)\<rparr>"

abbreviation sample_event :: poll_event where
  "sample_event \<equiv> Network \<lparr>ev_token = 4, ev_readable = True, ev_writable = True\<rparr>"

lemma sample_conn_reads:
  "d \<noteq> [] \<Longrightarrow> \<exists>w'. tls_do_read sim_sys (sc_proxy sample_conn) (received d) = Some (Some d, sample_tls, w')"
  by (simp add: tls_do_read_def sim_tls_fill sample_conn_def sample_tls_def received_def sim_idle_def)

lemma sample_ready_simps:
  "opts_ready sample_ready" "back_addr sample_ready \<noteq> None" "empty_addr sample_ready \<noteq> None"
  "is_ascii (sha_pass sample_ready)" "sha_pass sample_ready = [97, 98, 99, 48]" "pass_len sample_ready = 4"
  "sc_index sample_conn \<le> MAX_INDEX" "conn_inv sample_conn"
proof -
  show "sc_index sample_conn \<le> MAX_INDEX"
    by (simp add: word_le_nat_alt unat_MAX_INDEX sample_conn_def)
qed (simp_all add: opts_ready_def sample_ready_def sample_opts_def unspecified_v4_def duration_from_secs_def
    is_ascii_def sample_conn_def conn_inv_def)

theorem conn_ready_survives_witness:
  "\<exists>b p w'. conn_ready sim_sys sample_ready sample_conn sample_event (Some (resolver_new 2 None))
       (received ([97, 98, 99, 48] @ [13, 10, 1, 1, 9, 9, 9, 9, 0, 80])) = None \<and>
     tls_do_read sim_sys sample_tls (received ([97, 98, 99, 48] @ [13, 10, 1, 1, 9, 9, 9, 9, 0, 80])) =
       Some (Some ([97, 98, 99, 48] @ b), p, w') \<and> request_overrun sample_ready b"
proof -
  let ?w = "received ([97, 98, 99, 48] @ [13, 10, 1, 1, 9, 9, 9, 9, 0, 80])"
  have "parse_address 1 [9, 9, 9, 9, 0, 80] = Some (Some (6, Socket (V4 (Ipv4Addr 9 9 9 9) 80)))"
    by code_simp
  then have "request_overrun sample_ready [13, 10, 1, 1, 9, 9, 9, 9, 0, 80]"
    by (simp add: request_overrun_def CONNECT_def)
  then have bad: "trojan_request_parse sample_ready ([97, 98, 99, 48] @ [13, 10, 1, 1, 9, 9, 9, 9, 0, 80]) = None"
    using trojan_request_parse_None [OF sample_digest] sample_ready_simps(5) by auto
  obtain w' where rd: "tls_do_read sim_sys sample_tls ?w =
      Some (Some ([97, 98, 99, 48] @ [13, 10, 1, 1, 9, 9, 9, 9, 0, 80]), sample_tls, w')"
    using sample_conn_reads [of "[97, 98, 99, 48] @ [13, 10, 1, 1, 9, 9, 9, 9, 0, 80]"]
    by (auto simp: sample_conn_def)
  have now: "instant_now sim_sys ?w = (0, ?w)" by (simp add: received_def sim_idle_def)
  have none: "conn_ready sim_sys sample_ready sample_conn sample_event (Some (resolver_new 2 None)) ?w = None"
    using rd bad now
    by (simp add: conn_ready_def conn_event_def proxy_token_def server_consts proxy_readable_def
        try_read_proxy_def sample_conn_def conn_dispatch.simps try_handshake_def handshake_request_def)
  from conn_ready_survives [OF sim_io_contract sample_ready_simps(1,2,4,7) _ none] now sample_ready_simps(5) none
  show ?thesis by (auto simp: sample_conn_def)
qed

theorem conn_ready_invariant_witness:
  "\<exists>c' rv' w'. conn_ready sim_sys sample_ready sample_conn sample_event (Some (resolver_new 2 None))
       (received [71, 69, 84]) = Some (c', rv', w') \<and> conn_inv c' \<and> sc_index c' = 2"
proof -
  have "trojan_request_parse sample_ready [71, 69, 84] = Some None"
    by (simp add: trojan_request_parse_def sample_ready_simps)
  moreover have "instant_now sim_sys (received [71, 69, 84]) = (0, received [71, 69, 84])"
    by (simp add: received_def sim_idle_def)
  ultimately have "\<not> fatal_request sim_sys sample_ready sample_conn (snd (instant_now sim_sys (received [71, 69, 84])))"
    using sample_conn_reads [of "[71, 69, 84]"] by (auto simp: fatal_request_def)
  from conn_ready_returns [OF sim_io_contract sample_ready_simps(3,2,7) _ this, of sample_event "Some (resolver_new 2 None)"]
  obtain c' rv' w' where r: "conn_ready sim_sys sample_ready sample_conn sample_event (Some (resolver_new 2 None))
       (received [71, 69, 84]) = Some (c', rv', w')" by auto
  from conn_ready_invariant [OF r sample_ready_simps(2,8)] r show ?thesis by (simp add: sample_conn_def)
qed

section \<open>Closing\<close>

lemma conn_destroy_spec:
  "\<exists>c' w'. conn_destroy S c w = Some (c', w') \<and> conn_destroyed c' \<and> sc_index c' = sc_index c"
proof -
  obtain p1 w1 where sd: "shutdown (tls_provider S) (sc_proxy c) w = (True, p1, w1)"
    using tls.shutdown_returns_true [of S "sc_proxy c" w] by (metis prod.collapse)
  obtain p2 w2 where cs: "check_status (tls_provider S) p1 w1 = Some (p2, w2)"
    using tls.check_status_returns [of S p1 w1] by auto
  have p2: "tc_status p2 = Deregistered" using tls.shutdown_then_check [OF sd cs] by simp
  show ?thesis
  proof (cases "sc_backend c")
    case None
    with sd cs p2 show ?thesis
      by (simp add: conn_destroy_def proxy_shutdown_def tls_shutdown_def proxy_check_status_def
          tls_check_status_def conn_destroyed_def is_deregistered_def)
  next
    case (Some b)
    obtain b1 w3 where bsd: "shutdown (backend_provider S) b w2 = (True, b1, w3)"
      using backend.shutdown_returns_true [of S b w2] by (metis prod.collapse)
    obtain b2 w4 where bcs: "check_status (backend_provider S) b1 w3 = Some (b2, w4)"
      using backend.check_status_returns [of S b1 w3] by auto
    have "backend_status b2 = Deregistered" using backend.shutdown_then_check [OF bsd bcs] by simp
    with Some sd cs p2 bsd bcs show ?thesis
      by (simp add: conn_destroy_def proxy_shutdown_def tls_shutdown_def proxy_check_status_def
          tls_check_status_def conn_destroyed_def is_deregistered_def backend_check_status_of_def)
  qed
qed

lemma conn_destroy_returns: "conn_destroy S c w \<noteq> None"
  using conn_destroy_spec [of S c w] by auto

text \<open>\<open>Connection::destroy\<close> always returns and leaves the connection destroyed: its client side
  and, if there is one, its backend are deregistered, whatever their status was.\<close>

theorem conn_destroy_destroys:
  "\<exists>c' w'. conn_destroy S c w = Some (c', w') \<and> conn_destroyed c' \<and> sc_index c' = sc_index c"
  by (rule conn_destroy_spec)

section \<open>Where the data goes\<close>

lemma tcp_backend_new_established:
  "tcp_backend_new S cfg s i t w = (Inr b, w') \<Longrightarrow> tb_conn b = s \<and> tb_send_buffer b = [] \<and> tb_status b = Established"
  by (auto simp: tcp_backend_new_def split: prod.splits sum.splits)

text \<open>A waiting connection whose target is known connects to it and forwards everything it has.\<close>

lemma conn_dispatch_connects:
  assumes tx: "tcp_write_contract S tx" "tcp_shutdown_quiet S tx"
    and st: "sc_status c = DnsWait" "sc_command c = CONNECT" "sc_target_addr c = Some a"
    and con: "tcp_connect S a w = (Inr s, w1)" "target_token c = Some t"
      "tcp_backend_new S cfg s (sc_index c) t w1 = (Inr b, w2)"
  shows "\<exists>c' w' b'. conn_dispatch S cfg c d rv w = Some (c', rv, w') \<and> sc_status c' = TCPForward \<and>
    sc_backend c' = Some (TcpBackend b') \<and> tb_conn b' = s \<and>
    (is_shutdown (tb_status b') \<or> tx s w' @ tb_send_buffer b' = tx s w2 @ sc_data c @ d)"
proof -
  let ?d = "sc_data c @ d"
  note b = tcp_backend_new_established [OF con(3)]
  have tok: "target_token (c\<lparr>sc_data := ?d\<rparr>) = Some t" using con(2) by (simp add: target_token_def)
  obtain c1 b1 w3 where su: "try_setup_tcp_target S cfg (c\<lparr>sc_data := ?d\<rparr>) w = Some (True, c1, w3)"
    and c1: "sc_backend c1 = Some (TcpBackend b1)" "tb_conn b1 = s"
      "is_shutdown (tb_status b1) \<or> tx s w3 @ tb_send_buffer b1 = tx s w2 @ ?d"
  proof (cases "?d = []")
    case True
    with con tok st b that show ?thesis by (simp add: try_setup_tcp_target_def)
  next
    case False
    obtain b' w' d1 d2 where "tcp_backend_dispatch S b ?d w2 = Some (b', w')" "tb_conn b' = s" "?d = d1 @ d2"
      "tx s w' = tx s w2 @ d1" "is_shutdown (tb_status b') \<or> tb_send_buffer b' = d2"
      using tcp_backend_dispatch_conserves [OF tx, of b ?d w2] b by auto
    with False con tok st that show ?thesis by (auto simp: try_setup_tcp_target_def)
  qed
  obtain b2 w4 where b2: "tcp_backend_dispatch S b1 [] w3 = Some (b2, w4)" "tb_conn b2 = s"
    "is_shutdown (tb_status b2) \<or> tx s w4 @ tb_send_buffer b2 = tx s w3 @ tb_send_buffer b1 \<and> tb_status b2 = tb_status b1"
    using tcp_backend_dispatch_conserves [OF tx, of b1 "[]" w3] c1(2) by auto
  have "is_shutdown (tb_status b2) \<or> tx s w4 @ tb_send_buffer b2 = tx s w2 @ ?d"
    using c1(3) b2(3) by auto
  with su c1 b2 st show ?thesis
    by (simp add: conn_dispatch.simps [of S cfg c] conn_dispatch_forward dispatch_backend_def)
qed

text \<open>C2. Traffic that does not start with the password is passed through: whatever the bytes are,
  the connection is made to the configured default target, the resolver is not involved, and every
  byte received is forwarded unchanged (or buffered, or the backend is shut down by a socket
  error).\<close>

theorem unauthenticated_passthrough:
  assumes "tcp_write_contract S tx" and "tcp_shutdown_quiet S tx" and "digest_ok cfg"
    and "conn_inv c" and "sc_status c = HandShake" and "back_addr cfg = Some a" and "\<nexists>r. d = sha_pass cfg @ r"
    and "tcp_connect S a w = (Inr s, w1)" and "target_token c = Some t"
    and "tcp_backend_new S cfg s (sc_index c) t w1 = (Inr b, w2)"
  shows "\<exists>c' w' b'. conn_dispatch S cfg c d (Some rv) w = Some (c', Some rv, w') \<and> sc_status c' = TCPForward \<and>
    sc_backend c' = Some (TcpBackend b') \<and> tb_conn b' = s \<and>
    (is_shutdown (tb_status b') \<or> tx s w' @ tb_send_buffer b' = tx s w2 @ d)"
proof -
  let ?c = "c\<lparr>sc_command := CONNECT, sc_sock5_addr := NoAddress, sc_target_addr := Some a, sc_status := DnsWait\<rparr>"
  have hs: "conn_dispatch S cfg c d (Some rv) w = conn_dispatch S cfg ?c d (Some rv) w"
    using trojan_request_parse_unauthenticated [OF assms(3,7)] assms(5,6)
    by (simp add: conn_dispatch.simps [of S cfg c] try_handshake_def handshake_request_def)
  have "target_token ?c = Some t" using assms(9) by (simp add: target_token_def)
  moreover have "sc_data c = []" using assms(4,5) by (simp add: conn_inv_def)
  ultimately show ?thesis
    unfolding hs using conn_dispatch_connects [OF assms(1,2), of ?c a w s w1 t cfg b w2 d "Some rv"] assms(8,10)
    by simp
qed

lemma sample_target:
  "tcp_connect sim_sys a sim_idle = (Inr 10, sim_idle\<lparr>sim_next := 11\<rparr>)"
  "target_token sample_conn = Some 5"
  "\<exists>b. tcp_backend_new sim_sys sample_ready 10 (sc_index sample_conn) 5 (sim_idle\<lparr>sim_next := 11\<rparr>) =
     (Inr b, sim_idle\<lparr>sim_next := 11\<rparr>)"
  by (simp_all add: sim_fresh_def sim_idle_def target_token_def sample_conn_def mul_checked_def add_checked_def
      server_consts tcp_backend_new_def)

theorem unauthenticated_passthrough_witness:
  "(\<nexists>r. [71, 69, 84] = sha_pass sample_ready @ r) \<and>
   (\<exists>c' w' b'. conn_dispatch sim_sys sample_ready sample_conn [71, 69, 84] (Some (resolver_new 2 None)) sim_idle =
      Some (c', Some (resolver_new 2 None), w') \<and> sc_backend c' = Some (TcpBackend b') \<and>
      (is_shutdown (tb_status b') \<or> sim_tx w' 10 @ tb_send_buffer b' = [71, 69, 84]))"
proof -
  obtain b where b: "tcp_backend_new sim_sys sample_ready 10 (sc_index sample_conn) 5 (sim_idle\<lparr>sim_next := 11\<rparr>) =
     (Inr b, sim_idle\<lparr>sim_next := 11\<rparr>)" using sample_target(3) by blast
  have hs: "sc_status sample_conn = HandShake" "back_addr sample_ready = Some (V4 (Ipv4Addr 127 0 0 1) 80)"
    "\<nexists>r. [71, 69, 84] = sha_pass sample_ready @ r"
    by (simp_all add: sample_conn_def sample_ready_def)
  have tx: "sim_tx (sim_idle\<lparr>sim_next := 11\<rparr>) 10 = []" by (simp add: sim_idle_def)
  from unauthenticated_passthrough [OF sim_tcp_contract sim_shutdown_quiet sample_digest sample_ready_simps(8) hs
      sample_target(1,2) b, of "resolver_new 2 None"] hs(3) tx
  show ?thesis by auto
qed

text \<open>A request is parsed, and the connection to its target is made.\<close>

lemma conn_dispatch_request:
  assumes "tcp_write_contract S tx" and "tcp_shutdown_quiet S tx" and "digest_ok cfg"
    and "conn_inv c" and "sc_status c = HandShake"
    and "tcp_connect S (wire_addr a) w = (Inr s, w1)" and "target_token c = Some t"
    and "tcp_backend_new S cfg s (sc_index c) t w1 = (Inr b, w2)"
  shows "\<exists>c' w' b'. conn_dispatch S cfg c (trojan_request_generate cfg [] CONNECT a @ d) (Some rv) w =
      Some (c', Some rv, w') \<and> sc_status c' = TCPForward \<and>
    sc_backend c' = Some (TcpBackend b') \<and> tb_conn b' = s \<and>
    (is_shutdown (tb_status b') \<or> tx s w' @ tb_send_buffer b' = tx s w2 @ d)"
proof -
  let ?c = "c\<lparr>sc_command := CONNECT, sc_sock5_addr := Socket (wire_addr a), sc_target_addr := Some (wire_addr a),
      sc_status := DnsWait\<rparr>"
  have hs: "conn_dispatch S cfg c (trojan_request_generate cfg [] CONNECT a @ d) (Some rv) w =
      conn_dispatch S cfg ?c d (Some rv) w"
    using trojan_request_parse_generated [OF assms(3), of CONNECT a d] assms(5)
    by (simp add: conn_dispatch.simps [of S cfg c] try_handshake_def handshake_request_def)
  have "target_token ?c = Some t" using assms(7) by (simp add: target_token_def)
  moreover have "sc_data c = []" using assms(4,5) by (simp add: conn_inv_def)
  ultimately show ?thesis
    unfolding hs using conn_dispatch_connects [OF assms(1,2), of ?c "wire_addr a" w s w1 t cfg b w2 d "Some rv"] assms(6,8)
    by simp
qed

text \<open>An authenticated \<open>CONNECT\<close> request to a socket address is served: the connection is made to
  the address in the request, and exactly the payload behind the request is forwarded, without the
  password and the header.\<close>

theorem authenticated_connect:
  assumes "tcp_write_contract S tx" and "tcp_shutdown_quiet S tx" and "digest_ok cfg"
    and "conn_inv c" and "sc_status c = HandShake"
    and "tcp_connect S (wire_addr a) w = (Inr s, w1)" and "target_token c = Some t"
    and "tcp_backend_new S cfg s (sc_index c) t w1 = (Inr b, w2)"
  shows "\<exists>c' w' b'. conn_dispatch S cfg c (trojan_request_generate cfg [] CONNECT a @ d) (Some rv) w =
      Some (c', Some rv, w') \<and> sc_status c' = TCPForward \<and>
    sc_backend c' = Some (TcpBackend b') \<and> tb_conn b' = s \<and>
    (is_shutdown (tb_status b') \<or> tx s w' @ tb_send_buffer b' = tx s w2 @ d)"
  by (rule conn_dispatch_request [OF assms])

theorem authenticated_connect_witness:
  "\<exists>c' w' b'. conn_dispatch sim_sys sample_ready sample_conn
      (trojan_request_generate sample_ready [] CONNECT (V4 (Ipv4Addr 1 2 3 4) 80) @ [71, 69, 84])
      (Some (resolver_new 2 None)) sim_idle = Some (c', Some (resolver_new 2 None), w') \<and>
      sc_backend c' = Some (TcpBackend b') \<and>
      (is_shutdown (tb_status b') \<or> sim_tx w' 10 @ tb_send_buffer b' = [71, 69, 84])"
proof -
  obtain b where b: "tcp_backend_new sim_sys sample_ready 10 (sc_index sample_conn) 5 (sim_idle\<lparr>sim_next := 11\<rparr>) =
     (Inr b, sim_idle\<lparr>sim_next := 11\<rparr>)" using sample_target(3) by blast
  have hs: "sc_status sample_conn = HandShake" by (simp add: sample_conn_def)
  have tx: "sim_tx (sim_idle\<lparr>sim_next := 11\<rparr>) 10 = []" by (simp add: sim_idle_def)
  from authenticated_connect [OF sim_tcp_contract sim_shutdown_quiet sample_digest sample_ready_simps(8) hs
      sample_target(1,2) b, where a = "V4 (Ipv4Addr 1 2 3 4) 80" and d = "[71, 69, 84]" and rv = "resolver_new 2 None"] tx
  show ?thesis by auto
qed

end
