(* ===== verification/Conn_Table.thy ===== *)
theory Conn_Table
  imports Prelude
begin

text \<open>
  Tables of connections, as the server and the proxy's servers keep them: a hash map from indices to
  connections and a list of the indices to be removed after the events of a round. The iteration order
  of a hash map is a parameter.
\<close>

section \<open>Model\<close>

text \<open>The loop \<open>for index in list { conns.remove(&index) }\<close>, and the closure of \<open>check_timeout\<close> iterated
  over the keys of the table: \<open>expire\<close> is what it does to a connection, and it reports the keys of
  those that are \<open>dead\<close> then.\<close>

fun remove_all :: "'k list \<Rightarrow> ('k \<rightharpoonup> 'c) \<Rightarrow> ('k \<rightharpoonup> 'c)" where
  "remove_all [] m = m"
| "remove_all (i # is) m = remove_all is (m(i := None))"

fun table_scan :: "('c \<Rightarrow> 'w \<Rightarrow> ('c \<times> 'w) rs) \<Rightarrow> ('c \<Rightarrow> bool) \<Rightarrow> 'k list \<Rightarrow> ('k \<rightharpoonup> 'c) \<Rightarrow> 'w \<Rightarrow>
    ('k list \<times> ('k \<rightharpoonup> 'c) \<times> 'w) rs" where
  "table_scan expire dead [] m w = Some ([], m, w)"
| "table_scan expire dead (i # is) m w =
     (case m i of
        None \<Rightarrow> table_scan expire dead is m w
      | Some conn \<Rightarrow> do {
          (conn, w) \<leftarrow> expire conn w;
          (list, m, w) \<leftarrow> table_scan expire dead is (m(i \<mapsto> conn)) w;
          Some (if dead conn then i # list else list, m, w) })"

section \<open>Well-formed tables\<close>

text \<open>Every entry satisfies \<open>ok\<close> for its key; every dead entry is on the list; no entry is dead.\<close>

definition table_ok :: "('k \<Rightarrow> 'c \<Rightarrow> bool) \<Rightarrow> ('k \<rightharpoonup> 'c) \<Rightarrow> bool" where
  "table_ok ok m \<longleftrightarrow> finite (dom m) \<and> (\<forall>i c. m i = Some c \<longrightarrow> ok i c)"

definition dead_listed :: "('c \<Rightarrow> bool) \<Rightarrow> ('k \<rightharpoonup> 'c) \<Rightarrow> 'k list option \<Rightarrow> bool" where
  "dead_listed dead m removed \<longleftrightarrow> (\<exists>r. removed = Some r \<and> (\<forall>i c. m i = Some c \<and> dead c \<longrightarrow> i \<in> set r))"

definition none_dead :: "('c \<Rightarrow> bool) \<Rightarrow> ('k \<rightharpoonup> 'c) \<Rightarrow> bool" where
  "none_dead dead m \<longleftrightarrow> (\<forall>i c. m i = Some c \<longrightarrow> \<not> dead c)"

text \<open>The order in which a table is iterated: every key once.\<close>

definition iterates :: "(('k \<rightharpoonup> 'c) \<Rightarrow> 'k list) \<Rightarrow> bool" where
  "iterates order \<longleftrightarrow> (\<forall>m. finite (dom m) \<longrightarrow> set (order m) = dom m \<and> distinct (order m))"

lemma remove_all_apply: "remove_all is m j = (if j \<in> set is then None else m j)"
  by (induction "is" arbitrary: m) auto

lemma remove_all_ok: "table_ok ok m \<Longrightarrow> table_ok ok (remove_all is m)"
proof -
  have "dom (remove_all is m) \<subseteq> dom m" by (auto simp: remove_all_apply split: if_splits)
  then show "table_ok ok m \<Longrightarrow> table_ok ok (remove_all is m)"
    by (auto simp: table_ok_def remove_all_apply split: if_splits intro: finite_subset)
qed

lemma table_ok_update: "table_ok ok m \<Longrightarrow> ok i c \<Longrightarrow> table_ok ok (m(i \<mapsto> c))"
  by (auto simp: table_ok_def)

lemma none_dead_listed: "none_dead dead m \<Longrightarrow> dead_listed dead m (Some r)"
  by (auto simp: none_dead_def dead_listed_def)

lemma dead_listed_removed: "dead_listed dead m (Some r) \<Longrightarrow> none_dead dead (remove_all r m)"
  by (auto simp: dead_listed_def none_dead_def remove_all_apply split: if_splits)

lemma dead_listed_empty: "dead_listed dead m (Some []) \<Longrightarrow> none_dead dead m"
  by (auto simp: dead_listed_def none_dead_def)

text \<open>An updated connection that is dead is put on the list.\<close>

lemma dead_listed_update:
  assumes "dead_listed dead m (Some r)"
  shows "dead_listed dead (m(i \<mapsto> c)) (Some (if dead c then r @ [i] else r))"
  using assms by (auto simp: dead_listed_def)

section \<open>Time-outs\<close>

locale conn_table =
  fixes expire :: "'c \<Rightarrow> 'w \<Rightarrow> ('c \<times> 'w) rs" and dead :: "'c \<Rightarrow> bool" and ok :: "'k \<Rightarrow> 'c \<Rightarrow> bool"
  assumes expire_returns: "expire c w \<noteq> None"
    and expire_ok: "expire c w = Some (c', w') \<Longrightarrow> ok i c \<Longrightarrow> ok i c'"
begin

lemma scan_returns: "table_scan expire dead is m w \<noteq> None"
proof (induction "is" arbitrary: m w)
  case (Cons i "is")
  show ?case
    using Cons.IH expire_returns
    by (auto simp: bind_eq_None_conv simp del: not_None_eq split: option.splits prod.splits)
qed simp

lemma scan_inv:
  assumes "table_scan expire dead is m w = Some (l, m', w')" and "distinct is"
  shows "(table_ok ok m \<longrightarrow> table_ok ok m') \<and> dom m' = dom m \<and>
    (\<forall>i c. m' i = Some c \<longrightarrow> (if i \<in> set is then dead c = (i \<in> set l) else m i = Some c)) \<and> set l \<subseteq> set is"
  using assms
proof (induction "is" arbitrary: m w l)
  case (Cons i "is")
  show ?case
  proof (cases "m i")
    case None
    with Cons.prems have sc: "table_scan expire dead is m w = Some (l, m', w')" and d: "distinct is" by simp_all
    note IH = Cons.IH [OF sc d]
    then have "m' i = None" using None by blast
    with IH show ?thesis by auto
  next
    case (Some c)
    with Cons.prems obtain c1 w1 l1 where t: "expire c w = Some (c1, w1)"
      and sc: "table_scan expire dead is (m(i \<mapsto> c1)) w1 = Some (l1, m', w')"
      and l: "l = (if dead c1 then i # l1 else l1)"
      by (auto split: bind_splits)
    have d: "distinct is" "i \<notin> set is" using Cons.prems(2) by simp_all
    note IH = Cons.IH [OF sc d(1)]
    have up: "table_ok ok m \<longrightarrow> table_ok ok (m(i \<mapsto> c1))"
      using expire_ok [OF t] Some by (auto simp: table_ok_def)
    have dm: "dom (m(i \<mapsto> c1)) = dom m" using Some by auto
    have "if j \<in> set (i # is) then dead c2 = (j \<in> set l) else m j = Some c2" if "m' j = Some c2" for j c2
    proof (cases "j = i")
      case True
      with IH that d(2) have "c2 = c1" by (metis fun_upd_same option.inject)
      moreover have "i \<notin> set l1" using IH d(2) by blast
      ultimately show ?thesis using True by (simp add: l)
    next
      case False
      with IH that have "if j \<in> set is then dead c2 = (j \<in> set l1) else m j = Some c2"
        by (metis fun_upd_other)
      with False show ?thesis by (auto simp: l)
    qed
    moreover have "table_ok ok m \<longrightarrow> table_ok ok m'" using IH up by blast
    moreover have "dom m' = dom m" using IH dm by metis
    moreover have "set l \<subseteq> set (i # is)" using IH by (auto simp: l)
    ultimately show ?thesis by blast
  qed
qed auto

text \<open>A scan in any order, followed by the removal of what it reports, leaves a well-formed table without
  dead connections.\<close>

lemma scan_and_remove:
  assumes "iterates order" and "table_ok ok m"
  shows "\<exists>l m' w'. table_scan expire dead (order m) m w = Some (l, m', w') \<and> table_ok ok (remove_all l m') \<and>
    none_dead dead (remove_all l m')"
proof -
  have "finite (dom m)" using assms(2) by (simp add: table_ok_def)
  with assms(1) have ord: "set (order m) = dom m" "distinct (order m)" by (auto simp: iterates_def)
  obtain l m' w' where sc: "table_scan expire dead (order m) m w = Some (l, m', w')"
    using scan_returns [of "order m" m w] by (metis not_None_eq prod_cases3)
  note scan = scan_inv [OF sc ord(2)]
  have "\<not> dead c" if "m' i = Some c" "i \<notin> set l" for i c
  proof -
    have "i \<in> set (order m)" using scan ord(1) that(1) by blast
    with scan that show ?thesis by metis
  qed
  then have "none_dead dead (remove_all l m')" by (auto simp: none_dead_def remove_all_apply split: if_splits)
  moreover have "table_ok ok (remove_all l m')" using scan assms(2) remove_all_ok by blast
  ultimately show ?thesis using sc by blast
qed

end

text \<open>Iteration in ascending order.\<close>

definition ascending :: "('k::linorder \<rightharpoonup> 'c) \<Rightarrow> 'k list" where
  "ascending m = sorted_list_of_set (dom m)"

lemma ascending_iterates: "iterates ascending"
  by (simp add: iterates_def ascending_def)

end
