(* ===== verification/Index_Alloc.thy ===== *)
theory Index_Alloc
  imports Prelude
begin

text \<open>
  The allocation of connection indices. The server, the proxy's servers and the idle pool each count
  an index up within a fixed range and start over behind its end; the locale states what they share,
  and is interpreted where each of them is defined.
\<close>

locale index_alloc =
  fixes ok :: "'s \<Rightarrow> bool" and nxt :: "'s \<Rightarrow> usize" and alloc :: "'s \<Rightarrow> (usize \<times> 's) rs" and lo hi :: usize
  assumes in_range: "ok s \<Longrightarrow> lo \<le> nxt s \<and> nxt s \<le> hi"
    and step: "ok s \<Longrightarrow> \<exists>s'. alloc s = Some (nxt s, s') \<and> ok s' \<and> nxt s' = (if nxt s = hi then lo else nxt s + 1)"
begin

definition period :: nat where
  "period = unat hi - unat lo + 1"

text \<open>The position of an index in its range.\<close>

definition pos :: "usize \<Rightarrow> nat" where
  "pos i = unat i - unat lo"

primrec alloc_many :: "nat \<Rightarrow> 's \<Rightarrow> (usize list \<times> 's) rs" where
  "alloc_many 0 s = Some ([], s)"
| "alloc_many (Suc n) s = do {
     (i, s) \<leftarrow> alloc s;
     (js, s) \<leftarrow> alloc_many n s;
     Some (i # js, s) }"

lemma pos_bound: "ok s \<Longrightarrow> pos (nxt s) < period"
  using in_range [of s] by (auto simp: pos_def period_def word_le_nat_alt)

lemma pos_inject: "lo \<le> i \<Longrightarrow> lo \<le> j \<Longrightarrow> pos i = pos j \<Longrightarrow> i = j"
  by (auto simp: pos_def word_le_nat_alt word_unat_eq_iff)

lemma pos_step:
  assumes "ok s" and "alloc s = Some (i, s')"
  shows "i = nxt s \<and> ok s' \<and> pos (nxt s') = (pos (nxt s) + 1) mod period"
proof -
  from step [OF assms(1)] assms(2) have s': "i = nxt s" "ok s'" "nxt s' = (if nxt s = hi then lo else nxt s + 1)"
    by auto
  note r = in_range [OF assms(1)]
  have "pos (nxt s') = (pos (nxt s) + 1) mod period"
  proof (cases "nxt s = hi")
    case True
    with s' r show ?thesis by (simp add: pos_def period_def word_le_nat_alt)
  next
    case False
    with r have lt: "unat (nxt s) < unat hi" by (simp add: word_le_nat_alt order_less_le word_unat_eq_iff)
    then have "unat (nxt s) + 1 < 2 ^ 64" using unsigned_less [of hi, where ?'a = nat] by simp
    then have "unat (nxt s + 1) = unat (nxt s) + 1" by (simp add: unat_word_ariths)
    with False s' r lt show ?thesis by (simp add: pos_def period_def word_le_nat_alt)
  qed
  with s' show ?thesis by simp
qed

text \<open>Any number of allocations succeed, all indices are in the range, and the indices of a window no
  longer than the range are distinct.\<close>

lemma alloc_many_positions:
  assumes "ok s"
  shows "\<exists>js s'. alloc_many n s = Some (js, s') \<and> ok s' \<and> length js = n \<and> set js \<subseteq> {lo .. hi} \<and>
    (\<forall>k<n. pos (js ! k) = (pos (nxt s) + k) mod period)"
  using assms
proof (induction n arbitrary: s)
  case (Suc n)
  from step [OF Suc.prems] obtain s1 where a: "alloc s = Some (nxt s, s1)" by blast
  from pos_step [OF Suc.prems a] have s1: "ok s1" "pos (nxt s1) = (pos (nxt s) + 1) mod period" by auto
  from Suc.IH [OF s1(1)] obtain js s' where rec: "alloc_many n s1 = Some (js, s')" "ok s'" "length js = n"
    "set js \<subseteq> {lo .. hi}" "\<forall>k<n. pos (js ! k) = (pos (nxt s1) + k) mod period" by blast
  have "pos ((nxt s # js) ! k) = (pos (nxt s) + k) mod period" if "k < Suc n" for k
    using that rec(5) s1(2) pos_bound [OF Suc.prems] by (cases k) (simp_all add: mod_add_left_eq)
  with a rec in_range [OF Suc.prems] show ?case by auto
qed simp

lemma fresh_indices:
  assumes "ok s" and "n \<le> period"
  shows "\<exists>js s'. alloc_many n s = Some (js, s') \<and> ok s' \<and> length js = n \<and> set js \<subseteq> {lo .. hi} \<and> distinct js"
proof -
  from alloc_many_positions [OF assms(1)] obtain js s' where a: "alloc_many n s = Some (js, s')" "ok s'"
    "length js = n" "set js \<subseteq> {lo .. hi}" "\<forall>k<n. pos (js ! k) = (pos (nxt s) + k) mod period" by blast
  have "distinct js"
  proof (unfold distinct_conv_nth, intro allI impI)
    fix j k assume jk: "j < length js" "k < length js" "j \<noteq> k"
    have "(p + a) mod m \<noteq> (p + b) mod m" if "a < b" "b < m" for p a b m :: nat
    proof
      assume "(p + a) mod m = (p + b) mod m"
      then have "m dvd (p + b) - (p + a)" using that(1) by (metis add_le_cancel_left less_imp_le mod_eq_dvd_iff_nat)
      then have "m \<le> b - a" using that(1) by (simp add: dvd_imp_le)
      with that show False by simp
    qed
    with jk a(3,5) assms(2) have "pos (js ! j) \<noteq> pos (js ! k)"
      by (metis linorder_neqE_nat order_less_le_trans)
    then show "js ! j \<noteq> js ! k" by metis
  qed
  with a show ?thesis by blast
qed

end

end
