(* ===== verification/Tls_Server.thy ===== *)
theory Tls_Server
  imports Server_Connection Conn_Table Index_Alloc
begin

text \<open>
  The server (\<open>src/src/server/tls_server.rs\<close>) and its event loop (\<open>run\<close> in \<open>src/src/server/mod.rs\<close>): it
  accepts clients, finds the connection an event belongs to by its token, removes connections that
  are destroyed and closes those that have been idle for too long. The iteration order of the
  connection table, a \<open>HashMap\<close>, is a parameter.
\<close>

section \<open>Model\<close>

record tls_server =
  ts_next_id :: usize
  ts_conns :: "usize \<rightharpoonup> connection"
  ts_removed :: "usize list option"

fun event_token :: "poll_event \<Rightarrow> usize" where
  "event_token (Network e) = ev_token e"
| "event_token (DnsEvent token _) = token"

definition server_new :: tls_server where
  "server_new = \<lparr>ts_next_id = MIN_INDEX, ts_conns = Map.empty, ts_removed = Some []\<rparr>"

definition next_index :: "tls_server \<Rightarrow> (usize \<times> tls_server) rs" where
  "next_index srv = do {
     n \<leftarrow> add_checked (ts_next_id srv) 1;
     Some (ts_next_id srv, srv\<lparr>ts_next_id := if MAX_INDEX < n then MIN_INDEX else n\<rparr>) }"

definition token2index :: "usize \<Rightarrow> usize" where
  "token2index token = token div CHANNEL_CNT"

text \<open>A client that was accepted: the body of the loop of \<open>accept\<close> behind \<open>set_nodelay\<close>.\<close>

definition server_admit :: "'w sys \<Rightarrow> tls_server \<Rightarrow> sock \<Rightarrow> 'w \<Rightarrow> (tls_server \<times> 'w) rs" where
  "server_admit S srv stream w =
     (case tls_server_session S w of
        (Inl e, w) \<Rightarrow> None
      | (Inr session, w) \<Rightarrow> do {
          (index, srv) \<leftarrow> next_index srv;
          t \<leftarrow> mul_checked index CHANNEL_CNT;
          token \<leftarrow> add_checked t CHANNEL_PROXY;
          let (c, w) = tls_conn_new S index token session stream w;
          (case tls_register S c w of
             (True, c, w) \<Rightarrow>
               (case connection_new S index c w of (conn, w) \<Rightarrow>
                  Some (srv\<lparr>ts_conns := (ts_conns srv)(index \<mapsto> conn)\<rparr>, w))
           | (False, c, w) \<Rightarrow>
               (case tls_shutdown S c w of (c, w) \<Rightarrow> do {
                  (c, w) \<leftarrow> tls_check_status S c w;
                  Some (srv, w) })) })"

partial_function (option) server_accept :: "'w sys \<Rightarrow> tls_server \<Rightarrow> 'w \<Rightarrow> (tls_server \<times> 'w) rs" where
  "server_accept S srv w =
     (case tcp_accept S w of
        (Inr stream, w) \<Rightarrow>
          (case tcp_set_nodelay S stream w of
             (Inl e, w) \<Rightarrow> server_accept S srv w
           | (Inr _, w) \<Rightarrow>
               Option.bind (server_admit S srv stream w) (\<lambda>(srv, w). server_accept S srv w))
      | (Inl e, w) \<Rightarrow> if e = WouldBlock then Some (srv, w) else None)"

definition do_conn_event :: "'w sys \<Rightarrow> opts \<Rightarrow> tls_server \<Rightarrow> poll_event \<Rightarrow> dns_resolver option \<Rightarrow> 'w \<Rightarrow>
    (tls_server \<times> dns_resolver option \<times> 'w) rs" where
  "do_conn_event S cfg srv event resolver w =
     (let index = token2index (event_token event)
      in case ts_conns srv index of
           None \<Rightarrow> Some (srv, resolver, w)
         | Some conn \<Rightarrow> do {
             (conn, resolver, w) \<leftarrow> conn_ready S cfg conn event resolver w;
             let srv = srv\<lparr>ts_conns := (ts_conns srv)(index \<mapsto> conn)\<rparr>;
             if conn_destroyed conn then do {
               removed \<leftarrow> unwrap (ts_removed srv);
               Some (srv\<lparr>ts_removed := Some (removed @ [index])\<rparr>, resolver, w) }
             else Some (srv, resolver, w) })"

definition remove_closed :: "tls_server \<Rightarrow> tls_server rs" where
  "remove_closed srv = do {
     removed \<leftarrow> unwrap (ts_removed srv);
     if removed = [] then Some srv
     else Some (srv\<lparr>ts_removed := Some [], ts_conns := remove_all removed (ts_conns srv)\<rparr>) }"

text \<open>The closure of \<open>check_timeout\<close> on one connection, and its iteration over the table.\<close>

definition timeout_conn :: "'w sys \<Rightarrow> opts \<Rightarrow> instant \<Rightarrow> connection \<Rightarrow> 'w \<Rightarrow> (connection \<times> 'w) rs" where
  "timeout_conn S cfg check_active_time conn w =
     (if conn_destroyed conn then Some (conn, w)
      else case conn_timeout S cfg conn check_active_time w of
        (True, w) \<Rightarrow> conn_destroy S conn w
      | (False, w) \<Rightarrow> Some (conn, w))"

definition timeout_scan :: "'w sys \<Rightarrow> opts \<Rightarrow> instant \<Rightarrow> usize list \<Rightarrow> (usize \<rightharpoonup> connection) \<Rightarrow> 'w \<Rightarrow>
    (usize list \<times> (usize \<rightharpoonup> connection) \<times> 'w) rs" where
  "timeout_scan S cfg now = table_scan (timeout_conn S cfg now) conn_destroyed"

definition check_timeout :: "((usize \<rightharpoonup> connection) \<Rightarrow> usize list) \<Rightarrow> 'w sys \<Rightarrow> opts \<Rightarrow> tls_server \<Rightarrow> instant \<Rightarrow>
    'w \<Rightarrow> (tls_server \<times> 'w) rs" where
  "check_timeout order S cfg srv check_active_time w = do {
     (list, m, w) \<leftarrow> timeout_scan S cfg check_active_time (order (ts_conns srv)) (ts_conns srv) w;
     Some (srv\<lparr>ts_conns := remove_all list m\<rparr>, w) }"

text \<open>The event loop. One round handles the events that \<open>poll\<close> reported, then removes what is
  destroyed and, once a second, checks for idle connections.\<close>

record server_loop =
  sl_server :: tls_server
  sl_resolver :: dns_resolver
  sl_last_check_time :: instant

definition loop_event :: "'w sys \<Rightarrow> opts \<Rightarrow> server_loop \<Rightarrow> net_event \<Rightarrow> 'w \<Rightarrow> (server_loop \<times> 'w) rs" where
  "loop_event S cfg l event w =
     (if ev_token event = LISTENER then do {
        (srv, w) \<leftarrow> server_accept S (sl_server l) w;
        Some (l\<lparr>sl_server := srv\<rparr>, w) }
      else if ev_token event = RESOLVER then do {
        (r, srv, w) \<leftarrow> consume S (\<lambda>token ip srv w. do {
            (srv, _, w) \<leftarrow> do_conn_event S cfg srv (DnsEvent token ip) None w;
            Some (srv, w) }) (sl_resolver l) (sl_server l) w;
        Some (l\<lparr>sl_resolver := r, sl_server := srv\<rparr>, w) }
      else do {
        (srv, r, w) \<leftarrow> do_conn_event S cfg (sl_server l) (Network event) (Some (sl_resolver l)) w;
        Some (l\<lparr>sl_server := srv, sl_resolver := (case r of Some r \<Rightarrow> r | None \<Rightarrow> sl_resolver l)\<rparr>, w) })"

fun loop_events :: "'w sys \<Rightarrow> opts \<Rightarrow> server_loop \<Rightarrow> net_event list \<Rightarrow> 'w \<Rightarrow> (server_loop \<times> 'w) rs" where
  "loop_events S cfg l [] w = Some (l, w)"
| "loop_events S cfg l (e # es) w = do {
     (l, w) \<leftarrow> loop_event S cfg l e w;
     loop_events S cfg l es w }"

definition loop_round :: "((usize \<rightharpoonup> connection) \<Rightarrow> usize list) \<Rightarrow> 'w sys \<Rightarrow> opts \<Rightarrow> server_loop \<Rightarrow>
    net_event list \<Rightarrow> 'w \<Rightarrow> (server_loop \<times> 'w) rs" where
  "loop_round order S cfg l events w = do {
     (l, w) \<leftarrow> loop_events S cfg l events w;
     srv \<leftarrow> remove_closed (sl_server l);
     let (now, w) = instant_now S w;
     if duration_from_secs 1 < now - sl_last_check_time l then do {
       (srv, w) \<leftarrow> check_timeout order S cfg srv now w;
       Some (l\<lparr>sl_server := srv, sl_last_check_time := now\<rparr>, w) }
     else Some (l\<lparr>sl_server := srv\<rparr>, w) }"

definition loop_start :: "'w sys \<Rightarrow> server_args \<Rightarrow> 'w \<Rightarrow> server_loop \<times> 'w" where
  "loop_start S args w =
     (case instant_now S w of (now, w) \<Rightarrow>
        (\<lparr>sl_server = server_new,
          sl_resolver = set_cache_timeout (resolver_new RESOLVER None) (of_nat (sa_dns_cache_time args)),
          sl_last_check_time = now\<rparr>, w))"

section \<open>Indices and tokens\<close>

lemma index_token:
  assumes "i \<le> MAX_INDEX" and "unat ch < 2"
  shows "\<exists>t token. mul_checked i CHANNEL_CNT = Some t \<and> add_checked t ch = Some token \<and>
    unat token = 2 * unat i + unat ch \<and> token2index token = i \<and> token mod CHANNEL_CNT = ch \<and>
    token = i * CHANNEL_CNT + ch"
proof -
  have i: "unat i \<le> 2 ^ 63 - 1" using assms(1) unat_MAX_INDEX by (simp add: word_le_nat_alt)
  have m: "mul_checked i CHANNEL_CNT = Some (i * CHANNEL_CNT)"
    using i by (simp add: mul_checked_def CHANNEL_CNT_def)
  from mul_checked_SomeD [OF m] have m': "unat (i * CHANNEL_CNT) = 2 * unat i" by (simp add: CHANNEL_CNT_def)
  have a: "add_checked (i * CHANNEL_CNT) ch = Some (i * CHANNEL_CNT + ch)"
    using i assms(2) m' by (simp add: add_checked_def)
  from add_checked_SomeD [OF a] m' have a': "unat (i * CHANNEL_CNT + ch) = 2 * unat i + unat ch" by simp
  have "token2index (i * CHANNEL_CNT + ch) = i"
    using a' assms(2) by (simp add: token2index_def word_unat_eq_iff unat_div_distrib) (simp add: CHANNEL_CNT_def)
  moreover have "(i * CHANNEL_CNT + ch) mod CHANNEL_CNT = ch"
    using a' assms(2) by (simp add: word_unat_eq_iff unat_mod_distrib) (simp add: CHANNEL_CNT_def)
  ultimately show ?thesis using m a a' by blast
qed

lemma next_index_spec:
  assumes "ts_next_id srv \<le> MAX_INDEX"
  shows "next_index srv = Some (ts_next_id srv,
    srv\<lparr>ts_next_id := if ts_next_id srv = MAX_INDEX then MIN_INDEX else ts_next_id srv + 1\<rparr>)"
proof -
  have i: "unat (ts_next_id srv) \<le> 2 ^ 63 - 1" using assms unat_MAX_INDEX by (simp add: word_le_nat_alt)
  then have a: "add_checked (ts_next_id srv) 1 = Some (ts_next_id srv + 1)" by (simp add: add_checked_def)
  from add_checked_SomeD [OF a] have "unat (ts_next_id srv + 1) = unat (ts_next_id srv) + 1" by simp
  then have "MAX_INDEX < ts_next_id srv + 1 \<longleftrightarrow> ts_next_id srv = MAX_INDEX"
    using i unat_MAX_INDEX by (auto simp: word_less_nat_alt word_unat_eq_iff)
  with a show ?thesis by (simp add: next_index_def)
qed

text \<open>C27. The index allocator of the server hands out every index from \<open>MIN_INDEX\<close> to \<open>MAX_INDEX\<close>
  and starts over behind \<open>MAX_INDEX\<close>; it never overflows. The two tokens of an index do not
  overflow, are not those of the listener and the resolver, identify the index, and tell the
  client's socket from the target's.\<close>

theorem server_tokens:
  assumes "MIN_INDEX \<le> ts_next_id srv" and "ts_next_id srv \<le> MAX_INDEX"
  shows "\<exists>srv'. next_index srv = Some (ts_next_id srv, srv') \<and>
    ts_next_id srv' = (if ts_next_id srv = MAX_INDEX then MIN_INDEX else ts_next_id srv + 1) \<and>
    (\<forall>ch\<in>{CHANNEL_PROXY, CHANNEL_BACKEND}. \<exists>t token. mul_checked (ts_next_id srv) CHANNEL_CNT = Some t \<and>
       add_checked t ch = Some token \<and> token2index token = ts_next_id srv \<and>
       (proxy_token token \<longleftrightarrow> ch = CHANNEL_PROXY) \<and> token \<noteq> LISTENER \<and> token \<noteq> RESOLVER)"
proof -
  have "\<exists>t token. mul_checked (ts_next_id srv) CHANNEL_CNT = Some t \<and>
       add_checked t ch = Some token \<and> token2index token = ts_next_id srv \<and>
       (proxy_token token \<longleftrightarrow> ch = CHANNEL_PROXY) \<and> token \<noteq> LISTENER \<and> token \<noteq> RESOLVER"
    if "ch \<in> {CHANNEL_PROXY, CHANNEL_BACKEND}" for ch
  proof -
    have "unat ch < 2" using that by (auto simp: server_consts)
    from index_token [OF assms(2) this] obtain t token where
      t: "mul_checked (ts_next_id srv) CHANNEL_CNT = Some t" "add_checked t ch = Some token"
      "unat token = 2 * unat (ts_next_id srv) + unat ch" "token2index token = ts_next_id srv"
      "token mod CHANNEL_CNT = ch" by blast
    have "4 \<le> unat token" using t(3) assms(1) by (simp add: word_le_nat_alt MIN_INDEX_def)
    then have "token \<noteq> LISTENER" "token \<noteq> RESOLVER" by (auto simp: server_consts)
    with t show ?thesis by (auto simp: proxy_token_def)
  qed
  with next_index_spec [OF assms(2)] show ?thesis by auto
qed

lemma server_new_range: "MIN_INDEX \<le> ts_next_id server_new" "ts_next_id server_new \<le> MAX_INDEX"
  by (simp_all add: server_new_def word_le_nat_alt unat_MAX_INDEX) (simp add: MIN_INDEX_def)

theorem server_tokens_witness:
  "\<exists>srv'. next_index server_new = Some (MIN_INDEX, srv') \<and>
     (\<exists>t token. mul_checked MIN_INDEX CHANNEL_CNT = Some t \<and> add_checked t CHANNEL_BACKEND = Some token \<and>
        token2index token = MIN_INDEX)"
  using server_tokens [OF server_new_range] by (auto simp: server_new_def)

section \<open>Invariant of the server\<close>

text \<open>Every connection is filed under its own index, its client socket is registered under that
  index's token, and it satisfies the invariant of connections. A destroyed connection that is
  still in the table is on the list of those to be removed.\<close>

definition conn_ok :: "usize \<Rightarrow> connection \<Rightarrow> bool" where
  "conn_ok i c \<longleftrightarrow> MIN_INDEX \<le> i \<and> i \<le> MAX_INDEX \<and> sc_index c = i \<and>
     tc_token (sc_proxy c) = i * CHANNEL_CNT + CHANNEL_PROXY \<and> conn_inv c"

definition server_inv :: "tls_server \<Rightarrow> bool" where
  "server_inv srv \<longleftrightarrow> MIN_INDEX \<le> ts_next_id srv \<and> ts_next_id srv \<le> MAX_INDEX \<and> table_ok conn_ok (ts_conns srv) \<and>
     dead_listed conn_destroyed (ts_conns srv) (ts_removed srv)"

lemma conn_ok_keeps: "conn_ok i c \<Longrightarrow> conn_inv c' \<Longrightarrow> conn_keeps c c' \<Longrightarrow> conn_ok i c'"
  by (auto simp: conn_ok_def conn_keeps_def tls_evolves_def)

lemma server_new_inv: "server_inv server_new"
  using server_new_range by (simp add: server_inv_def table_ok_def dead_listed_def) (simp add: server_new_def)

lemma range_next:
  fixes i :: usize
  assumes "MIN_INDEX \<le> i" "i \<le> MAX_INDEX" "i \<noteq> MAX_INDEX"
  shows "MIN_INDEX \<le> i + 1 \<and> i + 1 \<le> MAX_INDEX"
proof -
  have "unat i < 2 ^ 63 - 1"
    using assms(2,3) unat_MAX_INDEX by (metis le_neq_implies_less word_le_nat_alt word_unat_eq_iff)
  then have "unat (i + 1) = unat i + 1" by (simp add: unat_word_ariths)
  with assms \<open>unat i < 2 ^ 63 - 1\<close> unat_MAX_INDEX show ?thesis by (simp add: word_le_nat_alt)
qed

lemma admitted_conn:
  assumes "tls_conn_new S i (i * CHANNEL_CNT + CHANNEL_PROXY) sess st w = (c, w1)"
    and "tls_register S c w1 = (True, c', w2)" and "connection_new S i c' w2 = (conn, w3)"
    and "MIN_INDEX \<le> i" "i \<le> MAX_INDEX"
  shows "conn_ok i conn \<and> \<not> conn_destroyed conn"
  using assms
  by (auto simp: tls_conn_new_def tls_register_def connection_new_def conn_ok_def conn_inv_def conn_destroyed_def
      is_deregistered_def split: prod.splits sum.splits)

lemma server_admit_inv:
  assumes "server_admit S srv stream w = Some (srv', w')" and "server_inv srv"
  shows "server_inv srv'"
proof -
  let ?i = "ts_next_id srv"
  have i: "MIN_INDEX \<le> ?i" "?i \<le> MAX_INDEX" using assms(2) by (auto simp: server_inv_def)
  let ?srv = "srv\<lparr>ts_next_id := if ?i = MAX_INDEX then MIN_INDEX else ?i + 1\<rparr>"
  have inv: "server_inv ?srv"
    using assms(2) range_next [OF i] server_new_range by (auto simp: server_inv_def server_new_def)
  have tok: "\<exists>t. mul_checked ?i CHANNEL_CNT = Some t \<and>
      add_checked t CHANNEL_PROXY = Some (?i * CHANNEL_CNT + CHANNEL_PROXY)"
    using index_token [OF i(2), of CHANNEL_PROXY] by (auto simp: server_consts)
  from assms(1) consider "srv' = ?srv" | conn where "srv' = ?srv\<lparr>ts_conns := (ts_conns srv)(?i \<mapsto> conn)\<rparr>"
      "conn_ok ?i conn" "\<not> conn_destroyed conn"
    using tok
    by (auto simp: server_admit_def next_index_spec [OF i(2)] Let_def
        dest!: admitted_conn [OF _ _ _ i] split: prod.splits sum.splits bind_splits bool.splits)
  then show ?thesis
  proof cases
    case 2
    with inv show ?thesis by (auto simp: server_inv_def table_ok_def dead_listed_def split: if_splits)
  qed (use inv in simp)
qed

lemma server_accept_inv:
  assumes "server_accept S srv w = Some (srv', w')" and "server_inv srv"
  shows "server_inv srv'"
proof -
  have "server_inv srv \<longrightarrow> server_inv (fst r)" if "server_accept S srv w = Some r" for r
  proof (rule server_accept.raw_induct [where P = "\<lambda>S srv w r. server_inv srv \<longrightarrow> server_inv (fst r)", OF _ that],
      goal_cases)
    case (1 f S srv w r)
    show ?case
      using 1(2)
      by (auto dest!: 1(1) dest: server_admit_inv split: prod.splits sum.splits if_splits bind_splits)
  qed
  with assms show ?thesis by force
qed

lemma conn_ready_ok:
  assumes "conn_ready S cfg c ev rv w = Some (c', rv', w')" and "back_addr cfg \<noteq> None" and "conn_ok i c"
  shows "conn_ok i c'"
  using conn_ready_keeps [OF assms(1,2)] assms(3) conn_ok_keeps [OF assms(3)] by (auto simp: conn_ok_def)

lemma do_conn_event_inv:
  assumes "do_conn_event S cfg srv ev rv w = Some (srv', rv', w')" and "back_addr cfg \<noteq> None" and "server_inv srv"
  shows "server_inv srv'"
proof (cases "ts_conns srv (token2index (event_token ev))")
  case None
  with assms show ?thesis by (simp add: do_conn_event_def)
next
  case (Some c)
  let ?i = "token2index (event_token ev)"
  from Some assms(1) obtain c' w1 where r: "conn_ready S cfg c ev rv w = Some (c', rv', w1)"
    by (auto simp: do_conn_event_def Let_def split: bind_splits if_splits)
  from assms(3) Some have "conn_ok ?i c" by (auto simp: server_inv_def table_ok_def dead_listed_def)
  from conn_ready_ok [OF r assms(2) this] have "conn_ok ?i c'" .
  with assms(1,3) Some r show ?thesis
    by (auto simp: do_conn_event_def Let_def server_inv_def table_ok_def dead_listed_def split: if_splits)
qed

text \<open>Behind \<open>remove_closed\<close> no destroyed connection is left.\<close>

lemma remove_closed_inv:
  assumes "server_inv srv"
  shows "\<exists>srv'. remove_closed srv = Some srv' \<and> server_inv srv' \<and> none_dead conn_destroyed (ts_conns srv')"
proof -
  obtain r where r: "ts_removed srv = Some r" "dead_listed conn_destroyed (ts_conns srv) (Some r)"
    using assms by (auto simp: server_inv_def dead_listed_def)
  note nd = dead_listed_removed [OF r(2)]
  show ?thesis
  proof (cases "r = []")
    case True
    with r nd assms show ?thesis by (simp add: remove_closed_def)
  next
    case False
    with r nd assms remove_all_ok [of conn_ok "ts_conns srv" r] none_dead_listed [OF nd] show ?thesis
      by (simp add: remove_closed_def server_inv_def)
  qed
qed

lemma conn_destroy_ok:
  assumes "conn_destroy S c w = Some (c', w')" and "conn_ok i c"
  shows "conn_ok i c'"
proof -
  obtain c1 w1 where sd: "proxy_shutdown S c w = (c1, w1)" by (cases "proxy_shutdown S c w")
  note 1 = proxy_shutdown_spec [OF sd]
  from assms(1) sd obtain c2 w2 where cs: "proxy_check_status S c1 w1 = Some (c2, w2)"
    and rest: "(case sc_backend c2 of None \<Rightarrow> Some (c2, w2) | Some b \<Rightarrow>
          (case shutdown (backend_provider S) b w2 of (_, b, w) \<Rightarrow>
             backend_check_status_of S (c2\<lparr>sc_backend := Some b\<rparr>) w)) = Some (c', w')"
    by (auto simp: conn_destroy_def split: bind_splits)
  from 1 obtain p where p: "c1 = c\<lparr>sc_proxy := p\<rparr>" "tls_evolves (sc_proxy c) p" by (auto simp: conn_keeps_def)
  have "conn_inv c1" using conn_inv_proxy [of c p] p assms(2) by (simp add: conn_ok_def)
  with proxy_check_status_inv [OF cs] have c2: "conn_inv c2" and "conn_keeps c1 c2" by simp_all
  with 1 have kc: "conn_keeps c c2" using conn_keeps_trans by metis
  have "conn_inv c' \<and> conn_keeps c2 c'"
  proof (cases "sc_backend c2")
    case (Some b)
    obtain ok b1 w3 where bs: "shutdown (backend_provider S) b w2 = (ok, b1, w3)"
      by (cases "shutdown (backend_provider S) b w2")
    with backend_frame.obs_shutdown [of S b w2] conn_inv_backend [OF c2 Some, of b1]
    have "conn_inv (c2\<lparr>sc_backend := Some b1\<rparr>)" by simp
    with rest Some bs backend_check_status_of_inv [of S "c2\<lparr>sc_backend := Some b1\<rparr>" w3 c' w'] show ?thesis
      by (simp add: conn_keeps_def)
  qed (use rest c2 in simp)
  with conn_keeps_trans [OF kc] show ?thesis using conn_ok_keeps [OF assms(2)] by simp
qed

lemma timeout_conn_ok:
  "timeout_conn S cfg now c w = Some (c', w') \<Longrightarrow> conn_ok i c \<Longrightarrow> conn_ok i c'"
  by (auto simp: timeout_conn_def dest: conn_destroy_ok split: if_splits prod.splits bool.splits)

lemma timeout_conn_returns: "timeout_conn S cfg now c w \<noteq> None"
  using conn_destroy_returns [of S c] by (auto simp: timeout_conn_def simp del: not_None_eq split: prod.splits bool.splits)

interpretation server_table: conn_table "timeout_conn S cfg now" conn_destroyed conn_ok for S :: "'w sys" and cfg now
  by unfold_locales (rule timeout_conn_returns, rule timeout_conn_ok)

interpretation server_index: index_alloc "\<lambda>srv. MIN_INDEX \<le> ts_next_id srv \<and> ts_next_id srv \<le> MAX_INDEX"
  ts_next_id next_index MIN_INDEX MAX_INDEX
proof
  fix srv :: tls_server assume srv: "MIN_INDEX \<le> ts_next_id srv \<and> ts_next_id srv \<le> MAX_INDEX"
  then show "MIN_INDEX \<le> ts_next_id srv \<and> ts_next_id srv \<le> MAX_INDEX" .
  from srv show "\<exists>srv'. next_index srv = Some (ts_next_id srv, srv') \<and>
      (MIN_INDEX \<le> ts_next_id srv' \<and> ts_next_id srv' \<le> MAX_INDEX) \<and>
      ts_next_id srv' = (if ts_next_id srv = MAX_INDEX then MIN_INDEX else ts_next_id srv + 1)"
    using next_index_spec [of srv] range_next [of "ts_next_id srv"] server_new_range by (auto simp: server_new_def)
qed

lemma check_timeout_inv:
  assumes "iterates order" and "server_inv srv"
  shows "\<exists>srv' w'. check_timeout order S cfg srv now w = Some (srv', w') \<and> server_inv srv' \<and>
    none_dead conn_destroyed (ts_conns srv')"
proof -
  have "table_ok conn_ok (ts_conns srv)" using assms(2) by (simp add: server_inv_def)
  from server_table.scan_and_remove [OF assms(1) this, of S cfg now w] obtain l m' w' where
    sc: "timeout_scan S cfg now (order (ts_conns srv)) (ts_conns srv) w = Some (l, m', w')"
    "table_ok conn_ok (remove_all l m')" "none_dead conn_destroyed (remove_all l m')"
    by (auto simp: timeout_scan_def)
  moreover obtain r where "ts_removed srv = Some r" using assms(2) by (auto simp: server_inv_def dead_listed_def)
  ultimately have "server_inv (srv\<lparr>ts_conns := remove_all l m'\<rparr>)"
    using assms(2) none_dead_listed by (simp add: server_inv_def)
  with sc show ?thesis by (simp add: check_timeout_def)
qed

section \<open>The event loop\<close>

lemma loop_event_inv:
  assumes "loop_event S cfg l e w = Some (l', w')" and "back_addr cfg \<noteq> None" and "server_inv (sl_server l)"
  shows "server_inv (sl_server l')"
proof -
  let ?f = "\<lambda>token ip srv w. Option.bind (do_conn_event S cfg srv (DnsEvent token ip) None w) (\<lambda>(srv, _, w). Some (srv, w))"
  have dns: "server_inv srv'" if "consume_messages S ?f r ms srv w = Some (r', srv', w')" "server_inv srv"
    for r ms srv w r' srv' w'
    using that
  proof (induction ms arbitrary: r srv w)
    case (Cons m ms)
    obtain t d ip where m: "m = (t, d, ip)" by (cases m)
    from Cons.prems obtain r1 w1 srv1 rv1 w2 where
      ev: "do_conn_event S cfg srv (DnsEvent t ip) None w1 = Some (srv1, rv1, w2)"
      and rest: "consume_messages S ?f r1 ms srv1 w2 = Some (r', srv', w')"
      by (auto simp: m split: bind_splits)
    from Cons.IH [OF rest] do_conn_event_inv [OF ev assms(2) Cons.prems(2)] show ?case .
  qed simp
  from assms show ?thesis
    by (auto simp: loop_event_def consume_def split: if_splits bind_splits
        dest: server_accept_inv do_conn_event_inv [OF _ assms(2)] dns)
qed

lemma loop_events_inv:
  assumes "back_addr cfg \<noteq> None"
  shows "loop_events S cfg l es w = Some (l', w') \<Longrightarrow> server_inv (sl_server l) \<Longrightarrow> server_inv (sl_server l')"
proof (induction es arbitrary: l w)
  case (Cons e es)
  then show ?case by (auto split: bind_splits dest: loop_event_inv [OF _ assms])
qed simp

text \<open>C13. The event loop preserves the server's invariant: through any round of events, new clients,
  client and target sockets and resolver answers in any order, every connection stays filed under
  its own index with its own token and satisfies the invariant of connections. At the end of the
  round no destroyed connection is left in the table.\<close>

theorem server_round_invariant:
  assumes "iterates order" and "back_addr cfg \<noteq> None" and "server_inv (sl_server l)"
    and "loop_round order S cfg l events w = Some (l', w')"
  shows "server_inv (sl_server l') \<and> (\<forall>i c. ts_conns (sl_server l') i = Some c \<longrightarrow> \<not> conn_destroyed c)"
proof -
  from assms(4) obtain l1 w1 srv where ev: "loop_events S cfg l events w = Some (l1, w1)"
    and rc: "remove_closed (sl_server l1) = Some srv"
    by (auto simp: loop_round_def split: bind_splits)
  from loop_events_inv [OF assms(2) ev assms(3)] have "server_inv (sl_server l1)" .
  from remove_closed_inv [OF this] rc have srv: "server_inv srv" "none_dead conn_destroyed (ts_conns srv)" by auto
  obtain now w2 where t: "instant_now S w1 = (now, w2)" by (cases "instant_now S w1")
  obtain srv2 w3 where ct: "check_timeout order S cfg srv now w2 = Some (srv2, w3)"
    "server_inv srv2" "none_dead conn_destroyed (ts_conns srv2)"
    using check_timeout_inv [OF assms(1) srv(1), of S cfg now w2] by blast
  from assms(4) ev rc t ct(1) have "sl_server l' = srv \<or> sl_server l' = srv2"
    by (auto simp: loop_round_def split: if_splits)
  with srv ct show ?thesis by (auto simp: none_dead_def)
qed

definition sample_server :: tls_server where
  "sample_server = \<lparr>ts_next_id = 3, ts_conns = [2 \<mapsto> sample_conn], ts_removed = Some []\<rparr>"

lemma sample_server_inv: "server_inv sample_server"
proof -
  have "(3 :: usize) \<le> MAX_INDEX" "(2 :: usize) \<le> MAX_INDEX" by (simp_all add: word_le_nat_alt unat_MAX_INDEX)
  with sample_ready_simps(8) show ?thesis
    by (auto simp: server_inv_def sample_server_def table_ok_def dead_listed_def conn_ok_def server_consts sample_conn_def
        sample_tls_def conn_destroyed_def is_deregistered_def split: if_splits)
qed

theorem server_round_invariant_witness:
  "iterates ascending \<and> (\<exists>l' w'. loop_round ascending sim_sys sample_ready
      \<lparr>sl_server = sample_server, sl_resolver = resolver_new 2 None, sl_last_check_time = 0\<rparr>
      [\<lparr>ev_token = 1, ev_readable = True, ev_writable = False\<rparr>] sim_idle = Some (l', w') \<and>
     server_inv (sl_server l'))"
proof -
  let ?l = "\<lparr>sl_server = sample_server, sl_resolver = resolver_new 2 None, sl_last_check_time = 0\<rparr>"
  have "server_accept sim_sys sample_server sim_idle = Some (sample_server, sim_idle)"
    by (simp add: server_accept.simps [of sim_sys])
  then obtain l' w' where r: "loop_round ascending sim_sys sample_ready ?l
      [\<lparr>ev_token = 1, ev_readable = True, ev_writable = False\<rparr>] sim_idle = Some (l', w')"
    by (simp add: loop_round_def loop_event_def server_consts remove_closed_def sample_server_def
        sim_idle_def duration_from_secs_def)
  have inv: "server_inv (sl_server ?l)" using sample_server_inv by simp
  from server_round_invariant [OF ascending_iterates sample_ready_simps(2) inv r] r ascending_iterates show ?thesis
    by blast
qed

section \<open>Isolation\<close>

text \<open>An event is handled by the connection its token names and by no other: every other
  connection, and the list of those to be removed but for that index, is left as it was. An event
  for an unknown index changes nothing.\<close>

theorem conn_event_isolated:
  assumes "do_conn_event S cfg srv ev rv w = Some (srv', rv', w')" and "j \<noteq> token2index (event_token ev)"
  shows "ts_conns srv' j = ts_conns srv j \<and>
    (j \<in> set (the (ts_removed srv')) \<longleftrightarrow> j \<in> set (the (ts_removed srv))) \<and>
    (ts_conns srv (token2index (event_token ev)) = None \<longrightarrow> srv' = srv \<and> rv' = rv \<and> w' = w)"
  using assms
  by (auto simp: do_conn_event_def Let_def unwrap_def split: option.splits bind_splits if_splits)

theorem conn_event_isolated_witness:
  "\<exists>srv' rv' w'. do_conn_event sim_sys sample_ready sample_server (DnsEvent 7 None) None sim_idle = Some (srv', rv', w') \<and>
     ts_conns srv' 2 = Some sample_conn"
proof -
  have t: "token2index 7 = 3" by (simp add: token2index_def CHANNEL_CNT_def)
  have r: "do_conn_event sim_sys sample_ready sample_server (DnsEvent 7 None) None sim_idle =
      Some (sample_server, None, sim_idle)"
    by (simp add: do_conn_event_def t sample_server_def)
  have "2 \<noteq> token2index (event_token (DnsEvent 7 None))" by (simp add: t)
  from conn_event_isolated [OF r this] r show ?thesis by (simp add: sample_server_def)
qed

end
