(* ===== verification/Domain_Map.thy ===== *)
theory Domain_Map
  imports Rust_Std "HOL-Library.Sublist"
begin

text \<open>
  The table of blocked domains of the DNS mode (\<open>src/src/dns/domain.rs\<close>): a trie over the labels of a
  domain, from the top-level label down. \<open>HashMap<String, Option<DomainMap>>\<close> is a map from labels to
  an optional sub-trie; an entry without sub-trie is a leaf.
\<close>

section \<open>Model\<close>

datatype domain_map = DomainMap "bytes \<Rightarrow> domain_map option option"

primrec dm_map :: "domain_map \<Rightarrow> (bytes \<rightharpoonup> domain_map option)" where
  "dm_map (DomainMap m) = m"

definition domain_map_new :: domain_map where
  "domain_map_new = DomainMap Map.empty"

text \<open>\<open>domain.split('.').rev()\<close> without the empty label behind a final dot.\<close>

definition domain_labels :: "bytes \<Rightarrow> bytes list" where
  "domain_labels domain =
     (let iter = rev (str_split 46 domain)
      in if domain \<noteq> [] \<and> last domain = 46 then drop 1 iter else iter)"

text \<open>The loop of \<open>add_domain\<close> behind the first label: \<open>current\<close> is the slot of the label before.\<close>

fun add_names :: "bytes list \<Rightarrow> domain_map option \<Rightarrow> domain_map option" where
  "add_names [] current = current"
| "add_names (name # iter) current =
     (let sub = (case current of None \<Rightarrow> domain_map_new | Some dm \<Rightarrow> dm);
          slot = (case dm_map sub name of None \<Rightarrow> None | Some slot \<Rightarrow> slot)
      in Some (DomainMap ((dm_map sub)(name \<mapsto> add_names iter slot))))"

definition add_domain :: "bytes \<Rightarrow> domain_map \<Rightarrow> domain_map" where
  "add_domain domain self =
     (case domain_labels domain of
        [] \<Rightarrow> self
      | first # iter \<Rightarrow>
          (let slot = (case dm_map self first of None \<Rightarrow> None | Some slot \<Rightarrow> slot)
           in DomainMap ((dm_map self)(first \<mapsto> add_names iter slot))))"

fun contains_names :: "bytes list \<Rightarrow> domain_map \<Rightarrow> bool" where
  "contains_names [] current = True"
| "contains_names (name # iter) current =
     (case dm_map current name of
        Some sub \<Rightarrow> (case sub of None \<Rightarrow> True | Some current \<Rightarrow> contains_names iter current)
      | None \<Rightarrow> False)"

definition domain_contains :: "domain_map \<Rightarrow> bytes \<Rightarrow> bool" where
  "domain_contains self domain = contains_names (domain_labels domain) self"

section \<open>Nodes of the trie\<close>

text \<open>\<open>trie_node q t\<close>: the path \<open>q\<close> exists below the slot \<open>t\<close>.\<close>

fun trie_node :: "bytes list \<Rightarrow> domain_map option \<Rightarrow> bool" where
  "trie_node [] t = True"
| "trie_node (n # q) t =
     (case t of None \<Rightarrow> False
      | Some d \<Rightarrow> (case dm_map d n of None \<Rightarrow> False | Some t \<Rightarrow> trie_node q t))"

text \<open>No sub-trie is empty, so a slot without sub-trie is one without longer paths.\<close>

inductive trie_ok :: "domain_map option \<Rightarrow> bool" where
  trie_leaf: "trie_ok None"
| trie_inner: "dm_map d \<noteq> Map.empty \<Longrightarrow> (\<And>n t. dm_map d n = Some t \<Longrightarrow> trie_ok t) \<Longrightarrow> trie_ok (Some d)"

inductive_cases trie_ok_SomeE: "trie_ok (Some d)"

lemma trie_node_None [simp]: "trie_node q None \<longleftrightarrow> q = []"
  by (cases q) simp_all

lemma trie_node_add: "trie_node q (add_names p t) \<longleftrightarrow> trie_node q t \<or> prefix q p"
proof (induction p arbitrary: q t)
  case (Cons n p)
  show ?case
  proof (cases q)
    case (Cons m q')
    then show ?thesis
      by (cases t) (auto simp: Cons.IH domain_map_new_def Let_def split: option.splits)
  qed simp
qed auto

lemma trie_ok_add: "trie_ok t \<Longrightarrow> trie_ok (add_names p t)"
proof (induction p arbitrary: t)
  case (Cons n p)
  let ?d = "case t of None \<Rightarrow> domain_map_new | Some d \<Rightarrow> d"
  have sub: "trie_ok s" if "dm_map ?d m = Some s" for m s
    using Cons.prems that by (cases t) (auto simp: domain_map_new_def elim: trie_ok_SomeE)
  then have "trie_ok (case dm_map ?d n of None \<Rightarrow> None | Some s \<Rightarrow> s)"
    by (auto simp: trie_leaf split: option.split)
  from Cons.IH [OF this] sub show ?case
    by (auto simp: Let_def intro!: trie_inner split: if_splits)
qed simp

text \<open>Walking down the trie succeeds at the end of the path, or at a leaf on the way.\<close>

definition contains_slot :: "bytes list \<Rightarrow> domain_map option \<Rightarrow> bool" where
  "contains_slot q t = (case t of None \<Rightarrow> True | Some d \<Rightarrow> contains_names q d)"

lemma contains_slot_iff:
  "trie_ok t \<Longrightarrow> contains_slot q t \<longleftrightarrow>
     trie_node q t \<or> (\<exists>r. prefix r q \<and> trie_node r t \<and> (\<forall>n. \<not> trie_node (r @ [n]) t))"
proof (induction q arbitrary: t)
  case Nil
  then show ?case by (simp add: contains_slot_def split: option.split)
next
  case (Cons n q)
  show ?case
  proof (cases t)
    case None
    then show ?thesis by (auto simp: contains_slot_def intro: exI [of _ "[]"])
  next
    case (Some d)
    with Cons.prems have d: "dm_map d \<noteq> Map.empty" "\<And>m s. dm_map d m = Some s \<Longrightarrow> trie_ok s"
      by (auto elim: trie_ok_SomeE)
    from d(1) obtain m s where ms: "dm_map d m = Some s" by (meson not_None_eq ext)
    have root: "\<not> (\<forall>n. \<not> trie_node ([] @ [n]) t)"
      using ms by (auto simp: Some intro: exI [of _ m])
    have ex: "(\<exists>r. prefix r (n # q) \<and> trie_node r t \<and> (\<forall>k. \<not> trie_node (r @ [k]) t)) \<longleftrightarrow>
        (\<exists>r. prefix r q \<and> trie_node (n # r) t \<and> (\<forall>k. \<not> trie_node (n # r @ [k]) t))"
      using root by (auto simp: prefix_Cons)
    show ?thesis
    proof (cases "dm_map d n")
      case None
      with Some ex show ?thesis by (simp add: contains_slot_def)
    next
      case s: (Some s)
      with Some ex Cons.IH [OF d(2) [OF s]] show ?thesis
        by (simp add: contains_slot_def split: option.splits)
    qed
  qed
qed

section \<open>What is contained\<close>

lemma domain_labels_nonempty: "domain_labels d \<noteq> []"
proof (cases "d \<noteq> [] \<and> last d = 46")
  case True
  then have "46 \<in> set d" using last_in_set [of d] by simp
  then have "filter ((=) 46) d \<noteq> []" by (auto simp: filter_empty_conv)
  then have "1 < length (str_split 46 d)" by (simp add: length_str_split)
  then have "0 < length (domain_labels d)" using True by (simp add: domain_labels_def Let_def)
  then show ?thesis by auto
qed (auto simp: domain_labels_def)

text \<open>Adding to the root is adding below a slot that has a sub-trie already.\<close>

lemma add_domain_slot: "Some (add_domain d t) = add_names (domain_labels d) (Some t)"
  using domain_labels_nonempty [of d]
  by (cases "domain_labels d") (simp_all add: add_domain_def Let_def)

lemma trie_nodes_added:
  "trie_node q (Some (fold add_domain ds t)) \<longleftrightarrow> trie_node q (Some t) \<or> (\<exists>d\<in>set ds. prefix q (domain_labels d))"
  by (induction ds arbitrary: t) (auto simp: add_domain_slot trie_node_add)

lemma trie_ok_added: "trie_ok (Some t) \<Longrightarrow> trie_ok (Some (fold add_domain ds t))"
  by (induction ds arbitrary: t) (auto simp: add_domain_slot trie_ok_add)

lemma strict_prefix_step: "strict_prefix p l \<longleftrightarrow> (\<exists>n. prefix (p @ [n]) l)"
  by (auto simp: strict_prefix_def prefix_def) (metis neq_Nil_conv)

lemma domain_map_contains_iff:
  "domain_contains (fold add_domain ds domain_map_new) q \<longleftrightarrow>
     (\<exists>d\<in>set ds. prefix (domain_labels q) (domain_labels d)) \<or>
     (\<exists>d\<in>set ds. prefix (domain_labels d) (domain_labels q) \<and>
        (\<nexists>e. e \<in> set ds \<and> strict_prefix (domain_labels d) (domain_labels e)))"
proof (cases ds)
  case Nil
  with domain_labels_nonempty [of q] show ?thesis
    by (cases "domain_labels q") (simp_all add: domain_contains_def domain_map_new_def)
next
  case (Cons d0 ds0)
  let ?t = "fold add_domain ds domain_map_new"
  have ok1: "trie_ok (Some (add_domain d0 domain_map_new))"
    using domain_labels_nonempty [of d0]
    by (cases "domain_labels d0") (auto simp: add_domain_def domain_map_new_def Let_def
        intro!: trie_inner trie_ok_add trie_leaf split: if_splits)
  have ok: "trie_ok (Some ?t)" using trie_ok_added [OF ok1, of ds0] Cons by simp
  have node: "trie_node p (Some ?t) \<longleftrightarrow> (\<exists>d\<in>set ds. prefix p (domain_labels d))" for p
    unfolding trie_nodes_added using Cons by (cases p) (auto simp: domain_map_new_def)
  have leaf: "trie_node p (Some ?t) \<and> (\<forall>n. \<not> trie_node (p @ [n]) (Some ?t)) \<longleftrightarrow>
      (\<exists>d\<in>set ds. p = domain_labels d) \<and> (\<nexists>e. e \<in> set ds \<and> strict_prefix p (domain_labels e))" for p
    unfolding node
    using strict_prefix_step by (metis prefix_order.le_less prefix_order.order_refl)
  show ?thesis
    using contains_slot_iff [OF ok, of "domain_labels q"] leaf
    unfolding node by (auto simp: contains_slot_def domain_contains_def)
qed

text \<open>C30. What the table of blocked domains contains, in terms of the list it was built from: a domain
  is reported exactly if it is a listed domain or a parent of one, or if it lies below a listed
  domain that itself has no listed subdomain. The order in which the list was added does not
  matter.\<close>

theorem domain_map_contains:
  "domain_contains (fold add_domain ds domain_map_new) q \<longleftrightarrow>
     (\<exists>d\<in>set ds. prefix (domain_labels q) (domain_labels d)) \<or>
     (\<exists>d\<in>set ds. prefix (domain_labels d) (domain_labels q) \<and>
        (\<nexists>e. e \<in> set ds \<and> strict_prefix (domain_labels d) (domain_labels e)))"
  by (rule domain_map_contains_iff)

text \<open>The table is not monotone: listing a subdomain of a listed domain releases the domain's other
  subdomains, which were reported before.\<close>

theorem listing_releases_siblings:
  assumes "strict_prefix (domain_labels d) (domain_labels e)" and "prefix (domain_labels d) (domain_labels q)"
    and "\<not> prefix (domain_labels q) (domain_labels e)" and "\<not> prefix (domain_labels e) (domain_labels q)"
  shows "domain_contains (fold add_domain [d] domain_map_new) q \<and>
    \<not> domain_contains (fold add_domain [d, e] domain_map_new) q"
proof -
  have "\<not> prefix (domain_labels q) (domain_labels d)"
    using assms(1,3) by (metis prefix_order.dual_order.trans strict_prefix_def)
  then show ?thesis
    unfolding domain_map_contains_iff using assms by auto
qed

theorem listing_releases_siblings_witness:
  "domain_contains (fold add_domain [[99]] domain_map_new) [98, 46, 99] \<and>
   \<not> domain_contains (fold add_domain [[99], [97, 46, 99]] domain_map_new) [98, 46, 99]"
  by (rule listing_releases_siblings) (simp_all add: domain_labels_def Let_def strict_prefix_def)

end
