(* ===== verification/Ip_Set.thy ===== *)
theory Ip_Set
  imports Proto
begin

text \<open>
  Sets of IPv4 addresses as lists of CIDR blocks (\<open>src/src/wintun/ipset.rs\<close>): reading blocks, turning a
  range into blocks, complementing a set, and the test for private endpoints. Shifts, subtractions
  and additions carry the overflow checks of the language. The order of blocks is the type's
  \<open>Ord\<close>, so \<open>sort\<close> is the library's.
\<close>

section \<open>Blocks\<close>

datatype cidr = Cidr (cidr_ip: u32) (cidr_prefix: u32)

definition shl_checked :: "u32 \<Rightarrow> nat \<Rightarrow> u32 rs" where
  "shl_checked x n = (if n < 32 then Some (push_bit n x) else None)"

definition sub_checked :: "u32 \<Rightarrow> u32 \<Rightarrow> u32 rs" where
  "sub_checked x y = (if y \<le> x then Some (x - y) else None)"

definition cidr_mask :: "cidr \<Rightarrow> u32 rs" where
  "cidr_mask c = do {
     n \<leftarrow> sub_checked 32 (cidr_prefix c);
     b \<leftarrow> shl_checked 1 (unat n);
     Some (NOT (b - 1)) }"

definition cidr_new :: "u32 \<Rightarrow> u32 \<Rightarrow> cidr rs" where
  "cidr_new ip prefix = do {
     m \<leftarrow> cidr_mask (Cidr ip prefix);
     Some (Cidr (ip AND m) prefix) }"

definition cidr_range :: "cidr \<Rightarrow> (u32 \<times> u32) rs" where
  "cidr_range c = do {
     m \<leftarrow> cidr_mask c;
     r \<leftarrow> add_checked (cidr_ip c) (NOT m);
     Some (cidr_ip c, r) }"

text \<open>\<open>Ord for Cidr\<close>: by address, and the longer prefix first.\<close>

instantiation cidr :: linorder
begin

definition less_eq_cidr :: "cidr \<Rightarrow> cidr \<Rightarrow> bool" where
  "a \<le> b \<longleftrightarrow> cidr_ip a < cidr_ip b \<or> cidr_ip a = cidr_ip b \<and> cidr_prefix b \<le> cidr_prefix a"

definition less_cidr :: "cidr \<Rightarrow> cidr \<Rightarrow> bool" where
  "a < b \<longleftrightarrow> cidr_ip a < cidr_ip b \<or> cidr_ip a = cidr_ip b \<and> cidr_prefix b < cidr_prefix a"

instance
  by standard (auto simp: less_eq_cidr_def less_cidr_def intro: cidr.expand)

end

section \<open>Ranges\<close>

definition trailing_ones :: "u32 \<Rightarrow> nat" where
  "trailing_ones x = length (takeWhile (bit x) [0..<32])"

definition trailing_zeros :: "u32 \<Rightarrow> nat" where
  "trailing_zeros x = length (takeWhile (\<lambda>i. \<not> bit x i) [0..<32])"

lemma sub_checked_less:
  "sub_checked r 1 = Some x \<Longrightarrow> r \<le> right \<Longrightarrow> x < right"
  by (auto simp: sub_checked_def word_less_nat_alt word_le_nat_alt unat_sub split: if_splits)

lemma add_checked_greater:
  "add_checked l b = Some x \<Longrightarrow> b \<noteq> 0 \<Longrightarrow> l < x" for l :: "'a::len word"
  using add_checked_SomeD [of l b x] by (simp add: word_less_nat_alt unat_gt_0)

text \<open>The first loop of \<open>range_to_cidr\<close> takes blocks from the right end of the range, the second from
  the left end.\<close>

function range_from_right :: "u32 \<Rightarrow> u32 \<Rightarrow> cidr list \<Rightarrow> (cidr list \<times> u32) rs" where
  "range_from_right left right cidrs =
     (let shift = trailing_ones right
      in case shl_checked 1 shift of
           None \<Rightarrow> None
         | Some b \<Rightarrow>
             (let r = right AND NOT (b - 1)
              in if left \<le> r then
                   (case cidr_new r (32 - of_nat shift) of
                      None \<Rightarrow> None
                    | Some c \<Rightarrow>
                        (case sub_checked r 1 of
                           None \<Rightarrow> None
                         | Some right \<Rightarrow> range_from_right left right (cidrs @ [c])))
                 else Some (cidrs, right)))"
  by pat_completeness auto
termination
proof (relation "measure (\<lambda>(left, right, cidrs). unat right)", goal_cases)
  case (2 left right cidrs s b r c x)
  then have "r \<le> right" by (simp add: word_and_le2)
  with 2 sub_checked_less [of r x right] show ?case by (simp add: word_less_nat_alt)
qed simp

declare range_from_right.simps [simp del]

function range_from_left :: "u32 \<Rightarrow> u32 \<Rightarrow> cidr list \<Rightarrow> cidr list rs" where
  "range_from_left left right cidrs =
     (if left \<le> right then
        (let shift = trailing_zeros left
         in case cidr_new left (32 - of_nat shift) of
              None \<Rightarrow> None
            | Some c \<Rightarrow>
                (case shl_checked 1 shift of
                   None \<Rightarrow> None
                 | Some b \<Rightarrow>
                     (case add_checked left b of
                        None \<Rightarrow> None
                      | Some left \<Rightarrow> range_from_left left right (cidrs @ [c]))))
      else Some cidrs)"
  by pat_completeness auto
termination
proof (relation "measure (\<lambda>(left, right, cidrs). Suc (unat right) - unat left)", goal_cases)
  case (2 left right cidrs s c b x)
  then have "b \<noteq> 0" by (auto simp: shl_checked_def split: if_splits)
  with 2 add_checked_greater [of left b x] show ?case by (simp add: word_less_nat_alt word_le_nat_alt)
qed simp

declare range_from_left.simps [simp del]

definition range_to_cidr :: "u32 \<Rightarrow> u32 \<Rightarrow> cidr list rs" where
  "range_to_cidr left right =
     (if left = right then do { c \<leftarrow> cidr_new left 32; Some [c] }
      else do {
        (cidrs, right) \<leftarrow> range_from_right left right [];
        cidrs \<leftarrow> range_from_left left right cidrs;
        Some (sort cidrs) })"

section \<open>Sets\<close>

record ipset =
  ips_data :: "cidr list"

definition ipset_new :: ipset where
  "ipset_new = \<lparr>ips_data = []\<rparr>"

definition ipset_add :: "ipset \<Rightarrow> u32 \<Rightarrow> u32 \<Rightarrow> ipset rs" where
  "ipset_add self ip prefix = do {
     c \<leftarrow> cidr_new ip prefix;
     Some (self\<lparr>ips_data := ips_data self @ [c]\<rparr>) }"

definition ipset_add_str :: "ipset \<Rightarrow> bytes \<Rightarrow> ipset rs" where
  "ipset_add_str self line = do {
     let rows = str_split 47 line;
     first \<leftarrow> idx rows 0;
     ip \<leftarrow> unwrap (parse_ipv4 first);
     second \<leftarrow> idx rows 1;
     prefix \<leftarrow> unwrap (parse_u32 second);
     ipset_add self (ipv4_to_u32 ip) prefix }"

definition ipset_add_range :: "ipset \<Rightarrow> u32 \<Rightarrow> u32 \<Rightarrow> ipset rs" where
  "ipset_add_range self left right = do {
     cidrs \<leftarrow> range_to_cidr left right;
     Some (self\<lparr>ips_data := ips_data self @ cidrs\<rparr>) }"

definition ipset_build :: "ipset \<Rightarrow> ipset" where
  "ipset_build self = self\<lparr>ips_data := sort (ips_data self)\<rparr>"

fun ipset_add_lines :: "ipset \<Rightarrow> bytes list \<Rightarrow> ipset rs" where
  "ipset_add_lines self [] = Some self"
| "ipset_add_lines self (line # lines) = do {
     self \<leftarrow> ipset_add_str self line;
     ipset_add_lines self lines }"

text \<open>The reserved blocks that \<open>with_file\<close> adds when the set is to be inverted, in their text form:
  \<open>0.0.0.0/8\<close>, \<open>10.0.0.0/8\<close>, \<open>127.0.0.0/8\<close>, \<open>169.254.0.0/16\<close>, \<open>172.16.0.0/12\<close>, \<open>192.168.0.0/16\<close>,
  \<open>224.0.0.0/4\<close>, \<open>240.0.0.0/4\<close> and \<open>255.255.255.255/32\<close>.\<close>

definition reserved_lines :: "bytes list" where
  "reserved_lines = [
     [48, 46, 48, 46, 48, 46, 48, 47, 56],
     [49, 48, 46, 48, 46, 48, 46, 48, 47, 56],
     [49, 50, 55, 46, 48, 46, 48, 46, 48, 47, 56],
     [49, 54, 57, 46, 50, 53, 52, 46, 48, 46, 48, 47, 49, 54],
     [49, 55, 50, 46, 49, 54, 46, 48, 46, 48, 47, 49, 50],
     [49, 57, 50, 46, 49, 54, 56, 46, 48, 46, 48, 47, 49, 54],
     [50, 50, 52, 46, 48, 46, 48, 46, 48, 47, 52],
     [50, 52, 48, 46, 48, 46, 48, 46, 48, 47, 52],
     [50, 53, 53, 46, 50, 53, 53, 46, 50, 53, 53, 46, 50, 53, 53, 47, 51, 50]]"

text \<open>\<open>with_file\<close> on the lines that could be read from the file.\<close>

definition ipset_with_lines :: "bytes list \<Rightarrow> bool \<Rightarrow> ipset rs" where
  "ipset_with_lines lines invert = do {
     out \<leftarrow> ipset_add_lines ipset_new lines;
     out \<leftarrow> (if invert then ipset_add_lines out reserved_lines else Some out);
     Some (ipset_build out) }"

fun not_loop :: "cidr list \<Rightarrow> u32 \<Rightarrow> ipset \<Rightarrow> ipset rs" where
  "not_loop [] r out = Some out"
| "not_loop (item # items) r out = do {
     (left, right) \<leftarrow> cidr_range item;
     if left = 0 \<or> left - 1 = r then not_loop items right out
     else do {
       out \<leftarrow> (if r < - 1 then do {
           r1 \<leftarrow> add_checked r 1;
           l1 \<leftarrow> sub_checked left 1;
           ipset_add_range out r1 l1 } else Some out);
       not_loop items right out } }"

definition ipset_not :: "ipset \<Rightarrow> ipset rs" where
  "ipset_not self = do {
     out \<leftarrow> not_loop (sort (ips_data self)) 0 ipset_new;
     Some (ipset_build out) }"

section \<open>Private endpoints\<close>

text \<open>The tests on \<open>Ipv4Address\<close> are functions of smoltcp.\<close>

record smoltcp_v4 =
  is_unspecified :: "ipv4_addr \<Rightarrow> bool"
  is_loopback :: "ipv4_addr \<Rightarrow> bool"
  is_link_local :: "ipv4_addr \<Rightarrow> bool"
  is_multicast :: "ipv4_addr \<Rightarrow> bool"
  is_broadcast :: "ipv4_addr \<Rightarrow> bool"

definition is_private :: "smoltcp_v4 \<Rightarrow> ip_endpoint \<Rightarrow> bool" where
  "is_private V endpoint =
     (case addr endpoint of
        SmolIpv4 ip \<Rightarrow>
          (case ip of Ipv4Addr a b c d \<Rightarrow>
             port endpoint = 0 \<or> is_unspecified V ip \<or> a = 10 \<or> is_loopback V ip \<or> is_link_local V ip \<or>
             a = 172 \<and> b AND 0xf0 = 16 \<or> a = 192 \<and> b = 168 \<or> is_multicast V ip \<or> a AND 0xf0 = 240 \<or>
             is_broadcast V ip)
      | _ \<Rightarrow> True)"

section \<open>The addresses of a block\<close>

definition cidr_addrs :: "cidr \<Rightarrow> nat set" where
  "cidr_addrs c = {unat (cidr_ip c) ..< unat (cidr_ip c) + 2 ^ (32 - unat (cidr_prefix c))}"

text \<open>A block made by \<open>Cidr::new\<close>, of more than zero prefix bits.\<close>

definition cidr_ok :: "cidr \<Rightarrow> bool" where
  "cidr_ok c \<longleftrightarrow> 1 \<le> unat (cidr_prefix c) \<and> unat (cidr_prefix c) \<le> 32 \<and>
     2 ^ (32 - unat (cidr_prefix c)) dvd unat (cidr_ip c)"

lemma unat_exp32: "n < 32 \<Longrightarrow> unat (2 ^ n :: u32) = 2 ^ n"
proof -
  assume n: "n < 32"
  have "(2 :: nat) ^ n < 2 ^ 32" using n by (intro power_strict_increasing) simp_all
  then have "unat (of_nat (2 ^ n) :: u32) = 2 ^ n" by (subst unat_of_nat) (simp add: take_bit_nat_eq_self_iff)
  then show ?thesis by simp
qed

lemma unat_prefix: "n \<le> 32 \<Longrightarrow> unat (32 - of_nat n :: u32) = 32 - n"
proof -
  assume n: "n \<le> 32"
  then have u: "unat (of_nat n :: u32) = n" by (simp add: unat_of_nat take_bit_nat_eq_self_iff)
  with n have "(of_nat n :: u32) \<le> 32" by (simp add: word_le_nat_alt)
  with u show ?thesis by (simp add: unat_sub)
qed

lemma shl_checked_1: "n < 32 \<Longrightarrow> shl_checked 1 n = Some (2 ^ n)"
  by (simp add: shl_checked_def push_bit_eq_mult)

lemma unat_and_not: "unat (w AND NOT (2 ^ n - 1)) = unat w - unat w mod 2 ^ n" for w :: "'a::len word"
proof -
  have "w AND NOT (2 ^ n - 1) = w AND NOT (take_bit n w)"
    unfolding mask_eq_exp_minus_1 [symmetric]
    by (rule bit_word_eqI) (auto simp: bit_simps)
  also have "\<dots> = w - take_bit n w"
    by (rule disjunctive_diff [symmetric]) (simp add: bit_simps)
  finally have "w AND NOT (2 ^ n - 1) = w - take_bit n w" .
  moreover have "take_bit n w \<le> w" by (simp add: take_bit_eq_mask word_and_le2)
  moreover have "unat (take_bit n w) = unat w mod 2 ^ n" 
    unfolding unsigned_take_bit_eq by (rule take_bit_eq_mod)
  ultimately show ?thesis by (simp add: unat_sub)
qed

lemma cidr_mask_eq: "n < 32 \<Longrightarrow> cidr_mask (Cidr ip (32 - of_nat n)) = Some (NOT (2 ^ n - 1))"
proof -
  assume n: "n < 32"
  have "(32 - of_nat n :: u32) \<le> 32" using n unat_prefix [of n] by (simp add: word_le_nat_alt)
  moreover have "unat (of_nat n :: u32) = n" using n by (simp add: unat_of_nat take_bit_nat_eq_self_iff)
  ultimately show ?thesis using n by (simp add: cidr_mask_def sub_checked_def shl_checked_1)
qed

lemma cidr_new_aligned:
  assumes "n < 32" and "2 ^ n dvd unat ip"
  shows "cidr_new ip (32 - of_nat n) = Some (Cidr ip (32 - of_nat n))"
    and "cidr_ok (Cidr ip (32 - of_nat n))"
    and "cidr_addrs (Cidr ip (32 - of_nat n)) = {unat ip ..< unat ip + 2 ^ n}"
proof -
  have "unat (ip AND NOT (2 ^ n - 1)) = unat ip" using assms(2) by (simp add: unat_and_not mod_eq_0_iff_dvd)
  then have "ip AND NOT (2 ^ n - 1) = ip" by (simp add: word_unat_eq_iff)
  with assms(1) show "cidr_new ip (32 - of_nat n) = Some (Cidr ip (32 - of_nat n))"
    by (simp add: cidr_new_def cidr_mask_eq)
  show "cidr_ok (Cidr ip (32 - of_nat n))" "cidr_addrs (Cidr ip (32 - of_nat n)) = {unat ip ..< unat ip + 2 ^ n}"
    using assms unat_prefix [of n] by (simp_all add: cidr_ok_def cidr_addrs_def)
qed

lemma cidr_ok_bounds:
  assumes "cidr_ok c"
  shows "unat (cidr_ip c) + 2 ^ (32 - unat (cidr_prefix c)) \<le> 2 ^ 32"
proof -
  let ?n = "32 - unat (cidr_prefix c)"
  have "2 ^ ?n dvd (2 ^ 32 :: nat)" by (rule le_imp_power_dvd) simp
  moreover have "2 ^ ?n dvd unat (cidr_ip c)" using assms by (simp add: cidr_ok_def)
  ultimately have "2 ^ ?n dvd 2 ^ 32 - unat (cidr_ip c)" by (simp add: dvd_diff_nat)
  moreover have "unat (cidr_ip c) < 2 ^ 32" using unsigned_less [of "cidr_ip c"] by simp
  ultimately have "2 ^ ?n \<le> 2 ^ 32 - unat (cidr_ip c)" by (intro dvd_imp_le) auto
  with \<open>unat (cidr_ip c) < 2 ^ 32\<close> show ?thesis by simp
qed

lemma cidr_range_ok:
  assumes "cidr_ok c"
  shows "\<exists>r. cidr_range c = Some (cidr_ip c, r) \<and> cidr_addrs c = {unat (cidr_ip c) .. unat r}"
proof -
  let ?n = "32 - unat (cidr_prefix c)"
  have n: "?n < 32" and p: "cidr_prefix c = 32 - of_nat ?n"
    using assms by (auto simp: cidr_ok_def word_unat_eq_iff unat_prefix)
  have m: "cidr_mask c = Some (NOT (2 ^ ?n - 1))"
    using cidr_mask_eq [OF n, of "cidr_ip c"] p by (cases c) simp
  have e: "unat (2 ^ ?n - 1 :: u32) = 2 ^ ?n - 1"
    using unat_exp32 [OF n] by (subst unat_sub) (simp_all add: word_le_nat_alt)
  have "0 < (2 :: nat) ^ ?n" by simp
  then have a: "add_checked (cidr_ip c) (2 ^ ?n - 1) = Some (cidr_ip c + (2 ^ ?n - 1))"
    using e cidr_ok_bounds [OF assms] by (simp add: add_checked_def)
  from add_checked_SomeD [OF a] e have "unat (cidr_ip c + (2 ^ ?n - 1)) = unat (cidr_ip c) + (2 ^ ?n - 1)" by simp
  moreover have "{k ..< k + d} = {k .. k + (d - 1)}" if "0 < d" for k d :: nat using that by auto
  note this [OF \<open>0 < 2 ^ ?n\<close>]
  ultimately show ?thesis using m a by (simp add: cidr_range_def cidr_addrs_def)
qed

section \<open>Tiling\<close>

text \<open>\<open>tiles cs A\<close>: every address of \<open>A\<close> lies in exactly one block of \<open>cs\<close>, every other in none.\<close>

definition hits :: "cidr list \<Rightarrow> nat \<Rightarrow> nat" where
  "hits cs x = length (filter (\<lambda>c. x \<in> cidr_addrs c) cs)"

definition tiles :: "cidr list \<Rightarrow> nat set \<Rightarrow> bool" where
  "tiles cs A \<longleftrightarrow> (\<forall>x. hits cs x = (if x \<in> A then 1 else 0))"

lemma hits_append [simp]: "hits (cs @ ds) x = hits cs x + hits ds x"
  by (simp add: hits_def)

lemma tiles_Nil: "tiles [] {}"
  by (simp add: tiles_def hits_def)

lemma tiles_append: "tiles cs A \<Longrightarrow> tiles ds B \<Longrightarrow> A \<inter> B = {} \<Longrightarrow> tiles (cs @ ds) (A \<union> B)"
  by (auto simp: tiles_def)

lemma tiles_single: "tiles [c] (cidr_addrs c)"
  by (simp add: tiles_def hits_def)

lemma hits_sort [simp]: "hits (sort cs) x = hits cs x"
  unfolding hits_def by (metis filter_sort length_sort)

lemma tiles_sort: "tiles (sort cs) A \<longleftrightarrow> tiles cs A"
  by (simp add: tiles_def)

lemma hits_0: "hits cs x = 0 \<longleftrightarrow> (\<forall>c\<in>set cs. x \<notin> cidr_addrs c)"
  by (simp add: hits_def filter_empty_conv)

lemma tiles_iff: "tiles cs A \<Longrightarrow> x \<in> A \<longleftrightarrow> (\<exists>c\<in>set cs. x \<in> cidr_addrs c)"
  using hits_0 [of cs x] by (auto simp: tiles_def split: if_splits)

section \<open>From a range to blocks\<close>

lemma takeWhile_upt_bit:
  assumes "i < length (takeWhile P [0..<n])"
  shows "P i"
proof -
  have "i < n" using assms length_takeWhile_le [of P "[0..<n]"] by simp
  with assms have "takeWhile P [0..<n] ! i = i" by (simp add: takeWhile_nth)
  with assms show ?thesis by (metis nth_mem set_takeWhileD)
qed

lemma trailing_ones_mod:
  assumes "s = trailing_ones w"
  shows "unat w mod 2 ^ s = 2 ^ s - 1"
proof -
  have "take_bit s w = mask s"
    using assms length_takeWhile_le [of "bit w" "[0..<32]"] takeWhile_upt_bit [of _ "bit w" 32]
    by (intro bit_word_eqI) (auto simp: bit_simps trailing_ones_def)
  then have "take_bit s (unat w) = unat (mask s :: u32)" by (metis unsigned_take_bit_eq)
  moreover have "s \<le> 32" using assms length_takeWhile_le [of "bit w" "[0..<32]"] by (simp add: trailing_ones_def)
  then have "unat (mask s :: u32) = mask s"
    using unsigned_take_bit_eq [of s "- 1 :: u32"] by (simp add: take_bit_minus_one_eq_mask unsigned_minus_1_eq_mask min_def)
  ultimately show ?thesis by (simp add: take_bit_eq_mod mask_eq_exp_minus_1)
qed

lemma trailing_zeros_dvd:
  assumes "s = trailing_zeros w"
  shows "2 ^ s dvd unat w"
proof -
  have "take_bit s w = 0"
    using assms takeWhile_upt_bit [of _ "\<lambda>i. \<not> bit w i" 32]
    by (intro bit_word_eqI) (auto simp: bit_simps trailing_zeros_def)
  then have "take_bit s (unat w) = 0" by (metis unsigned_take_bit_eq unsigned_0)
  then show ?thesis by (simp add: take_bit_eq_mod mod_eq_0_iff_dvd)
qed

text \<open>The block that ends at \<open>right\<close>.\<close>

lemma right_block:
  assumes "unat right < 2 ^ 32 - 1"
  defines "s \<equiv> trailing_ones right" and "r \<equiv> right AND NOT (2 ^ trailing_ones right - 1)"
  shows "s < 32" and "unat r + 2 ^ s = unat right + 1" and "2 ^ s dvd unat r"
proof -
  have m: "unat right mod 2 ^ s = 2 ^ s - 1" using trailing_ones_mod [of s right] by (simp add: s_def)
  have "s \<le> 32" using length_takeWhile_le [of "bit right" "[0..<32]"] by (simp add: s_def trailing_ones_def)
  moreover have "s \<noteq> 32" using m assms(1) by auto
  ultimately show "s < 32" by simp
  have r: "unat r = unat right - unat right mod 2 ^ s" by (simp add: r_def s_def unat_and_not)
  have "unat right mod 2 ^ s \<le> unat right" by simp
  moreover have "0 < (2 :: nat) ^ s" by simp
  ultimately show "unat r + 2 ^ s = unat right + 1" using r m by linarith
  show "2 ^ s dvd unat r" unfolding r by (rule dvd_minus_mod)
qed

lemma range_from_right_post:
  assumes "1 \<le> unat left" and "unat right < 2 ^ 32 - 1" and "unat left \<le> unat right + 1"
  shows "\<exists>cs right' r s. range_from_right left right cidrs = Some (cidrs @ cs, right') \<and> list_all cidr_ok cs \<and>
    tiles cs {unat right' + 1 .. unat right} \<and> unat right' \<le> unat right \<and> unat left \<le> unat right' + 1 \<and>
    r + 2 ^ s = unat right' + 1 \<and> 2 ^ s dvd r \<and> r < unat left"
  using assms
proof (induction "unat right" arbitrary: right cidrs rule: less_induct)
  case less
  let ?s = "trailing_ones right" and ?r = "right AND NOT (2 ^ trailing_ones right - 1)"
  note blk = right_block [OF less.prems(2)]
  show ?case
  proof (cases "left \<le> ?r")
    case False
    then show ?thesis
      using blk less.prems
      by (intro exI [of _ "[]"] exI [of _ right] exI [of _ "unat ?r"] exI [of _ ?s])
        (simp add: range_from_right.simps [of left right] shl_checked_1 tiles_Nil Let_def word_le_nat_alt)
  next
    case True
    let ?c = "Cidr ?r (32 - of_nat ?s)"
    note c = cidr_new_aligned [OF blk(1,3)]
    have r1: "1 \<le> unat ?r" using True less.prems(1) by (simp add: word_le_nat_alt)
    then have sub: "sub_checked ?r 1 = Some (?r - 1)" by (simp add: sub_checked_def word_le_nat_alt)
    have u: "unat (?r - 1) = unat ?r - 1" using r1 by (simp add: unat_sub word_le_nat_alt)
    have "(1 :: nat) \<le> 2 ^ ?s" by simp
    with blk(2) r1 u have lt: "unat (?r - 1) < unat right" by linarith
    have le: "unat left \<le> unat (?r - 1) + 1" using True r1 u by (simp add: word_le_nat_alt)
    have bd: "unat (?r - 1) < 2 ^ 32 - 1" using lt less.prems(2) by simp
    from less.hyps [OF lt less.prems(1) bd le, of "cidrs @ [?c]"] obtain cs right' r s where
      IH: "range_from_right left (?r - 1) (cidrs @ [?c]) = Some ((cidrs @ [?c]) @ cs, right')" "list_all cidr_ok cs"
      "tiles cs {unat right' + 1 .. unat (?r - 1)}" "unat right' \<le> unat (?r - 1)" "unat left \<le> unat right' + 1"
      "r + 2 ^ s = unat right' + 1" "2 ^ s dvd r" "r < unat left"
      by blast
    have "cidr_addrs ?c = {unat ?r .. unat right}" 
      unfolding c(3) blk(2) by (simp add: atLeastLessThanSuc_atLeastAtMost)
    moreover have "{unat ?r .. unat right} \<inter> {unat right' + 1 .. unat (?r - 1)} = {}"
      "{unat ?r .. unat right} \<union> {unat right' + 1 .. unat (?r - 1)} = {unat right' + 1 .. unat right}"
      using u r1 lt IH(4) by auto
    ultimately have "tiles ([?c] @ cs) {unat right' + 1 .. unat right}"
      using tiles_append [OF tiles_single IH(3), of ?c] by metis
    with IH c True sub lt blk(1) show ?thesis
      by (intro exI [of _ "?c # cs"] exI [of _ right'] exI [of _ r] exI [of _ s])
        (simp add: range_from_right.simps [of left right] shl_checked_1 Let_def)
  qed
qed

lemma range_from_left_post:
  assumes "1 \<le> unat left" and "unat right < 2 ^ 32 - 1" and "unat left \<le> unat right + 1"
    and "r + 2 ^ s = unat right + 1" and "2 ^ s dvd r" and "r < unat left"
  shows "\<exists>cs. range_from_left left right cidrs = Some (cidrs @ cs) \<and> list_all cidr_ok cs \<and>
    tiles cs {unat left .. unat right}"
  using assms
proof (induction "Suc (unat right) - unat left" arbitrary: left cidrs rule: less_induct)
  case less
  show ?case
  proof (cases "left \<le> right")
    case False
    then show ?thesis
      by (auto simp: range_from_left.simps [of left right] tiles_Nil word_le_nat_alt)
  next
    case True
    let ?t = "trailing_zeros left" and ?L = "unat left" and ?R = "unat right"
    have LR: "?L \<le> ?R" using True by (simp add: word_le_nat_alt)
    have d: "2 ^ ?t dvd ?L" by (rule trailing_zeros_dvd) simp
    have ts: "?t < s"
    proof (rule ccontr)
      assume "\<not> ?t < s"
      then have "2 ^ s dvd ?L" using d by (meson dvd_trans le_imp_power_dvd not_less)
      with less.prems(5) have "2 ^ s dvd ?L - r" by (simp add: dvd_diff_nat)
      moreover have "0 < ?L - r" "?L - r < 2 ^ s" using less.prems(4,6) LR by linarith+
      ultimately show False by (simp add: nat_dvd_not_less)
    qed
    have "(2 :: nat) ^ s \<le> 2 ^ 32" using less.prems(2,4) by linarith
    then have t32: "?t < 32" using ts by (metis less_le_trans one_less_numeral_iff power_le_imp_le_exp semiring_norm(76))
    have "2 ^ ?t dvd ?R + 1"
      using less.prems(4,5) ts by (metis dvd_add dvd_trans dvd_refl le_imp_power_dvd less_imp_le)
    with d have "2 ^ ?t dvd ?R + 1 - ?L" by (simp add: dvd_diff_nat)
    then have fit: "?L + 2 ^ ?t \<le> ?R + 1" using LR dvd_imp_le [of "2 ^ ?t" "?R + 1 - ?L"] by simp
    then have add: "add_checked left (2 ^ ?t) = Some (left + 2 ^ ?t)"
      using less.prems(2) t32 by (simp add: add_checked_def unat_exp32)
    from add_checked_SomeD [OF this] t32 have u: "unat (left + 2 ^ ?t) = ?L + 2 ^ ?t" by (simp add: unat_exp32)
    let ?c = "Cidr left (32 - of_nat ?t)"
    note c = cidr_new_aligned [OF t32 d]
    have p: "0 < (2 :: nat) ^ ?t" by simp
    have 1: "Suc ?R - unat (left + 2 ^ ?t) < Suc ?R - ?L" "1 \<le> unat (left + 2 ^ ?t)"
      "unat (left + 2 ^ ?t) \<le> ?R + 1" "r < unat (left + 2 ^ ?t)"
      using u fit p LR less.prems(1,6) by linarith+
    from less.hyps [OF 1(1,2) less.prems(2) 1(3) less.prems(4,5) 1(4), of "cidrs @ [?c]"] obtain cs where
      IH: "range_from_left (left + 2 ^ ?t) right (cidrs @ [?c]) = Some ((cidrs @ [?c]) @ cs)" "list_all cidr_ok cs"
      "tiles cs {unat (left + 2 ^ ?t) .. ?R}" by blast
    have "{?L ..< ?L + 2 ^ ?t} \<inter> {unat (left + 2 ^ ?t) .. ?R} = {}"
      "{?L ..< ?L + 2 ^ ?t} \<union> {unat (left + 2 ^ ?t) .. ?R} = {?L .. ?R}"
      using u fit p by auto
    with c(3) IH(3) have "tiles ([?c] @ cs) {?L .. ?R}"
      using tiles_append [OF tiles_single, of cs _ ?c] by metis
    with IH c True add t32 show ?thesis
      by (intro exI [of _ "?c # cs"]) (simp add: range_from_left.simps [of left right] shl_checked_1 Let_def)
  qed
qed

lemma range_to_cidr_post:
  assumes "1 \<le> unat left" and "unat left \<le> unat right" and "unat right < 2 ^ 32 - 1"
  shows "\<exists>cs. range_to_cidr left right = Some cs \<and> list_all cidr_ok cs \<and> sorted cs \<and>
    tiles cs {unat left .. unat right}"
proof (cases "left = right")
  case True
  have "cidr_new left 32 = Some (Cidr left 32)" "cidr_ok (Cidr left 32)" "cidr_addrs (Cidr left 32) = {unat left}"
    using cidr_new_aligned [of 0 left] by simp_all
  with True tiles_single [of "Cidr left 32"] show ?thesis by (simp add: range_to_cidr_def)
next
  case False
  have "unat left \<le> unat right + 1" using assms(2) by simp
  from range_from_right_post [OF assms(1,3) this, of "[]"] obtain cs right' r s where
    1: "range_from_right left right [] = Some (cs, right')" "list_all cidr_ok cs"
    "tiles cs {unat right' + 1 .. unat right}" "unat right' \<le> unat right" "unat left \<le> unat right' + 1"
    "r + 2 ^ s = unat right' + 1" "2 ^ s dvd r" "r < unat left" by (metis append_Nil)
  have "unat right' < 2 ^ 32 - 1" using 1(4) assms(3) by simp
  from range_from_left_post [OF assms(1) this 1(5-8), of cs] obtain ds where
    2: "range_from_left left right' cs = Some (cs @ ds)" "list_all cidr_ok ds" "tiles ds {unat left .. unat right'}"
    by blast
  have "{unat right' + 1 .. unat right} \<inter> {unat left .. unat right'} = {}"
    "{unat right' + 1 .. unat right} \<union> {unat left .. unat right'} = {unat left .. unat right}"
    using 1(4,5) by auto
  with tiles_append [OF 1(3) 2(3)] have "tiles (cs @ ds) {unat left .. unat right}" by simp
  with False 1(1,2) 2(1,2) show ?thesis
    by (auto simp: range_to_cidr_def tiles_sort list_all_iff)
qed

text \<open>\<open>range_to_cidr\<close> is exact for every range that contains neither the first nor the last address:
  it returns, sorted, blocks such that every address of the range lies in exactly one of them and
  no other address in any.\<close>

theorem range_to_cidr_exact:
  assumes "1 \<le> unat left" and "unat left \<le> unat right" and "unat right < 2 ^ 32 - 1"
  shows "\<exists>cs. range_to_cidr left right = Some cs \<and> sorted cs \<and>
    (\<forall>x. length (filter (\<lambda>c. x \<in> cidr_addrs c) cs) = (if unat left \<le> x \<and> x \<le> unat right then 1 else 0))"
  using range_to_cidr_post [OF assms] unfolding tiles_def hits_def atLeastAtMost_iff by blast

theorem range_to_cidr_exact_witness:
  "\<exists>cs. range_to_cidr 190365721 190365722 = Some cs \<and>
    (\<forall>x. length (filter (\<lambda>c. x \<in> cidr_addrs c) cs) = (if 190365721 \<le> x \<and> x \<le> 190365722 then 1 else 0))"
proof -
  have u: "unat (190365721 :: u32) = 190365721" "unat (190365722 :: u32) = 190365722" by simp_all
  have "1 \<le> unat (190365721 :: u32)" "unat (190365721 :: u32) \<le> unat (190365722 :: u32)"
    "unat (190365722 :: u32) < 2 ^ 32 - 1" by simp_all
  from range_to_cidr_exact [OF this] show ?thesis unfolding u by blast
qed

lemma range_from_right_zero: "range_from_right 0 right cidrs = None"
proof (induction "unat right" arbitrary: right cidrs rule: less_induct)
  case less
  show ?case
  proof (cases "shl_checked 1 (trailing_ones right)")
    case (Some b)
    let ?r = "right AND NOT (b - 1)"
    have "range_from_right 0 x cs = None" if "sub_checked ?r 1 = Some x" for x cs
      using less [of x cs] sub_checked_less [OF that, of right] by (simp add: word_and_le2 word_less_nat_alt)
    with Some show ?thesis
      by (simp add: range_from_right.simps [of 0 right] Let_def split: option.split)
  qed (simp add: range_from_right.simps [of 0 right])
qed

text \<open>A longer range that starts at the first address or ends at the last makes \<open>range_to_cidr\<close>
  panic, on a subtraction or on a shift that overflows.\<close>

theorem range_to_cidr_panics:
  assumes "left < right" and "left = 0 \<or> right = - 1"
  shows "range_to_cidr left right = None"
proof -
  have "takeWhile (bit (- 1 :: u32)) [0..<32] = [0..<32]"
    by (subst takeWhile_eq_all_conv) simp
  then have "trailing_ones (- 1) = 32" unfolding trailing_ones_def by (metis length_upt diff_zero)
  then have "range_from_right left (- 1) [] = None"
    by (simp add: range_from_right.simps [of left "- 1"] shl_checked_def)
  with assms show ?thesis by (auto simp: range_to_cidr_def range_from_right_zero)
qed

theorem range_to_cidr_panics_witness: "range_to_cidr 0 255 = None"
  by (rule range_to_cidr_panics) simp_all

section \<open>Complement\<close>

lemma hits_Cons: "hits (c # cs) x = (if x \<in> cidr_addrs c then 1 else 0) + hits cs x"
  by (simp add: hits_def)

lemma cidr_addrs_ip: "unat (cidr_ip c) \<in> cidr_addrs c"
  by (simp add: cidr_addrs_def)

text \<open>The addresses between the blocks: above \<open>r\<close>, in no block, below one.\<close>

definition gaps :: "nat \<Rightarrow> cidr list \<Rightarrow> nat set" where
  "gaps r cs = {x. r < x \<and> hits cs x = 0 \<and> (\<exists>y>x. 0 < hits cs y)}"

text \<open>In a sorted list of disjoint blocks the later ones lie above the end of the first.\<close>

lemma sorted_disjoint_above:
  assumes "sorted (c # cs)" and "\<forall>x. hits (c # cs) x \<le> 1" and "cidr_addrs c = {unat (cidr_ip c) .. e}"
    and "d \<in> set cs"
  shows "e < unat (cidr_ip d)"
proof -
  let ?x = "unat (cidr_ip d)"
  have "0 < hits cs ?x" using assms(4) hits_0 [of cs ?x] cidr_addrs_ip [of d] by auto
  with assms(2) have "?x \<notin> cidr_addrs c" by (auto simp: hits_Cons dest: spec [of _ ?x])
  moreover have "unat (cidr_ip c) \<le> ?x"
    using assms(1,4) by (auto simp: less_eq_cidr_def word_less_nat_alt)
  ultimately show ?thesis using assms(3) by auto
qed

lemma hits_below: "\<forall>d\<in>set cs. e < unat (cidr_ip d) \<Longrightarrow> x \<le> e \<Longrightarrow> hits cs x = 0"
  unfolding hits_0 by (fastforce simp: cidr_addrs_def)

lemma gaps_Cons:
  assumes "cidr_addrs c = {l .. e}" and "l \<le> e" and "r < l" and "\<forall>d\<in>set cs. e < unat (cidr_ip d)"
  shows "gaps r (c # cs) = {r + 1 .. l - 1} \<union> gaps e cs" and "{r + 1 .. l - 1} \<inter> gaps e cs = {}"
proof -
  have below: "hits cs x = 0" if "x \<le> e" for x using hits_below [OF assms(4) that] by simp
  have hc: "hits (c # cs) x = (if l \<le> x \<and> x \<le> e then 1 else 0) + hits cs x" for x
    using assms(1) by (simp add: hits_Cons)
  show "gaps r (c # cs) = {r + 1 .. l - 1} \<union> gaps e cs"
  proof (intro set_eqI iffI)
    fix x assume "x \<in> gaps r (c # cs)"
    then obtain y where "r < x" and x0: "hits (c # cs) x = 0" and y: "x < y" "0 < hits (c # cs) y"
      by (auto simp: gaps_def)
    with x0 have x: "r < x" "hits cs x = 0" "\<not> (l \<le> x \<and> x \<le> e)" by (auto simp: hc split: if_splits)
    show "x \<in> {r + 1 .. l - 1} \<union> gaps e cs"
    proof (cases "x < l")
      case False
      with x y have "e < x" "0 < hits cs y" by (auto simp: hc split: if_splits)
      with x y show ?thesis by (auto simp: gaps_def)
    qed (use x in auto)
  next
    fix x assume "x \<in> {r + 1 .. l - 1} \<union> gaps e cs"
    then show "x \<in> gaps r (c # cs)"
    proof
      assume x: "x \<in> {r + 1 .. l - 1}"
      with assms(2,3) have "hits (c # cs) x = 0" "0 < hits (c # cs) l" "x < l"
        using below [of x] by (auto simp: hc)
      with x show ?thesis by (auto simp: gaps_def)
    next
      assume "x \<in> gaps e cs"
      then obtain y where y: "e < x" "hits cs x = 0" "x < y" "0 < hits cs y" by (auto simp: gaps_def)
      then have "r < x" "hits (c # cs) x = 0" "0 < hits (c # cs) y" using assms(2,3) by (simp_all add: hc)
      with y(3) show ?thesis by (auto simp: gaps_def)
    qed
  qed
  show "{r + 1 .. l - 1} \<inter> gaps e cs = {}" using assms(2) by (auto simp: gaps_def)
qed

lemma not_loop_gaps:
  assumes "sorted cs" and "\<forall>x. hits cs x \<le> 1" and "list_all cidr_ok cs"
    and "\<forall>c\<in>set cs. unat r < unat (cidr_ip c)"
  shows "\<exists>ds. not_loop cs r out = Some (out\<lparr>ips_data := ips_data out @ ds\<rparr>) \<and> list_all cidr_ok ds \<and>
    tiles ds (gaps (unat r) cs)"
  using assms
proof (induction cs arbitrary: r out)
  case Nil
  have "gaps (unat r) [] = {}" by (simp add: gaps_def hits_def)
  with tiles_Nil show ?case by (intro exI [of _ "[]"]) simp
next
  case (Cons c cs)
  let ?l = "cidr_ip c"
  from Cons.prems(3) obtain e where e: "cidr_range c = Some (?l, e)" "cidr_addrs c = {unat ?l .. unat e}"
    using cidr_range_ok [of c] by auto
  have le: "unat ?l \<le> unat e" using cidr_addrs_ip [of c] e(2) by simp
  have rl: "unat r < unat ?l" using Cons.prems(4) by simp
  have above: "\<forall>d\<in>set cs. unat e < unat (cidr_ip d)"
    using sorted_disjoint_above [OF Cons.prems(1,2) e(2)] by blast
  note gap = gaps_Cons [OF e(2) le rl above]
  have h: "\<forall>x. hits cs x \<le> 1" using Cons.prems(2) by (metis hits_Cons le_add2 le_trans)
  have IH: "\<exists>ds. not_loop cs e out = Some (out\<lparr>ips_data := ips_data out @ ds\<rparr>) \<and> list_all cidr_ok ds \<and>
      tiles ds (gaps (unat e) cs)" for out
    using Cons.IH [OF _ h _ above] Cons.prems(1,3) by simp
  have l1: "unat (?l - 1) = unat ?l - 1" using rl by (simp add: unat_sub word_le_nat_alt)
  have l0: "?l \<noteq> 0" using rl by auto
  show ?case
  proof (cases "?l - 1 = r")
    case True
    with l1 have "{unat r + 1 .. unat ?l - 1} = {}" by auto
    with True e IH [of out] gap(1) show ?thesis by simp
  next
    case False
    have "unat e < 2 ^ 32" "unat ?l < 2 ^ 32" using unsigned_less [of e] unsigned_less [of ?l] by simp_all
    moreover have "unat (- 1 :: u32) = 2 ^ 32 - 1"
      by (simp add: unsigned_minus_1_eq_mask mask_eq_exp_minus_1)
    ultimately have r1: "add_checked r 1 = Some (r + 1)" "r < - 1"
      using rl by (simp_all add: add_checked_def word_less_nat_alt)
    from add_checked_SomeD [OF r1(1)] have u1: "unat (r + 1) = unat r + 1" by simp
    have s1: "sub_checked ?l 1 = Some (?l - 1)" using rl by (simp add: sub_checked_def word_le_nat_alt)
    have "unat r \<noteq> unat ?l - 1" using False l1 by (metis word_unat_eq_iff)
    then have "1 \<le> unat (r + 1)" "unat (r + 1) \<le> unat (?l - 1)" "unat (?l - 1) < 2 ^ 32 - 1"
      using u1 l1 rl \<open>unat ?l < 2 ^ 32\<close> by linarith+
    from range_to_cidr_post [OF this] obtain ds where ds: "range_to_cidr (r + 1) (?l - 1) = Some ds" "list_all cidr_ok ds"
      "tiles ds {unat r + 1 .. unat ?l - 1}" unfolding u1 l1 by blast
    from IH [of "out\<lparr>ips_data := ips_data out @ ds\<rparr>"] obtain es where es: "list_all cidr_ok es" "tiles es (gaps (unat e) cs)"
      "not_loop cs e (out\<lparr>ips_data := ips_data out @ ds\<rparr>) = Some (out\<lparr>ips_data := ips_data out @ ds @ es\<rparr>)"
      by auto
    have "tiles (ds @ es) (gaps (unat r) (c # cs))"
      unfolding gap(1) by (rule tiles_append [OF ds(3) es(2) gap(2)])
    with False l0 r1 s1 e(1) ds es show ?thesis
      by (intro exI [of _ "ds @ es"]) (simp add: ipset_add_range_def)
  qed
qed

lemma ipset_not_gaps:
  assumes "list_all cidr_ok (ips_data s)" and "\<forall>x. hits (ips_data s) x \<le> 1"
  shows "\<exists>t. ipset_not s = Some t \<and> sorted (ips_data t) \<and> list_all cidr_ok (ips_data t) \<and>
    tiles (ips_data t) (gaps 0 (ips_data s))"
proof -
  let ?cs = "sort (ips_data s)"
  have srt: "sorted ?cs" "\<forall>x. hits ?cs x \<le> 1" "list_all cidr_ok ?cs" "gaps 0 ?cs = gaps 0 (ips_data s)"
    using assms by (simp_all add: list_all_iff gaps_def)
  have "\<exists>ds. not_loop ?cs 0 ipset_new = Some (ipset_new\<lparr>ips_data := ds\<rparr>) \<and> list_all cidr_ok ds \<and> tiles ds (gaps 0 ?cs)"
  proof (cases ?cs)
    case Nil
    with not_loop_gaps [of ?cs 0 ipset_new] srt show ?thesis by (simp add: ipset_new_def)
  next
    case (Cons c cs)
    show ?thesis
    proof (cases "cidr_ip c = 0")
      case False
      have "\<forall>d\<in>set ?cs. unat (0 :: u32) < unat (cidr_ip d)"
        using srt(1) False unfolding Cons
        by (auto simp: less_eq_cidr_def word_less_nat_alt unat_gt_0)
      with not_loop_gaps [OF srt(1-3), of 0 ipset_new] show ?thesis by (simp add: ipset_new_def)
    next
      case True
      obtain e where e: "cidr_range c = Some (0, e)" "cidr_addrs c = {0 .. unat e}"
        using cidr_range_ok [of c] srt(3) True unfolding Cons by auto
      have above: "\<forall>d\<in>set cs. unat e < unat (cidr_ip d)"
        using sorted_disjoint_above [of c cs "unat e"] srt(1,2) e(2) True unfolding Cons by simp
      have "\<forall>x. hits cs x \<le> 1" using srt(2) unfolding Cons by (metis hits_Cons le_add2 le_trans)
      from not_loop_gaps [OF _ this _ above, of ipset_new] srt(1,3) obtain ds where
        ds: "not_loop cs e ipset_new = Some (ipset_new\<lparr>ips_data := ds\<rparr>)" "list_all cidr_ok ds" "tiles ds (gaps (unat e) cs)"
        unfolding Cons by (auto simp: ipset_new_def)
      have hc: "hits (c # cs) x = (if x \<le> unat e then 1 else hits cs x)" for x
        using e(2) hits_below [OF above, of x] by (simp add: hits_Cons)
      have "gaps 0 (c # cs) = gaps (unat e) cs"
      proof (intro set_eqI iffI)
        fix x assume "x \<in> gaps 0 (c # cs)"
        then obtain y where "hits (c # cs) x = 0" "x < y" "0 < hits (c # cs) y" by (auto simp: gaps_def)
        then show "x \<in> gaps (unat e) cs" by (auto simp: gaps_def hc split: if_splits)
      next
        fix x assume "x \<in> gaps (unat e) cs"
        then obtain y where "unat e < x" "hits cs x = 0" "x < y" "0 < hits cs y" by (auto simp: gaps_def)
        then have "0 < x" "hits (c # cs) x = 0" "x < y" "0 < hits (c # cs) y" by (simp_all add: hc)
        then show "x \<in> gaps 0 (c # cs)" by (auto simp: gaps_def)
      qed
      with ds e show ?thesis unfolding Cons by (intro exI [of _ ds]) simp
    qed
  qed
  with srt(4) show ?thesis
    by (auto simp: ipset_not_def ipset_build_def tiles_sort list_all_iff)
qed

text \<open>The complement of a set of disjoint blocks is exact between its ends: \<open>!set\<close> returns, sorted,
  blocks such that every address which is in no block of the set, above the first address and below
  some block, lies in exactly one of them, and no other address in any. The first address and the
  addresses above the last block are never part of the result.\<close>

theorem ipset_not_exact:
  assumes "list_all cidr_ok (ips_data s)" and "\<forall>x. length (filter (\<lambda>c. x \<in> cidr_addrs c) (ips_data s)) \<le> 1"
  shows "\<exists>t. ipset_not s = Some t \<and> sorted (ips_data t) \<and>
    (\<forall>x. length (filter (\<lambda>c. x \<in> cidr_addrs c) (ips_data t)) =
       (if 0 < x \<and> (\<nexists>c. c \<in> set (ips_data s) \<and> x \<in> cidr_addrs c) \<and>
           (\<exists>y>x. \<exists>c\<in>set (ips_data s). y \<in> cidr_addrs c) then 1 else 0))"
proof -
  have h: "\<forall>x. hits (ips_data s) x \<le> 1" using assms(2) by (simp add: hits_def)
  have pos: "0 < hits (ips_data s) y \<longleftrightarrow> (\<exists>c\<in>set (ips_data s). y \<in> cidr_addrs c)" for y
    using hits_0 [of "ips_data s" y] by auto
  obtain t where "ipset_not s = Some t" "sorted (ips_data t)" "tiles (ips_data t) (gaps 0 (ips_data s))"
    using ipset_not_gaps [OF assms(1) h] by blast
  moreover have "x \<in> gaps 0 (ips_data s) \<longleftrightarrow> 0 < x \<and> (\<nexists>c. c \<in> set (ips_data s) \<and> x \<in> cidr_addrs c) \<and>
           (\<exists>y>x. \<exists>c\<in>set (ips_data s). y \<in> cidr_addrs c)" for x
    using hits_0 [of "ips_data s" x] pos by (auto simp: gaps_def)
  ultimately show ?thesis unfolding tiles_def by (intro exI [of _ t]) (simp add: hits_def)
qed

definition sample_ipset :: ipset where
  "sample_ipset = \<lparr>ips_data = [Cidr 8 32, Cidr 4 32]\<rparr>"

lemma sample_addrs: "cidr_addrs (Cidr 8 32) = {8}" "cidr_addrs (Cidr 4 32) = {4}"
  by (auto simp: cidr_addrs_def)

theorem ipset_not_exact_witness:
  "\<exists>t. ipset_not sample_ipset = Some t \<and> length (filter (\<lambda>c. 5 \<in> cidr_addrs c) (ips_data t)) = 1 \<and>
     length (filter (\<lambda>c. 9 \<in> cidr_addrs c) (ips_data t)) = 0"
proof -
  have ok: "list_all cidr_ok (ips_data sample_ipset)" by (simp add: sample_ipset_def cidr_ok_def)
  have dj: "\<forall>x. length (filter (\<lambda>c. x \<in> cidr_addrs c) (ips_data sample_ipset)) \<le> 1"
    by (simp add: sample_ipset_def sample_addrs)
  obtain t where t: "ipset_not sample_ipset = Some t" and
    tl: "\<forall>x. length (filter (\<lambda>c. x \<in> cidr_addrs c) (ips_data t)) =
       (if 0 < x \<and> (\<nexists>c. c \<in> set (ips_data sample_ipset) \<and> x \<in> cidr_addrs c) \<and>
           (\<exists>y>x. \<exists>c\<in>set (ips_data sample_ipset). y \<in> cidr_addrs c) then 1 else 0)"
    using ipset_not_exact [OF ok dj] by blast
  have "length (filter (\<lambda>c. 5 \<in> cidr_addrs c) (ips_data t)) = 1"
    using tl [rule_format, of 5] by (auto simp: sample_ipset_def sample_addrs)
  moreover have "length (filter (\<lambda>c. 9 \<in> cidr_addrs c) (ips_data t)) = 0"
    using tl [rule_format, of 9] by (auto simp: sample_ipset_def sample_addrs)
  ultimately show ?thesis using t by blast
qed

text \<open>With blocks that cover the first and the last address, which \<open>with_file\<close> adds before a set is
  inverted, the result is the complement: every address lies in exactly one block of the set or of
  the result.\<close>

theorem ipset_not_complement:
  assumes "list_all cidr_ok (ips_data s)" and "\<forall>x. length (filter (\<lambda>c. x \<in> cidr_addrs c) (ips_data s)) \<le> 1"
    and "\<exists>c\<in>set (ips_data s). 0 \<in> cidr_addrs c" and "\<exists>c\<in>set (ips_data s). 2 ^ 32 - 1 \<in> cidr_addrs c"
  shows "\<exists>t. ipset_not s = Some t \<and>
    (\<forall>x. length (filter (\<lambda>c. x \<in> cidr_addrs c) (ips_data s @ ips_data t)) = (if x < 2 ^ 32 then 1 else 0))"
proof -
  let ?d = "ips_data s"
  have h: "\<forall>x. hits ?d x \<le> 1" using assms(2) by (simp add: hits_def)
  obtain t where t: "ipset_not s = Some t" "tiles (ips_data t) (gaps 0 ?d)"
    using ipset_not_gaps [OF assms(1) h] by blast
  have h0: "0 < hits ?d 0" "0 < hits ?d (2 ^ 32 - 1)" using assms(3,4) hits_0 [of ?d] by auto
  have out: "hits ?d x = 0" if "2 ^ 32 \<le> x" for x
    using assms(1) that cidr_ok_bounds unfolding hits_0 by (fastforce simp: list_all_iff cidr_addrs_def)
  have "x \<in> gaps 0 ?d \<longleftrightarrow> x < 2 ^ 32 \<and> hits ?d x = 0" for x
  proof
    assume "x \<in> gaps 0 ?d"
    then obtain y where "hits ?d x = 0" "x < y" "0 < hits ?d y" by (auto simp: gaps_def)
    moreover from this out [of y] have "y < 2 ^ 32" by (cases "2 ^ 32 \<le> y") simp_all
    ultimately show "x < 2 ^ 32 \<and> hits ?d x = 0" by simp
  next
    assume x: "x < 2 ^ 32 \<and> hits ?d x = 0"
    then have "x \<noteq> 0" "x \<noteq> 2 ^ 32 - 1" using h0 less_irrefl by metis+
    with x have "x < 2 ^ 32 - 1" by linarith
    with x h0(2) \<open>x \<noteq> 0\<close> show "x \<in> gaps 0 ?d" by (auto simp: gaps_def)
  qed
  then have ht: "hits (ips_data t) x = (if x < 2 ^ 32 \<and> hits ?d x = 0 then 1 else 0)" for x
    using t(2) by (simp add: tiles_def)
  have "hits ?d x = 0 \<or> hits ?d x = 1" for x using h [rule_format, of x] by linarith
  with out ht have "hits (?d @ ips_data t) x = (if x < 2 ^ 32 then 1 else 0)" for x
    unfolding hits_append by (metis add.right_neutral add_0 not_less zero_neq_one)
  with t(1) show ?thesis unfolding hits_def by blast
qed

definition sample_full :: ipset where
  "sample_full = \<lparr>ips_data = [Cidr 0 1, Cidr 4294967295 32]\<rparr>"

theorem ipset_not_complement_witness:
  "\<exists>t. ipset_not sample_full = Some t \<and>
    (\<forall>x. length (filter (\<lambda>c. x \<in> cidr_addrs c) (ips_data sample_full @ ips_data t)) = (if x < 2 ^ 32 then 1 else 0))"
proof (rule ipset_not_complement)
  have a: "cidr_addrs (Cidr 0 1) = {0 ..< 2 ^ 31}" "cidr_addrs (Cidr 4294967295 32) = {4294967295}"
    by (auto simp: cidr_addrs_def)
  show "list_all cidr_ok (ips_data sample_full)" by (simp add: sample_full_def cidr_ok_def)
  show "\<forall>x. length (filter (\<lambda>c. x \<in> cidr_addrs c) (ips_data sample_full)) \<le> 1"
    by (simp add: sample_full_def a)
  show "\<exists>c\<in>set (ips_data sample_full). 0 \<in> cidr_addrs c" "\<exists>c\<in>set (ips_data sample_full). 2 ^ 32 - 1 \<in> cidr_addrs c"
    by (simp_all add: sample_full_def a)
qed

section \<open>Nested blocks\<close>

lemma range_to_cidr_empty:
  assumes "right < left" and "unat right < 2 ^ 32 - 1"
  shows "range_to_cidr left right = Some []"
proof -
  have "right AND NOT (2 ^ trailing_ones right - 1) \<le> right" by (simp add: word_and_le2)
  with assms(1) have "\<not> left \<le> right AND NOT (2 ^ trailing_ones right - 1)" "\<not> left \<le> right" "left \<noteq> right"
    by auto
  with right_block(1) [OF assms(2)] show ?thesis
    by (simp add: range_to_cidr_def range_from_right.simps [of left right] range_from_left.simps [of left right] shl_checked_1)
qed

definition nested_ipset :: ipset where
  "nested_ipset = \<lparr>ips_data = [Cidr 4 30, Cidr 5 32, Cidr 8 32]\<rparr>"

text \<open>The complement of a set with nested blocks is wrong: with the blocks 4-7, 5 and 8 the loop falls
  back to the end of the inner block, so that the result contains an address of the set.\<close>

theorem ipset_not_nested_wrong:
  "\<exists>t. ipset_not nested_ipset = Some t \<and>
     (\<exists>c\<in>set (ips_data nested_ipset). 6 \<in> cidr_addrs c) \<and> (\<exists>c\<in>set (ips_data t). 6 \<in> cidr_addrs c)"
proof -
  have rng: "cidr_range (Cidr 4 30) = Some (4, 7)" "cidr_range (Cidr 5 32) = Some (5, 5)" "cidr_range (Cidr 8 32) = Some (8, 8)"
    by (simp_all add: cidr_range_def cidr_mask_def sub_checked_def shl_checked_def add_checked_def)
  have srt: "sort (ips_data nested_ipset) = [Cidr 4 30, Cidr 5 32, Cidr 8 32]"
    by (simp add: nested_ipset_def less_eq_cidr_def)
  obtain cs where cs: "range_to_cidr 1 3 = Some cs" using range_to_cidr_post [of 1 3] by auto
  obtain ds where ds: "range_to_cidr 6 7 = Some ds" "tiles ds {6 .. 7}" using range_to_cidr_post [of 6 7] by auto
  have es: "range_to_cidr 8 4 = Some []" by (rule range_to_cidr_empty) simp_all
  have "unat (- 1 :: u32) = 2 ^ 32 - 1" by (simp add: unsigned_minus_1_eq_mask mask_eq_exp_minus_1)
  then have "(0 :: u32) < - 1" "(7 :: u32) < - 1" "(5 :: u32) < - 1" by (simp_all add: word_less_nat_alt)
  then have "ipset_not nested_ipset = Some \<lparr>ips_data = sort (cs @ ds)\<rparr>"
    by (simp add: ipset_not_def srt rng cs ds es ipset_add_range_def ipset_new_def ipset_build_def
        add_checked_def sub_checked_def)
  moreover have "\<exists>c\<in>set (sort (cs @ ds)). 6 \<in> cidr_addrs c" using tiles_iff [OF ds(2), of 6] by auto
  moreover have "\<exists>c\<in>set (ips_data nested_ipset). 6 \<in> cidr_addrs c"
    by (simp add: nested_ipset_def cidr_addrs_def)
  ultimately show ?thesis by simp
qed

section \<open>The private blocks\<close>

definition reserved_blocks :: "cidr list" where
  "reserved_blocks = [Cidr 0 8, Cidr 167772160 8, Cidr 2130706432 8, Cidr 2851995648 16, Cidr 2886729728 12,
     Cidr 3232235520 16, Cidr 3758096384 4, Cidr 4026531840 4, Cidr 4294967295 32]"

lemma reserved_blocks_read: "ipset_with_lines [] True = Some \<lparr>ips_data = reserved_blocks\<rparr>"
  by (simp add: ipset_with_lines_def reserved_lines_def ipset_add_str_def parse_ipv4_def read_ipv4_addr_def
      parse_u32_def net_parse_simps ipset_new_def idx_def ipset_add_def cidr_new_def cidr_mask_def sub_checked_def
      shl_checked_def ipset_build_def less_eq_cidr_def reserved_blocks_def)

text \<open>What smoltcp documents of its tests.\<close>

definition smoltcp_v4_contract :: "smoltcp_v4 \<Rightarrow> bool" where
  "smoltcp_v4_contract V \<longleftrightarrow>
     (\<forall>a b c d. (is_unspecified V (Ipv4Addr a b c d) \<longleftrightarrow> a = 0 \<and> b = 0 \<and> c = 0 \<and> d = 0) \<and>
        (is_loopback V (Ipv4Addr a b c d) \<longleftrightarrow> a = 127) \<and>
        (is_link_local V (Ipv4Addr a b c d) \<longleftrightarrow> a = 169 \<and> b = 254) \<and>
        (is_multicast V (Ipv4Addr a b c d) \<longleftrightarrow> a AND 0xf0 = 224) \<and>
        (is_broadcast V (Ipv4Addr a b c d) \<longleftrightarrow> a = 255 \<and> b = 255 \<and> c = 255 \<and> d = 255))"

lemma unat_u8_lt: "unat (a :: u8) < 256"
  using unsigned_less [of a] by simp

lemma unat_octet: "unat (ucast a :: u32) = unat a" for a :: u8
proof -
  have "unat a < 2 ^ 32" using unat_u8_lt [of a] by (rule less_trans) simp
  then show ?thesis by (simp only: unsigned_ucast_eq len_num0 len_bit0 len_num1) (simp add: take_bit_nat_eq_self)
qed

lemma unat_octet_or:
  fixes a :: u8 and x :: u32
  assumes "unat x < 2 ^ n" and "n \<le> 24"
  shows "unat (push_bit n (ucast a) OR x) = unat a * 2 ^ n + unat x"
proof -
  have x: "take_bit n x = x" by (simp add: word_unat_eq_iff unsigned_take_bit_eq take_bit_nat_eq_self assms(1))
  have "push_bit n (ucast a) + x = push_bit n (ucast a) OR x"
  proof (rule disjunctive_add)
    show "\<not> bit (push_bit n (ucast a) :: u32) k \<or> \<not> bit x k" for k
      using arg_cong [OF x, of "\<lambda>w. bit w k"] by (auto simp: bit_take_bit_iff bit_push_bit_iff)
  qed
  moreover have b: "unat a * 2 ^ n + 2 ^ n \<le> 2 ^ 32"
  proof -
    have "unat a + 1 \<le> 2 ^ 8" using unat_u8_lt [of a] by simp
    then have "(unat a + 1) * 2 ^ n \<le> 2 ^ 8 * 2 ^ 24" using power_increasing [OF assms(2), of "2 :: nat"] by (intro mult_mono) simp_all
    then show ?thesis by (simp add: algebra_simps)
  qed
  then have "unat (push_bit n (ucast a) :: u32) = unat a * 2 ^ n"
    using assms unat_exp32 [of n] by (simp add: push_bit_eq_mult unat_word_ariths unat_octet)
  moreover have "unat a * 2 ^ n + unat x < 2 ^ 32" using assms(1) b by linarith
  ultimately show ?thesis using unat_add_lem [of "push_bit n (ucast a) :: u32" x] by simp
qed

lemma high_nibble: "a AND 0xf0 = of_nat (16 * n) \<longleftrightarrow> unat a div 16 = n" if "n < 16" for a :: u8
proof -
  have e: "(0xf0 :: u8) = - 16" by (simp add: eq_neg_iff_add_eq_0)
  have "unat (a AND 0xf0) = unat a - unat a mod 16" unfolding e using unat_and_not [of a 4] by simp
  moreover have "unat a - unat a mod 16 = 16 * (unat a div 16)" by (simp add: minus_mod_eq_mult_div)
  moreover have "unat (of_nat (16 * n) :: u8) = 16 * n" using that unfolding unat_of_nat by simp
  ultimately show ?thesis by (simp add: word_unat_eq_iff)
qed

lemma unat_ipv4_to_u32:
  "unat (ipv4_to_u32 (Ipv4Addr a b c d)) = unat a * 2 ^ 24 + (unat b * 2 ^ 16 + (unat c * 2 ^ 8 + unat d))"
proof -
  have c: "unat (push_bit 8 (ucast c) OR ucast d :: u32) = unat c * 2 ^ 8 + unat d"
    using unat_octet_or [of "ucast d" 8 c] unat_octet [of d] unat_u8_lt [of d] by simp
  have b: "unat (push_bit 16 (ucast b) OR (push_bit 8 (ucast c) OR ucast d) :: u32) =
      unat b * 2 ^ 16 + (unat c * 2 ^ 8 + unat d)"
    using unat_octet_or [of "push_bit 8 (ucast c) OR ucast d" 16 b] c unat_u8_lt [of d] unat_u8_lt [of c] by simp
  show ?thesis
    using unat_octet_or [of "push_bit 16 (ucast b) OR (push_bit 8 (ucast c) OR ucast d)" 24 a] b
      unat_u8_lt [of d] unat_u8_lt [of c] unat_u8_lt [of b] by simp
qed

lemma in_block_iff: "n \<in> {p * 2 ^ s ..< p * 2 ^ s + 2 ^ s} \<longleftrightarrow> n div 2 ^ s = p" for n p s :: nat
proof -
  have "n div 2 ^ s = p \<longleftrightarrow> p * 2 ^ s \<le> n \<and> n < Suc p * 2 ^ s"
    by (metis div_less_iff_less_mult less_Suc_eq_le less_eq_div_iff_mult_less_eq order_antisym_conv lessI zero_less_numeral zero_less_power)
  then show ?thesis by auto
qed

lemma reserved_block_members:
  fixes a b c d :: nat
  defines "n \<equiv> a * 2 ^ 24 + (b * 2 ^ 16 + (c * 2 ^ 8 + d))"
  assumes "b < 256" "c < 256" "d < 256"
  shows "n \<in> cidr_addrs (Cidr 0 8) \<longleftrightarrow> a = 0"
    and "n \<in> cidr_addrs (Cidr 167772160 8) \<longleftrightarrow> a = 10"
    and "n \<in> cidr_addrs (Cidr 2130706432 8) \<longleftrightarrow> a = 127"
    and "n \<in> cidr_addrs (Cidr 2851995648 16) \<longleftrightarrow> a = 169 \<and> b = 254"
    and "n \<in> cidr_addrs (Cidr 2886729728 12) \<longleftrightarrow> a = 172 \<and> b div 16 = 1"
    and "n \<in> cidr_addrs (Cidr 3232235520 16) \<longleftrightarrow> a = 192 \<and> b = 168"
    and "n \<in> cidr_addrs (Cidr 3758096384 4) \<longleftrightarrow> a div 16 = 14"
    and "n \<in> cidr_addrs (Cidr 4026531840 4) \<longleftrightarrow> a div 16 = 15"
    and "n \<in> cidr_addrs (Cidr 4294967295 32) \<longleftrightarrow> a = 255 \<and> b = 255 \<and> c = 255 \<and> d = 255"
proof -
  have n8: "n div 2 ^ 8 = a * 2 ^ 16 + b * 2 ^ 8 + c" using assms(4) unfolding n_def by simp
  have n16: "n div 2 ^ 16 = a * 2 ^ 8 + b"
    using div_mult2_eq [of n "2 ^ 8" "2 ^ 8"] assms(3) unfolding n8 by simp
  have n20: "n div 2 ^ 20 = a * 16 + b div 16"
    using div_mult2_eq [of n "2 ^ 16" 16] unfolding n16 by simp
  have n24: "n div 2 ^ 24 = a"
    using div_mult2_eq [of n "2 ^ 16" "2 ^ 8"] assms(2) unfolding n16 by simp
  have n28: "n div 2 ^ 28 = a div 16"
    using div_mult2_eq [of n "2 ^ 24" 16] unfolding n24 by simp
  have b: "b div 16 < 16" using assms(2) by simp
  note [simp] = cidr_addrs_def
  show "n \<in> cidr_addrs (Cidr 0 8) \<longleftrightarrow> a = 0" using in_block_iff [of n 0 24] n24 by simp
  show "n \<in> cidr_addrs (Cidr 167772160 8) \<longleftrightarrow> a = 10" using in_block_iff [of n 10 24] n24 by simp
  show "n \<in> cidr_addrs (Cidr 2130706432 8) \<longleftrightarrow> a = 127" using in_block_iff [of n 127 24] n24 by simp
  have "a * 256 + b = 43518 \<longleftrightarrow> a = 169 \<and> b = 254" using assms(2) by (cases a "169 :: nat" rule: linorder_cases) simp_all
  then show "n \<in> cidr_addrs (Cidr 2851995648 16) \<longleftrightarrow> a = 169 \<and> b = 254"
    using in_block_iff [of n "169 * 2 ^ 8 + 254" 16] n16 by simp
  have "a * 16 + b div 16 = 2753 \<longleftrightarrow> a = 172 \<and> b div 16 = 1" using b by (cases a "172 :: nat" rule: linorder_cases) simp_all
  then show "n \<in> cidr_addrs (Cidr 2886729728 12) \<longleftrightarrow> a = 172 \<and> b div 16 = 1"
    using in_block_iff [of n "172 * 16 + 1" 20] n20 by simp
  have "a * 256 + b = 49320 \<longleftrightarrow> a = 192 \<and> b = 168" using assms(2) by (cases a "192 :: nat" rule: linorder_cases) simp_all
  then show "n \<in> cidr_addrs (Cidr 3232235520 16) \<longleftrightarrow> a = 192 \<and> b = 168"
    using in_block_iff [of n "192 * 2 ^ 8 + 168" 16] n16 by simp
  show "n \<in> cidr_addrs (Cidr 3758096384 4) \<longleftrightarrow> a div 16 = 14" using in_block_iff [of n 14 28] n28 by simp
  show "n \<in> cidr_addrs (Cidr 4026531840 4) \<longleftrightarrow> a div 16 = 15" using in_block_iff [of n 15 28] n28 by simp
  have "n = 4294967295 \<longleftrightarrow> a = 255 \<and> b = 255 \<and> c = 255 \<and> d = 255"
  proof
    assume "n = 4294967295"
    then have e: "a * 16777216 + (b * 65536 + (c * 256 + d)) = 4294967295" unfolding n_def by simp
    with n24 \<open>n = 4294967295\<close> have a: "a = 255" by simp
    with e have "b * 65536 + (c * 256 + d) = 16777215" by simp
    moreover from this have "b = 255" using assms(3,4) n16 a \<open>n = 4294967295\<close> by simp
    moreover from this have "c = 255" using n8 a \<open>n = 4294967295\<close> by simp
    ultimately show "a = 255 \<and> b = 255 \<and> c = 255 \<and> d = 255" using a by simp
  qed (simp add: n_def)
  then show "n \<in> cidr_addrs (Cidr 4294967295 32) \<longleftrightarrow> a = 255 \<and> b = 255 \<and> c = 255 \<and> d = 255" by (simp, linarith)
qed

text \<open>C29. For an IPv4 endpoint outside \<open>0.0.0.0/8\<close> and with a port, \<open>is_private\<close> agrees with the blocks that
  \<open>IPSet::with_file\<close> adds for an inverted list: the traffic kept out of the tunnel is the traffic whose routes
  are left out of it.\<close>

theorem is_private_reserved:
  assumes "smoltcp_v4_contract V" and "port e \<noteq> 0" and "addr e = SmolIpv4 (Ipv4Addr a b c d)" and "a \<noteq> 0"
  shows "\<exists>s. ipset_with_lines [] True = Some s \<and>
    (is_private V e \<longleftrightarrow> (\<exists>blk\<in>set (ips_data s). unat (ipv4_to_u32 (Ipv4Addr a b c d)) \<in> cidr_addrs blk))"
proof -
  have eqs: "a = 10 \<longleftrightarrow> unat a = 10" "a = 127 \<longleftrightarrow> unat a = 127" "a = 169 \<longleftrightarrow> unat a = 169" "b = 254 \<longleftrightarrow> unat b = 254"
    "a = 172 \<longleftrightarrow> unat a = 172" "a = 192 \<longleftrightarrow> unat a = 192" "b = 168 \<longleftrightarrow> unat b = 168" "a = 0 \<longleftrightarrow> unat a = 0"
    "a = 255 \<longleftrightarrow> unat a = 255" "b = 255 \<longleftrightarrow> unat b = 255" "c = 255 \<longleftrightarrow> unat c = 255" "d = 255 \<longleftrightarrow> unat d = 255"
    by (simp_all add: word_unat_eq_iff)
  have nibs: "b AND 240 = 16 \<longleftrightarrow> unat b div 16 = 1" "a AND 240 = 224 \<longleftrightarrow> unat a div 16 = 14"
    "a AND 240 = 240 \<longleftrightarrow> unat a div 16 = 15"
    using high_nibble [of 1 b] high_nibble [of 14 a] high_nibble [of 15 a] by simp_all
  note mem = reserved_block_members [OF unat_u8_lt unat_u8_lt unat_u8_lt, of "unat a" b c d, folded unat_ipv4_to_u32]
  have "is_private V e \<longleftrightarrow> (\<exists>blk\<in>set reserved_blocks. unat (ipv4_to_u32 (Ipv4Addr a b c d)) \<in> cidr_addrs blk)"
    using assms by (simp add: is_private_def smoltcp_v4_contract_def reserved_blocks_def mem nibs eqs del: ipv4_to_u32.simps)
  then show ?thesis by (simp add: reserved_blocks_read)
qed

definition smoltcp_v4_std :: smoltcp_v4 where
  "smoltcp_v4_std =
     \<lparr>is_unspecified = (\<lambda>ip. ip = Ipv4Addr 0 0 0 0), is_loopback = (\<lambda>ip. case ip of Ipv4Addr a b c d \<Rightarrow> a = 127),
      is_link_local = (\<lambda>ip. case ip of Ipv4Addr a b c d \<Rightarrow> a = 169 \<and> b = 254),
      is_multicast = (\<lambda>ip. case ip of Ipv4Addr a b c d \<Rightarrow> a AND 0xf0 = 224),
      is_broadcast = (\<lambda>ip. ip = Ipv4Addr 255 255 255 255)\<rparr>"

lemma smoltcp_v4_std_contract: "smoltcp_v4_contract smoltcp_v4_std"
  by (simp add: smoltcp_v4_contract_def smoltcp_v4_std_def)

theorem is_private_reserved_witness:
  "\<exists>s. ipset_with_lines [] True = Some s \<and>
    (is_private smoltcp_v4_std \<lparr>addr = SmolIpv4 (Ipv4Addr 172 20 1 1), port = 443\<rparr> \<longleftrightarrow>
      (\<exists>blk\<in>set (ips_data s). unat (ipv4_to_u32 (Ipv4Addr 172 20 1 1)) \<in> cidr_addrs blk))"
  by (rule is_private_reserved [OF smoltcp_v4_std_contract]) simp_all

end
