(* ===== verification/Utils.thy ===== *)
theory Utils
  imports Rust_Std
begin

text \<open>
  The generic copy functions of \<open>src/src/utils.rs\<close> with the result types of \<open>src/src/types.rs\<close>. A reader and a
  writer are given by their \<open>read\<close> and \<open>write\<close>, functions of a state \<open>'s\<close> that both share; a call may
  also panic. The room that \<open>BytesMut::reserve\<close> leaves behind the data of a buffer is decided by the
  crate \<open>bytes\<close>, and is the parameter \<open>spare\<close>.
\<close>

section \<open>Model\<close>

datatype trojan_error =
    StdIo error_kind
  | Rustls
  | Wintun
  | LibLoading
  | Dummy
  | AddrParse
  | InvalidDnsName
  | Webpki
  | CrossbeamRecv
  | Smoltcp nat
  | NonWindowsPlatform
  | Winapi bytes
  | TxBreak "error_kind option"
  | RxBreak "error_kind option"
  | DnsProto

datatype copy_result = RxBlock | TxBlock

type_synonym 'a tr = "trojan_error + 'a"
type_synonym 's reader = "nat \<Rightarrow> 's \<Rightarrow> (bytes io \<times> 's) rs"
type_synonym 's writer = "bytes \<Rightarrow> 's \<Rightarrow> (nat io \<times> 's) rs"

text \<open>The loop of \<open>send_all\<close> over \<open>data\<close>; \<open>offset\<close> counts what has been written.\<close>

function send_all_loop :: "'s writer \<Rightarrow> bytes \<Rightarrow> nat \<Rightarrow> 's \<Rightarrow> (bool tr \<times> nat \<times> 's) rs" where
  "send_all_loop wr data offset s =
     (if data = [] then Some (Inr True, offset, s)
      else case wr data s of
        None \<Rightarrow> None
      | Some (Inr n, s) \<Rightarrow>
          if n = 0 then Some (Inl (TxBreak None), offset, s)
          else if length data < n then None
          else send_all_loop wr (drop n data) (offset + n) s
      | Some (Inl e, s) \<Rightarrow>
          if e = WouldBlock then Some (Inr False, offset, s) else Some (Inl (TxBreak (Some e)), offset, s))"
  by pat_completeness auto
termination
  by (relation "measure (\<lambda>(wr, data, offset, s). length data)") auto

declare send_all_loop.simps [simp del]

definition send_all :: "'s writer \<Rightarrow> bytes \<Rightarrow> 's \<Rightarrow> (bool tr \<times> bytes \<times> 's) rs" where
  "send_all wr buffer s =
     (if buffer = [] then Some (Inr True, buffer, s)
      else do {
        (ret, offset, s) \<leftarrow> send_all_loop wr buffer 0 s;
        (case ret of
           Inl e \<Rightarrow> Some (ret, [], s)
         | Inr _ \<Rightarrow> Some (ret, drop offset buffer, s)) })"

text \<open>\<open>read_once\<close> reads into the room behind the data; an empty room fails the assertion, and a reader
  that claims more than the room it was given would break the buffer.\<close>

definition read_once :: "(bytes \<Rightarrow> nat) \<Rightarrow> 's reader \<Rightarrow> bytes \<Rightarrow> 's \<Rightarrow> (bool tr \<times> bytes \<times> 's) rs" where
  "read_once spare rd buffer s =
     (if spare buffer = 0 then None
      else do {
        (r, s) \<leftarrow> rd (spare buffer) s;
        (case r of
           Inr bs \<Rightarrow>
             if spare buffer < length bs then None
             else if bs = [] then Some (Inl (RxBreak None), buffer, s)
             else Some (Inr True, buffer @ bs, s)
         | Inl e \<Rightarrow>
             if e = WouldBlock then Some (Inr False, buffer, s) else Some (Inl (RxBreak (Some e)), buffer, s)) })"

partial_function (option) copy_stream :: "(bytes \<Rightarrow> nat) \<Rightarrow> 's reader \<Rightarrow> 's writer \<Rightarrow> bytes \<Rightarrow> 's \<Rightarrow>
    (copy_result tr \<times> bytes \<times> 's) rs" where
  "copy_stream spare rd wr buffer s = do {
     (sent, buffer, s) \<leftarrow> send_all wr buffer s;
     (case sent of
        Inl e \<Rightarrow> Some (Inl e, buffer, s)
      | Inr sent \<Rightarrow>
          if \<not> sent then Some (Inr TxBlock, buffer, s)
          else do {
            (got, buffer, s) \<leftarrow> read_once spare rd buffer s;
            (case got of
               Inl e \<Rightarrow> Some (Inl e, buffer, s)
             | Inr got \<Rightarrow>
                 if \<not> got then Some (Inr RxBlock, buffer, s) else copy_stream spare rd wr buffer s) }) }"

section \<open>What a stream promises\<close>

text \<open>\<open>tx s\<close> is what the writer has taken so far, \<open>avail s\<close> what the reader can still deliver. A read or
  write of a nonempty slice returns, a write takes a prefix of the slice and a read delivers a
  prefix of what is there; neither touches the other side.\<close>

definition writer_contract :: "'s writer \<Rightarrow> ('s \<Rightarrow> bytes) \<Rightarrow> ('s \<Rightarrow> bytes) \<Rightarrow> bool" where
  "writer_contract wr tx avail \<longleftrightarrow>
     (\<forall>d s. d \<noteq> [] \<longrightarrow> (case wr d s of
        None \<Rightarrow> False
      | Some (Inr n, s') \<Rightarrow> n \<le> length d \<and> tx s' = tx s @ take n d \<and> avail s' = avail s
      | Some (Inl e, s') \<Rightarrow> tx s' = tx s \<and> avail s' = avail s))"

definition reader_contract :: "'s reader \<Rightarrow> ('s \<Rightarrow> bytes) \<Rightarrow> ('s \<Rightarrow> bytes) \<Rightarrow> bool" where
  "reader_contract rd tx avail \<longleftrightarrow>
     (\<forall>n s. 0 < n \<longrightarrow> (case rd n s of
        None \<Rightarrow> False
      | Some (Inr bs, s') \<Rightarrow> length bs \<le> n \<and> avail s = bs @ avail s' \<and> tx s' = tx s
      | Some (Inl e, s') \<Rightarrow> avail s' = avail s \<and> tx s' = tx s))"

lemma writer_cases:
  assumes "writer_contract wr tx avail" and "d \<noteq> []"
  obtains (taken) n s' where "wr d s = Some (Inr n, s')" "n \<le> length d" "tx s' = tx s @ take n d" "avail s' = avail s"
    | (failed) e s' where "wr d s = Some (Inl e, s')" "tx s' = tx s" "avail s' = avail s"
proof -
  have "case wr d s of
        None \<Rightarrow> False
      | Some (Inr n, s') \<Rightarrow> n \<le> length d \<and> tx s' = tx s @ take n d \<and> avail s' = avail s
      | Some (Inl e, s') \<Rightarrow> tx s' = tx s \<and> avail s' = avail s"
    using assms by (simp add: writer_contract_def)
  with that show thesis by (auto split: option.splits prod.splits sum.splits)
qed

lemma reader_cases:
  assumes "reader_contract rd tx avail" and "0 < n"
  obtains (got) bs s' where "rd n s = Some (Inr bs, s')" "length bs \<le> n" "avail s = bs @ avail s'" "tx s' = tx s"
    | (failed) e s' where "rd n s = Some (Inl e, s')" "avail s' = avail s" "tx s' = tx s"
proof -
  have "case rd n s of
        None \<Rightarrow> False
      | Some (Inr bs, s') \<Rightarrow> length bs \<le> n \<and> avail s = bs @ avail s' \<and> tx s' = tx s
      | Some (Inl e, s') \<Rightarrow> avail s' = avail s \<and> tx s' = tx s"
    using assms by (simp add: reader_contract_def)
  with that show thesis by (auto split: option.splits prod.splits sum.splits)
qed

section \<open>Sending\<close>

text \<open>The outcome of the sending loop: everything was taken, or the writer blocked, or it broke; in any
  case it took exactly the part of the data that \<open>offset\<close> counts.\<close>

lemma send_all_loop_spec:
  assumes "writer_contract wr tx avail"
  shows "\<exists>ret k s'. send_all_loop wr d off s = Some (ret, off + k, s') \<and> k \<le> length d \<and>
    tx s' = tx s @ take k d \<and> avail s' = avail s \<and> (ret = Inr True \<longrightarrow> k = length d) \<and>
    (\<forall>e. ret = Inl e \<longrightarrow> (\<exists>x. e = TxBreak x))"
  using assms
proof (induction wr d off s rule: send_all_loop.induct)
  case (1 wr d off s)
  show ?case
  proof (cases "d = []")
    case True
    then show ?thesis by (auto simp: send_all_loop.simps)
  next
    case d: False
    from "1.prems" d show ?thesis
    proof (cases rule: writer_cases [where s = s])
      case (taken n s1)
      show ?thesis
      proof (cases "n = 0")
        case True
        with d taken show ?thesis by (auto simp: send_all_loop.simps [of wr d])
      next
        case False
        from "1.IH" [OF d taken(1) refl refl False] taken(2) "1.prems" obtain ret k s' where
          rec: "send_all_loop wr (drop n d) (off + n) s1 = Some (ret, off + n + k, s')" "k \<le> length (drop n d)"
          "tx s' = tx s1 @ take k (drop n d)" "avail s' = avail s1" "ret = Inr True \<longrightarrow> k = length (drop n d)"
          "\<forall>e. ret = Inl e \<longrightarrow> (\<exists>x. e = TxBreak x)"
          by auto
        have "send_all_loop wr d off s = Some (ret, off + (n + k), s')"
          using d taken False rec(1) by (simp add: send_all_loop.simps [of wr d] add.assoc)
        moreover have "tx s' = tx s @ take (n + k) d" using rec(3) taken(3) by (simp add: take_add)
        ultimately show ?thesis using rec taken(2,4) by auto
      qed
    next
      case (failed e s1)
      with d show ?thesis by (auto simp: send_all_loop.simps [of wr d])
    qed
  qed
qed

lemma send_all_spec:
  assumes "writer_contract wr tx avail"
  shows "\<exists>ret b s'. send_all wr buffer s = Some (ret, b, s') \<and> avail s' = avail s \<and>
    (case ret of
       Inr ok \<Rightarrow> tx s' @ b = tx s @ buffer \<and> (ok \<longrightarrow> b = [])
     | Inl e \<Rightarrow> (\<exists>x. e = TxBreak x) \<and> b = [] \<and> (\<exists>lost. tx s' @ lost = tx s @ buffer))"
proof (cases "buffer = []")
  case True
  then show ?thesis by (simp add: send_all_def)
next
  case False
  from send_all_loop_spec [OF assms, of buffer 0 s] obtain ret k s' where
    l: "send_all_loop wr buffer 0 s = Some (ret, k, s')" "k \<le> length buffer" "tx s' = tx s @ take k buffer"
    "avail s' = avail s" "ret = Inr True \<longrightarrow> k = length buffer" "\<forall>e. ret = Inl e \<longrightarrow> (\<exists>x. e = TxBreak x)"
    by auto
  show ?thesis
  proof (cases ret)
    case (Inl e)
    with l False show ?thesis by (auto simp: send_all_def intro: exI [of _ "drop k buffer"])
  next
    case (Inr ok)
    with l False show ?thesis by (auto simp: send_all_def)
  qed
qed

section \<open>Reading\<close>

lemma read_once_spec:
  assumes "reader_contract rd tx avail" and "0 < spare buffer"
  shows "\<exists>ret b s'. read_once spare rd buffer s = Some (ret, b, s') \<and> tx s' = tx s \<and> b @ avail s' = buffer @ avail s \<and>
    (case ret of
       Inr ok \<Rightarrow> (if ok then length (avail s') < length (avail s) else b = buffer)
     | Inl e \<Rightarrow> (\<exists>x. e = RxBreak x) \<and> b = buffer)"
  using assms
proof (cases rule: reader_cases [where s = s])
  case (got bs s')
  with assms(2) show ?thesis by (cases "bs = []") (simp_all add: read_once_def)
next
  case (failed e s')
  with assms(2) show ?thesis by (simp add: read_once_def)
qed

section \<open>Copying\<close>

text \<open>The outcome of copying in terms of all bytes that were there, \<open>before\<close>: what the writer has taken,
  what is buffered and what is unread.\<close>

definition copied :: "bytes \<Rightarrow> copy_result tr \<Rightarrow> bytes \<Rightarrow> bytes \<Rightarrow> bytes \<Rightarrow> bool" where
  "copied before ret taken buffered unread \<longleftrightarrow>
     (case ret of
        Inr r \<Rightarrow> taken @ buffered @ unread = before \<and> (r = RxBlock \<longrightarrow> buffered = [])
      | Inl (RxBreak x) \<Rightarrow> taken @ unread = before \<and> buffered = []
      | Inl (TxBreak x) \<Rightarrow> buffered = [] \<and> (\<exists>lost. taken @ lost @ unread = before)
      | Inl _ \<Rightarrow> False)"

lemma copy_stream_spec:
  assumes wc: "writer_contract wr tx avail" and rc: "reader_contract rd tx avail" and sp: "\<forall>b. 0 < spare b"
  shows "\<exists>ret b s'. copy_stream spare rd wr buffer s = Some (ret, b, s') \<and>
    copied (tx s @ buffer @ avail s) ret (tx s') b (avail s')"
proof (induction "length (avail s)" arbitrary: buffer s rule: less_induct)
  case less
  from send_all_spec [OF wc, of buffer s] obtain sent b1 s1 where
    snd: "send_all wr buffer s = Some (sent, b1, s1)" "avail s1 = avail s"
    and out: "case sent of
       Inr ok \<Rightarrow> tx s1 @ b1 = tx s @ buffer \<and> (ok \<longrightarrow> b1 = [])
     | Inl e \<Rightarrow> (\<exists>x. e = TxBreak x) \<and> b1 = [] \<and> (\<exists>lost. tx s1 @ lost = tx s @ buffer)" by blast
  consider (broken) x where "sent = Inl (TxBreak x)" | (blocked) "sent = Inr False" | (sent) "sent = Inr True"
    using out by (cases sent) auto
  then show ?case
  proof cases
    case broken
    with out obtain lost where "tx s1 @ lost = tx s @ buffer" "b1 = []" by auto
    then have "copied (tx s @ buffer @ avail s) (Inl (TxBreak x)) (tx s1) b1 (avail s1)"
      using snd(2) by (auto simp: copied_def intro!: exI [of _ lost] simp flip: append_assoc)
    with snd broken show ?thesis by (subst copy_stream.simps) simp
  next
    case blocked
    with out snd(2) have "copied (tx s @ buffer @ avail s) (Inr TxBlock) (tx s1) b1 (avail s1)"
      by (simp add: copied_def flip: append_assoc)
    with snd blocked show ?thesis by (subst copy_stream.simps) simp
  next
    case sent
    with out have t1: "b1 = []" "tx s1 = tx s @ buffer" by auto
    from read_once_spec [OF rc, of spare "[]" s1] sp obtain got b2 s2 where
      rd: "read_once spare rd [] s1 = Some (got, b2, s2)" "tx s2 = tx s1" "b2 @ avail s2 = avail s1"
      and out2: "case got of
         Inr ok \<Rightarrow> (if ok then length (avail s2) < length (avail s1) else b2 = [])
       | Inl e \<Rightarrow> (\<exists>x. e = RxBreak x) \<and> b2 = []" by auto
    consider (broken) x where "got = Inl (RxBreak x)" | (blocked) "got = Inr False" | (got) "got = Inr True"
      using out2 by (cases got) auto
    then show ?thesis
    proof cases
      case got
      with out2 snd have "length (avail s2) < length (avail s)" by simp
      moreover have "tx s2 @ b2 @ avail s2 = tx s @ buffer @ avail s" using rd(2,3) t1(2) snd(2) by simp
      ultimately obtain ret b s' where "copy_stream spare rd wr b2 s2 = Some (ret, b, s')"
        "copied (tx s @ buffer @ avail s) ret (tx s') b (avail s')" using less [of s2 b2] by auto
      with t1 rd(1) snd(1) sent got show ?thesis by (subst copy_stream.simps) simp
    qed (use snd sent t1 rd out2 in \<open>subst copy_stream.simps; simp add: copied_def\<close>)+
  qed
qed

text \<open>\<open>copy_stream\<close> ends and moves bytes from the reader to the writer in order: whatever the way it
  ends, the bytes taken by the writer, the bytes still buffered and the bytes still unread are the
  bytes there were, except that a writer that broke loses what was buffered for it. When it
  reports that the reader has nothing left for now, nothing is buffered.\<close>

theorem copy_stream_conserves:
  assumes "writer_contract wr tx avail" and "reader_contract rd tx avail" and "\<forall>b. 1500 \<le> spare b"
  shows "\<exists>ret b s'. copy_stream spare rd wr buffer s = Some (ret, b, s') \<and>
    copied (tx s @ buffer @ avail s) ret (tx s') b (avail s')"
proof (rule copy_stream_spec [OF assms(1,2)])
  show "\<forall>b. 0 < spare b" using assms(3) by (metis gr0I not_numeral_le_zero)
qed

text \<open>A reader and a writer over two byte strings.\<close>

definition pipe_read :: "(bytes \<times> bytes) reader" where
  "pipe_read n s = Some (if fst s = [] then (Inl WouldBlock, s) else (Inr (take n (fst s)), drop n (fst s), snd s))"

definition pipe_write :: "(bytes \<times> bytes) writer" where
  "pipe_write d s = Some (Inr (min 3 (length d)), fst s, snd s @ take 3 d)"

lemma pipe_contracts: "writer_contract pipe_write snd fst" "reader_contract pipe_read snd fst"
  by (auto simp: writer_contract_def reader_contract_def pipe_write_def pipe_read_def min_def)

theorem copy_stream_conserves_witness:
  "writer_contract pipe_write snd fst \<and> reader_contract pipe_read snd fst \<and>
   (\<exists>ret b s'. copy_stream (\<lambda>_. 1500) pipe_read pipe_write [1, 2] ([3, 4, 5, 6], []) = Some (ret, b, s') \<and>
      copied [1, 2, 3, 4, 5, 6] ret (snd s') b (fst s'))"
  using pipe_contracts copy_stream_conserves [OF pipe_contracts, of "\<lambda>_. 1500" "[1, 2]" "([3, 4, 5, 6], [])"]
  by simp

end
