(* ===== verification/Idle_Pool.thy ===== *)
theory Idle_Pool
  imports Tls_Conn Resolver Config Utils Index_Alloc
begin

text \<open>
  The pool of TLS connections to the remote server that are opened in advance (\<open>src/src/idle_pool.rs\<close>).
  The client configuration and the host name only go into new TLS sessions, and are part of
  \<open>tls_client_session\<close>.
\<close>

section \<open>Model\<close>

record idle_pool =
  ip_pool :: "tls_conn list"
  ip_next_index :: usize
  ip_size :: nat
  ip_addr :: socket_addr
  ip_domain :: bytes
  ip_port :: u16
  ip_channel_cnt :: usize
  ip_channel_idle :: usize
  ip_min_index :: usize
  ip_max_index :: usize

definition pool_new :: "opts \<Rightarrow> nat \<Rightarrow> u16 \<Rightarrow> bytes \<Rightarrow> idle_pool rs" where
  "pool_new cfg sz prt domain = do {
     a \<leftarrow> unwrap (back_addr cfg);
     Some \<lparr>ip_pool = [], ip_next_index = 0, ip_size = sz, ip_addr = a, ip_domain = domain, ip_port = prt,
       ip_channel_cnt = 0, ip_channel_idle = 0, ip_min_index = 0, ip_max_index = 0\<rparr> }"

definition pool_init_index :: "idle_pool \<Rightarrow> usize \<Rightarrow> usize \<Rightarrow> usize \<Rightarrow> usize \<Rightarrow> idle_pool" where
  "pool_init_index p channel_cnt channel_idle min_index max_index =
     p\<lparr>ip_channel_cnt := channel_cnt, ip_channel_idle := channel_idle, ip_min_index := min_index,
       ip_max_index := max_index, ip_next_index := min_index\<rparr>"

definition pool_next_index :: "idle_pool \<Rightarrow> (usize \<times> idle_pool) rs" where
  "pool_next_index p = do {
     n \<leftarrow> add_checked (ip_next_index p) 1;
     Some (ip_next_index p, p\<lparr>ip_next_index := if ip_max_index p \<le> n then ip_min_index p else n\<rparr>) }"

definition pool_new_conn :: "'w sys \<Rightarrow> idle_pool \<Rightarrow> 'w \<Rightarrow> (tls_conn tr \<times> idle_pool \<times> 'w) rs" where
  "pool_new_conn S p w =
     (case tcp_connect S (ip_addr p) w of
        (Inl e, w) \<Rightarrow> Some (Inl (StdIo e), p, w)
      | (Inr server, w) \<Rightarrow>
          (case tcp_set_nodelay S server w of
             (Inl e, w) \<Rightarrow> Some (Inl (StdIo e), p, w)
           | (Inr _, w) \<Rightarrow>
               (case tls_client_session S w of
                  (Inl e, w) \<Rightarrow> Some (Inl Rustls, p, w)
                | (Inr session, w) \<Rightarrow> do {
                    let w = tls_set_buffer_limit S session (Some 1500) w;
                    (index, p) \<leftarrow> pool_next_index p;
                    t \<leftarrow> mul_checked index (ip_channel_cnt p);
                    token \<leftarrow> add_checked t (ip_channel_idle p);
                    let (conn, w) = tls_conn_new S index token session server w;
                    Some (Inr conn, p, w) })))"

definition pool_update_dns :: "idle_pool \<Rightarrow> dns_resolver \<Rightarrow> dns_resolver" where
  "pool_update_dns p resolver = resolve resolver (ip_domain p) None"

text \<open>The body of the loop of \<open>alloc\<close>, and the loop with the number of rounds left.\<close>

definition pool_alloc_one :: "'w sys \<Rightarrow> idle_pool \<Rightarrow> dns_resolver \<Rightarrow> 'w \<Rightarrow> (idle_pool \<times> dns_resolver \<times> 'w) rs" where
  "pool_alloc_one S p resolver w = do {
     (r, p, w) \<leftarrow> pool_new_conn S p w;
     (case r of
        Inr conn \<Rightarrow>
          (case tls_register S conn w of (ok, conn, w) \<Rightarrow>
             Some (if ok then p\<lparr>ip_pool := ip_pool p @ [conn]\<rparr> else p, resolver, w))
      | Inl e \<Rightarrow> Some (p, pool_update_dns p resolver, w)) }"

fun pool_alloc_loop :: "'w sys \<Rightarrow> nat \<Rightarrow> idle_pool \<Rightarrow> dns_resolver \<Rightarrow> 'w \<Rightarrow> (idle_pool \<times> dns_resolver \<times> 'w) rs" where
  "pool_alloc_loop S 0 p resolver w = Some (p, resolver, w)"
| "pool_alloc_loop S (Suc n) p resolver w = do {
     (p, resolver, w) \<leftarrow> pool_alloc_one S p resolver w;
     pool_alloc_loop S n p resolver w }"

definition pool_alloc :: "'w sys \<Rightarrow> idle_pool \<Rightarrow> dns_resolver \<Rightarrow> 'w \<Rightarrow> (idle_pool \<times> dns_resolver \<times> 'w) rs" where
  "pool_alloc S p resolver w = pool_alloc_loop S (ip_size p - length (ip_pool p)) p resolver w"

definition pool_init :: "'w sys \<Rightarrow> idle_pool \<Rightarrow> dns_resolver \<Rightarrow> 'w \<Rightarrow> (idle_pool \<times> dns_resolver \<times> 'w) rs" where
  "pool_init S p resolver w = (if 1 < ip_size p then pool_alloc S p resolver w else Some (p, resolver, w))"

fun pool_get_loop :: "'w sys \<Rightarrow> nat \<Rightarrow> idle_pool \<Rightarrow> dns_resolver \<Rightarrow> 'w \<Rightarrow>
    (tls_conn option \<times> idle_pool \<times> dns_resolver \<times> 'w) rs" where
  "pool_get_loop S 0 p resolver w = Some (None, p, resolver, w)"
| "pool_get_loop S (Suc n) p resolver w = do {
     (p, resolver, w) \<leftarrow> pool_alloc S p resolver w;
     if ip_pool p \<noteq> [] then Some (Some (last (ip_pool p)), p\<lparr>ip_pool := butlast (ip_pool p)\<rparr>, resolver, w)
     else pool_get_loop S n p resolver w }"

definition pool_get :: "'w sys \<Rightarrow> idle_pool \<Rightarrow> dns_resolver \<Rightarrow> 'w \<Rightarrow>
    (tls_conn option \<times> idle_pool \<times> dns_resolver \<times> 'w) rs" where
  "pool_get S p resolver w = pool_get_loop S (ip_size p) p resolver w"

definition pool_resolve :: "idle_pool \<Rightarrow> ip_addr option \<Rightarrow> idle_pool" where
  "pool_resolve p ip = (case ip of Some address \<Rightarrow> p\<lparr>ip_addr := socket_addr_new address (ip_port p)\<rparr> | None \<Rightarrow> p)"

text \<open>\<open>find_position\<close> of the crate \<open>itertools\<close>: the first element that satisfies the predicate, with its
  position.\<close>

fun find_position :: "('a \<Rightarrow> bool) \<Rightarrow> 'a list \<Rightarrow> (nat \<times> 'a) option" where
  "find_position f [] = None"
| "find_position f (x # xs) =
     (if f x then Some (0, x) else map_option (\<lambda>(i, y). (Suc i, y)) (find_position f xs))"

definition pool_conn_event :: "'w sys \<Rightarrow> net_event \<Rightarrow> tls_conn \<Rightarrow> 'w \<Rightarrow> (tls_conn \<times> 'w) rs" where
  "pool_conn_event S event conn w = do {
     (conn, w) \<leftarrow> (if ev_readable event then do { (_, conn, w) \<leftarrow> tls_do_read S conn w; Some (conn, w) }
                    else Some (conn, w));
     (conn, w) \<leftarrow> (if ev_writable event then tls_do_send S (established (tls_provider S) conn) w
                    else Some (conn, w));
     tls_check_status S conn w }"

definition pool_ready :: "'w sys \<Rightarrow> idle_pool \<Rightarrow> net_event \<Rightarrow> 'w \<Rightarrow> (idle_pool \<times> 'w) rs" where
  "pool_ready S p event w =
     (case find_position (\<lambda>conn. tc_token conn = ev_token event) (ip_pool p) of
        None \<Rightarrow> Some (p, w)
      | Some (index, conn) \<Rightarrow> do {
          (conn, w) \<leftarrow> pool_conn_event S event conn w;
          let p = p\<lparr>ip_pool := (ip_pool p)[index := conn]\<rparr>;
          if is_deregistered (tc_status conn) then do {
            pool \<leftarrow> swap_remove (ip_pool p) index;
            Some (p\<lparr>ip_pool := pool\<rparr>, w) }
          else Some (p, w) })"

text \<open>The closure of \<open>check_timeout\<close>, its iteration over the pool, and the removal from the back.\<close>

definition pool_check_conn :: "'w sys \<Rightarrow> tls_conn \<Rightarrow> 'w \<Rightarrow> (tls_conn \<times> 'w) rs" where
  "pool_check_conn S conn w = do {
     (conn, w) \<leftarrow> (if \<not> is_deregistered (tc_status conn) then do { (_, conn, w) \<leftarrow> tls_do_read S conn w; Some (conn, w) }
                    else Some (conn, w));
     tls_check_status S conn w }"

fun pool_check_conns :: "'w sys \<Rightarrow> tls_conn list \<Rightarrow> 'w \<Rightarrow> (tls_conn list \<times> 'w) rs" where
  "pool_check_conns S [] w = Some ([], w)"
| "pool_check_conns S (conn # conns) w = do {
     (conn, w) \<leftarrow> pool_check_conn S conn w;
     (conns, w) \<leftarrow> pool_check_conns S conns w;
     Some (conn # conns, w) }"

fun swap_remove_all :: "'a list \<Rightarrow> nat list \<Rightarrow> 'a list rs" where
  "swap_remove_all xs [] = Some xs"
| "swap_remove_all xs (i # is) = do { xs \<leftarrow> swap_remove xs i; swap_remove_all xs is }"

definition pool_check_timeout :: "'w sys \<Rightarrow> idle_pool \<Rightarrow> 'w \<Rightarrow> (idle_pool \<times> 'w) rs" where
  "pool_check_timeout S p w = do {
     (conns, w) \<leftarrow> pool_check_conns S (ip_pool p) w;
     let closed = filter (\<lambda>i. is_deregistered (tc_status (conns ! i))) [0..<length conns];
     pool \<leftarrow> swap_remove_all conns (rev (sort closed));
     Some (p\<lparr>ip_pool := pool\<rparr>, w) }"

section \<open>Indices\<close>

definition pool_index_ok :: "usize \<Rightarrow> usize \<Rightarrow> idle_pool \<Rightarrow> bool" where
  "pool_index_ok lo hi p \<longleftrightarrow> ip_min_index p = lo \<and> unat (ip_max_index p) = unat hi + 1 \<and>
     lo \<le> ip_next_index p \<and> ip_next_index p \<le> hi"

interpretation pool_index: index_alloc "pool_index_ok lo hi" ip_next_index pool_next_index lo hi for lo hi
proof
  fix p assume p: "pool_index_ok lo hi p"
  then show "lo \<le> ip_next_index p \<and> ip_next_index p \<le> hi" by (simp add: pool_index_ok_def)
  have lt: "unat (ip_next_index p) + 1 < 2 ^ 64"
    using p unsigned_less [of "ip_max_index p", where ?'a = nat] by (simp add: pool_index_ok_def word_le_nat_alt)
  then have a: "add_checked (ip_next_index p) 1 = Some (ip_next_index p + 1)" by (simp add: add_checked_def)
  from add_checked_SomeD [OF a] p have "ip_max_index p \<le> ip_next_index p + 1 \<longleftrightarrow> ip_next_index p = hi"
    "ip_next_index p \<noteq> hi \<longrightarrow> lo \<le> ip_next_index p + 1 \<and> ip_next_index p + 1 \<le> hi"
    by (auto simp: pool_index_ok_def word_le_nat_alt word_unat_eq_iff)
  with a p show "\<exists>p'. pool_next_index p = Some (ip_next_index p, p') \<and> pool_index_ok lo hi p' \<and>
      ip_next_index p' = (if ip_next_index p = hi then lo else ip_next_index p + 1)"
    by (auto simp: pool_next_index_def pool_index_ok_def)
qed

section \<open>Invariant\<close>

text \<open>A connection of the pool is being established or is established, and its token is the idle token
  of its index. The tokens of all indices fit into a machine word.\<close>

definition idle_conn :: "usize \<Rightarrow> usize \<Rightarrow> usize \<Rightarrow> tls_conn \<Rightarrow> bool" where
  "idle_conn lo cnt idle c \<longleftrightarrow> tc_status c \<in> {Connecting, Established} \<and> lo \<le> tc_index c \<and>
     unat (tc_token c) = unat (tc_index c) * unat cnt + unat idle"

definition pool_inv :: "usize \<Rightarrow> usize \<Rightarrow> idle_pool \<Rightarrow> bool" where
  "pool_inv lo hi p \<longleftrightarrow> pool_index_ok lo hi p \<and>
     unat hi * unat (ip_channel_cnt p) + unat (ip_channel_idle p) < 2 ^ 64 \<and>
     length (ip_pool p) \<le> ip_size p \<and>
     list_all (idle_conn lo (ip_channel_cnt p) (ip_channel_idle p)) (ip_pool p)"

lemma pool_new_inv:
  assumes "pool_new cfg sz prt domain = Some p" and "lo \<le> hi" and "unat mx = unat hi + 1"
    and "unat hi * unat cnt + unat idle < 2 ^ 64"
  shows "pool_inv lo hi (pool_init_index p cnt idle lo mx)"
  using assms by (auto simp: pool_new_def pool_init_index_def pool_inv_def pool_index_ok_def split: bind_splits)

text \<open>What allocation leaves alone.\<close>

definition pool_frame :: "idle_pool \<Rightarrow> idle_pool \<Rightarrow> bool" where
  "pool_frame p p' \<longleftrightarrow> ip_size p' = ip_size p \<and> ip_addr p' = ip_addr p \<and> ip_domain p' = ip_domain p \<and>
     ip_port p' = ip_port p \<and> ip_channel_cnt p' = ip_channel_cnt p \<and> ip_channel_idle p' = ip_channel_idle p"

lemma pool_frame_refl [simp]: "pool_frame p p" and pool_frame_trans: "pool_frame p q \<Longrightarrow> pool_frame q r \<Longrightarrow> pool_frame p r"
  by (simp_all add: pool_frame_def)

lemma pool_next_index_frame: "pool_next_index p = Some (i, p') \<Longrightarrow> pool_frame p p' \<and> ip_pool p' = ip_pool p"
  by (auto simp: pool_next_index_def pool_frame_def split: bind_splits)

lemma pool_new_conn_spec:
  assumes "pool_inv lo hi p"
  shows "\<exists>r p' w'. pool_new_conn S p w = Some (r, p', w') \<and> pool_inv lo hi p' \<and> pool_frame p p' \<and> ip_pool p' = ip_pool p \<and>
    (\<forall>c. r = Inr c \<longrightarrow> idle_conn lo (ip_channel_cnt p) (ip_channel_idle p) c)"
proof -
  have ok: "pool_index_ok lo hi p" and fit: "unat hi * unat (ip_channel_cnt p) + unat (ip_channel_idle p) < 2 ^ 64"
    using assms by (simp_all add: pool_inv_def)
  from pool_index.step [OF ok] obtain p' where ni: "pool_next_index p = Some (ip_next_index p, p')" "pool_index_ok lo hi p'"
    by blast
  note fr = pool_next_index_frame [OF ni(1)]
  have le: "unat (ip_next_index p) * unat (ip_channel_cnt p) \<le> unat hi * unat (ip_channel_cnt p)"
    using pool_index.in_range [OF ok] by (simp add: word_le_nat_alt)
  then have "unat (ip_next_index p) * unat (ip_channel_cnt p) < 2 ^ 64" using fit by linarith
  then have m: "mul_checked (ip_next_index p) (ip_channel_cnt p) = Some (ip_next_index p * ip_channel_cnt p)"
    by (simp add: mul_checked_def)
  note m' = mul_checked_SomeD [OF m]
  have a: "add_checked (ip_next_index p * ip_channel_cnt p) (ip_channel_idle p) =
      Some (ip_next_index p * ip_channel_cnt p + ip_channel_idle p)"
  proof -
    have "unat (ip_next_index p * ip_channel_cnt p) + unat (ip_channel_idle p) < 2 ^ 64"
      unfolding m' using fit le by linarith
    then show ?thesis by (simp add: add_checked_def)
  qed
  note a' = add_checked_SomeD [OF a]
  have inv: "pool_inv lo hi p'" using assms ni(2) fr by (simp add: pool_inv_def pool_frame_def)
  show ?thesis
    using assms inv fr ni(1) m a m' a' pool_index.in_range [OF ok]
    by (auto simp: pool_new_conn_def pool_frame_def tls_conn_new_def idle_conn_def split: prod.splits sum.splits)
qed

lemma tls_register_ok: "tls_register S c w = (True, c', w') \<Longrightarrow> c' = c"
  by (auto simp: tls_register_def split: prod.splits sum.splits)

lemma pool_alloc_one_spec:
  assumes "pool_inv lo hi p" and "length (ip_pool p) < ip_size p"
  shows "\<exists>p' r' w'. pool_alloc_one S p r w = Some (p', r', w') \<and> pool_inv lo hi p' \<and> pool_frame p p' \<and>
    (\<exists>cs. ip_pool p' = ip_pool p @ cs \<and> length cs \<le> 1)"
proof -
  from pool_new_conn_spec [OF assms(1), of S w] obtain x p1 w1 where nc: "pool_new_conn S p w = Some (x, p1, w1)"
    "pool_inv lo hi p1" "pool_frame p p1" "ip_pool p1 = ip_pool p"
    "\<forall>c. x = Inr c \<longrightarrow> idle_conn lo (ip_channel_cnt p) (ip_channel_idle p) c" by blast
  show ?thesis
  proof (cases x)
    case (Inl e)
    with nc show ?thesis by (simp add: pool_alloc_one_def)
  next
    case (Inr c)
    obtain ok c1 w2 where reg: "tls_register S c w1 = (ok, c1, w2)" by (cases "tls_register S c w1")
    have "pool_inv lo hi (p1\<lparr>ip_pool := ip_pool p @ [c]\<rparr>)" "pool_frame p (p1\<lparr>ip_pool := ip_pool p @ [c]\<rparr>)"
      using nc Inr assms(2) by (simp_all add: pool_inv_def pool_frame_def pool_index_ok_def)
    with nc Inr reg tls_register_ok [of S c w1 c1 w2] show ?thesis
      by (cases ok) (simp_all add: pool_alloc_one_def)
  qed
qed

lemma pool_alloc_loop_spec:
  assumes "pool_inv lo hi p" and "length (ip_pool p) + n \<le> ip_size p"
  shows "\<exists>p' r' w'. pool_alloc_loop S n p r w = Some (p', r', w') \<and> pool_inv lo hi p' \<and> pool_frame p p' \<and>
    (\<exists>cs. ip_pool p' = ip_pool p @ cs \<and> length cs \<le> n)"
  using assms
proof (induction n arbitrary: p r w)
  case (Suc n)
  from pool_alloc_one_spec [OF Suc.prems(1), of S r w] Suc.prems(2) obtain p1 r1 w1 cs where
    one: "pool_alloc_one S p r w = Some (p1, r1, w1)" "pool_inv lo hi p1" "pool_frame p p1"
    "ip_pool p1 = ip_pool p @ cs" "length cs \<le> 1" by auto
  moreover from one Suc.prems(2) have "length (ip_pool p1) + n \<le> ip_size p1" by (simp add: pool_frame_def)
  ultimately show ?case using Suc.IH [of p1 r1 w1] pool_frame_trans [of p p1] by fastforce
qed simp

lemma pool_alloc_spec:
  assumes "pool_inv lo hi p"
  shows "\<exists>p' r' w'. pool_alloc S p r w = Some (p', r', w') \<and> pool_inv lo hi p' \<and> pool_frame p p' \<and>
    (\<exists>cs. ip_pool p' = ip_pool p @ cs)"
  using pool_alloc_loop_spec [OF assms, of "ip_size p - length (ip_pool p)" S r w] assms
  by (auto simp: pool_alloc_def pool_inv_def)

lemma pool_pop:
  assumes "pool_inv lo hi p" and "ip_pool p \<noteq> []"
  shows "pool_inv lo hi (p\<lparr>ip_pool := butlast (ip_pool p)\<rparr>) \<and>
    idle_conn lo (ip_channel_cnt p) (ip_channel_idle p) (last (ip_pool p))"
  using assms by (auto simp: pool_inv_def pool_index_ok_def list_all_iff dest: in_set_butlastD)

lemma pool_get_loop_spec:
  assumes "pool_inv lo hi p"
  shows "\<exists>x p' r' w'. pool_get_loop S n p r w = Some (x, p', r', w') \<and> pool_inv lo hi p' \<and> pool_frame p p' \<and>
    (case x of None \<Rightarrow> ip_pool p' = [] \<or> n = 0 | Some c \<Rightarrow> idle_conn lo (ip_channel_cnt p) (ip_channel_idle p) c) \<and>
    (ip_pool p \<noteq> [] \<and> 0 < n \<longrightarrow> x \<noteq> None)"
  using assms
proof (induction n arbitrary: p r w)
  case (Suc n)
  from pool_alloc_spec [OF Suc.prems, of S r w] obtain p1 r1 w1 cs where
    a: "pool_alloc S p r w = Some (p1, r1, w1)" "pool_inv lo hi p1" "pool_frame p p1" "ip_pool p1 = ip_pool p @ cs"
    by blast
  show ?case
  proof (cases "ip_pool p1 = []")
    case True
    from Suc.IH [OF a(2), of r1 w1] obtain x p' r' w' where rec: "pool_get_loop S n p1 r1 w1 = Some (x, p', r', w')"
      "pool_inv lo hi p'" "pool_frame p1 p'"
      "case x of None \<Rightarrow> ip_pool p' = [] \<or> n = 0 | Some c \<Rightarrow> idle_conn lo (ip_channel_cnt p1) (ip_channel_idle p1) c"
      by blast
    have "pool_get_loop S (Suc n) p r w = Some (x, p', r', w')" using a(1) True rec(1) by simp
    moreover have "pool_frame p p'" using a(3) rec(3) by (rule pool_frame_trans)
    moreover have "x = None \<longrightarrow> ip_pool p' = []" using rec(1,4) True by (cases n) auto
    moreover have "\<forall>c. x = Some c \<longrightarrow> idle_conn lo (ip_channel_cnt p) (ip_channel_idle p) c"
      using rec(4) a(3) by (auto simp: pool_frame_def)
    moreover have "ip_pool p = []" using True a(4) by simp
    ultimately show ?thesis using rec(2) by (auto split: option.split)
  next
    case False
    with a pool_pop [OF a(2) False] show ?thesis by (auto simp: pool_frame_def)
  qed
qed simp

section \<open>Removing connections\<close>

lemma swap_remove_spec:
  assumes "i < length xs"
  shows "\<exists>ys. swap_remove xs i = Some ys \<and> mset xs = add_mset (xs ! i) (mset ys) \<and> take i ys = take i xs \<and>
    length ys = length xs - 1"
proof -
  obtain zs l where xs: "xs = zs @ [l]" using assms by (cases xs rule: rev_cases) auto
  show ?thesis
  proof (cases "i = length zs")
    case True
    with xs show ?thesis by (simp add: swap_remove_def list_update_append)
  next
    case False
    with assms xs have i: "i < length zs" by simp
    then have "mset zs = add_mset (zs ! i) (mset (take i zs @ drop (Suc i) zs))"
      by (metis append_Cons id_take_nth_drop mset.simps(2) mset_append union_mset_add_mset_right)
    moreover from i have "mset (zs[i := l]) = add_mset l (mset (take i zs @ drop (Suc i) zs))"
      by (simp add: upd_conv_take_nth_drop)
    ultimately show ?thesis using i xs by (simp add: swap_remove_def list_update_append nth_append)
  qed
qed

text \<open>Removing positions from the back, each by a swap with the last element, leaves exactly the elements at
  the other positions.\<close>

lemma swap_remove_all_spec:
  assumes "sorted_wrt (>) is" and "\<forall>i\<in>set is. i < length xs"
  shows "\<exists>ys. swap_remove_all xs is = Some ys \<and> mset xs = mset (map ((!) xs) is) + mset ys"
  using assms
proof (induction "is" arbitrary: xs)
  case (Cons i js)
  from Cons.prems swap_remove_spec [of i xs] obtain ys where
    ys: "swap_remove xs i = Some ys" "mset xs = add_mset (xs ! i) (mset ys)" "take i ys = take i xs"
    "length ys = length xs - 1" by auto
  have below: "j < i" if "j \<in> set js" for j using Cons.prems(1) that by simp
  then have "\<forall>j\<in>set js. j < length ys" using Cons.prems(2) ys(4) by fastforce
  with Cons.IH [of ys] Cons.prems(1) obtain zs where zs: "swap_remove_all ys js = Some zs"
    "mset ys = mset (map ((!) ys) js) + mset zs" by auto
  have "ys ! j = xs ! j" if "j \<in> set js" for j using ys(3) below [OF that] by (metis nth_take)
  then have "map ((!) ys) js = map ((!) xs) js" by simp
  with ys zs show ?case by simp
qed simp

lemma swap_remove_filter:
  "\<exists>ys. swap_remove_all xs (rev (sort (filter (\<lambda>i. f (xs ! i)) [0..<length xs]))) = Some ys \<and>
     mset ys = mset (filter (\<lambda>x. \<not> f x) xs)"
proof -
  let ?is = "filter (\<lambda>i. f (xs ! i)) [0..<length xs]"
  have srt: "sort ?is = ?is" by (rule sorted_sort_id, rule sorted_wrt_filter) simp
  have desc: "sorted_wrt (>) (rev ?is)" by (simp add: sorted_wrt_rev sorted_wrt_filter)
  have "\<forall>i\<in>set (rev ?is). i < length xs" by simp
  from swap_remove_all_spec [OF desc this] obtain ys where
    ys: "swap_remove_all xs (rev ?is) = Some ys" "mset xs = mset (map ((!) xs) (rev ?is)) + mset ys" by blast
  have "map ((!) xs) ?is = filter f (map ((!) xs) [0..<length xs])" by (simp add: filter_map comp_def)
  then have "map ((!) xs) ?is = filter f xs" by (simp only: map_nth)
  then have "map ((!) xs) (rev ?is) = rev (filter f xs)" unfolding rev_map [symmetric] by (rule arg_cong)
  then have "mset (map ((!) xs) (rev ?is)) = filter_mset f (mset xs)" by (simp only: mset_rev mset_filter)
  with ys(2) have "mset xs = filter_mset f (mset xs) + mset ys" by simp
  then have "mset ys = filter_mset (\<lambda>x. \<not> f x) (mset xs)"
    using multiset_partition [of "mset xs" f] by (metis add_left_cancel)
  then have "mset ys = mset (filter (\<lambda>x. \<not> f x) xs)" by simp
  with ys(1) srt show ?thesis by auto
qed

section \<open>Events and time-outs\<close>

lemma tls_check_settled:
  assumes "tls_check_status S c w = Some (c', w')" and "tc_status c \<noteq> PeerClosed"
  shows "tc_status c' = (if is_shutdown (tc_status c) then Deregistered else tc_status c)"
  using tls.check_status_status [of S c w c' w'] assms
  by (cases "tc_status c") (auto simp: tls_check_status_def tls.settled_def is_shutdown_def)

text \<open>A connection of the pool after reading, sending and \<open>check_status\<close>: it is deregistered, or an idle
  connection still.\<close>

definition idle_or_gone :: "usize \<Rightarrow> usize \<Rightarrow> usize \<Rightarrow> tls_conn \<Rightarrow> bool" where
  "idle_or_gone lo cnt idle c \<longleftrightarrow> is_deregistered (tc_status c) \<or> idle_conn lo cnt idle c"

lemma idle_settles:
  assumes "idle_conn lo cnt idle c" and "tls_evolves c c1" and "tc_status c1 = tc_status c \<or> tc_status c1 = Established \<or> is_shutdown (tc_status c1)"
    and "tls_check_status S c1 w = Some (c2, w2)"
  shows "idle_or_gone lo cnt idle c2"
proof -
  have np: "tc_status c1 \<noteq> PeerClosed" using assms(1,3) by (auto simp: idle_conn_def is_shutdown_def)
  from tls_check_settled [OF assms(4) np] tls_check_status_evolves [OF assms(4)] assms(1,2,3)
  show ?thesis by (auto simp: idle_or_gone_def idle_conn_def tls_evolves_def is_deregistered_def)
qed

lemma pool_conn_event_spec:
  assumes "tls_input_finite S pin" and "tls_output_ends S pout" and "idle_conn lo cnt idle c"
  shows "\<exists>c' w'. pool_conn_event S e c w = Some (c', w') \<and> idle_or_gone lo cnt idle c'"
proof -
  let ?rd = "if ev_readable e then do { (_, c, w) \<leftarrow> tls_do_read S c w; Some (c, w) } else Some (c, w)"
  obtain c1 w1 where rd: "?rd = Some (c1, w1)" "tls_evolves c c1" "tls_kept c c1"
  proof (cases "ev_readable e")
    case True
    obtain x c1 w1 where "tls_do_read S c w = Some (x, c1, w1)" using tls_do_read_returns [OF assms(1), of c w] by auto
    then show thesis using True tls_do_read_evolves [of S c w x c1 w1] tls_do_read_kept [of S c w x c1 w1]
      by (intro that) auto
  qed (use that in simp)
  let ?wr = "if ev_writable e then tls_do_send S (established (tls_provider S) c1) w1 else Some (c1, w1)"
  have est: "tc_status (established (tls_provider S) c1) = max Established (tc_status c1)"
    using tls.established_status [of S c1] by simp
  obtain c2 w2 where wr: "?wr = Some (c2, w2)" "tls_evolves c1 c2"
    "tc_status c2 = tc_status c1 \<or> tc_status c2 = max Established (tc_status c1) \<or> is_shutdown (tc_status c2)"
  proof (cases "ev_writable e")
    case True
    obtain c2 w2 where s: "tls_do_send S (established (tls_provider S) c1) w1 = Some (c2, w2)"
      using tls_do_send_returns [OF assms(2), of "established (tls_provider S) c1" w1] by auto
    from tls_do_send_kept [OF s] est have "tc_status c2 = max Established (tc_status c1) \<or> is_shutdown (tc_status c2)"
      by (auto simp: tls_kept_def is_shutdown_iff)
    with True s tls_evolves_trans [OF tls_established_evolves tls_do_send_evolves [OF s]] show thesis
      by (intro that) auto
  qed (use that in simp)
  have ev: "tls_evolves c c2" using rd(2) wr(2) by (rule tls_evolves_trans)
  have "tc_status c2 = tc_status c \<or> tc_status c2 = Established \<or> is_shutdown (tc_status c2)"
    using rd(3) wr(3) assms(3) by (auto simp: tls_kept_def idle_conn_def is_shutdown_iff max_def status_order split: if_splits)
  moreover obtain c3 w3 where ck: "tls_check_status S c2 w2 = Some (c3, w3)"
    using tls.check_status_returns [of S c2 w2] by (auto simp: tls_check_status_def)
  ultimately show ?thesis using rd(1) wr(1) idle_settles [OF assms(3) ev _ ck] by (simp add: pool_conn_event_def)
qed

lemma pool_check_conn_spec:
  assumes "tls_input_finite S pin" and "idle_conn lo cnt idle c"
  shows "\<exists>c' w'. pool_check_conn S c w = Some (c', w') \<and> idle_or_gone lo cnt idle c'"
proof -
  obtain x c1 w1 where rd: "tls_do_read S c w = Some (x, c1, w1)" using tls_do_read_returns [OF assms(1), of c w] by auto
  obtain c2 w2 where ck: "tls_check_status S c1 w1 = Some (c2, w2)"
    using tls.check_status_returns [of S c1 w1] by (auto simp: tls_check_status_def)
  have "tc_status c1 = tc_status c \<or> tc_status c1 = Established \<or> is_shutdown (tc_status c1)"
    using tls_do_read_kept [OF rd] by (auto simp: tls_kept_def is_shutdown_iff)
  with rd ck idle_settles [OF assms(2) _ _ ck] tls_do_read_evolves [OF rd] assms(2) show ?thesis
    by (auto simp: pool_check_conn_def is_deregistered_def idle_conn_def)
qed

lemma pool_check_conns_spec:
  assumes "tls_input_finite S pin" and "list_all (idle_conn lo cnt idle) cs"
  shows "\<exists>cs' w'. pool_check_conns S cs w = Some (cs', w') \<and> length cs' = length cs \<and>
    list_all (idle_or_gone lo cnt idle) cs'"
  using assms(2)
proof (induction cs arbitrary: w)
  case (Cons c cs)
  from Cons.prems pool_check_conn_spec [OF assms(1), of lo cnt idle c w] obtain c' w1 where
    "pool_check_conn S c w = Some (c', w1)" "idle_or_gone lo cnt idle c'" by auto
  with Cons.IH [of w1] Cons.prems show ?case by auto
qed simp

lemma find_position_SomeD:
  "find_position f xs = Some (i, x) \<Longrightarrow> i < length xs \<and> xs ! i = x \<and> f x"
  by (induction xs arbitrary: i) (auto split: if_splits)

lemma pool_ready_spec:
  assumes "tls_input_finite S pin" and "tls_output_ends S pout" and "pool_inv lo hi p"
  shows "\<exists>p' w'. pool_ready S p e w = Some (p', w') \<and> pool_inv lo hi p' \<and> pool_frame p p'"
proof (cases "find_position (\<lambda>conn. tc_token conn = ev_token e) (ip_pool p)")
  case None
  with assms show ?thesis by (simp add: pool_ready_def)
next
  case (Some ic)
  then obtain i c where ic: "find_position (\<lambda>conn. tc_token conn = ev_token e) (ip_pool p) = Some (i, c)" by (cases ic) auto
  from find_position_SomeD [OF ic] have i: "i < length (ip_pool p)" "c = ip_pool p ! i" by auto
  let ?I = "idle_conn lo (ip_channel_cnt p) (ip_channel_idle p)"
  have all: "list_all ?I (ip_pool p)" using assms(3) by (simp add: pool_inv_def)
  with i have "?I c" by (simp add: list_all_length)
  from pool_conn_event_spec [OF assms(1,2) this] obtain c' w' where
    ev: "pool_conn_event S e c w = Some (c', w')" "idle_or_gone lo (ip_channel_cnt p) (ip_channel_idle p) c'" by blast
  let ?xs = "(ip_pool p)[i := c']"
  show ?thesis
  proof (cases "is_deregistered (tc_status c')")
    case True
    from swap_remove_spec [of i ?xs] i obtain ys where
      ys: "swap_remove ?xs i = Some ys" "mset ?xs = add_mset c' (mset ys)" "length ys = length (ip_pool p) - 1" by auto
    have "mset ?xs = add_mset c' (mset (ip_pool p) - {#c#})" using i by (simp add: mset_update)
    with ys(2) have "set ys \<subseteq> set (ip_pool p)" by (metis add_mset_add_mset_same_iff in_diffD set_mset_mset subsetI)
    with all have "list_all ?I ys" by (auto simp: list_all_iff)
    with True ev ys ic assms(3) show ?thesis
      by (auto simp: pool_ready_def pool_inv_def pool_frame_def pool_index_ok_def)
  next
    case False
    with ev have "?I c'" by (simp add: idle_or_gone_def)
    with all have "list_all ?I ?xs" by (auto simp: list_all_iff dest!: set_update_subset_insert [THEN subsetD])
    with False ev ic assms(3) show ?thesis
      by (simp add: pool_ready_def pool_inv_def pool_frame_def pool_index_ok_def)
  qed
qed

lemma pool_check_timeout_spec:
  assumes "tls_input_finite S pin" and "pool_inv lo hi p"
  shows "\<exists>cs p' w'. pool_check_conns S (ip_pool p) w = Some (cs, w') \<and> pool_check_timeout S p w = Some (p', w') \<and>
    mset (ip_pool p') = mset (filter (\<lambda>c. \<not> is_deregistered (tc_status c)) cs) \<and> pool_inv lo hi p' \<and> pool_frame p p'"
proof -
  have "list_all (idle_conn lo (ip_channel_cnt p) (ip_channel_idle p)) (ip_pool p)" using assms(2) by (simp add: pool_inv_def)
  from pool_check_conns_spec [OF assms(1) this] obtain cs w' where
    cs: "pool_check_conns S (ip_pool p) w = Some (cs, w')" "length cs = length (ip_pool p)"
    "list_all (idle_or_gone lo (ip_channel_cnt p) (ip_channel_idle p)) cs" by blast
  from swap_remove_filter [of cs "\<lambda>c. is_deregistered (tc_status c)"] obtain ys where
    ys: "swap_remove_all cs (rev (sort (filter (\<lambda>i. is_deregistered (tc_status (cs ! i))) [0..<length cs]))) = Some ys"
    "mset ys = mset (filter (\<lambda>c. \<not> is_deregistered (tc_status c)) cs)" by blast
  have "length ys \<le> length cs" using ys(2) by (metis length_filter_le size_mset)
  moreover have "set ys = set (filter (\<lambda>c. \<not> is_deregistered (tc_status c)) cs)" using ys(2) by (rule mset_eq_setD)
  then have "list_all (idle_conn lo (ip_channel_cnt p) (ip_channel_idle p)) ys"
    using cs(3) by (auto simp: list_all_iff idle_or_gone_def)
  ultimately show ?thesis
    using cs ys assms(2)
    by (simp add: pool_check_timeout_def pool_inv_def pool_frame_def pool_index_ok_def)
qed

section \<open>Properties\<close>

text \<open>The operations that the event loop calls, in any order.\<close>

datatype pool_op = OpInit | OpGet | OpReady net_event | OpResolve "ip_addr option" | OpCheckTimeout

fun pool_step :: "'w sys \<Rightarrow> pool_op \<Rightarrow> idle_pool \<times> dns_resolver \<times> 'w \<Rightarrow> (idle_pool \<times> dns_resolver \<times> 'w) rs" where
  "pool_step S OpInit (p, r, w) = pool_init S p r w"
| "pool_step S OpGet (p, r, w) = map_option snd (pool_get S p r w)"
| "pool_step S (OpReady e) (p, r, w) = map_option (\<lambda>(p, w). (p, r, w)) (pool_ready S p e w)"
| "pool_step S (OpResolve ip) (p, r, w) = Some (pool_resolve p ip, r, w)"
| "pool_step S OpCheckTimeout (p, r, w) = map_option (\<lambda>(p, w). (p, r, w)) (pool_check_timeout S p w)"

fun pool_run :: "'w sys \<Rightarrow> pool_op list \<Rightarrow> idle_pool \<times> dns_resolver \<times> 'w \<Rightarrow> (idle_pool \<times> dns_resolver \<times> 'w) rs" where
  "pool_run S [] st = Some st"
| "pool_run S (op # ops) st = do { st \<leftarrow> pool_step S op st; pool_run S ops st }"

lemma pool_step_inv:
  assumes "tls_input_finite S pin" and "tls_output_ends S pout" and "pool_inv lo hi p"
  shows "\<exists>p' r' w'. pool_step S op (p, r, w) = Some (p', r', w') \<and> pool_inv lo hi p'"
proof (cases op)
  case OpInit
  with pool_alloc_spec [OF assms(3), of S r w] assms(3) show ?thesis by (auto simp: pool_init_def)
next
  case OpGet
  with pool_get_loop_spec [OF assms(3), of S "ip_size p" r w] show ?thesis by (auto simp: pool_get_def)
next
  case (OpReady e)
  with pool_ready_spec [OF assms, of e w] show ?thesis by auto
next
  case (OpResolve ip)
  with assms(3) show ?thesis by (auto simp: pool_resolve_def pool_inv_def pool_index_ok_def split: option.split)
next
  case OpCheckTimeout
  with pool_check_timeout_spec [OF assms(1,3), of w] show ?thesis by auto
qed

text \<open>C38. A pool that was made and given its index range runs through any sequence of its operations
  without panic or overflow. At any time it holds at most as many connections as configured, each
  of them being established or established, with an index of the range and with the token of the
  idle channel that belongs to the index.\<close>

theorem idle_pool_invariant:
  assumes "tls_input_finite S pin" and "tls_output_ends S pout"
    and "pool_new cfg sz prt domain = Some p" and "lo \<le> hi" and "unat mx = unat hi + 1"
    and "unat hi * unat cnt + unat idle < 2 ^ 64"
  shows "\<exists>p' r' w'. pool_run S ops (pool_init_index p cnt idle lo mx, r, w) = Some (p', r', w') \<and> pool_inv lo hi p'"
proof -
  have "\<exists>p' r' w'. pool_run S ops (p, r, w) = Some (p', r', w') \<and> pool_inv lo hi p'" if "pool_inv lo hi p" for p
    using that
  proof (induction ops arbitrary: p r w)
    case (Cons op ops)
    from pool_step_inv [OF assms(1,2) Cons.prems, of op r w] Cons.IH show ?case by fastforce
  qed simp
  with pool_new_inv [OF assms(3-6)] show ?thesis by blast
qed

text \<open>\<open>get\<close> returns, and hands out a connection that is established or being established and that
  belongs to the idle channel; it fails only when it could not open a single connection, and never
  when there is an idle one.\<close>

theorem idle_pool_get:
  assumes "pool_inv lo hi p" and "0 < ip_size p"
  shows "\<exists>x p' r' w'. pool_get S p r w = Some (x, p', r', w') \<and> pool_inv lo hi p' \<and>
    (case x of None \<Rightarrow> ip_pool p = [] \<and> ip_pool p' = [] | Some c \<Rightarrow> idle_conn lo (ip_channel_cnt p) (ip_channel_idle p) c)"
proof -
  from pool_get_loop_spec [OF assms(1), of S "ip_size p" r w] obtain x p' r' w' where
    get: "pool_get_loop S (ip_size p) p r w = Some (x, p', r', w')" "pool_inv lo hi p'"
    "case x of None \<Rightarrow> ip_pool p' = [] \<or> ip_size p = 0 | Some c \<Rightarrow> idle_conn lo (ip_channel_cnt p) (ip_channel_idle p) c"
    "ip_pool p \<noteq> [] \<and> 0 < ip_size p \<longrightarrow> x \<noteq> None" by blast
  with assms(2) have "case x of None \<Rightarrow> ip_pool p = [] \<and> ip_pool p' = [] |
      Some c \<Rightarrow> idle_conn lo (ip_channel_cnt p) (ip_channel_idle p) c" by (cases x) auto
  with get(1,2) show ?thesis unfolding pool_get_def by blast
qed

text \<open>\<open>check_timeout\<close> keeps exactly the connections that reading and \<open>check_status\<close> left registered,
  whatever the positions of the others: the removal by \<open>swap_remove\<close> from the back neither panics
  nor removes a wrong connection.\<close>

theorem idle_pool_check_timeout:
  assumes "tls_input_finite S pin" and "pool_inv lo hi p"
  shows "\<exists>cs p' w'. pool_check_conns S (ip_pool p) w = Some (cs, w') \<and> pool_check_timeout S p w = Some (p', w') \<and>
    mset (ip_pool p') = mset (filter (\<lambda>c. \<not> is_deregistered (tc_status c)) cs)"
  using pool_check_timeout_spec [OF assms, of w] by blast

definition sample_pool :: idle_pool where
  "sample_pool = \<lparr>ip_pool = [sample_tls\<lparr>tc_index := 2, tc_token := 8\<rparr>, sample_tls\<lparr>tc_index := 3, tc_token := 12\<rparr>],
     ip_next_index = 4, ip_size = 2, ip_addr = V4 (Ipv4Addr 127 0 0 1) 80, ip_domain = [97], ip_port = 80,
     ip_channel_cnt = 4, ip_channel_idle = 0, ip_min_index = 2, ip_max_index = 1000\<rparr>"

lemma sample_pool_inv: "pool_inv 2 999 sample_pool"
  by (simp add: sample_pool_def sample_tls_def pool_inv_def pool_index_ok_def idle_conn_def)

text \<open>A pool that is full hands out its last connection.\<close>

definition full_pool :: "idle_pool \<Rightarrow> bool" where
  "full_pool p \<longleftrightarrow> ip_pool p \<noteq> [] \<and> ip_size p = length (ip_pool p)"

lemma full_pool_get: "full_pool p \<Longrightarrow> pool_get S p resolver w = Some (Some (last (ip_pool p)), p\<lparr>ip_pool := butlast (ip_pool p)\<rparr>, resolver, w)"
  by (cases "ip_pool p") (simp_all add: full_pool_def pool_get_def pool_alloc_def)

lemma sample_pool_full: "full_pool sample_pool"
  by (simp add: full_pool_def sample_pool_def)

definition sample_empty_pool :: idle_pool where
  "sample_empty_pool = \<lparr>ip_pool = [], ip_next_index = 0, ip_size = 2, ip_addr = V4 (Ipv4Addr 127 0 0 1) 80,
     ip_domain = [97], ip_port = 80, ip_channel_cnt = 0, ip_channel_idle = 0, ip_min_index = 0, ip_max_index = 0\<rparr>"

theorem idle_pool_invariant_witness:
  "pool_new sample_ready 2 80 [97] = Some sample_empty_pool \<and>
   (\<exists>p' r' w'. pool_run sim_sys [OpInit, OpGet, OpReady \<lparr>ev_token = 8, ev_readable = True, ev_writable = True\<rparr>, OpCheckTimeout]
      (pool_init_index sample_empty_pool 4 0 2 1000, resolver_new 3 None, sim_idle) = Some (p', r', w') \<and>
      pool_inv 2 999 p')"
proof
  show new: "pool_new sample_ready 2 80 [97] = Some sample_empty_pool"
    by (simp add: pool_new_def sample_ready_def sample_empty_pool_def)
  show "\<exists>p' r' w'. pool_run sim_sys [OpInit, OpGet, OpReady \<lparr>ev_token = 8, ev_readable = True, ev_writable = True\<rparr>, OpCheckTimeout]
      (pool_init_index sample_empty_pool 4 0 2 1000, resolver_new 3 None, sim_idle) = Some (p', r', w') \<and>
      pool_inv 2 999 p'"
    by (rule idle_pool_invariant [OF sim_input_finite sim_output_finite new]) simp_all
qed

theorem idle_pool_get_witness:
  "\<exists>x p' r' w'. pool_get sim_sys sample_pool (resolver_new 3 None) sim_idle = Some (x, p', r', w') \<and> pool_inv 2 999 p' \<and>
    (case x of None \<Rightarrow> ip_pool sample_pool = [] \<and> ip_pool p' = []
     | Some c \<Rightarrow> idle_conn 2 (ip_channel_cnt sample_pool) (ip_channel_idle sample_pool) c)"
  by (rule idle_pool_get [OF sample_pool_inv]) (simp add: sample_pool_def)

theorem idle_pool_check_timeout_witness:
  "\<exists>cs p' w'. pool_check_conns sim_sys (ip_pool sample_pool) sim_idle = Some (cs, w') \<and>
    pool_check_timeout sim_sys sample_pool sim_idle = Some (p', w') \<and>
    mset (ip_pool p') = mset (filter (\<lambda>c. \<not> is_deregistered (tc_status c)) cs)"
  by (rule idle_pool_check_timeout [OF sim_input_finite sample_pool_inv])

end
