(* ===== verification/Proxy_Base.thy ===== *)
theory Proxy_Base
  imports Prelude Index_Alloc
begin

text \<open>
  Indices and tokens of the proxy mode (\<open>src/src/proxy/mod.rs\<close>). The names of the constants carry a prefix
  where the server mode has one of the same name.
\<close>

section \<open>Model\<close>

definition CHANNEL_CNT4 :: usize where "CHANNEL_CNT4 = 4"
definition PROXY_MIN_INDEX :: usize where "PROXY_MIN_INDEX = 2"
definition PROXY_MAX_INDEX :: usize where "PROXY_MAX_INDEX = (- 1) div CHANNEL_CNT4"
definition TCP_LISTENER :: usize where "TCP_LISTENER = 1"
definition UDP_LISTENER :: usize where "UDP_LISTENER = 2"
definition PROXY_RESOLVER :: usize where "PROXY_RESOLVER = 3"
definition CHANNEL_IDLE :: usize where "CHANNEL_IDLE = 0"
definition CHANNEL_UDP :: usize where "CHANNEL_UDP = 1"
definition CHANNEL_CLIENT :: usize where "CHANNEL_CLIENT = 2"
definition CHANNEL_TCP :: usize where "CHANNEL_TCP = 3"

lemmas proxy_consts = CHANNEL_CNT4_def PROXY_MIN_INDEX_def TCP_LISTENER_def UDP_LISTENER_def PROXY_RESOLVER_def
  CHANNEL_IDLE_def CHANNEL_UDP_def CHANNEL_CLIENT_def CHANNEL_TCP_def

text \<open>\<open>next_index(&mut index)\<close> returns the current index and the next one.\<close>

definition proxy_next_index :: "usize \<Rightarrow> (usize \<times> usize) rs" where
  "proxy_next_index index = do {
     n \<leftarrow> add_checked index 1;
     Some (index, if PROXY_MAX_INDEX \<le> n then PROXY_MIN_INDEX else n) }"

text \<open>\<open>Connection::token2index\<close> of the TCP and of the UDP server, and the tokens
  \<open>index * CHANNEL_CNT + channel\<close>.\<close>

definition proxy_token2index :: "usize \<Rightarrow> usize" where
  "proxy_token2index token = token div CHANNEL_CNT4"

definition channel_token :: "usize \<Rightarrow> usize \<Rightarrow> usize rs" where
  "channel_token index channel = do {
     t \<leftarrow> mul_checked index CHANNEL_CNT4;
     add_checked t channel }"

section \<open>Indices and tokens\<close>

definition proxy_index_ok :: "usize \<Rightarrow> bool" where
  "proxy_index_ok i \<longleftrightarrow> PROXY_MIN_INDEX \<le> i \<and> i < PROXY_MAX_INDEX"

lemma unat_PROXY_MAX: "unat PROXY_MAX_INDEX = 2 ^ 62 - 1"
  by (simp add: PROXY_MAX_INDEX_def CHANNEL_CNT4_def unat_div_distrib unsigned_minus_1_eq_mask mask_eq_exp_minus_1)

lemma proxy_index_bounds: "proxy_index_ok i \<Longrightarrow> 2 \<le> unat i \<and> unat i < 2 ^ 62 - 1"
  by (simp add: proxy_index_ok_def PROXY_MIN_INDEX_def word_less_nat_alt word_le_nat_alt unat_PROXY_MAX)

lemma proxy_index_first: "proxy_index_ok PROXY_MIN_INDEX"
  by (simp add: proxy_index_ok_def word_less_nat_alt unat_PROXY_MAX) (simp add: PROXY_MIN_INDEX_def)

lemma proxy_next_index_step:
  assumes "proxy_index_ok i"
  shows "\<exists>j. proxy_next_index i = Some (i, j) \<and> proxy_index_ok j \<and>
    j = (if i = PROXY_MAX_INDEX - 1 then PROXY_MIN_INDEX else i + 1)"
proof -
  note b = proxy_index_bounds [OF assms]
  have a: "add_checked i 1 = Some (i + 1)" using b by (simp add: add_checked_def)
  have i1: "unat (i + 1) = unat i + 1" using add_checked_SomeD [OF a] by simp
  have mx: "unat (PROXY_MAX_INDEX - 1) = 2 ^ 62 - 2"
    using unat_sub [of 1 PROXY_MAX_INDEX] unat_PROXY_MAX by (simp add: word_le_nat_alt)
  have "PROXY_MAX_INDEX \<le> i + 1 \<longleftrightarrow> i = PROXY_MAX_INDEX - 1"
    using b i1 mx unat_PROXY_MAX by (auto simp: word_le_nat_alt word_unat_eq_iff)
  moreover have "proxy_index_ok (i + 1)" if "\<not> PROXY_MAX_INDEX \<le> i + 1"
    using that b i1 by (simp add: proxy_index_ok_def PROXY_MIN_INDEX_def word_le_nat_alt word_less_nat_alt)
  ultimately show ?thesis using a proxy_index_first by (simp add: proxy_next_index_def)
qed

interpretation proxy_index: index_alloc proxy_index_ok "\<lambda>i. i" proxy_next_index PROXY_MIN_INDEX "PROXY_MAX_INDEX - 1"
proof
  fix i assume i: "proxy_index_ok i"
  have "unat (PROXY_MAX_INDEX - 1) = 2 ^ 62 - 2"
    using unat_sub [of 1 PROXY_MAX_INDEX] unat_PROXY_MAX by (simp add: word_le_nat_alt)
  then show "PROXY_MIN_INDEX \<le> i \<and> i \<le> PROXY_MAX_INDEX - 1"
    using i proxy_index_bounds [OF i] by (simp add: proxy_index_ok_def word_le_nat_alt)
  show "\<exists>j. proxy_next_index i = Some (i, j) \<and> proxy_index_ok j \<and>
      j = (if i = PROXY_MAX_INDEX - 1 then PROXY_MIN_INDEX else i + 1)"
    using proxy_next_index_step [OF i] .
qed

lemma channel_token_spec:
  assumes "proxy_index_ok i" and "unat ch < 4"
  shows "\<exists>t. channel_token i ch = Some t \<and> unat t = 4 * unat i + unat ch \<and> proxy_token2index t = i \<and>
    t mod CHANNEL_CNT4 = ch \<and> 8 \<le> unat t"
proof -
  note b = proxy_index_bounds [OF assms(1)]
  have m: "mul_checked i CHANNEL_CNT4 = Some (i * CHANNEL_CNT4)"
    using b by (simp add: mul_checked_def CHANNEL_CNT4_def)
  from mul_checked_SomeD [OF m] have m': "unat (i * CHANNEL_CNT4) = 4 * unat i" by (simp add: CHANNEL_CNT4_def)
  have a: "add_checked (i * CHANNEL_CNT4) ch = Some (i * CHANNEL_CNT4 + ch)"
    using b assms(2) m' by (simp add: add_checked_def)
  from add_checked_SomeD [OF a] m' have a': "unat (i * CHANNEL_CNT4 + ch) = 4 * unat i + unat ch" by simp
  have "proxy_token2index (i * CHANNEL_CNT4 + ch) = i"
    using a' assms(2) by (simp add: proxy_token2index_def word_unat_eq_iff unat_div_distrib) (simp add: CHANNEL_CNT4_def)
  moreover have "(i * CHANNEL_CNT4 + ch) mod CHANNEL_CNT4 = ch"
    using a' assms(2) by (simp add: word_unat_eq_iff unat_mod_distrib) (simp add: CHANNEL_CNT4_def)
  ultimately show ?thesis using m a a' b by (simp add: channel_token_def)
qed

lemma channels_small: "ch \<in> {CHANNEL_IDLE, CHANNEL_UDP, CHANNEL_CLIENT, CHANNEL_TCP} \<Longrightarrow> unat ch < 4"
  by (auto simp: proxy_consts)

text \<open>The proxy's indices and tokens: the allocator never overflows, hands out indices below
  \<open>MAX_INDEX\<close> and starts over at \<open>MIN_INDEX\<close>; any window of allocations no longer than the range gives
  distinct indices. The token of an index on any of the four channels does not overflow, differs from
  the tokens of the listeners and of the resolver, and determines the index and the channel.\<close>

theorem proxy_tokens:
  assumes "proxy_index_ok i"
  shows "\<exists>j. proxy_next_index i = Some (i, j) \<and> proxy_index_ok j \<and>
    (n \<le> 2 ^ 62 - 3 \<longrightarrow> (\<exists>js k. proxy_index.alloc_many n i = Some (js, k) \<and> length js = n \<and> distinct js)) \<and>
    (\<forall>ch\<in>{CHANNEL_IDLE, CHANNEL_UDP, CHANNEL_CLIENT, CHANNEL_TCP}. \<exists>t. channel_token i ch = Some t \<and>
       t \<notin> {TCP_LISTENER, UDP_LISTENER, PROXY_RESOLVER} \<and> proxy_token2index t = i \<and> t mod CHANNEL_CNT4 = ch)"
proof -
  have per: "proxy_index.period = 2 ^ 62 - 3"
    unfolding proxy_index.period_def using unat_sub [of 1 PROXY_MAX_INDEX] unat_PROXY_MAX
    by (simp add: word_le_nat_alt PROXY_MIN_INDEX_def)
  have "\<exists>t. channel_token i ch = Some t \<and> t \<notin> {TCP_LISTENER, UDP_LISTENER, PROXY_RESOLVER} \<and>
      proxy_token2index t = i \<and> t mod CHANNEL_CNT4 = ch"
    if "ch \<in> {CHANNEL_IDLE, CHANNEL_UDP, CHANNEL_CLIENT, CHANNEL_TCP}" for ch
    using channel_token_spec [OF assms channels_small [OF that]] by (auto simp: proxy_consts)
  moreover have "n \<le> 2 ^ 62 - 3 \<longrightarrow> (\<exists>js k. proxy_index.alloc_many n i = Some (js, k) \<and> length js = n \<and> distinct js)"
    using proxy_index.fresh_indices [OF assms, of n] per by auto
  ultimately show ?thesis using proxy_next_index_step [OF assms] by blast
qed

theorem proxy_tokens_witness:
  "\<exists>j. proxy_next_index PROXY_MIN_INDEX = Some (PROXY_MIN_INDEX, j) \<and>
    (\<exists>js k. proxy_index.alloc_many 5 PROXY_MIN_INDEX = Some (js, k) \<and> distinct js)"
  using proxy_tokens [OF proxy_index_first, of 5] by auto

end
