(* ===== verification/Sys_Unix.thy ===== *)
theory Sys_Unix
  imports Sim_World
begin

text \<open>
  The socket helpers of transparent proxying (\<open>src/src/sys/unix/mod.rs\<close>, \<open>new_socket\<close> in
  \<open>src/src/proxy/mod.rs\<close>): options of a transparent socket, and the conversion of the addresses the kernel
  reports. The system calls are fields of \<open>'w sys\<close>.
\<close>

section \<open>Model\<close>

text \<open>\<open>u32::from_be\<close> and \<open>u16::from_be\<close> of a field in memory, \<open>Ipv4Addr::from(u32)\<close> and
  \<open>Ipv6Addr::from([u8; 16])\<close>.\<close>

fun u32_from_be :: "quad \<Rightarrow> u32" where
  "u32_from_be (a, b, c, d) = push_bit 24 (ucast a) OR push_bit 16 (ucast b) OR push_bit 8 (ucast c) OR ucast d"

fun u16_from_be :: "u8 \<times> u8 \<Rightarrow> u16" where
  "u16_from_be (a, b) = push_bit 8 (ucast a) OR ucast b"

definition ipv4_from_u32 :: "u32 \<Rightarrow> ipv4_addr" where
  "ipv4_from_u32 w = Ipv4Addr (ucast (drop_bit 24 w)) (ucast (drop_bit 16 w)) (ucast (drop_bit 8 w)) (ucast w)"

fun ipv6_from_octets :: "bytes \<Rightarrow> ipv6_addr option" where
  "ipv6_from_octets [a, b, c, d, e, f, g, h, i, j, k, l, m, n, p, q] =
     Some (Ipv6Addr (u16_from_be (a, b)) (u16_from_be (c, d)) (u16_from_be (e, f)) (u16_from_be (g, h))
       (u16_from_be (i, j)) (u16_from_be (k, l)) (u16_from_be (m, n)) (u16_from_be (p, q)))"
| "ipv6_from_octets _ = None"

definition sockaddr_to_std :: "sockaddr \<Rightarrow> socket_addr io rs" where
  "sockaddr_to_std saddr =
     (case saddr of
        SockaddrIn sin_addr sin_port \<Rightarrow> Some (Inr (V4 (ipv4_from_u32 (u32_from_be sin_addr)) (u16_from_be sin_port)))
      | SockaddrIn6 sin6_addr sin6_port sin6_flowinfo sin6_scope_id \<Rightarrow> do {
          a \<leftarrow> ipv6_from_octets sin6_addr;
          Some (Inr (V6 a (u16_from_be sin6_port) (u32_from_be sin6_flowinfo) (u32_from_be sin6_scope_id))) }
      | SockaddrOther _ \<Rightarrow> Some (Inl InvalidData))"

definition set_socket_opts :: "'w sys \<Rightarrow> bool \<Rightarrow> bool \<Rightarrow> sock \<Rightarrow> 'w \<Rightarrow> unit io \<times> 'w" where
  "set_socket_opts S v4 is_udp s w =
     (case sock_setsockopt S s (if v4 then SOL_IP else SOL_IPV6) IP_TRANSPARENT w of
        (Inl e, w) \<Rightarrow> (Inl e, w)
      | (Inr _, w) \<Rightarrow>
          if is_udp then
            (case (if v4 then (SOL_IP, IP_RECVORIGDSTADDR) else (SOL_IPV6, IPV6_RECVORIGDSTADDR)) of (sol, opt) \<Rightarrow>
               (case sock_setsockopt S s sol opt w of
                  (Inl e, w) \<Rightarrow> (Inl e, w)
                | (Inr _, w) \<Rightarrow> (Inr (), w)))
          else (Inr (), w))"

definition get_oridst_addr :: "'w sys \<Rightarrow> sock \<Rightarrow> 'w \<Rightarrow> (socket_addr io \<times> 'w) rs" where
  "get_oridst_addr S s w =
     (case sock_getsockname S s w of
        (Inl e, w) \<Rightarrow> Some (Inl e, w)
      | (Inr a, w) \<Rightarrow> do { r \<leftarrow> sockaddr_to_std a; Some (r, w) })"

fun get_destination_addr :: "cmsg list \<Rightarrow> sockaddr option" where
  "get_destination_addr [] = None"
| "get_destination_addr ((level, typ, a) # cmsgs) =
     (if (level, typ) = (SOL_IP, IP_RECVORIGDSTADDR) then Some a
      else if (level, typ) = (SOL_IPV6, IPV6_RECVORIGDSTADDR) then Some a
      else get_destination_addr cmsgs)"

definition recv_from_with_destination :: "'w sys \<Rightarrow> sock \<Rightarrow> nat \<Rightarrow> 'w \<Rightarrow>
    ((bytes \<times> socket_addr \<times> socket_addr) io \<times> 'w) rs" where
  "recv_from_with_destination S s len w =
     (case sock_recvmsg S s len w of
        (Inl e, w) \<Rightarrow> Some (Inl e, w)
      | (Inr (bs, src_addr, cmsgs), w) \<Rightarrow>
          (case get_destination_addr cmsgs of
             None \<Rightarrow> Some (Inl InvalidData, w)
           | Some dst_addr \<Rightarrow> do {
               src \<leftarrow> sockaddr_to_std src_addr;
               (case src of
                  Inl e \<Rightarrow> Some (Inl e, w)
                | Inr src \<Rightarrow> do {
                    dst \<leftarrow> sockaddr_to_std dst_addr;
                    (case dst of
                       Inl e \<Rightarrow> Some (Inl e, w)
                     | Inr dst \<Rightarrow> Some (Inr (bs, src, dst), w)) }) }))"

text \<open>\<open>?\<close> on an I/O result in a function that returns \<open>Result\<close>.\<close>

fun io_then :: "'a io \<times> 'w \<Rightarrow> ('a \<Rightarrow> 'w \<Rightarrow> 'b io \<times> 'w) \<Rightarrow> 'b io \<times> 'w" where
  "io_then (Inl e, w) f = (Inl e, w)"
| "io_then (Inr a, w) f = f a w"

definition new_socket :: "'w sys \<Rightarrow> socket_addr \<Rightarrow> bool \<Rightarrow> 'w \<Rightarrow> sock io \<times> 'w" where
  "new_socket S a is_udp w =
     io_then (sock_new S (sock_is_ipv4 a) is_udp w) (\<lambda>s w.
     io_then (set_socket_opts S (sock_is_ipv4 a) is_udp s w) (\<lambda>_ w.
     io_then (sock_set_nonblocking S s w) (\<lambda>_ w.
     io_then (sock_set_reuse_address S s w) (\<lambda>_ w.
     io_then (sock_bind S s a w) (\<lambda>_ w.
     if \<not> is_udp then io_then (sock_listen S s 1024 w) (\<lambda>_ w. (Inr s, w))
     else (Inr s, w))))))"

section \<open>Addresses\<close>

text \<open>The octets in memory are the octets of the address.\<close>

lemma ipv4_from_memory: "ipv4_from_u32 (u32_from_be (a, b, c, d)) = Ipv4Addr a b c d"
proof -
  have zero: "\<not> bit x n" if "8 \<le> n" for x :: u8 and n using that bit_imp_le_length [of x n] by auto
  show ?thesis
    unfolding ipv4_from_u32_def u32_from_be.simps
    by (simp, intro conjI; rule bit_word_eqI) (auto simp: bit_simps zero)
qed

lemma sockaddr_v4: "sockaddr_to_std (SockaddrIn (a, b, c, d) p) = Some (Inr (V4 (Ipv4Addr a b c d) (u16_from_be p)))"
  by (simp only: sockaddr_to_std_def sockaddr.case ipv4_from_memory)

text \<open>The kernel reports sixteen octets of an IPv6 address.\<close>

definition sockaddr_ok :: "sockaddr \<Rightarrow> bool" where
  "sockaddr_ok a \<longleftrightarrow> (case a of SockaddrIn6 octets _ _ _ \<Rightarrow> length octets = 16 | _ \<Rightarrow> True)"

lemma ipv6_from_octets_returns: "length bs = 16 \<Longrightarrow> ipv6_from_octets bs \<noteq> None"
  by (auto simp: length_Suc_conv numeral_eq_Suc)

lemma sockaddr_to_std_returns: "sockaddr_ok a \<Longrightarrow> sockaddr_to_std a \<noteq> None"
  by (auto simp: sockaddr_ok_def sockaddr_to_std_def dest: ipv6_from_octets_returns split: sockaddr.splits bind_splits)

end
