(* ===== verification/Proxy_Tcp.thy ===== *)
theory Proxy_Tcp
  imports Backend Idle_Pool Proxy_Base Conn_Table Sys_Unix "HOL-Library.Sublist"
begin

text \<open>
  The TCP side of the transparent proxy (\<open>src/src/proxy/tcp_server.rs\<close>): a client's connection, a TLS
  connection from the idle pool to the remote server, and the relay between them in both directions with
  its flow control.
\<close>

section \<open>Model\<close>

record client_conn =
  cc_index :: usize
  cc_dst_addr :: socket_addr
  cc_client :: sock
  cc_recv_buffer :: bytes
  cc_send_buffer :: bytes
  cc_status :: conn_status
  cc_server_conn :: tls_conn
  cc_last_active_time :: instant
  cc_read_client :: bool
  cc_read_server :: bool

definition client_provider :: "'w sys \<Rightarrow> (client_conn, 'w) status_provider" where
  "client_provider S = \<lparr>
     set_status = (\<lambda>s c. c\<lparr>cc_status := s\<rparr>),
     get_status = cc_status,
     close_conn = (\<lambda>c w. (True, c, snd (tcp_shutdown S (cc_client c) w))),
     deregister = (\<lambda>c w. (True, c, snd (poll_deregister S (cc_client c) w))),
     finish_send = (\<lambda>c w. Some (cc_send_buffer c = []))\<rparr>"

definition client_conn_new :: "'w sys \<Rightarrow> usize \<Rightarrow> tls_conn \<Rightarrow> socket_addr \<Rightarrow> sock \<Rightarrow> 'w \<Rightarrow> client_conn \<times> 'w" where
  "client_conn_new S index server_conn dst_addr client w =
     (case instant_now S w of (now, w) \<Rightarrow>
        (\<lparr>cc_index = index, cc_dst_addr = dst_addr, cc_client = client,
          cc_recv_buffer = replicate MAX_PACKET_SIZE 0, cc_send_buffer = [], cc_status = Connecting,
          cc_server_conn = server_conn, cc_last_active_time = now, cc_read_client = False,
          cc_read_server = False\<rparr>, w))"

definition client_timeout :: "opts \<Rightarrow> client_conn \<Rightarrow> instant \<Rightarrow> bool" where
  "client_timeout cfg c now \<longleftrightarrow> tcp_idle_duration cfg < now - cc_last_active_time c"

definition client_destroyed :: "client_conn \<Rightarrow> bool" where
  "client_destroyed c \<longleftrightarrow> is_deregistered (cc_status c) \<and> is_deregistered (tc_status (cc_server_conn c))"

text \<open>\<open>self.shutdown()\<close>, \<open>self.server_conn.shutdown()\<close> and the two \<open>check_status\<close>.\<close>

definition client_shutdown :: "'w sys \<Rightarrow> client_conn \<Rightarrow> 'w \<Rightarrow> client_conn \<times> 'w" where
  "client_shutdown S c w = snd (shutdown (client_provider S) c w)"

definition remote_shutdown :: "'w sys \<Rightarrow> client_conn \<Rightarrow> 'w \<Rightarrow> client_conn \<times> 'w" where
  "remote_shutdown S c w = (case tls_shutdown S (cc_server_conn c) w of (s, w) \<Rightarrow> (c\<lparr>cc_server_conn := s\<rparr>, w))"

definition client_check_both :: "'w sys \<Rightarrow> client_conn \<Rightarrow> 'w \<Rightarrow> (client_conn \<times> 'w) rs" where
  "client_check_both S c w = do {
     (c, w) \<leftarrow> check_status (client_provider S) c w;
     (s, w) \<leftarrow> tls_check_status S (cc_server_conn c) w;
     Some (c\<lparr>cc_server_conn := s\<rparr>, w) }"

definition client_destroy :: "'w sys \<Rightarrow> client_conn \<Rightarrow> 'w \<Rightarrow> (client_conn \<times> 'w) rs" where
  "client_destroy S c w =
     (case client_shutdown S c w of (c, w) \<Rightarrow> case remote_shutdown S c w of (c, w) \<Rightarrow> client_check_both S c w)"

definition client_token :: "client_conn \<Rightarrow> usize rs" where
  "client_token c = channel_token (cc_index c) CHANNEL_CLIENT"

definition client_setup :: "'w sys \<Rightarrow> opts \<Rightarrow> client_conn \<Rightarrow> 'w \<Rightarrow> (bool \<times> client_conn \<times> 'w) rs" where
  "client_setup S cfg c w = do {
     let request = trojan_request_generate cfg [] CONNECT (cc_dst_addr c);
     token \<leftarrow> client_token c;
     (case tls_write_session S (cc_server_conn c) request w of (ok, s, w) \<Rightarrow>
        let c = c\<lparr>cc_server_conn := s\<rparr>
        in if \<not> ok then Some (False, c, w)
           else (case poll_register S (cc_client c) token w of
                   (Inl e, w) \<Rightarrow> Some (False, c, w)
                 | (Inr _, w) \<Rightarrow> Some (True, c, w))) }"

definition client_writable :: "client_conn \<Rightarrow> bool" where
  "client_writable c \<longleftrightarrow> cc_send_buffer c = [] \<and> alive (cc_status c)"

text \<open>From the client to the server. \<open>try_read_client\<close> and \<open>try_send_server\<close> call each other; the part of
  \<open>try_read_client\<close> in front of that call is \<open>client_recv\<close>.\<close>

definition client_recv :: "'w sys \<Rightarrow> client_conn \<Rightarrow> 'w \<Rightarrow> (client_conn \<times> 'w) rs" where
  "client_recv S c w = do {
     (ok, buf, s, w) \<leftarrow> tcp_read S (cc_client c) (cc_recv_buffer c) (cc_server_conn c) w;
     let c = c\<lparr>cc_recv_buffer := buf, cc_server_conn := s\<rparr>;
     let (c, w) = (if ok then (c, w) else client_shutdown S c w);
     Some (c\<lparr>cc_read_client := False\<rparr>, w) }"

partial_function (option) try_send_server :: "'w sys \<Rightarrow> client_conn \<Rightarrow> 'w \<Rightarrow> (client_conn \<times> 'w) rs" where
  "try_send_server S c w =
     Option.bind (tls_do_send S (cc_server_conn c) w) (\<lambda>(s, w).
       if tls_is_writable s \<and> cc_read_client c then
         Option.bind (client_recv S (c\<lparr>cc_server_conn := s\<rparr>) w) (\<lambda>(c, w). try_send_server S c w)
       else Some (c\<lparr>cc_server_conn := s\<rparr>, w))"

definition try_read_client :: "'w sys \<Rightarrow> client_conn \<Rightarrow> 'w \<Rightarrow> (client_conn \<times> 'w) rs" where
  "try_read_client S c w = do {
     (c, w) \<leftarrow> client_recv S c w;
     try_send_server S c w }"

text \<open>From the server to the client. \<open>try_send_client\<close> and \<open>try_read_server\<close> call each other; the part of
  \<open>try_send_client\<close> in front of that call is \<open>client_push\<close>.\<close>

definition do_send_client :: "'w sys \<Rightarrow> client_conn \<Rightarrow> bytes \<Rightarrow> 'w \<Rightarrow> (client_conn \<times> 'w) rs" where
  "do_send_client S c data w = do {
     (ok, buf, w) \<leftarrow> tcp_send S (cc_client c) (cc_send_buffer c) data w;
     let c = c\<lparr>cc_send_buffer := buf\<rparr>;
     Some (if ok then (c, w) else client_shutdown S c w) }"

definition client_push :: "'w sys \<Rightarrow> client_conn \<Rightarrow> bytes \<Rightarrow> 'w \<Rightarrow> (client_conn \<times> 'w) rs" where
  "client_push S c buffer w =
     (if is_connecting (cc_status c) then Some (c\<lparr>cc_send_buffer := cc_send_buffer c @ buffer\<rparr>, w)
      else if cc_send_buffer c = [] then do_send_client S c buffer w
      else do_send_client S (c\<lparr>cc_send_buffer := []\<rparr>) (cc_send_buffer c @ buffer) w)"

partial_function (option) try_send_client :: "'w sys \<Rightarrow> client_conn \<Rightarrow> bytes \<Rightarrow> 'w \<Rightarrow> (client_conn \<times> 'w) rs" where
  "try_send_client S c buffer w =
     Option.bind (client_push S c buffer w) (\<lambda>(c, w).
       if client_writable c \<and> cc_read_server c then
         Option.bind (tls_do_read S (cc_server_conn c) w) (\<lambda>(r, s, w).
           Option.bind (case r of
               Some b \<Rightarrow> try_send_client S (c\<lparr>cc_server_conn := s\<rparr>) b w
             | None \<Rightarrow> Some (c\<lparr>cc_server_conn := s\<rparr>, w)) (\<lambda>(c, w).
             Some (c\<lparr>cc_read_server := False\<rparr>, w)))
       else Some (c, w))"

definition try_read_server :: "'w sys \<Rightarrow> client_conn \<Rightarrow> 'w \<Rightarrow> (client_conn \<times> 'w) rs" where
  "try_read_server S c w = do {
     (r, s, w) \<leftarrow> tls_do_read S (cc_server_conn c) w;
     (case r of
        Some b \<Rightarrow> try_send_client S (c\<lparr>cc_server_conn := s\<rparr>) b w
      | None \<Rightarrow> Some (c\<lparr>cc_server_conn := s\<rparr>, w)) }"

text \<open>The branches of \<open>ready\<close>, and what follows every event.\<close>

definition client_channel :: "'w sys \<Rightarrow> client_conn \<Rightarrow> net_event \<Rightarrow> 'w \<Rightarrow> (client_conn \<times> 'w) rs" where
  "client_channel S c event w = do {
     (c, w) \<leftarrow> (if ev_readable event then
                   (if tls_is_writable (cc_server_conn c) then try_read_client S c w
                    else Some (c\<lparr>cc_read_client := True\<rparr>, w))
                 else Some (c, w));
     if ev_writable event then try_send_client S (established (client_provider S) c) [] w
     else Some (c, w) }"

definition server_channel :: "'w sys \<Rightarrow> client_conn \<Rightarrow> net_event \<Rightarrow> 'w \<Rightarrow> (client_conn \<times> 'w) rs" where
  "server_channel S c event w = do {
     (c, w) \<leftarrow> (if ev_readable event then
                   (if client_writable c then try_read_server S c w
                    else Some (c\<lparr>cc_read_server := True\<rparr>, w))
                 else Some (c, w));
     if ev_writable event then
       try_send_server S (c\<lparr>cc_server_conn := established (tls_provider S) (cc_server_conn c)\<rparr>) w
     else Some (c, w) }"

definition client_event :: "'w sys \<Rightarrow> client_conn \<Rightarrow> net_event \<Rightarrow> 'w \<Rightarrow> (client_conn \<times> 'w) rs" where
  "client_event S c event w =
     (let channel = ev_token event mod CHANNEL_CNT4
      in if channel = CHANNEL_CLIENT then client_channel S c event w
         else if channel = CHANNEL_TCP then server_channel S c event w
         else Some (client_shutdown S c w))"

definition client_propagate :: "'w sys \<Rightarrow> client_conn \<Rightarrow> client_conn" where
  "client_propagate S c =
     (let c = (if is_shutdown (cc_status c)
               then c\<lparr>cc_server_conn := peer_closed (tls_provider S) (cc_server_conn c)\<rparr> else c)
      in if is_shutdown (tc_status (cc_server_conn c)) then peer_closed (client_provider S) c else c)"

definition client_ready :: "'w sys \<Rightarrow> client_conn \<Rightarrow> net_event \<Rightarrow> 'w \<Rightarrow> (client_conn \<times> 'w) rs" where
  "client_ready S c event w = do {
     let (now, w) = instant_now S w;
     (c, w) \<leftarrow> client_event S (c\<lparr>cc_last_active_time := now\<rparr>) event w;
     client_check_both S (client_propagate S c) w }"

section \<open>The server\<close>

record tcp_server =
  tps_listener :: sock
  tps_conns :: "usize \<rightharpoonup> client_conn"
  tps_next_id :: usize
  tps_removed :: "usize list option"

definition tcp_server_new :: "sock \<Rightarrow> tcp_server" where
  "tcp_server_new listener =
     \<lparr>tps_listener = listener, tps_conns = Map.empty, tps_next_id = PROXY_MIN_INDEX, tps_removed = Some []\<rparr>"

text \<open>A client that was accepted and whose destination is known: the rest of \<open>accept_once\<close>.\<close>

definition tcp_server_admit :: "'w sys \<Rightarrow> opts \<Rightarrow> tcp_server \<Rightarrow> idle_pool \<Rightarrow> dns_resolver \<Rightarrow> sock \<Rightarrow> socket_addr \<Rightarrow>
    'w \<Rightarrow> (tcp_server \<times> idle_pool \<times> dns_resolver \<times> 'w) rs" where
  "tcp_server_admit S cfg srv pool resolver client dst_addr w = do {
     (x, pool, resolver, w) \<leftarrow> pool_get S pool resolver w;
     (case x of
        None \<Rightarrow> Some (srv, pool, resolver, w)
      | Some conn \<Rightarrow> do {
          (index, nxt) \<leftarrow> proxy_next_index (tps_next_id srv);
          let srv = srv\<lparr>tps_next_id := nxt\<rparr>;
          token \<leftarrow> channel_token index CHANNEL_TCP;
          (case tls_reset_index S conn index token w of
             (False, conn, w) \<Rightarrow> do {
               (conn, w) \<leftarrow> tls_check_status S conn w;
               Some (srv, pool, resolver, w) }
           | (True, conn, w) \<Rightarrow>
               (case client_conn_new S index conn dst_addr client w of (conn, w) \<Rightarrow> do {
                  (ok, conn, w) \<leftarrow> client_setup S cfg conn w;
                  if ok then Some (srv\<lparr>tps_conns := (tps_conns srv)(cc_index conn \<mapsto> conn)\<rparr>, pool, resolver, w)
                  else do {
                    (conn, w) \<leftarrow> client_destroy S conn w;
                    Some (srv, pool, resolver, w) } })) }) }"

definition tcp_accept_once :: "'w sys \<Rightarrow> opts \<Rightarrow> tcp_server \<Rightarrow> idle_pool \<Rightarrow> dns_resolver \<Rightarrow> 'w \<Rightarrow>
    (unit tr \<times> tcp_server \<times> idle_pool \<times> dns_resolver \<times> 'w) rs" where
  "tcp_accept_once S cfg srv pool resolver w =
     (case tcp_accept S w of
        (Inl e, w) \<Rightarrow> Some (Inl (StdIo e), srv, pool, resolver, w)
      | (Inr client, w) \<Rightarrow>
          (case tcp_set_nodelay S client w of
             (Inl e, w) \<Rightarrow> Some (Inl (StdIo e), srv, pool, resolver, w)
           | (Inr _, w) \<Rightarrow> do {
               (dst, w) \<leftarrow> get_oridst_addr S client w;
               (case dst of
                  Inl e \<Rightarrow> Some (Inl (StdIo e), srv, pool, resolver, w)
                | Inr dst_addr \<Rightarrow> do {
                    (srv, pool, resolver, w) \<leftarrow> tcp_server_admit S cfg srv pool resolver client dst_addr w;
                    Some (Inr (), srv, pool, resolver, w) }) }))"

partial_function (option) tcp_server_accept :: "'w sys \<Rightarrow> opts \<Rightarrow> tcp_server \<Rightarrow> idle_pool \<Rightarrow> dns_resolver \<Rightarrow> 'w \<Rightarrow>
    (tcp_server \<times> idle_pool \<times> dns_resolver \<times> 'w) rs" where
  "tcp_server_accept S cfg srv pool resolver w =
     Option.bind (tcp_accept_once S cfg srv pool resolver w) (\<lambda>(r, srv, pool, resolver, w).
       if r = Inl (StdIo WouldBlock) then Some (srv, pool, resolver, w)
       else tcp_server_accept S cfg srv pool resolver w)"

definition tcp_server_ready :: "'w sys \<Rightarrow> tcp_server \<Rightarrow> net_event \<Rightarrow> 'w \<Rightarrow> (tcp_server \<times> 'w) rs" where
  "tcp_server_ready S srv event w =
     (let index = proxy_token2index (ev_token event)
      in case tps_conns srv index of
           None \<Rightarrow> Some (srv, w)
         | Some conn \<Rightarrow> do {
             (conn, w) \<leftarrow> client_ready S conn event w;
             let srv = srv\<lparr>tps_conns := (tps_conns srv)(index \<mapsto> conn)\<rparr>;
             if client_destroyed conn then do {
               removed \<leftarrow> unwrap (tps_removed srv);
               Some (srv\<lparr>tps_removed := Some (removed @ [index])\<rparr>, w) }
             else Some (srv, w) })"

definition tcp_server_remove_closed :: "tcp_server \<Rightarrow> tcp_server rs" where
  "tcp_server_remove_closed srv = do {
     removed \<leftarrow> unwrap (tps_removed srv);
     if removed = [] then Some srv
     else Some (srv\<lparr>tps_removed := Some [], tps_conns := remove_all removed (tps_conns srv)\<rparr>) }"

definition client_expire :: "'w sys \<Rightarrow> opts \<Rightarrow> instant \<Rightarrow> client_conn \<Rightarrow> 'w \<Rightarrow> (client_conn \<times> 'w) rs" where
  "client_expire S cfg now conn w =
     (if \<not> client_destroyed conn \<and> client_timeout cfg conn now then client_destroy S conn w else Some (conn, w))"

definition tcp_server_check_timeout :: "((usize \<rightharpoonup> client_conn) \<Rightarrow> usize list) \<Rightarrow> 'w sys \<Rightarrow> opts \<Rightarrow> tcp_server \<Rightarrow>
    instant \<Rightarrow> 'w \<Rightarrow> (tcp_server \<times> 'w) rs" where
  "tcp_server_check_timeout order S cfg srv now w = do {
     (list, m, w) \<leftarrow> table_scan (client_expire S cfg now) client_destroyed (order (tps_conns srv)) (tps_conns srv) w;
     Some (srv\<lparr>tps_conns := remove_all list m\<rparr>, w) }"

section \<open>Life cycle\<close>

interpretation client: status_laws "client_provider S" for S :: "'w sys"
  by unfold_locales (simp_all add: client_provider_def)

lemma client_provider_status [simp]: "get_status (client_provider S) = cc_status"
  by (simp add: client_provider_def)

text \<open>Of the connection, its life cycle changes the status only.\<close>

interpretation client_frame: status_frame "client_provider S" "\<lambda>c. c\<lparr>cc_status := Connecting\<rparr>" for S :: "'w sys"
  by unfold_locales (simp_all add: client_provider_def)

lemma client_status_only:
  assumes "c'\<lparr>cc_status := Connecting\<rparr> = c\<lparr>cc_status := Connecting\<rparr>"
  shows "c' = c\<lparr>cc_status := cc_status c'\<rparr>"
  using assms by (cases c; cases c') simp

lemma client_shutdown_frame:
  assumes "client_shutdown S c w = (c', w')"
  shows "c' = c\<lparr>cc_status := max Shutdown (cc_status c)\<rparr>"
  using client_status_only [of c' c] client_frame.obs_shutdown [of S c w] client.shutdown_status [of S c w] assms
  by (auto simp: client_shutdown_def)

lemma client_check_frame:
  assumes "check_status (client_provider S) c w = Some (c', w')"
  shows "c' = c\<lparr>cc_status := cc_status c'\<rparr> \<and> cc_status c \<le> cc_status c'"
  using client_status_only [of c' c] client_frame.obs_check_status [OF assms]
    client.status_never_decreases(4) [OF assms] by auto

lemma client_peer_closed_frame: "peer_closed (client_provider S) c = c\<lparr>cc_status := max PeerClosed (cc_status c)\<rparr>"
  using client_status_only [of "peer_closed (client_provider S) c" c] client_frame.obs_peer_closed [of S c]
    client.peer_closed_status [of S c] by simp

lemma client_established_frame: "established (client_provider S) c = c\<lparr>cc_status := max Established (cc_status c)\<rparr>"
  using client_status_only [of "established (client_provider S) c" c] client_frame.obs_established [of S c]
    client.established_status [of S c] by simp

section \<open>The world of a relay\<close>

text \<open>The calls that a connection makes on its client socket \<open>k\<close>, its session \<open>c\<close> and its stream \<open>s\<close>, seen
  through four byte strings: what \<open>k\<close> has taken, the plaintext that \<open>c\<close> has not delivered yet, what
  can still be read from \<open>k\<close>, and the plaintext written to \<open>c\<close>. Every call moves a prefix, or leaves all
  four alone.\<close>

type_synonym 'w relay_view = "'w \<Rightarrow> bytes \<times> bytes \<times> bytes \<times> bytes"

definition relay_world :: "'w sys \<Rightarrow> sock \<Rightarrow> sess \<Rightarrow> sock \<Rightarrow> 'w relay_view \<Rightarrow> bool" where
  "relay_world S k c s view \<longleftrightarrow>
     (\<forall>d w. case tcp_write S k d w of
        (Inr n, w') \<Rightarrow> n \<le> length d \<and> (\<forall>tx r. view w = (tx, r) \<longrightarrow> view w' = (tx @ take n d, r))
      | (Inl e, w') \<Rightarrow> view w' = view w) \<and>
     (\<forall>n w. case tcp_recv S k n w of
        (Inr bs, w') \<Rightarrow> length bs \<le> n \<and>
          (\<forall>tx inp av pl. view w = (tx, inp, av, pl) \<longrightarrow> (\<exists>av'. av = bs @ av' \<and> view w' = (tx, inp, av', pl)))
      | (Inl e, w') \<Rightarrow> view w' = view w) \<and>
     (\<forall>d w. case tls_writer_write_all S c d w of
        (Inr _, w') \<Rightarrow> (\<forall>tx inp av pl. view w = (tx, inp, av, pl) \<longrightarrow> view w' = (tx, inp, av, pl @ d))
      | (Inl e, w') \<Rightarrow> view w' = view w) \<and>
     (\<forall>w bs e w'. tls_reader_read_to_end S c w = ((bs, e), w') \<longrightarrow>
        (\<forall>tx inp r. view w = (tx, inp, r) \<longrightarrow> (\<exists>inp'. inp = bs @ inp' \<and> view w' = (tx, inp', r)))) \<and>
     (\<forall>w. view (snd (tls_read_tls S c s w)) = view w \<and> view (snd (tls_process_new_packets S c w)) = view w \<and>
        view (snd (tls_write_tls S c s w)) = view w \<and> view (snd (instant_now S w)) = view w \<and>
        view (snd (tcp_shutdown S k w)) = view w \<and> view (snd (tcp_shutdown S s w)) = view w \<and>
        view (snd (poll_deregister S k w)) = view w \<and> view (snd (poll_deregister S s w)) = view w)"

text \<open>What is known of a connection while the relay runs: its handles, and that its receive buffer has
  room.\<close>

definition relay_conn :: "sock \<Rightarrow> sess \<Rightarrow> sock \<Rightarrow> client_conn \<Rightarrow> bool" where
  "relay_conn k c s x \<longleftrightarrow> cc_client x = k \<and> tc_session (cc_server_conn x) = c \<and> tc_stream (cc_server_conn x) = s"

abbreviation remote_handles :: "sess \<Rightarrow> sock \<Rightarrow> tls_conn \<Rightarrow> bool" where
  "remote_handles c s t \<equiv> tc_session t = c \<and> tc_stream t = s"

lemma remote_handles_evolves: "tls_evolves t t' \<Longrightarrow> remote_handles c s t \<Longrightarrow> remote_handles c s t'"
  by (simp add: tls_evolves_def)

lemma relay_quiet:
  assumes "relay_world S k c s view"
  shows "tls_read_tls S c s w = (r1, w') \<Longrightarrow> view w' = view w"
    and "tls_process_new_packets S c w = (r2, w') \<Longrightarrow> view w' = view w"
    and "tls_write_tls S c s w = (r3, w') \<Longrightarrow> view w' = view w"
    and "instant_now S w = (t, w') \<Longrightarrow> view w' = view w"
    and "view (snd (tcp_shutdown S k w)) = view w" and "view (snd (tcp_shutdown S s w)) = view w"
    and "view (snd (poll_deregister S k w)) = view w" and "view (snd (poll_deregister S s w)) = view w"
proof -
  have q: "view (snd (tls_read_tls S c s w)) = view w \<and> view (snd (tls_process_new_packets S c w)) = view w \<and>
      view (snd (tls_write_tls S c s w)) = view w \<and> view (snd (instant_now S w)) = view w \<and>
      view (snd (tcp_shutdown S k w)) = view w \<and> view (snd (tcp_shutdown S s w)) = view w \<and>
      view (snd (poll_deregister S k w)) = view w \<and> view (snd (poll_deregister S s w)) = view w" for w
    using assms by (simp add: relay_world_def)
  show "tls_read_tls S c s w = (r1, w') \<Longrightarrow> view w' = view w" using q [of w] by auto
  show "tls_process_new_packets S c w = (r2, w') \<Longrightarrow> view w' = view w" using q [of w] by auto
  show "tls_write_tls S c s w = (r3, w') \<Longrightarrow> view w' = view w" using q [of w] by auto
  show "instant_now S w = (t, w') \<Longrightarrow> view w' = view w" using q [of w] by auto
  show "view (snd (tcp_shutdown S k w)) = view w" "view (snd (tcp_shutdown S s w)) = view w"
    "view (snd (poll_deregister S k w)) = view w" "view (snd (poll_deregister S s w)) = view w" using q [of w] by auto
qed

lemma relay_shutdown_quiet:
  assumes "relay_world S k c s view"
  shows "tls_shutdown S t w = (t', w') \<Longrightarrow> remote_handles c s t \<Longrightarrow> view w' = view w"
    and "client_shutdown S x w = (x', w') \<Longrightarrow> cc_client x = k \<Longrightarrow> view w' = view w"
  using relay_quiet(5,6) [OF assms]
  by (auto simp: tls_shutdown_def client_shutdown_def shutdown_def tls_provider_def client_provider_def split: if_splits)

lemma relay_check_quiet:
  assumes "relay_world S k c s view"
  shows "tls_check_status S t w = Some (t', w') \<Longrightarrow> remote_handles c s t \<Longrightarrow> view w' = view w"
    and "check_status (client_provider S) x w = Some (x', w') \<Longrightarrow> cc_client x = k \<Longrightarrow> view w' = view w"
proof -
  note q = relay_quiet(5-8) [OF assms]
  show "view w' = view w" if "tls_check_status S t w = Some (t', w')" "remote_handles c s t"
    by (rule tls.check_status_view [where H = "remote_handles c s" and S = S])
      (use that q in \<open>auto simp: tls_provider_def tls_check_status_def\<close>)
  show "view w' = view w" if "check_status (client_provider S) x w = Some (x', w')" "cc_client x = k"
    by (rule client.check_status_view [where H = "\<lambda>x. cc_client x = k" and S = S])
      (use that q in \<open>auto simp: client_provider_def\<close>)
qed

section \<open>Moving data\<close>

lemma relay_fill_quiet:
  assumes "relay_world S k c s view" and "tls_fill S t w = Some (t', w')" and "remote_handles c s t"
  shows "view w' = view w"
proof -
  have "relay_world S k c s view \<and> remote_handles c s t \<longrightarrow> view (snd r) = view w" if "tls_fill S t w = Some r" for r
  proof (rule tls_fill.raw_induct
      [where P = "\<lambda>S t w r. relay_world S k c s view \<and> remote_handles c s t \<longrightarrow> view (snd r) = view w", OF _ that],
      goal_cases)
    case (1 f S t w r)
    show ?case
    proof
      assume a: "relay_world S k c s view \<and> remote_handles c s t"
      then have rd: "view w1 = view w" if "tls_read_tls S (tc_session t) (tc_stream t) w = (x, w1)" for x w1
        using relay_quiet(1) [of S k c s view w x w1] that by simp
      have sd: "view (snd (tls_shutdown S t w1)) = view w1" for w1
        using relay_shutdown_quiet(1) [of S k c s view t w1] a by (cases "tls_shutdown S t w1") simp
      show "view (snd r) = view w"
        using 1(2) a by (auto simp: sd dest!: 1(1) rd split: prod.splits sum.splits if_splits)
    qed
  qed
  with assms show ?thesis by force
qed

lemma relay_do_read:
  assumes "relay_world S k c s view" and "tls_do_read S t w = Some (r, t', w')" and "remote_handles c s t"
    and "view w = (tx, inp, rest)"
  shows "\<exists>inp'. inp = (case r of Some b \<Rightarrow> b | None \<Rightarrow> []) @ inp' \<and> view w' = (tx, inp', rest) \<and> r \<noteq> Some []"
proof -
  from assms(2) obtain t1 w1 where fill: "tls_fill S t w = Some (t1, w1)"
    by (auto simp: tls_do_read_def split: bind_splits)
  with relay_fill_quiet [OF assms(1) fill assms(3)] assms(4) have v1: "view w1 = (tx, inp, rest)" by simp
  have h1: "remote_handles c s t1" using tls_fill_evolves [OF fill] assms(3) remote_handles_evolves by blast
  obtain ok w2 where pr: "tls_process_new_packets S c w1 = (ok, w2)" by (cases "tls_process_new_packets S c w1")
  with relay_quiet(2) [OF assms(1) pr] v1 have v2: "view w2 = (tx, inp, rest)" by simp
  have sd: "view w2' = view w1'" if "tls_shutdown S t1 w1' = (t2, w2')" for t2 w1' w2'
    using relay_shutdown_quiet(1) [OF assms(1) that h1] .
  show ?thesis
  proof (cases ok)
    case False
    with assms(2) fill pr h1 v2 show ?thesis by (auto simp: tls_do_read_def dest!: sd)
  next
    case True
    obtain bs e w3 where re: "tls_reader_read_to_end S c w2 = ((bs, e), w3)"
      by (cases "tls_reader_read_to_end S c w2") (metis prod.exhaust)
    from assms(1) re v2 obtain inp' where "inp = bs @ inp'" "view w3 = (tx, inp', rest)"
      unfolding relay_world_def by blast
    with assms(2) fill pr h1 True re show ?thesis
      by (auto simp: tls_do_read_def dest!: sd split: if_splits prod.splits)
  qed
qed

lemma relay_do_send:
  assumes "relay_world S k c s view" and "tls_do_send S t w = Some (t', w')" and "remote_handles c s t"
  shows "view w' = view w"
proof -
  have "relay_world S k c s view \<and> remote_handles c s t \<longrightarrow> view (snd r) = view w" if "tls_drain S t w = Some r" for t w r
  proof (rule tls_drain.raw_induct
      [where P = "\<lambda>S t w r. relay_world S k c s view \<and> remote_handles c s t \<longrightarrow> view (snd r) = view w", OF _ that],
      goal_cases)
    case (1 f S t w r)
    show ?case
    proof
      assume a: "relay_world S k c s view \<and> remote_handles c s t"
      then have wr: "view w1 = view w" if "tls_write_tls S (tc_session t) (tc_stream t) w = (x, w1)" for x w1
        using relay_quiet(3) [of S k c s view w x w1] that by simp
      have sd: "view (snd (tls_shutdown S t w1)) = view w1" for w1
        using relay_shutdown_quiet(1) [of S k c s view t w1] a by (cases "tls_shutdown S t w1") simp
      show "view (snd r) = view w"
        using 1(2) a by (auto simp: sd dest!: 1(1) wr split: prod.splits sum.splits if_splits)
    qed
  qed
  from this [of "t\<lparr>tc_writable := True\<rparr>" w "(t', w')"] assms show ?thesis
    by (auto simp: tls_do_send_def split: if_splits)
qed

lemma relay_write_session:
  assumes "relay_world S k c s view" and "tls_write_session S t d w = (ok, t', w')" and "remote_handles c s t"
    and "view w = (tx, inp, av, pl)"
  shows "if ok then t' = t \<and> view w' = (tx, inp, av, pl @ d) else is_shutdown (tc_status t') \<and> view w' = view w"
proof -
  have wr: "case tls_writer_write_all S c d w of
        (Inr _, w') \<Rightarrow> (\<forall>tx inp av pl. view w = (tx, inp, av, pl) \<longrightarrow> view w' = (tx, inp, av, pl @ d))
      | (Inl e, w') \<Rightarrow> view w' = view w"
    using assms(1) by (simp add: relay_world_def)
  have sd: "view w2 = view w1 \<and> is_shutdown (tc_status t2)" if "tls_shutdown S t w1 = (t2, w2)" for t2 w1 w2
    using relay_shutdown_quiet(1) [OF assms(1) that assms(3)] tls_shutdown_status [OF that] by (simp add: is_shutdown_iff)
  from assms(2,3,4) wr show ?thesis
    by (auto simp: tls_write_session_def dest!: sd split: prod.splits sum.splits)
qed

lemma relay_recv_view:
  assumes "relay_world S k c s view" and "view w = (tx, inp, av, pl)"
  shows "tcp_recv S k n w = (Inr bs, w') \<Longrightarrow> length bs \<le> n \<and> (\<exists>av'. av = bs @ av' \<and> view w' = (tx, inp, av', pl))"
    and "tcp_recv S k n w = (Inl e, w') \<Longrightarrow> view w' = view w"
proof -
  have "case tcp_recv S k n w of
        (Inr bs, w') \<Rightarrow> length bs \<le> n \<and>
          (\<forall>tx inp av pl. view w = (tx, inp, av, pl) \<longrightarrow> (\<exists>av'. av = bs @ av' \<and> view w' = (tx, inp, av', pl)))
      | (Inl e, w') \<Rightarrow> view w' = view w"
    using assms(1) by (simp add: relay_world_def)
  then show "tcp_recv S k n w = (Inr bs, w') \<Longrightarrow> length bs \<le> n \<and> (\<exists>av'. av = bs @ av' \<and> view w' = (tx, inp, av', pl))"
    and "tcp_recv S k n w = (Inl e, w') \<Longrightarrow> view w' = view w" using assms(2) by auto
qed

text \<open>The relay loop of \<open>tcp_read\<close> on the connection's own handles.\<close>

lemma relay_tcp_read:
  assumes "relay_world S k c s view"
  shows "view w = (tx, inp, av, pl) \<Longrightarrow> remote_handles c s t \<Longrightarrow>
    \<exists>ok rb t' w' av' pl' lost. tcp_read S k recv_buf t w = Some (ok, rb, t', w') \<and> view w' = (tx, inp, av', pl') \<and>
      pl' @ lost @ av' = pl @ av \<and> (lost \<noteq> [] \<longrightarrow> is_shutdown (tc_status t'))"
proof (induction "length av" arbitrary: av pl recv_buf w rule: less_induct)
  case less
  obtain r w1 where rd: "tcp_recv S k (length recv_buf) w = (r, w1)" by (cases "tcp_recv S k (length recv_buf) w")
  show ?case
  proof (cases r)
    case (Inl e)
    with relay_recv_view(2) [OF assms less.prems(1)] rd less.prems(1) show ?thesis by (subst tcp_read.simps) auto
  next
    case (Inr bs)
    with relay_recv_view(1) [OF assms less.prems(1)] rd obtain av1 where
      bs: "length bs \<le> length recv_buf" "av = bs @ av1" "view w1 = (tx, inp, av1, pl)" by blast
    let ?rb = "bs @ drop (length bs) recv_buf"
    obtain ok t1 w2 where wr: "tls_write_session S t bs w1 = (ok, t1, w2)" by (cases "tls_write_session S t bs w1")
    note rw = relay_write_session [OF assms wr less.prems(2) bs(3)]
    consider "bs = []" | "bs \<noteq> []" "ok" | "bs \<noteq> []" "\<not> ok" by blast
    then show ?thesis
    proof cases
      case 1
      with rd Inr bs show ?thesis by (subst tcp_read.simps) (simp add: ex_bool_eq)
    next
      case 2
      with rw bs have "t1 = t" "view w2 = (tx, inp, av1, pl @ bs)" "length av1 < length av" by auto
      from less.hyps [OF this(3,2) less.prems(2), of ?rb] obtain ok' rb t' w' av' pl' lost where
        rec: "tcp_read S k ?rb t w2 = Some (ok', rb, t', w')" "view w' = (tx, inp, av', pl')"
        "pl' @ lost @ av' = (pl @ bs) @ av1" "lost \<noteq> [] \<longrightarrow> is_shutdown (tc_status t')" by blast
      have "tcp_read S k recv_buf t w = Some (ok', rb, t', w')"
        using 2 rd Inr bs wr rec(1) \<open>t1 = t\<close> by (subst tcp_read.simps) simp
      with rec(2-4) bs(2) show ?thesis by auto
    next
      case 3
      with rw bs have "view w2 = (tx, inp, av1, pl)" "is_shutdown (tc_status t1)" by auto
      with 3 rd Inr bs wr show ?thesis by (subst tcp_read.simps) (auto intro!: exI [of _ bs])
    qed
  qed
qed

lemma relay_tcp_send:
  assumes "relay_world S k c s view"
  shows "view w = (tx, r) \<Longrightarrow> \<exists>ok buf w' d1 d2. tcp_send S k b d w = Some (ok, buf, w') \<and> d = d1 @ d2 \<and>
    view w' = (tx @ d1, r) \<and> buf = (if ok then b @ d2 else b)"
proof (induction "length d" arbitrary: d tx w rule: less_induct)
  case less
  have wr: "case tcp_write S k d w of
      (Inr n, w') \<Rightarrow> n \<le> length d \<and> (\<forall>tx r. view w = (tx, r) \<longrightarrow> view w' = (tx @ take n d, r))
    | (Inl e, w') \<Rightarrow> view w' = view w" using assms by (simp add: relay_world_def)
  obtain x w1 where x: "tcp_write S k d w = (x, w1)" by (cases "tcp_write S k d w")
  consider "d = []" | e where "d \<noteq> []" "x = Inl e" | "d \<noteq> []" "x = Inr 0" | n where "d \<noteq> []" "x = Inr n" "0 < n"
    by (cases x) auto
  then show ?case
  proof cases
    case 1
    moreover have "tcp_send S k b [] w = Some (True, b, w)" by (subst tcp_send.simps) simp
    ultimately show ?thesis using less.prems by (simp add: ex_bool_eq)
  next
    case 2
    with wr x less.prems have "view w1 = (tx, r)" by simp
    moreover from 2 x have "tcp_send S k b d w = Some (e = WouldBlock, if e = WouldBlock then b @ d else b, w1)"
      by (simp add: tcp_send.simps [of S k b d w])
    ultimately show ?thesis
      by (intro exI [of _ "e = WouldBlock"] exI [of _ "if e = WouldBlock then b @ d else b"] exI [of _ w1]
          exI [of _ "[]"] exI [of _ d]) simp
  next
    case 3
    with wr x less.prems have "view w1 = (tx, r)" by (cases r) auto
    with 3 x show ?thesis by (auto simp: tcp_send.simps [of S k b d w] intro: exI [of _ "[]"])
  next
    case 4
    with wr x less.prems have n: "n \<le> length d" "view w1 = (tx @ take n d, r)" by (cases r, auto)+
    with 4 less.hyps [of "drop n d" w1 "tx @ take n d"] obtain ok buf w' d1 d2 where
      "tcp_send S k b (drop n d) w1 = Some (ok, buf, w')" "drop n d = d1 @ d2"
      "view w' = ((tx @ take n d) @ d1, r)" "buf = (if ok then b @ d2 else b)" by auto
    moreover from this have "d = (take n d @ d1) @ d2" by (metis append_assoc append_take_drop_id)
    ultimately show ?thesis using 4 n x by (auto simp: tcp_send.simps [of S k b d w])
  qed
qed

section \<open>Steps of a relay\<close>

text \<open>What a step of the relay may do when the bytes \<open>b\<close>, taken from the session already, are in hand.
  Towards the client: as long as the client side is not shut down nothing is lost, and in any case the
  bytes taken and buffered are a prefix of those there were; once it is shut down no more input is
  taken. Towards the server likewise.\<close>

definition down_step :: "'w relay_view \<Rightarrow> bytes \<Rightarrow> client_conn \<Rightarrow> 'w \<Rightarrow> client_conn \<Rightarrow> 'w \<Rightarrow> bool" where
  "down_step view b x w x' w' \<longleftrightarrow>
     (case (view w, view w') of ((tx, inp, _), (tx', inp', _)) \<Rightarrow>
        cc_status x \<le> cc_status x' \<and>
        (\<not> is_shutdown (cc_status x') \<longrightarrow> tx' @ cc_send_buffer x' @ inp' = tx @ cc_send_buffer x @ b @ inp) \<and>
        prefix (tx' @ cc_send_buffer x') (tx @ cc_send_buffer x @ b @ inp) \<and>
        (is_shutdown (cc_status x) \<longrightarrow> prefix (tx' @ cc_send_buffer x') (tx @ cc_send_buffer x @ b)))"

definition up_step :: "'w relay_view \<Rightarrow> client_conn \<Rightarrow> 'w \<Rightarrow> client_conn \<Rightarrow> 'w \<Rightarrow> bool" where
  "up_step view x w x' w' \<longleftrightarrow>
     (case (view w, view w') of ((_, _, av, pl), (_, _, av', pl')) \<Rightarrow>
        (\<not> is_shutdown (tc_status (cc_server_conn x')) \<longrightarrow> pl' @ av' = pl @ av) \<and> prefix pl' (pl @ av) \<and>
        (is_shutdown (tc_status (cc_server_conn x)) \<longrightarrow> pl' = pl))"

text \<open>Handles and index of a connection stay, and both life cycles only go forward; while an event is handled
  they only move as \<open>status_moves\<close> says.\<close>

definition conn_same :: "client_conn \<Rightarrow> client_conn \<Rightarrow> bool" where
  "conn_same x x' \<longleftrightarrow> cc_index x' = cc_index x \<and> cc_client x' = cc_client x \<and> cc_dst_addr x' = cc_dst_addr x \<and>
     cc_status x \<le> cc_status x' \<and> tls_evolves (cc_server_conn x) (cc_server_conn x')"

definition conn_evolves :: "client_conn \<Rightarrow> client_conn \<Rightarrow> bool" where
  "conn_evolves x x' \<longleftrightarrow> conn_same x x' \<and> status_moves (cc_status x) (cc_status x') \<and>
     status_moves (tc_status (cc_server_conn x)) (tc_status (cc_server_conn x'))"

definition relay_step :: "'w relay_view \<Rightarrow> client_conn \<Rightarrow> 'w \<Rightarrow> client_conn \<Rightarrow> 'w \<Rightarrow> bool" where
  "relay_step view x w x' w' \<longleftrightarrow> conn_evolves x x' \<and> down_step view [] x w x' w' \<and> up_step view x w x' w'"

lemma conn_same_refl [simp]: "conn_same x x"
  and conn_same_trans: "conn_same x y \<Longrightarrow> conn_same y z \<Longrightarrow> conn_same x z"
  by (auto simp: conn_same_def intro: tls_evolves_trans)

lemma conn_evolves_refl [simp]: "conn_evolves x x"
  and conn_evolves_trans: "conn_evolves x y \<Longrightarrow> conn_evolves y z \<Longrightarrow> conn_evolves x z"
  by (auto simp: conn_evolves_def intro: conn_same_trans status_moves_trans)

lemma conn_same_relay: "conn_same x x' \<Longrightarrow> relay_conn k c s x \<Longrightarrow> relay_conn k c s x'"
  by (auto simp: conn_same_def relay_conn_def tls_evolves_def)

lemma conn_evolves_relay: "conn_evolves x x' \<Longrightarrow> relay_conn k c s x \<Longrightarrow> relay_conn k c s x'"
  using conn_same_relay by (auto simp: conn_evolves_def)

lemma down_step_trans:
  assumes "down_step view b x w y v" and "down_step view [] y v z u"
  shows "down_step view b x w z u"
proof -
  obtain tx inp r tx1 inp1 r1 tx2 inp2 r2 where v: "view w = (tx, inp, r)" "view v = (tx1, inp1, r1)" "view u = (tx2, inp2, r2)"
    by (metis prod_cases3)
  have st: "cc_status x \<le> cc_status y" "cc_status y \<le> cc_status z" using assms v by (auto simp: down_step_def)
  show ?thesis
  proof (cases "is_shutdown (cc_status y)")
    case False
    with assms v st show ?thesis
      by (auto simp: down_step_def dest: is_shutdown_mono)
  next
    case True
    then have "is_shutdown (cc_status z)" using st is_shutdown_mono by blast
    moreover have "prefix (tx2 @ cc_send_buffer z) (tx1 @ cc_send_buffer y)" using True assms(2) v by (simp add: down_step_def)
    ultimately show ?thesis using assms(1) v st by (auto simp: down_step_def intro: prefix_order.trans)
  qed
qed

lemma up_step_trans:
  assumes "up_step view x w y v" and "up_step view y v z u" and "conn_same y z" and "conn_same x y"
  shows "up_step view x w z u"
proof -
  have "is_shutdown (tc_status (cc_server_conn x)) \<longrightarrow> is_shutdown (tc_status (cc_server_conn y))"
    using assms(4) is_shutdown_mono by (auto simp: conn_same_def tls_evolves_def)
  moreover
  have "is_shutdown (tc_status (cc_server_conn y)) \<longrightarrow> is_shutdown (tc_status (cc_server_conn z))"
    using assms(3) is_shutdown_mono by (auto simp: conn_same_def tls_evolves_def)
  ultimately show ?thesis using assms(1,2) by (auto simp: up_step_def split: prod.splits)
qed

lemma relay_step_trans: "relay_step view x w y v \<Longrightarrow> relay_step view y v z u \<Longrightarrow> relay_step view x w z u"
  using conn_evolves_trans [of x y z] down_step_trans [of view "[]" x w y v z u] up_step_trans [of view x w y v z u]
  by (simp add: relay_step_def conn_evolves_def)

text \<open>A step that leaves the view, the buffer and the client's status alone.\<close>

lemma relay_step_quiet:
  assumes "view w' = view w" and "cc_send_buffer x' = cc_send_buffer x" and "conn_evolves x x'"
  shows "relay_step view x w x' w'"
  using assms by (auto simp: relay_step_def down_step_def up_step_def conn_evolves_def conn_same_def split: prod.splits)

lemma relay_client_shutdown:
  assumes "relay_world S k c s view" and "client_shutdown S x w = (x', w')" and "relay_conn k c s x"
  shows "relay_step view x w x' w' \<and> is_shutdown (cc_status x')"
proof -
  have "view w' = view w" using relay_shutdown_quiet(2) [OF assms(1,2)] assms(3) by (simp add: relay_conn_def)
  with client_shutdown_frame [OF assms(2)] show ?thesis
    using relay_step_quiet [of view w' w x' x] by (simp add: conn_evolves_def conn_same_def is_shutdown_iff)
qed

section \<open>Towards the server\<close>

lemma client_recv_step:
  assumes "relay_world S k c s view" and "relay_conn k c s x" and "\<not> is_shutdown (tc_status (cc_server_conn x))"
  shows "\<exists>x' w'. client_recv S x w = Some (x', w') \<and> relay_step view x w x' w' \<and> \<not> cc_read_client x'"
proof -
  have h: "cc_client x = k" "remote_handles c s (cc_server_conn x)" using assms(2) by (auto simp: relay_conn_def)
  obtain tx inp av pl where v: "view w = (tx, inp, av, pl)" by (cases "view w")
  from relay_tcp_read [OF assms(1) v h(2), of "cc_recv_buffer x"] obtain ok rb t' w1 av' pl' lost where
    rd: "tcp_read S k (cc_recv_buffer x) (cc_server_conn x) w = Some (ok, rb, t', w1)" "view w1 = (tx, inp, av', pl')"
    "pl' @ lost @ av' = pl @ av" "lost \<noteq> [] \<longrightarrow> is_shutdown (tc_status t')" by blast
  let ?x1 = "x\<lparr>cc_recv_buffer := rb, cc_server_conn := t'\<rparr>"
  have ev: "conn_evolves x ?x1" using tcp_read_evolves [OF rd(1)] tls_kept_moves [OF tcp_read_kept [OF rd(1)]] by (simp add: conn_evolves_def conn_same_def)
  have "prefix pl' (pl @ av)" using rd(3) by (metis prefixI)
  with rd v assms(3) ev have 1: "relay_step view x w ?x1 w1"
    by (auto simp: relay_step_def down_step_def up_step_def conn_evolves_def conn_same_def)
  obtain x2 w2 where sd: "(if ok then (?x1, w1) else client_shutdown S ?x1 w1) = (x2, w2)" by (metis prod.exhaust)
  have 2: "relay_step view ?x1 w1 x2 w2"
    using sd relay_client_shutdown [OF assms(1), of ?x1 w1 x2 w2] conn_evolves_relay [OF ev assms(2)]
      relay_step_quiet [of view w1 w1 ?x1 ?x1] by (auto split: if_splits)
  have 3: "relay_step view x2 w2 (x2\<lparr>cc_read_client := False\<rparr>) w2"
    by (rule relay_step_quiet) (simp_all add: conn_evolves_def conn_same_def)
  from relay_step_trans [OF relay_step_trans [OF 1 2] 3] rd(1) sd h show ?thesis
    by (auto simp: client_recv_def Let_def split: if_splits prod.splits)
qed

lemma remote_send_step:
  assumes "relay_world S k c s view" and "relay_conn k c s x" and "tls_do_send S (cc_server_conn x) w = Some (t, w')"
  shows "relay_step view x w (x\<lparr>cc_server_conn := t\<rparr>) w'"
proof (rule relay_step_quiet)
  show "view w' = view w" using relay_do_send [OF assms(1,3)] assms(2) by (simp add: relay_conn_def)
  show "conn_evolves x (x\<lparr>cc_server_conn := t\<rparr>)" using tls_do_send_evolves [OF assms(3)] tls_kept_moves [OF tls_do_send_kept [OF assms(3)]]
    by (simp add: conn_evolves_def conn_same_def)
qed simp

lemma relay_step_conn: "relay_step view x w x' w' \<Longrightarrow> relay_conn k c s x \<Longrightarrow> relay_conn k c s x'"
  using conn_evolves_relay by (auto simp: relay_step_def)

lemma try_send_server_step:
  assumes "relay_world S k c s view" and "tls_output_ends S tout" and "relay_conn k c s x"
  shows "\<exists>x' w'. try_send_server S x w = Some (x', w') \<and> relay_step view x w x' w'"
proof -
  have once: "\<exists>x' w'. try_send_server S x w = Some (x', w') \<and> relay_step view x w x' w'"
    if "relay_conn k c s x" "\<not> cc_read_client x" for x w
  proof -
    obtain t w1 where sd: "tls_do_send S (cc_server_conn x) w = Some (t, w1)"
      using tls_do_send_returns [OF assms(2), of "cc_server_conn x" w] by auto
    with remote_send_step [OF assms(1) that(1) sd] that(2) show ?thesis by (subst try_send_server.simps) simp
  qed
  obtain t w1 where sd: "tls_do_send S (cc_server_conn x) w = Some (t, w1)"
    using tls_do_send_returns [OF assms(2), of "cc_server_conn x" w] by auto
  let ?x = "x\<lparr>cc_server_conn := t\<rparr>"
  note 1 = remote_send_step [OF assms(1,3) sd]
  note r1 = relay_step_conn [OF 1 assms(3)]
  show ?thesis
  proof (cases "tls_is_writable t \<and> cc_read_client x")
    case True
    then have "\<not> is_shutdown (tc_status (cc_server_conn ?x))"
      using shutdown_not_alive [of "tc_status t"] by (auto simp: tls_is_writable_def)
    from client_recv_step [OF assms(1) r1 this, of w1] obtain x2 w2 where
      2: "client_recv S ?x w1 = Some (x2, w2)" "relay_step view ?x w1 x2 w2" "\<not> cc_read_client x2" by blast
    from once [OF relay_step_conn [OF 2(2) r1] 2(3), of w2] obtain x3 w3 where
      3: "try_send_server S x2 w2 = Some (x3, w3)" "relay_step view x2 w2 x3 w3" by blast
    with sd True 2(1) relay_step_trans [OF relay_step_trans [OF 1 2(2)] 3(2)] show ?thesis
      by (subst try_send_server.simps) simp
  next
    case False
    then show ?thesis using sd 1 by (subst try_send_server.simps) auto
  qed
qed

lemma try_read_client_step:
  assumes "relay_world S k c s view" and "tls_output_ends S tout" and "relay_conn k c s x"
    and "\<not> is_shutdown (tc_status (cc_server_conn x))"
  shows "\<exists>x' w'. try_read_client S x w = Some (x', w') \<and> relay_step view x w x' w'"
proof -
  from client_recv_step [OF assms(1,3,4), of w] obtain x1 w1 where
    1: "client_recv S x w = Some (x1, w1)" "relay_step view x w x1 w1" by blast
  from try_send_server_step [OF assms(1,2) relay_step_conn [OF 1(2) assms(3)], of w1] obtain x2 w2 where
    2: "try_send_server S x1 w1 = Some (x2, w2)" "relay_step view x1 w1 x2 w2" by blast
  from relay_step_trans [OF 1(2) 2(2)] 1(1) 2(1) show ?thesis by (simp add: try_read_client_def)
qed

section \<open>Towards the client\<close>

lemma do_send_client_step:
  assumes "relay_world S k c s view" and "relay_conn k c s x" and "cc_send_buffer x = []"
  shows "\<exists>x' w'. do_send_client S x d w = Some (x', w') \<and> down_step view d x w x' w' \<and> conn_evolves x x' \<and>
    cc_server_conn x' = cc_server_conn x \<and> cc_read_server x' = cc_read_server x \<and> snd (view w') = snd (view w)"
proof -
  obtain tx r where v: "view w = (tx, r)" by (cases "view w")
  from relay_tcp_send [OF assms(1) v, of "cc_send_buffer x" d] obtain ok buf w1 d1 d2 where
    sd': "tcp_send S k (cc_send_buffer x) d w = Some (ok, buf, w1)" "d = d1 @ d2" "view w1 = (tx @ d1, r)"
    "buf = (if ok then cc_send_buffer x @ d2 else cc_send_buffer x)" by blast
  have sd: "tcp_send S (cc_client x) (cc_send_buffer x) d w = Some (ok, buf, w1)" "d = d1 @ d2" "view w1 = (tx @ d1, r)"
    "buf = (if ok then d2 else [])" using sd' assms(2,3) by (simp_all add: relay_conn_def)
  let ?x1 = "x\<lparr>cc_send_buffer := buf\<rparr>"
  have r1: "relay_conn k c s ?x1" using assms(2) by (simp add: relay_conn_def)
  show ?thesis
  proof (cases ok)
    case True
    with sd v assms(3) show ?thesis
      by (cases r) (auto simp: do_send_client_def down_step_def conn_evolves_def conn_same_def)
  next
    case False
    obtain x2 w2 where cl: "client_shutdown S ?x1 w1 = (x2, w2)" by (cases "client_shutdown S ?x1 w1")
    have "view w2 = (tx @ d1, r)" using relay_shutdown_quiet(2) [OF assms(1) cl] r1 sd(3) by (simp add: relay_conn_def)
    moreover note client_shutdown_frame [OF cl]
    ultimately show ?thesis using False sd v cl assms(3)
      by (cases r) (auto simp: do_send_client_def down_step_def conn_evolves_def conn_same_def is_shutdown_iff)
  qed
qed

lemma client_push_step:
  assumes "relay_world S k c s view" and "relay_conn k c s x"
  shows "\<exists>x' w'. client_push S x b w = Some (x', w') \<and> down_step view b x w x' w' \<and> conn_evolves x x' \<and>
    cc_server_conn x' = cc_server_conn x \<and> cc_read_server x' = cc_read_server x \<and> snd (view w') = snd (view w)"
proof (cases "is_connecting (cc_status x)")
  case True
  then show ?thesis
    by (auto simp: client_push_def down_step_def conn_evolves_def conn_same_def is_connecting_def is_shutdown_def split: prod.split)
next
  case False
  let ?x = "x\<lparr>cc_send_buffer := []\<rparr>"
  have "relay_conn k c s ?x" using assms(2) by (simp add: relay_conn_def)
  from do_send_client_step [OF assms(1) this, of "cc_send_buffer x @ b" w] obtain x' w' where
    sd: "do_send_client S ?x (cc_send_buffer x @ b) w = Some (x', w')" "down_step view (cc_send_buffer x @ b) ?x w x' w'"
    "conn_evolves ?x x'" "cc_server_conn x' = cc_server_conn x" "cc_read_server x' = cc_read_server x"
    "snd (view w') = snd (view w)" by auto
  have "client_push S x b w = Some (x', w')"
  proof (cases "cc_send_buffer x = []")
    case True
    then have "?x = x" by simp
    with True False sd(1) show ?thesis by (simp add: client_push_def)
  qed (use False sd(1) in \<open>simp add: client_push_def\<close>)
  moreover have "down_step view b x w x' w'" using sd(2) by (auto simp: down_step_def split: prod.splits)
  moreover have "conn_evolves x x'" using sd(3) by (simp add: conn_evolves_def conn_same_def)
  ultimately show ?thesis using sd(4-6) by blast
qed

text \<open>Taking bytes from the session and handling them is a step.\<close>

lemma down_step_take:
  assumes "view w = (tx, b @ inp, r)" and "view v = (tx, inp, r)" and "down_step view b y v z u"
    and "cc_send_buffer y = cc_send_buffer x" and "cc_status y = cc_status x" and "\<not> is_shutdown (cc_status x)"
  shows "down_step view [] x w z u"
  using assms by (auto simp: down_step_def split: prod.splits)

lemma down_step_flags [simp]:
  "down_step view b x w (x'\<lparr>cc_read_server := f\<rparr>) w' = down_step view b x w x' w'"
  "down_step view b x w (x'\<lparr>cc_server_conn := t\<rparr>) w' = down_step view b x w x' w'"
  by (simp_all add: down_step_def)

lemma try_send_client_step:
  assumes "relay_world S k c s view" and "tls_input_finite S tin"
  shows "relay_conn k c s x \<Longrightarrow> \<exists>x' w'. try_send_client S x b w = Some (x', w') \<and> down_step view b x w x' w' \<and>
    conn_evolves x x' \<and> snd (snd (view w')) = snd (snd (view w))"
proof (induction "length (fst (snd (view w)))" arbitrary: x b w rule: less_induct)
  case less
  from client_push_step [OF assms(1) less.prems, of b w] obtain x1 w1 where
    push: "client_push S x b w = Some (x1, w1)" "down_step view b x w x1 w1" "conn_evolves x x1"
    "cc_server_conn x1 = cc_server_conn x" "cc_read_server x1 = cc_read_server x" "snd (view w1) = snd (view w)" by blast
  note r1 = conn_evolves_relay [OF push(3) less.prems]
  show ?case
  proof (cases "client_writable x1 \<and> cc_read_server x1")
    case False
    with push show ?thesis by (subst try_send_client.simps) auto
  next
    case True
    then have alive: "\<not> is_shutdown (cc_status x1)" using shutdown_not_alive by (auto simp: client_writable_def)
    obtain tx inp rest where v1: "view w1 = (tx, inp, rest)" by (cases "view w1") auto
    have sv: "snd (view w) = (inp, rest)" using push(6) v1 by simp
    obtain r t w2 where rd: "tls_do_read S (cc_server_conn x1) w1 = Some (r, t, w2)"
      using tls_do_read_returns [OF assms(2), of "cc_server_conn x1" w1] by auto
    from relay_do_read [OF assms(1) rd _ v1] r1 obtain inp' where
      v2: "inp = (case r of Some b \<Rightarrow> b | None \<Rightarrow> []) @ inp'" "view w2 = (tx, inp', rest)" "r \<noteq> Some []"
      by (auto simp: relay_conn_def)
    let ?x2 = "x1\<lparr>cc_server_conn := t\<rparr>"
    have ev: "conn_evolves x1 ?x2" using tls_do_read_evolves [OF rd] tls_kept_moves [OF tls_do_read_kept [OF rd]]
      by (simp add: conn_evolves_def conn_same_def)
    note r2 = conn_evolves_relay [OF ev r1]
    show ?thesis
    proof (cases r)
      case None
      with v1 v2 have "down_step view [] x1 w1 ?x2 w2" by (simp add: down_step_def)
      with down_step_trans [OF push(2) this] conn_evolves_trans [OF push(3) ev] push(1,6) True rd None v1 v2 show ?thesis
        by (subst try_send_client.simps) (simp add: conn_evolves_def conn_same_def)
    next
      case (Some b')
      have "length (fst (snd (view w2))) < length (fst (snd (view w)))"
        using Some sv v2 by (cases b') auto
      from less.hyps [OF this r2, of b'] obtain x3 w3 where
        rec: "try_send_client S ?x2 b' w2 = Some (x3, w3)" "down_step view b' ?x2 w2 x3 w3" "conn_evolves ?x2 x3"
        "snd (snd (view w3)) = snd (snd (view w2))" by blast
      have "down_step view [] x1 w1 x3 w3"
        using down_step_take [OF _ v2(2) rec(2), of w1 x1] v1 v2(1) Some alive by simp
      with down_step_trans [OF push(2) this] conn_evolves_trans [OF conn_evolves_trans [OF push(3) ev] rec(3)]
        push(1) sv True rd Some v2(2) rec(1,4) show ?thesis
        by (subst try_send_client.simps) (simp add: conn_evolves_def conn_same_def)
    qed
  qed
qed

lemma try_send_client_relay:
  assumes "relay_world S k c s view" and "tls_input_finite S tin" and "relay_conn k c s x"
  shows "\<exists>x' w'. try_send_client S x [] w = Some (x', w') \<and> relay_step view x w x' w'"
proof -
  from try_send_client_step [OF assms, of "[]" w] obtain x' w' where
    st: "try_send_client S x [] w = Some (x', w')" "down_step view [] x w x' w'" "conn_evolves x x'"
    "snd (snd (view w')) = snd (snd (view w))" by blast
  then have "up_step view x w x' w'" by (auto simp: up_step_def split: prod.splits)
  with st show ?thesis by (auto simp: relay_step_def)
qed

lemma try_read_server_relay:
  assumes "relay_world S k c s view" and "tls_input_finite S tin" and "relay_conn k c s x" and "client_writable x"
  shows "\<exists>x' w'. try_read_server S x w = Some (x', w') \<and> relay_step view x w x' w'"
proof -
  have alive: "\<not> is_shutdown (cc_status x)" using assms(4) shutdown_not_alive by (auto simp: client_writable_def)
  obtain tx inp rest where v: "view w = (tx, inp, rest)" by (cases "view w") auto
  obtain r t w1 where rd: "tls_do_read S (cc_server_conn x) w = Some (r, t, w1)"
    using tls_do_read_returns [OF assms(2), of "cc_server_conn x" w] by auto
  from relay_do_read [OF assms(1) rd _ v] assms(3) obtain inp' where
    v1: "inp = (case r of Some b \<Rightarrow> b | None \<Rightarrow> []) @ inp'" "view w1 = (tx, inp', rest)" by (auto simp: relay_conn_def)
  let ?x1 = "x\<lparr>cc_server_conn := t\<rparr>"
  have ev: "conn_evolves x ?x1" using tls_do_read_evolves [OF rd] tls_kept_moves [OF tls_do_read_kept [OF rd]]
      by (simp add: conn_evolves_def conn_same_def)
  note r1 = conn_evolves_relay [OF ev assms(3)]
  show ?thesis
  proof (cases r)
    case None
    with v v1 ev have "relay_step view x w ?x1 w1" by (intro relay_step_quiet) simp_all
    with rd None show ?thesis by (simp add: try_read_server_def)
  next
    case (Some b)
    from try_send_client_step [OF assms(1,2) r1, of b w1] obtain x2 w2 where
      st: "try_send_client S ?x1 b w1 = Some (x2, w2)" "down_step view b ?x1 w1 x2 w2" "conn_evolves ?x1 x2"
      "snd (snd (view w2)) = snd (snd (view w1))" by blast
    have "down_step view [] x w x2 w2" using down_step_take [OF _ v1(2) st(2), of w x] v v1(1) Some alive by simp
    moreover have "up_step view x w x2 w2" using st(4) v v1(2) by (auto simp: up_step_def split: prod.splits)
    ultimately show ?thesis using st(1) rd Some conn_evolves_trans [OF ev st(3)]
      by (auto simp: try_read_server_def relay_step_def)
  qed
qed

section \<open>Events\<close>

lemma relay_then:
  assumes "\<exists>x1 w1. f = Some (x1, w1) \<and> relay_step view x w x1 w1"
    and "\<And>x1 w1. relay_step view x w x1 w1 \<Longrightarrow> \<exists>x2 w2. g x1 w1 = Some (x2, w2) \<and> relay_step view x1 w1 x2 w2"
  shows "\<exists>x2 w2. Option.bind f (\<lambda>(x1, w1). g x1 w1) = Some (x2, w2) \<and> relay_step view x w x2 w2"
proof -
  from assms(1) obtain x1 w1 where 1: "f = Some (x1, w1)" "relay_step view x w x1 w1" by blast
  from assms(2) [OF 1(2)] obtain x2 w2 where "g x1 w1 = Some (x2, w2)" "relay_step view x1 w1 x2 w2" by blast
  with 1 relay_step_trans [OF 1(2)] show ?thesis by auto
qed

lemma relay_step_after:
  assumes "\<exists>x2 w2. f = Some (x2, w2) \<and> relay_step view x1 w1 x2 w2" and "relay_step view x w x1 w1"
  shows "\<exists>x2 w2. f = Some (x2, w2) \<and> relay_step view x w x2 w2"
proof -
  from assms(1) obtain x2 w2 where "f = Some (x2, w2)" "relay_step view x1 w1 x2 w2" by blast
  with relay_step_trans [OF assms(2), of x2 w2] show ?thesis by blast
qed

lemma relay_flag_step:
  "relay_step view x w (x\<lparr>cc_read_client := f\<rparr>) w" "relay_step view x w (x\<lparr>cc_read_server := f\<rparr>) w"
  "relay_step view x w (x\<lparr>cc_last_active_time := t\<rparr>) w" "relay_step view x w x w"
  by (rule relay_step_quiet; simp add: conn_evolves_def conn_same_def)+

lemma relay_established_step:
  "relay_step view x w (established (client_provider S) x) w"
  "relay_step view x w (x\<lparr>cc_server_conn := established (tls_provider S) (cc_server_conn x)\<rparr>) w"
proof -
  show "relay_step view x w (established (client_provider S) x) w"
    by (rule relay_step_quiet) (simp_all add: client_established_frame conn_evolves_def conn_same_def)
  show "relay_step view x w (x\<lparr>cc_server_conn := established (tls_provider S) (cc_server_conn x)\<rparr>) w"
    using tls_established_evolves [of "cc_server_conn x" S] tls.established_status [of S "cc_server_conn x"]
    by (intro relay_step_quiet) (simp_all add: conn_evolves_def conn_same_def)
qed

lemma client_channel_step:
  assumes rw: "relay_world S k c s view" and fin: "tls_input_finite S tin" and fout: "tls_output_ends S tout"
    and x: "relay_conn k c s x"
  shows "\<exists>x' w'. client_channel S x e w = Some (x', w') \<and> relay_step view x w x' w'"
  unfolding client_channel_def
proof (rule relay_then)
  show "\<exists>x1 w1. (if ev_readable e then if tls_is_writable (cc_server_conn x) then try_read_client S x w
        else Some (x\<lparr>cc_read_client := True\<rparr>, w) else Some (x, w)) = Some (x1, w1) \<and> relay_step view x w x1 w1"
    using try_read_client_step [OF rw fout x, of w] shutdown_not_alive [of "tc_status (cc_server_conn x)"] relay_flag_step
    by (auto simp: tls_is_writable_def)
  fix x1 w1 assume "relay_step view x w x1 w1"
  then have r1: "relay_conn k c s x1" using x by (rule relay_step_conn)
  let ?x2 = "established (client_provider S) x1"
  have st: "relay_step view x1 w1 ?x2 w1" by (rule relay_established_step)
  from relay_step_after [OF try_send_client_relay [OF rw fin relay_step_conn [OF st r1]] st] relay_flag_step(4)
  show "\<exists>x2 w2. (if ev_writable e then try_send_client S ?x2 [] w1 else Some (x1, w1)) = Some (x2, w2) \<and>
      relay_step view x1 w1 x2 w2" by auto
qed

lemma server_channel_step:
  assumes rw: "relay_world S k c s view" and fin: "tls_input_finite S tin" and fout: "tls_output_ends S tout"
    and x: "relay_conn k c s x"
  shows "\<exists>x' w'. server_channel S x e w = Some (x', w') \<and> relay_step view x w x' w'"
  unfolding server_channel_def
proof (rule relay_then)
  show "\<exists>x1 w1. (if ev_readable e then if client_writable x then try_read_server S x w
        else Some (x\<lparr>cc_read_server := True\<rparr>, w) else Some (x, w)) = Some (x1, w1) \<and> relay_step view x w x1 w1"
    using try_read_server_relay [OF rw fin x, of w] relay_flag_step by auto
  fix x1 w1 assume "relay_step view x w x1 w1"
  then have r1: "relay_conn k c s x1" using x by (rule relay_step_conn)
  let ?x2 = "x1\<lparr>cc_server_conn := established (tls_provider S) (cc_server_conn x1)\<rparr>"
  have st: "relay_step view x1 w1 ?x2 w1" by (rule relay_established_step)
  from relay_step_after [OF try_send_server_step [OF rw fout relay_step_conn [OF st r1]] st] relay_flag_step(4)
  show "\<exists>x2 w2. (if ev_writable e then try_send_server S ?x2 w1 else Some (x1, w1)) = Some (x2, w2) \<and>
      relay_step view x1 w1 x2 w2" by auto
qed

lemma client_event_step:
  assumes rw: "relay_world S k c s view" and fin: "tls_input_finite S tin" and fout: "tls_output_ends S tout"
    and x: "relay_conn k c s x"
  shows "\<exists>x' w'. client_event S x e w = Some (x', w') \<and> relay_step view x w x' w'"
proof -
  obtain x' w' where "client_shutdown S x w = (x', w')" by (cases "client_shutdown S x w")
  with relay_client_shutdown [OF rw this x] client_channel_step [OF rw fin fout x, of e w] server_channel_step [OF rw fin fout x, of e w]
  show ?thesis by (simp add: client_event_def Let_def)
qed

section \<open>Closing\<close>

text \<open>The two sides of a connection close together: between two events neither side is merely shut down; a
  side that waits for its output to be flushed has a peer that is gone, and a side that is gone has a
  peer that is gone or waits.\<close>

definition closing_ok :: "client_conn \<Rightarrow> bool" where
  "closing_ok x \<longleftrightarrow>
     (case (cc_status x, tc_status (cc_server_conn x)) of
        (PeerClosed, t) \<Rightarrow> t = Deregistered
      | (Deregistered, t) \<Rightarrow> t = PeerClosed \<or> t = Deregistered
      | (Shutdown, t) \<Rightarrow> False
      | (_, t) \<Rightarrow> t = Connecting \<or> t = Established)"

text \<open>A side waits only for output that is there.\<close>

definition flushing :: "'w sys \<Rightarrow> client_conn \<Rightarrow> 'w \<Rightarrow> bool" where
  "flushing S x w \<longleftrightarrow>
     (cc_status x = PeerClosed \<longrightarrow> cc_send_buffer x \<noteq> []) \<and>
     (tc_status (cc_server_conn x) = PeerClosed \<longrightarrow> tls_wants_write S (tc_session (cc_server_conn x)) w)"

lemma client_propagate_frame:
  "client_propagate S x = x\<lparr>cc_status := cc_status (client_propagate S x), cc_server_conn := cc_server_conn (client_propagate S x)\<rparr> \<and>
   cc_status x \<le> cc_status (client_propagate S x) \<and> tls_evolves (cc_server_conn x) (cc_server_conn (client_propagate S x))"
  using tls_peer_closed_evolves [of "cc_server_conn x" S]
  by (auto simp: client_propagate_def Let_def client_peer_closed_frame)

lemma client_finish_step:
  assumes "relay_world S k c s view" and "relay_conn k c s x"
  shows "\<exists>x' w'. client_check_both S (client_propagate S x) w = Some (x', w') \<and> conn_same x x' \<and> view w' = view w \<and>
    cc_send_buffer x' = cc_send_buffer x"
proof -
  let ?x = "client_propagate S x"
  note fr = client_propagate_frame [of S x]
  then have same: "conn_same x ?x" "cc_send_buffer ?x = cc_send_buffer x"
    by (metis (no_types, lifting) conn_same_def client_conn.select_convs client_conn.surjective client_conn.update_convs(6,7))+
  note r1 = conn_same_relay [OF same(1) assms(2)]
  obtain x1 w1 where c1: "check_status (client_provider S) ?x w = Some (x1, w1)"
    using client.check_status_returns [of S ?x w] by auto
  note f1 = client_check_frame [OF c1]
  obtain t w2 where c2: "tls_check_status S (cc_server_conn x1) w1 = Some (t, w2)"
    using tls.check_status_returns [of S "cc_server_conn x1" w1] by (auto simp: tls_check_status_def)
  have sc: "cc_server_conn x1 = cc_server_conn ?x" "cc_client x1 = cc_client ?x" "cc_send_buffer x1 = cc_send_buffer ?x"
    "cc_index x1 = cc_index ?x" "cc_dst_addr x1 = cc_dst_addr ?x"
    using f1 by (metis (no_types, lifting) client_conn.select_convs client_conn.surjective client_conn.update_convs(6))+
  have "view w1 = view w" using relay_check_quiet(2) [OF assms(1) c1] r1 by (simp add: relay_conn_def)
  moreover have "view w2 = view w1" using relay_check_quiet(1) [OF assms(1) c2] r1 sc by (simp add: relay_conn_def)
  moreover have "conn_same ?x (x1\<lparr>cc_server_conn := t\<rparr>)"
    using f1 sc tls_check_status_evolves [OF c2] by (simp add: conn_same_def)
  ultimately show ?thesis using c1 c2 sc same conn_same_trans [OF same(1)] by (auto simp: client_check_both_def)
qed

lemma client_finish_closing:
  assumes "client_check_both S (client_propagate S x) w = Some (x', w')"
    and "closing_ok x0" and "conn_evolves x0 x"
  shows "closing_ok x' \<and> flushing S x' w'"
proof -
  let ?y = "client_propagate S x"
  from assms(1) obtain x1 w1 t where c1: "check_status (client_provider S) ?y w = Some (x1, w1)"
    and c2: "tls_check_status S (cc_server_conn x1) w1 = Some (t, w')" and x': "x' = x1\<lparr>cc_server_conn := t\<rparr>"
    by (auto simp: client_check_both_def split: bind_splits)
  have sv: "cc_server_conn x1 = cc_server_conn ?y" "cc_send_buffer x1 = cc_send_buffer ?y"
    using client_check_frame [OF c1] by (metis client_conn.select_convs client_conn.surjective client_conn.update_convs(6))+
  have a': "cc_status x1 = (case cc_status ?y of PeerClosed \<Rightarrow> if cc_send_buffer ?y = [] then Deregistered else PeerClosed
      | Shutdown \<Rightarrow> Deregistered | s \<Rightarrow> s)"
    using client.check_status_status [OF c1] by (simp add: client.settled_def) (simp add: client_provider_def)
  have b': "tc_status t = (case tc_status (cc_server_conn ?y) of
      PeerClosed \<Rightarrow> if tls_wants_write S (tc_session (cc_server_conn ?y)) w1 then PeerClosed else Deregistered
      | Shutdown \<Rightarrow> Deregistered | s \<Rightarrow> s)"
    using tls.check_status_status [OF c2 [unfolded tls_check_status_def]] sv(1)
    by (simp add: tls.settled_def) (simp add: tls_provider_def)
  have b: "tc_status (cc_server_conn ?y) =
      (if is_shutdown (cc_status x) then max PeerClosed (tc_status (cc_server_conn x)) else tc_status (cc_server_conn x))"
    using tls.peer_closed_status [of S "cc_server_conn x"]
    by (auto simp: client_propagate_def Let_def client_peer_closed_frame)
  have a: "cc_status ?y = (if is_shutdown (tc_status (cc_server_conn ?y)) then max PeerClosed (cc_status x) else cc_status x)"
    by (auto simp: client_propagate_def Let_def client_peer_closed_frame)
  have m: "status_moves (cc_status x0) (cc_status x)" "status_moves (tc_status (cc_server_conn x0)) (tc_status (cc_server_conn x))"
    using assms(3) by (simp_all add: conn_evolves_def)
  have "closing_ok x'"
    using assms(2) m a b a' b' unfolding x' closing_ok_def status_moves_def
    by (cases "cc_status x0"; cases "tc_status (cc_server_conn x0)"; cases "cc_status x"; cases "tc_status (cc_server_conn x)")
      (simp_all add: is_shutdown_def max_def status_order split: if_splits)
  moreover have "flushing S x' w'"
  proof -
    have "cc_send_buffer x1 \<noteq> []" if "cc_status x1 = PeerClosed"
      using client.check_status_waits [OF c1] that by (auto simp: client_provider_def)
    moreover have "tls_wants_write S (tc_session t) w'" if "tc_status t = PeerClosed"
      using tls.check_status_waits [OF c2 [unfolded tls_check_status_def]] that by (auto simp: tls_provider_def)
    ultimately show ?thesis by (simp add: flushing_def x')
  qed
  ultimately show ?thesis ..
qed

section \<open>Properties\<close>

fun client_run :: "'w sys \<Rightarrow> client_conn \<Rightarrow> net_event list \<Rightarrow> 'w \<Rightarrow> (client_conn \<times> 'w) rs" where
  "client_run S x [] w = Some (x, w)"
| "client_run S x (e # es) w = do { (x, w) \<leftarrow> client_ready S x e w; client_run S x es w }"

lemma client_ready_step:
  assumes rw: "relay_world S k c s view" and fin: "tls_input_finite S tin" and fout: "tls_output_ends S tout"
    and x: "relay_conn k c s x"
  shows "\<exists>x' w'. client_ready S x e w = Some (x', w') \<and> conn_same x x' \<and> down_step view [] x w x' w' \<and>
    up_step view x w x' w' \<and> (closing_ok x \<longrightarrow> closing_ok x' \<and> flushing S x' w')"
proof -
  obtain now w1 where t: "instant_now S w = (now, w1)" by (cases "instant_now S w")
  let ?x1 = "x\<lparr>cc_last_active_time := now\<rparr>"
  have s1: "relay_step view x w ?x1 w1"
    by (rule relay_step_quiet) (use relay_quiet(4) [OF rw t] in \<open>simp_all add: conn_evolves_def conn_same_def\<close>)
  from relay_step_after [OF client_event_step [OF rw fin fout relay_step_conn [OF s1 x]] s1] obtain x2 w2 where
    ev: "client_event S ?x1 e w1 = Some (x2, w2)" "relay_step view x w x2 w2" by blast
  note r2 = relay_step_conn [OF ev(2) x]
  from client_finish_step [OF rw r2, of w2] obtain x3 w3 where
    fs: "client_check_both S (client_propagate S x2) w2 = Some (x3, w3)" "conn_same x2 x3" "view w3 = view w2"
    "cc_send_buffer x3 = cc_send_buffer x2" by blast
  have "down_step view [] x2 w2 x3 w3" using fs(2-4) by (auto simp: down_step_def conn_same_def split: prod.splits)
  moreover have "up_step view x2 w2 x3 w3" using fs(2-4) by (auto simp: up_step_def split: prod.splits)
  ultimately have "down_step view [] x w x3 w3" "up_step view x w x3 w3" "conn_same x x3"
    using ev(2) fs(2) down_step_trans up_step_trans conn_same_trans by (auto simp: relay_step_def conn_evolves_def)
  moreover have "closing_ok x \<longrightarrow> closing_ok x3 \<and> flushing S x3 w3"
    using client_finish_closing [OF fs(1)] ev(2) by (auto simp: relay_step_def)
  ultimately show ?thesis using t ev(1) fs(1) by (auto simp: client_ready_def)
qed

lemma client_run_step:
  assumes rw: "relay_world S k c s view" and fin: "tls_input_finite S tin" and fout: "tls_output_ends S tout"
    and x: "relay_conn k c s x"
  shows "\<exists>x' w'. client_run S x es w = Some (x', w') \<and> conn_same x x' \<and> down_step view [] x w x' w' \<and>
    up_step view x w x' w' \<and> (closing_ok x \<longrightarrow> closing_ok x' \<and> (flushing S x' w' \<or> es = []))"
  using x
proof (induction es arbitrary: x w)
  case Nil
  then show ?case by (auto simp: down_step_def up_step_def split: prod.split)
next
  case (Cons e es)
  from client_ready_step [OF rw fin fout Cons.prems, of e w] obtain x1 w1 where
    1: "client_ready S x e w = Some (x1, w1)" "conn_same x x1" "down_step view [] x w x1 w1" "up_step view x w x1 w1"
    "closing_ok x \<longrightarrow> closing_ok x1 \<and> flushing S x1 w1" by blast
  from Cons.IH [OF conn_same_relay [OF 1(2) Cons.prems], of w1] obtain x2 w2 where
    2: "client_run S x1 es w1 = Some (x2, w2)" "conn_same x1 x2" "down_step view [] x1 w1 x2 w2" "up_step view x1 w1 x2 w2"
    "closing_ok x1 \<longrightarrow> closing_ok x2 \<and> (flushing S x2 w2 \<or> es = [])" by blast
  have "es = [] \<longrightarrow> x2 = x1 \<and> w2 = w1" using 2(1) by auto
  with 1 2 down_step_trans [OF 1(3) 2(3)] up_step_trans [OF 1(4) 2(4,2) 1(2)] conn_same_trans [OF 1(2) 2(2)]
  show ?case by (simp, blast)
qed

text \<open>C31. The proxy relays faithfully. Through any sequence of events on a connection, handling never panics
  nor hangs; as long as the client's side is not shut down, what the client's socket took, what is
  buffered for it and what the session has still to deliver are together what they were, and likewise
  from the client to the session as long as the server's side is not shut down. Even when a side is shut
  down, what went through before is a prefix of what was to be relayed: nothing is duplicated, reordered
  or made up.\<close>

theorem proxy_tcp_relay:
  assumes "relay_world S k c s view" and "tls_input_finite S tin" and "tls_output_ends S tout"
    and "relay_conn k c s x"
  shows "\<exists>x' w' tx inp av pl tx' inp' av' pl'. client_run S x es w = Some (x', w') \<and>
    view w = (tx, inp, av, pl) \<and> view w' = (tx', inp', av', pl') \<and>
    (\<not> is_shutdown (cc_status x') \<longrightarrow> tx' @ cc_send_buffer x' @ inp' = tx @ cc_send_buffer x @ inp) \<and>
    prefix (tx' @ cc_send_buffer x') (tx @ cc_send_buffer x @ inp) \<and>
    (\<not> is_shutdown (tc_status (cc_server_conn x')) \<longrightarrow> pl' @ av' = pl @ av) \<and> prefix pl' (pl @ av)"
proof -
  from client_run_step [OF assms, of es w] obtain x' w' where
    r: "client_run S x es w = Some (x', w')" "down_step view [] x w x' w'" "up_step view x w x' w'" by blast
  obtain tx inp av pl where v: "view w = (tx, inp, av, pl)" by (cases "view w")
  obtain tx' inp' av' pl' where v': "view w' = (tx', inp', av', pl')" by (cases "view w'")
  from r v v' show ?thesis by (auto simp: down_step_def up_step_def)
qed

text \<open>C36. Both sides of a proxied connection close together. Through any sequence of events, when one side is
  gone the other is gone too, or is only kept until the output that is still there has been flushed;
  no connection is left with one side shut down and the other waiting for nothing.\<close>

theorem proxy_tcp_close:
  assumes "relay_world S k c s view" and "tls_input_finite S tin" and "tls_output_ends S tout"
    and "relay_conn k c s x" and "closing_ok x" and "es \<noteq> []"
  shows "\<exists>x' w'. client_run S x es w = Some (x', w') \<and> closing_ok x' \<and> flushing S x' w' \<and>
    (is_shutdown (cc_status x') \<and> \<not> tls_wants_write S (tc_session (cc_server_conn x')) w' \<or>
     is_shutdown (tc_status (cc_server_conn x')) \<and> cc_send_buffer x' = [] \<longrightarrow> client_destroyed x')"
proof -
  from client_run_step [OF assms(1-4), of es w] assms(5,6) obtain x' w' where
    r: "client_run S x es w = Some (x', w')" "closing_ok x'" "flushing S x' w'" by blast
  then have "is_shutdown (cc_status x') \<and> \<not> tls_wants_write S (tc_session (cc_server_conn x')) w' \<or>
     is_shutdown (tc_status (cc_server_conn x')) \<and> cc_send_buffer x' = [] \<longrightarrow> client_destroyed x'"
    by (auto simp: closing_ok_def flushing_def is_shutdown_def client_destroyed_def is_deregistered_def
        split: conn_status.splits)
  with r show ?thesis by blast
qed

definition sim_view :: "sock \<Rightarrow> sess \<Rightarrow> sock \<Rightarrow> sim relay_view" where
  "sim_view k c s w = (sim_tx w k, sim_tls_in w c @ sim_rx w s, sim_rx w k, sim_plain w c)"

lemma sim_relay_world: "k \<noteq> s \<Longrightarrow> relay_world sim_sys k c s (sim_view k c s)"
  by (auto simp: relay_world_def sim_view_def sim_write_def sim_recv_def sim_write_plain_def sim_read_tls_def
      sim_write_tls_def Let_def min_def split: prod.splits sum.splits if_splits)

definition sample_client :: client_conn where
  "sample_client = \<lparr>cc_index = 2, cc_dst_addr = V4 (Ipv4Addr 8 8 8 8) 80, cc_client = 5,
     cc_recv_buffer = replicate MAX_PACKET_SIZE 0, cc_send_buffer = [], cc_status = Established,
     cc_server_conn = sample_tls, cc_last_active_time = 0, cc_read_client = False, cc_read_server = False\<rparr>"

lemma sample_client_relay: "relay_conn 5 1 1 sample_client" "closing_ok sample_client"
  by (simp_all add: relay_conn_def closing_ok_def sample_client_def sample_tls_def)

definition sample_events :: "net_event list" where
  "sample_events = [\<lparr>ev_token = 10, ev_readable = True, ev_writable = True\<rparr>,
     \<lparr>ev_token = 11, ev_readable = True, ev_writable = True\<rparr>]"

theorem proxy_tcp_relay_witness:
  "\<exists>x' w' tx inp av pl tx' inp' av' pl'. client_run sim_sys sample_client sample_events sim_idle = Some (x', w') \<and>
    sim_view 5 1 1 sim_idle = (tx, inp, av, pl) \<and> sim_view 5 1 1 w' = (tx', inp', av', pl') \<and>
    (\<not> is_shutdown (cc_status x') \<longrightarrow> tx' @ cc_send_buffer x' @ inp' = tx @ cc_send_buffer sample_client @ inp) \<and>
    prefix (tx' @ cc_send_buffer x') (tx @ cc_send_buffer sample_client @ inp) \<and>
    (\<not> is_shutdown (tc_status (cc_server_conn x')) \<longrightarrow> pl' @ av' = pl @ av) \<and> prefix pl' (pl @ av)"
  by (rule proxy_tcp_relay [OF sim_relay_world sim_input_finite sim_output_finite sample_client_relay(1)]) simp

theorem proxy_tcp_close_witness:
  "\<exists>x' w'. client_run sim_sys sample_client sample_events sim_idle = Some (x', w') \<and> closing_ok x' \<and> flushing sim_sys x' w' \<and>
    (is_shutdown (cc_status x') \<and> \<not> tls_wants_write sim_sys (tc_session (cc_server_conn x')) w' \<or>
     is_shutdown (tc_status (cc_server_conn x')) \<and> cc_send_buffer x' = [] \<longrightarrow> client_destroyed x')"
  by (rule proxy_tcp_close [OF sim_relay_world sim_input_finite sim_output_finite sample_client_relay])
    (simp_all add: sample_events_def)

end
