(* ===== verification/Proxy_Udp.thy ===== *)
theory Proxy_Udp
  imports Backend Idle_Pool Proxy_Base Conn_Table Sys_Unix
begin

text \<open>
  The UDP side of the transparent proxy (\<open>src/src/proxy/udp_server.rs\<close>) with its cache of sockets
  (\<open>src/src/proxy/udp_cache.rs\<close>). The tables \<open>conns\<close> and \<open>src_map\<close> share their connections through
  \<open>Arc\<close>, and the code changes a connection through either; a connection is therefore an object of a
  heap, and the tables hold references. The strong count of a socket's \<open>Rc\<close> is the number of places that
  hold it: the cache and the live connections.
\<close>

section \<open>The socket cache\<close>

record udp_svr_cache =
  uc_conns :: "socket_addr \<rightharpoonup> sock"

definition udp_cache_new :: udp_svr_cache where
  "udp_cache_new = \<lparr>uc_conns = Map.empty\<rparr>"

definition get_socket :: "'w sys \<Rightarrow> udp_svr_cache \<Rightarrow> socket_addr \<Rightarrow> 'w \<Rightarrow> sock option \<times> udp_svr_cache \<times> 'w" where
  "get_socket S cache a w =
     (case uc_conns cache a of
        Some s \<Rightarrow> (Some s, cache, w)
      | None \<Rightarrow>
          (case new_socket S a True w of
             (Inr s, w) \<Rightarrow> (Some s, cache\<lparr>uc_conns := (uc_conns cache)(a \<mapsto> s)\<rparr>, w)
           | (Inl e, w) \<Rightarrow> (None, cache, w)))"

text \<open>\<open>held s\<close> is the number of references to socket \<open>s\<close> outside the cache; the iteration order does not
  matter, since the cache is not changed while it is iterated.\<close>

definition cache_check_timeout :: "(sock \<Rightarrow> nat) \<Rightarrow> udp_svr_cache \<Rightarrow> udp_svr_cache" where
  "cache_check_timeout held cache =
     cache\<lparr>uc_conns := (\<lambda>a. case uc_conns cache a of
        Some s \<Rightarrow> if Suc (held s) = 1 then None else Some s
      | None \<Rightarrow> None)\<rparr>"

section \<open>Connections\<close>

record udp_conn =
  uu_index :: usize
  uu_src_addr :: socket_addr
  uu_send_buffer :: bytes
  uu_recv_buffer :: bytes
  uu_server_conn :: tls_conn
  uu_status :: conn_status
  uu_socket :: sock
  uu_dst_addr :: socket_addr
  uu_bytes_read :: usize
  uu_bytes_sent :: usize
  uu_last_active :: instant

definition udp_conn_provider :: "'w sys \<Rightarrow> (udp_conn, 'w) status_provider" where
  "udp_conn_provider S = \<lparr>
     set_status = (\<lambda>s c. c\<lparr>uu_status := s\<rparr>),
     get_status = uu_status,
     close_conn = (\<lambda>c w. (True, c, w)),
     deregister = (\<lambda>c w. (True, c, w)),
     finish_send = (\<lambda>c w. Some (uu_send_buffer c = []))\<rparr>"

definition udp_conn_new :: "'w sys \<Rightarrow> usize \<Rightarrow> tls_conn \<Rightarrow> socket_addr \<Rightarrow> sock \<Rightarrow> 'w \<Rightarrow> (udp_conn \<times> 'w) rs" where
  "udp_conn_new S index server_conn src_addr s w =
     (case udp_local_addr S s w of
        Inl e \<Rightarrow> None
      | Inr dst_addr \<Rightarrow>
          (case instant_now S w of (now, w) \<Rightarrow>
             Some (\<lparr>uu_index = index, uu_src_addr = src_addr, uu_send_buffer = [], uu_recv_buffer = [],
               uu_server_conn = server_conn, uu_status = Established, uu_socket = s, uu_dst_addr = dst_addr,
               uu_bytes_read = 0, uu_bytes_sent = 0, uu_last_active = now\<rparr>, w)))"

definition udp_conn_setup :: "'w sys \<Rightarrow> opts \<Rightarrow> udp_conn \<Rightarrow> 'w \<Rightarrow> (bool \<times> udp_conn \<times> 'w) rs" where
  "udp_conn_setup S cfg c w = do {
     a \<leftarrow> unwrap (empty_addr cfg);
     let buf = trojan_request_generate cfg [] UDP_ASSOCIATE a;
     (case tls_write_session S (uu_server_conn c) buf w of (ok, t, w) \<Rightarrow>
        Some (ok, c\<lparr>uu_recv_buffer := buf, uu_server_conn := t\<rparr>, w)) }"

definition udp_conn_destroyed :: "udp_conn \<Rightarrow> bool" where
  "udp_conn_destroyed c \<longleftrightarrow> is_deregistered (uu_status c) \<and> is_deregistered (tc_status (uu_server_conn c))"

definition udp_conn_shutdown :: "'w sys \<Rightarrow> udp_conn \<Rightarrow> 'w \<Rightarrow> udp_conn \<times> 'w" where
  "udp_conn_shutdown S c w = snd (shutdown (udp_conn_provider S) c w)"

definition udp_do_status :: "'w sys \<Rightarrow> udp_conn \<Rightarrow> 'w \<Rightarrow> (udp_conn \<times> 'w) rs" where
  "udp_do_status S c w = do {
     let c = (if is_shutdown (uu_status c)
              then c\<lparr>uu_server_conn := peer_closed (tls_provider S) (uu_server_conn c)\<rparr> else c);
     let c = (if is_shutdown (tc_status (uu_server_conn c)) then peer_closed (udp_conn_provider S) c else c);
     (c, w) \<leftarrow> check_status (udp_conn_provider S) c w;
     (t, w) \<leftarrow> tls_check_status S (uu_server_conn c) w;
     Some (c\<lparr>uu_server_conn := t\<rparr>, w) }"

definition udp_try_send_server :: "'w sys \<Rightarrow> udp_conn \<Rightarrow> 'w \<Rightarrow> (udp_conn \<times> 'w) rs" where
  "udp_try_send_server S c w = do {
     (t, w) \<leftarrow> tls_do_send S (uu_server_conn c) w;
     Some (c\<lparr>uu_server_conn := t\<rparr>, w) }"

text \<open>A datagram from the client, with its header, goes into the session; \<open>len as u16\<close> truncates.\<close>

definition udp_forward :: "'w sys \<Rightarrow> udp_conn \<Rightarrow> bytes \<Rightarrow> socket_addr \<Rightarrow> 'w \<Rightarrow> udp_conn \<times> 'w" where
  "udp_forward S c data dst_addr w =
     (let head = udp_generate [] dst_addr (of_nat (length data));
          c = c\<lparr>uu_bytes_read := uu_bytes_read c + of_nat (length data), uu_recv_buffer := head\<rparr>
      in case tls_write_session S (uu_server_conn c) head w of
           (True, t, w) \<Rightarrow>
             (case tls_write_session S t data w of (_, t, w) \<Rightarrow> (c\<lparr>uu_server_conn := t\<rparr>, w))
         | (False, t, w) \<Rightarrow> (c\<lparr>uu_server_conn := t\<rparr>, w))"

definition udp_send_request :: "'w sys \<Rightarrow> udp_conn \<Rightarrow> bytes \<Rightarrow> socket_addr \<Rightarrow> 'w \<Rightarrow> (udp_conn \<times> 'w) rs" where
  "udp_send_request S c data dst_addr w =
     (case instant_now S w of (now, w) \<Rightarrow>
        if 120 < as_secs (now - uu_last_active c) then
          (case udp_conn_shutdown S c w of (c, w) \<Rightarrow> udp_do_status S c w)
        else if \<not> is_connecting (tc_status (uu_server_conn c)) \<and> \<not> tls_is_writable (uu_server_conn c)
        then Some (c, w)
        else (case udp_forward S c data dst_addr w of (c, w) \<Rightarrow> do {
                (c, w) \<leftarrow> udp_try_send_server S c w;
                udp_do_status S c w }))"

text \<open>Datagrams from the server: each goes out from the socket of the address it came from.\<close>

definition udp_do_send_udp :: "'w sys \<Rightarrow> udp_conn \<Rightarrow> socket_addr \<Rightarrow> bytes \<Rightarrow> udp_svr_cache \<Rightarrow> 'w \<Rightarrow>
    udp_conn \<times> udp_svr_cache \<times> 'w" where
  "udp_do_send_udp S c dst_addr data cache w =
     (case (if uu_dst_addr c \<noteq> dst_addr then
              (case get_socket S cache dst_addr w of
                 (Some s, cache, w) \<Rightarrow> (True, c\<lparr>uu_socket := s, uu_dst_addr := dst_addr\<rparr>, cache, w)
               | (None, cache, w) \<Rightarrow> (False, c, cache, w))
            else (True, c, cache, w)) of
        (False, c, cache, w) \<Rightarrow> (c, cache, w)
      | (True, c, cache, w) \<Rightarrow>
          (case udp_send_to S (uu_socket c) data (uu_src_addr c) w of
             (Inr n, w) \<Rightarrow> (c\<lparr>uu_bytes_sent := uu_bytes_sent c + of_nat n\<rparr>, cache, w)
           | (Inl e, w) \<Rightarrow> (c, cache, w)))"

function udp_do_send_client :: "'w sys \<Rightarrow> udp_conn \<Rightarrow> bytes \<Rightarrow> udp_svr_cache \<Rightarrow> 'w \<Rightarrow>
    (udp_conn \<times> udp_svr_cache \<times> 'w) rs" where
  "udp_do_send_client S c buffer cache w =
     (case udp_parse buffer of
        None \<Rightarrow> None
      | Some Continued \<Rightarrow> Some (c\<lparr>uu_send_buffer := uu_send_buffer c @ buffer\<rparr>, cache, w)
      | Some (Packet packet) \<Rightarrow>
          if length (udp_payload packet) < udp_length packet then None
          else (case udp_do_send_udp S c (udp_address packet) (take (udp_length packet) (udp_payload packet)) cache w of
                  (c, cache, w) \<Rightarrow>
                    udp_do_send_client S c (drop (udp_length packet) (udp_payload packet)) cache w)
      | Some InvalidProtocol \<Rightarrow>
          (case tls_shutdown S (uu_server_conn c) w of (t, w) \<Rightarrow> Some (c\<lparr>uu_server_conn := t\<rparr>, cache, w)))"
  by pat_completeness auto
termination
  by (relation "measure (\<lambda>(S, c, buffer, cache, w). length buffer)") (auto dest: udp_parse_progress)

declare udp_do_send_client.simps [simp del]

definition udp_try_send_client :: "'w sys \<Rightarrow> udp_conn \<Rightarrow> bytes \<Rightarrow> udp_svr_cache \<Rightarrow> 'w \<Rightarrow>
    (udp_conn \<times> udp_svr_cache \<times> 'w) rs" where
  "udp_try_send_client S c buffer cache w =
     (if uu_send_buffer c = [] then udp_do_send_client S c buffer cache w
      else udp_do_send_client S (c\<lparr>uu_send_buffer := []\<rparr>) (uu_send_buffer c @ buffer) cache w)"

definition udp_try_read_server :: "'w sys \<Rightarrow> udp_conn \<Rightarrow> udp_svr_cache \<Rightarrow> 'w \<Rightarrow>
    (udp_conn \<times> udp_svr_cache \<times> 'w) rs" where
  "udp_try_read_server S c cache w = do {
     (r, t, w) \<leftarrow> tls_do_read S (uu_server_conn c) w;
     let c = c\<lparr>uu_server_conn := t\<rparr>;
     (case r of
        Some buffer \<Rightarrow> udp_try_send_client S c buffer cache w
      | None \<Rightarrow> Some (c, cache, w)) }"

definition udp_conn_ready :: "'w sys \<Rightarrow> udp_conn \<Rightarrow> net_event \<Rightarrow> udp_svr_cache \<Rightarrow> 'w \<Rightarrow>
    (udp_conn \<times> udp_svr_cache \<times> 'w) rs" where
  "udp_conn_ready S c event cache w = do {
     let (now, w) = instant_now S w;
     let c = c\<lparr>uu_last_active := now\<rparr>;
     (c, cache, w) \<leftarrow> (if ev_readable event then udp_try_read_server S c cache w else Some (c, cache, w));
     (c, w) \<leftarrow> (if ev_writable event then
                   udp_try_send_server S (c\<lparr>uu_server_conn := established (tls_provider S) (uu_server_conn c)\<rparr>) w
                 else Some (c, w));
     (c, w) \<leftarrow> udp_do_status S c w;
     Some (c, cache, w) }"

section \<open>The server\<close>

record udp_server =
  us_listener :: sock
  us_heap :: "nat \<rightharpoonup> udp_conn"
  us_fresh :: nat
  us_conns :: "usize \<rightharpoonup> nat"
  us_src_map :: "socket_addr \<rightharpoonup> nat"
  us_removed :: "usize list option"
  us_next_id :: usize

definition udp_server_new :: "sock \<Rightarrow> udp_server" where
  "udp_server_new listener =
     \<lparr>us_listener = listener, us_heap = Map.empty, us_fresh = 0, us_conns = Map.empty, us_src_map = Map.empty,
      us_removed = Some [], us_next_id = PROXY_MIN_INDEX\<rparr>"

text \<open>The connection for a new source address: the branch of \<open>accept_once\<close> behind the lookup, first the part
  with the TLS connection and the socket at hand. \<open>None\<close> in the result stands for the early
  \<open>return Ok(())\<close>.\<close>

definition udp_server_admit :: "'w sys \<Rightarrow> opts \<Rightarrow> udp_server \<Rightarrow> tls_conn \<Rightarrow> sock \<Rightarrow> socket_addr \<Rightarrow> 'w \<Rightarrow>
    (nat option \<times> udp_server \<times> 'w) rs" where
  "udp_server_admit S cfg srv conn socket src_addr w = do {
     (index, nxt) \<leftarrow> proxy_next_index (us_next_id srv);
     let srv = srv\<lparr>us_next_id := nxt\<rparr>;
     token \<leftarrow> channel_token index CHANNEL_UDP;
     (case tls_reset_index S conn index token w of (ok, conn, w) \<Rightarrow>
        if \<not> ok then do {
          (conn, w) \<leftarrow> tls_check_status S conn w;
          Some (None, srv, w) }
        else do {
          (c, w) \<leftarrow> udp_conn_new S index conn src_addr socket w;
          (ok, c, w) \<leftarrow> udp_conn_setup S cfg c w;
          if ok then
            Some (Some (us_fresh srv),
              srv\<lparr>us_heap := (us_heap srv)(us_fresh srv \<mapsto> c), us_fresh := Suc (us_fresh srv),
                  us_conns := (us_conns srv)(index \<mapsto> us_fresh srv),
                  us_src_map := (us_src_map srv)(src_addr \<mapsto> us_fresh srv)\<rparr>, w)
          else do {
            (c, w) \<leftarrow> check_status (udp_conn_provider S) c w;
            Some (None, srv, w) } }) }"

definition udp_server_open :: "'w sys \<Rightarrow> opts \<Rightarrow> udp_server \<Rightarrow> idle_pool \<Rightarrow> udp_svr_cache \<Rightarrow> dns_resolver \<Rightarrow>
    socket_addr \<Rightarrow> socket_addr \<Rightarrow> 'w \<Rightarrow>
    (nat option \<times> udp_server \<times> idle_pool \<times> udp_svr_cache \<times> dns_resolver \<times> 'w) rs" where
  "udp_server_open S cfg srv pool cache resolver src_addr dst_addr w = do {
     (x, pool, resolver, w) \<leftarrow> pool_get S pool resolver w;
     (case x of
        None \<Rightarrow> Some (None, srv, pool, cache, resolver, w)
      | Some conn \<Rightarrow>
          (case get_socket S cache dst_addr w of (socket, cache, w) \<Rightarrow>
             (case socket of
                None \<Rightarrow>
                  (case tls_shutdown S conn w of (conn, w) \<Rightarrow> do {
                     (conn, w) \<leftarrow> tls_check_status S conn w;
                     Some (None, srv, pool, cache, resolver, w) })
              | Some socket \<Rightarrow> do {
                  (ref, srv, w) \<leftarrow> udp_server_admit S cfg srv conn socket src_addr w;
                  Some (ref, srv, pool, cache, resolver, w) }))) }"

definition udp_list_removed :: "udp_server \<Rightarrow> udp_conn \<Rightarrow> usize \<Rightarrow> udp_server rs" where
  "udp_list_removed srv c index =
     (if udp_conn_destroyed c then do {
        removed \<leftarrow> unwrap (us_removed srv);
        Some (srv\<lparr>us_removed := Some (removed @ [index])\<rparr>) }
      else Some srv)"

definition udp_accept_once :: "'w sys \<Rightarrow> opts \<Rightarrow> udp_server \<Rightarrow> idle_pool \<Rightarrow> udp_svr_cache \<Rightarrow> dns_resolver \<Rightarrow> 'w \<Rightarrow>
    (unit tr \<times> udp_server \<times> idle_pool \<times> udp_svr_cache \<times> dns_resolver \<times> 'w) rs" where
  "udp_accept_once S cfg srv pool cache resolver w = do {
     (r, w) \<leftarrow> recv_from_with_destination S (us_listener srv) MAX_PACKET_SIZE w;
     (case r of
        Inl e \<Rightarrow> Some (Inl (StdIo e), srv, pool, cache, resolver, w)
      | Inr (bs, src_addr, dst_addr) \<Rightarrow>
          if MAX_PACKET_SIZE < length bs then None
          else do {
            (x, srv, pool, cache, resolver, w) \<leftarrow> (case us_src_map srv src_addr of
                Some ref \<Rightarrow> Some (Some ref, srv, pool, cache, resolver, w)
              | None \<Rightarrow> udp_server_open S cfg srv pool cache resolver src_addr dst_addr w);
            (case x of
               None \<Rightarrow> Some (Inr (), srv, pool, cache, resolver, w)
             | Some ref \<Rightarrow> do {
                 c \<leftarrow> us_heap srv ref;
                 (c, w) \<leftarrow> udp_send_request S c bs dst_addr w;
                 srv \<leftarrow> udp_list_removed (srv\<lparr>us_heap := (us_heap srv)(ref \<mapsto> c)\<rparr>) c (uu_index c);
                 Some (Inr (), srv, pool, cache, resolver, w) }) }) }"

partial_function (option) udp_server_accept :: "'w sys \<Rightarrow> opts \<Rightarrow> udp_server \<Rightarrow> idle_pool \<Rightarrow> udp_svr_cache \<Rightarrow>
    dns_resolver \<Rightarrow> 'w \<Rightarrow> (udp_server \<times> idle_pool \<times> udp_svr_cache \<times> dns_resolver \<times> 'w) rs" where
  "udp_server_accept S cfg srv pool cache resolver w =
     Option.bind (udp_accept_once S cfg srv pool cache resolver w) (\<lambda>(r, srv, pool, cache, resolver, w).
       if r = Inl (StdIo WouldBlock) then Some (srv, pool, cache, resolver, w)
       else udp_server_accept S cfg srv pool cache resolver w)"

definition udp_server_ready :: "'w sys \<Rightarrow> udp_server \<Rightarrow> net_event \<Rightarrow> udp_svr_cache \<Rightarrow> 'w \<Rightarrow>
    (udp_server \<times> udp_svr_cache \<times> 'w) rs" where
  "udp_server_ready S srv event cache w =
     (let index = proxy_token2index (ev_token event)
      in case us_conns srv index of
           None \<Rightarrow> Some (srv, cache, w)
         | Some ref \<Rightarrow> do {
             c \<leftarrow> us_heap srv ref;
             (c, cache, w) \<leftarrow> udp_conn_ready S c event cache w;
             srv \<leftarrow> udp_list_removed (srv\<lparr>us_heap := (us_heap srv)(ref \<mapsto> c)\<rparr>) c index;
             Some (srv, cache, w) })"

text \<open>A connection that leaves both tables is dropped.\<close>

fun udp_remove_all :: "usize list \<Rightarrow> udp_server \<Rightarrow> udp_server rs" where
  "udp_remove_all [] srv = Some srv"
| "udp_remove_all (index # is) srv =
     (case us_conns srv index of
        None \<Rightarrow> udp_remove_all is srv
      | Some ref \<Rightarrow> do {
          c \<leftarrow> us_heap srv ref;
          udp_remove_all is (srv\<lparr>us_conns := (us_conns srv)(index := None),
            us_src_map := (us_src_map srv)(uu_src_addr c := None)\<rparr>) })"

definition udp_server_remove_closed :: "udp_server \<Rightarrow> udp_server rs" where
  "udp_server_remove_closed srv = do {
     removed \<leftarrow> unwrap (us_removed srv);
     if removed = [] then Some srv
     else udp_remove_all removed (srv\<lparr>us_removed := Some []\<rparr>) }"

text \<open>The references to a socket from the connections that are still in a table.\<close>

definition udp_live :: "udp_server \<Rightarrow> nat set" where
  "udp_live srv = ran (us_conns srv) \<union> ran (us_src_map srv)"

definition udp_held :: "udp_server \<Rightarrow> sock \<Rightarrow> nat" where
  "udp_held srv s = card {ref \<in> udp_live srv. map_option uu_socket (us_heap srv ref) = Some s}"

section \<open>Life cycle\<close>

interpretation udp_conn: status_laws "udp_conn_provider S" for S :: "'w sys"
  by unfold_locales (simp_all add: udp_conn_provider_def)

lemma udp_conn_provider_status [simp]: "get_status (udp_conn_provider S) = uu_status"
  by (simp add: udp_conn_provider_def)

interpretation udp_conn_frame: status_frame "udp_conn_provider S" "\<lambda>c. c\<lparr>uu_status := Connecting\<rparr>" for S :: "'w sys"
  by unfold_locales (simp_all add: udp_conn_provider_def)

lemma udp_conn_status_only:
  assumes "c'\<lparr>uu_status := Connecting\<rparr> = c\<lparr>uu_status := Connecting\<rparr>"
  shows "c' = c\<lparr>uu_status := uu_status c'\<rparr>"
  using assms by (cases c; cases c') simp

lemma udp_conn_shutdown_frame:
  assumes "udp_conn_shutdown S c w = (c', w')"
  shows "c' = c\<lparr>uu_status := max Shutdown (uu_status c)\<rparr>"
  using udp_conn_status_only [of c' c] udp_conn_frame.obs_shutdown [of S c w] udp_conn.shutdown_status [of S c w] assms
  by (auto simp: udp_conn_shutdown_def)

lemma udp_conn_check_frame:
  assumes "check_status (udp_conn_provider S) c w = Some (c', w')"
  shows "c' = c\<lparr>uu_status := uu_status c'\<rparr>"
  using udp_conn_status_only [of c' c] udp_conn_frame.obs_check_status [OF assms] by auto

lemma udp_conn_peer_closed_frame: "peer_closed (udp_conn_provider S) c = c\<lparr>uu_status := max PeerClosed (uu_status c)\<rparr>"
  using udp_conn_status_only [of "peer_closed (udp_conn_provider S) c" c] udp_conn_frame.obs_peer_closed [of S c]
    udp_conn.peer_closed_status [of S c] by simp

section \<open>What identifies a connection\<close>

definition udp_ident :: "udp_conn \<Rightarrow> usize \<times> socket_addr" where
  "udp_ident c = (uu_index c, uu_src_addr c)"

lemma udp_ident_updates [simp]:
  "udp_ident (c\<lparr>uu_send_buffer := b\<rparr>) = udp_ident c" "udp_ident (c\<lparr>uu_recv_buffer := b\<rparr>) = udp_ident c"
  "udp_ident (c\<lparr>uu_server_conn := t\<rparr>) = udp_ident c" "udp_ident (c\<lparr>uu_status := s\<rparr>) = udp_ident c"
  "udp_ident (c\<lparr>uu_socket := k\<rparr>) = udp_ident c" "udp_ident (c\<lparr>uu_dst_addr := a\<rparr>) = udp_ident c"
  "udp_ident (c\<lparr>uu_bytes_read := n\<rparr>) = udp_ident c" "udp_ident (c\<lparr>uu_bytes_sent := n\<rparr>) = udp_ident c"
  "udp_ident (c\<lparr>uu_last_active := i\<rparr>) = udp_ident c"
  by (simp_all add: udp_ident_def)

lemma udp_do_status_ident: "udp_do_status S c w = Some (c', w') \<Longrightarrow> udp_ident c' = udp_ident c"
proof -
  have ck: "udp_ident c1 = udp_ident c0" if "check_status (udp_conn_provider S) c0 v = Some (c1, v')" for c0 c1 v v'
    using udp_conn_check_frame [OF that] by (metis udp_ident_updates(4))
  show "udp_do_status S c w = Some (c', w') \<Longrightarrow> udp_ident c' = udp_ident c"
    by (auto simp: udp_do_status_def Let_def udp_conn_peer_closed_frame dest!: ck split: bind_splits if_splits)
qed

lemma udp_do_send_udp_ident: "udp_do_send_udp S c a d cache w = (c', cache', w') \<Longrightarrow> udp_ident c' = udp_ident c"
  by (auto simp: udp_do_send_udp_def split: prod.splits sum.splits if_splits option.splits bool.splits)

lemma udp_do_send_client_ident:
  "udp_do_send_client S c b cache w = Some (c', cache', w') \<Longrightarrow> udp_ident c' = udp_ident c"
proof (induction S c b cache w rule: udp_do_send_client.induct)
  case (1 S c b cache w)
  from 1(2) show ?case
    unfolding udp_do_send_client.simps [of S c b]
    by (auto dest!: 1(1) dest: udp_do_send_udp_ident
        split: option.splits udp_parse_result.splits if_splits prod.splits)
qed

lemma udp_send_request_ident: "udp_send_request S c d a w = Some (c', w') \<Longrightarrow> udp_ident c' = udp_ident c"
proof -
  have sd: "udp_ident c1 = udp_ident c0" if "udp_conn_shutdown S c0 v = (c1, v')" for c0 c1 v v'
    using udp_conn_shutdown_frame [OF that] by simp
  have fw: "udp_ident c1 = udp_ident c0" if "udp_forward S c0 d a v = (c1, v')" for c0 c1 v v'
    using that by (auto simp: udp_forward_def Let_def split: prod.splits bool.splits)
  show "udp_send_request S c d a w = Some (c', w') \<Longrightarrow> udp_ident c' = udp_ident c"
    by (auto simp: udp_send_request_def udp_try_send_server_def dest!: udp_do_status_ident sd fw
        split: prod.splits if_splits bind_splits)
qed

lemma udp_conn_ready_ident: "udp_conn_ready S c e cache w = Some (c', cache', w') \<Longrightarrow> udp_ident c' = udp_ident c"
  by (auto simp: udp_conn_ready_def udp_try_send_server_def udp_try_read_server_def udp_try_send_client_def Let_def
      dest!: udp_do_status_ident udp_do_send_client_ident split: prod.splits if_splits bind_splits option.splits)

section \<open>The two tables\<close>

text \<open>The tables hold the same connections: each is filed under its index and under its source address. A
  destroyed connection that is still in the tables is on the list of those to be removed.\<close>

definition udp_tables :: "udp_server \<Rightarrow> bool" where
  "udp_tables srv \<longleftrightarrow> proxy_index_ok (us_next_id srv) \<and> (\<forall>r. us_heap srv r \<noteq> None \<longrightarrow> r < us_fresh srv) \<and>
     (\<forall>i r. us_conns srv i = Some r \<longrightarrow>
        (\<exists>c. us_heap srv r = Some c \<and> uu_index c = i \<and> us_src_map srv (uu_src_addr c) = Some r)) \<and>
     (\<forall>a r. us_src_map srv a = Some r \<longrightarrow>
        (\<exists>c. us_heap srv r = Some c \<and> uu_src_addr c = a \<and> us_conns srv (uu_index c) = Some r)) \<and>
     (\<exists>l. us_removed srv = Some l \<and>
        (\<forall>i r c. us_conns srv i = Some r \<and> us_heap srv r = Some c \<and> udp_conn_destroyed c \<longrightarrow> i \<in> set l))"

lemma udp_tables_new: "udp_tables (udp_server_new listener)"
  by (simp add: udp_tables_def udp_server_new_def proxy_index_first)

lemma udp_tables_conns:
  "udp_tables srv \<Longrightarrow> us_conns srv i = Some r \<Longrightarrow>
     \<exists>c. us_heap srv r = Some c \<and> uu_index c = i \<and> us_src_map srv (uu_src_addr c) = Some r"
  unfolding udp_tables_def by blast

lemma udp_tables_src:
  "udp_tables srv \<Longrightarrow> us_src_map srv a = Some r \<Longrightarrow>
     \<exists>c. us_heap srv r = Some c \<and> uu_src_addr c = a \<and> us_conns srv (uu_index c) = Some r"
  unfolding udp_tables_def by blast

lemma udp_tables_removed:
  "udp_tables srv \<Longrightarrow> \<exists>l. us_removed srv = Some l \<and>
     (\<forall>i r c. us_conns srv i = Some r \<and> us_heap srv r = Some c \<and> udp_conn_destroyed c \<longrightarrow> i \<in> set l)"
  unfolding udp_tables_def by blast

lemma udp_tables_heap: "udp_tables srv \<Longrightarrow> us_heap srv r \<noteq> None \<Longrightarrow> r < us_fresh srv"
  unfolding udp_tables_def by blast

text \<open>Changing a connection that keeps its identity, and listing it if it is destroyed.\<close>

lemma udp_tables_update:
  assumes "udp_tables srv" and "us_heap srv r = Some c" and "udp_ident c' = udp_ident c"
    and "us_conns srv i = Some r" and "udp_list_removed (srv\<lparr>us_heap := (us_heap srv)(r \<mapsto> c')\<rparr>) c' i = Some srv'"
  shows "udp_tables srv'"
proof -
  have id: "uu_index c' = uu_index c" "uu_src_addr c' = uu_src_addr c" using assms(3) by (simp_all add: udp_ident_def)
  obtain l where l: "us_removed srv = Some l"
    "\<forall>i r c. us_conns srv i = Some r \<and> us_heap srv r = Some c \<and> udp_conn_destroyed c \<longrightarrow> i \<in> set l"
    using udp_tables_removed [OF assms(1)] by blast
  have only: "j = i" if "us_conns srv j = Some r" for j
    using udp_tables_conns [OF assms(1,4)] udp_tables_conns [OF assms(1) that] by auto
  have srv': "srv' = srv\<lparr>us_heap := (us_heap srv)(r \<mapsto> c'),
      us_removed := Some (if udp_conn_destroyed c' then l @ [i] else l)\<rparr>"
    using assms(5) l(1) by (auto simp: udp_list_removed_def)
  have a: "\<exists>d. ((us_heap srv)(r \<mapsto> c')) q = Some d \<and> uu_index d = j \<and> us_src_map srv (uu_src_addr d) = Some q" if "us_conns srv j = Some q" for j q
  proof -
    from udp_tables_conns [OF assms(1) that] obtain d where
      "us_heap srv q = Some d" "uu_index d = j \<and> us_src_map srv (uu_src_addr d) = Some q" by blast
    then show ?thesis using assms(2) id by (cases "q = r") auto
  qed
  have b: "\<exists>d. ((us_heap srv)(r \<mapsto> c')) q = Some d \<and> uu_src_addr d = a \<and> us_conns srv (uu_index d) = Some q" if "us_src_map srv a = Some q" for a q
  proof -
    from udp_tables_src [OF assms(1) that] obtain d where
      "us_heap srv q = Some d" "uu_src_addr d = a \<and> us_conns srv (uu_index d) = Some q" by blast
    then show ?thesis using assms(2) id by (cases "q = r") auto
  qed
  have "\<forall>j q d. us_conns srv j = Some q \<and> ((us_heap srv)(r \<mapsto> c')) q = Some d \<and> udp_conn_destroyed d \<longrightarrow>
      j \<in> set (if udp_conn_destroyed c' then l @ [i] else l)"
    using l(2) only by (auto split: if_splits)
  with a b assms(1,2) show ?thesis unfolding srv' by (auto simp: udp_tables_def split: if_splits)
qed

lemma udp_conn_made:
  assumes "udp_conn_new S i t a s w = Some (c, w1)" and "udp_conn_setup S cfg c w1 = Some (ok, c', w2)"
  shows "udp_ident c' = (i, a) \<and> \<not> udp_conn_destroyed c' \<and> uu_socket c' = s"
  using assms by (auto simp: udp_conn_new_def udp_conn_setup_def udp_ident_def udp_conn_destroyed_def is_deregistered_def Let_def
      split: sum.splits prod.splits bind_splits)

lemma udp_server_admit_cases:
  assumes "udp_server_admit S cfg srv conn socket src w = Some (x, srv', w')" and "proxy_index_ok (us_next_id srv)"
  obtains (skipped) j where "proxy_index_ok j" "srv' = srv\<lparr>us_next_id := j\<rparr>" "x = None"
      "proxy_next_index (us_next_id srv) = Some (us_next_id srv, j)"
    | (made) j c where "proxy_index_ok j" "x = Some (us_fresh srv)" "udp_ident c = (us_next_id srv, src)"
      "\<not> udp_conn_destroyed c" "uu_socket c = socket"
      "srv' = srv\<lparr>us_next_id := j, us_heap := (us_heap srv)(us_fresh srv \<mapsto> c), us_fresh := Suc (us_fresh srv),
        us_conns := (us_conns srv)(us_next_id srv \<mapsto> us_fresh srv),
        us_src_map := (us_src_map srv)(src \<mapsto> us_fresh srv)\<rparr>"
      "proxy_next_index (us_next_id srv) = Some (us_next_id srv, j)"
proof -
  obtain j where j: "proxy_next_index (us_next_id srv) = Some (us_next_id srv, j)" "proxy_index_ok j"
    using proxy_next_index_step [OF assms(2)] by blast
  from assms(1) j(1) have "srv' = srv\<lparr>us_next_id := j\<rparr> \<and> x = None \<or>
      (\<exists>c. x = Some (us_fresh srv) \<and> udp_ident c = (us_next_id srv, src) \<and> \<not> udp_conn_destroyed c \<and> uu_socket c = socket \<and>
        srv' = srv\<lparr>us_next_id := j, us_heap := (us_heap srv)(us_fresh srv \<mapsto> c), us_fresh := Suc (us_fresh srv),
        us_conns := (us_conns srv)(us_next_id srv \<mapsto> us_fresh srv),
        us_src_map := (us_src_map srv)(src \<mapsto> us_fresh srv)\<rparr>)"
    by (auto simp: udp_server_admit_def Let_def dest: udp_conn_made split: bind_splits prod.splits if_splits)
  with j that show thesis by blast
qed

lemma udp_server_admit_tables:
  assumes "udp_server_admit S cfg srv conn socket src w = Some (x, srv', w')"
    and "udp_tables srv" and "us_src_map srv src = None" and "us_conns srv (us_next_id srv) = None"
  shows "udp_tables srv' \<and> (\<forall>r. x = Some r \<longrightarrow> (\<exists>c. us_heap srv' r = Some c \<and> us_conns srv' (uu_index c) = Some r))"
proof -
  let ?n = "us_next_id srv"
  have ok: "proxy_index_ok ?n" using assms(2) by (simp add: udp_tables_def)
  from assms(1) ok show ?thesis
  proof (cases rule: udp_server_admit_cases)
    case (skipped j)
    with assms(2) show ?thesis by (simp add: udp_tables_def)
  next
    case (made j c)
    have fresh: "us_heap srv (us_fresh srv) = None" using udp_tables_heap [OF assms(2)] by blast
    then have nr: "us_conns srv i \<noteq> Some (us_fresh srv)" for i using udp_tables_conns [OF assms(2)] by fastforce
    have id: "uu_index c = ?n" "uu_src_addr c = src" using made(3) by (simp_all add: udp_ident_def)
    obtain l where l: "us_removed srv = Some l"
      "\<forall>i r c. us_conns srv i = Some r \<and> us_heap srv r = Some c \<and> udp_conn_destroyed c \<longrightarrow> i \<in> set l"
      using udp_tables_removed [OF assms(2)] by blast
    have "udp_tables srv'"
      unfolding udp_tables_def
    proof (intro conjI allI impI, goal_cases)
      case 1 then show ?case using made by simp
    next
      case (2 r) then show ?case using udp_tables_heap [OF assms(2), of r] made(6) by (auto split: if_splits)
    next
      case (3 i r)
      show ?case
      proof (cases "i = ?n")
        case True
        with 3 made(6) id show ?thesis by simp
      next
        case False
        with 3 made(6) have "us_conns srv i = Some r" by simp
        from udp_tables_conns [OF assms(2) this] obtain d where
          d: "us_heap srv r = Some d" "uu_index d = i" "us_src_map srv (uu_src_addr d) = Some r" by blast
        have "uu_src_addr d \<noteq> src" using d(3) assms(3) by auto
        moreover have "r \<noteq> us_fresh srv" using d(1) fresh by auto
        ultimately show ?thesis using d made(6) by simp
      qed
    next
      case (4 a r)
      show ?case
      proof (cases "a = src")
        case True
        with 4 made(6) id show ?thesis by simp
      next
        case False
        with 4 made(6) have "us_src_map srv a = Some r" by simp
        from udp_tables_src [OF assms(2) this] obtain d where
          d: "us_heap srv r = Some d" "uu_src_addr d = a" "us_conns srv (uu_index d) = Some r" by blast
        have "uu_index d \<noteq> ?n" using d(3) assms(4) by auto
        moreover have "r \<noteq> us_fresh srv" using d(1) fresh by auto
        ultimately show ?thesis using d made(6) by simp
      qed
    next
      case 5
      have "i \<in> set l" if "us_conns srv' i = Some r" "us_heap srv' r = Some d" "udp_conn_destroyed d" for i r d
        using that made(4,6) l(2) nr by (auto split: if_splits)
      with l(1) made(6) show ?case by auto
    qed
    with made id show ?thesis by auto
  qed
qed

lemma udp_server_open_tables:
  assumes "udp_server_open S cfg srv pool cache rv src dst w = Some (x, srv', pool', cache', rv', w')"
    and "udp_tables srv" and "us_src_map srv src = None" and "us_conns srv (us_next_id srv) = None"
  shows "udp_tables srv' \<and> (\<forall>r. x = Some r \<longrightarrow> (\<exists>c. us_heap srv' r = Some c \<and> us_conns srv' (uu_index c) = Some r))"
proof -
  have "srv' = srv \<and> x = None \<or> (\<exists>conn socket v v'. udp_server_admit S cfg srv conn socket src v = Some (x, srv', v'))"
    using assms(1) by (auto simp: udp_server_open_def split: bind_splits option.splits prod.splits)
  then consider "srv' = srv" "x = None" | conn socket v v' where "udp_server_admit S cfg srv conn socket src v = Some (x, srv', v')"
    by blast
  then show ?thesis
  proof cases
    case 2
    from udp_server_admit_tables [OF this assms(2-4)] show ?thesis .
  qed (use assms(2) in simp)
qed

lemma udp_accept_once_tables:
  assumes "udp_accept_once S cfg srv pool cache rv w = Some (res, srv', pool', cache', rv', w')"
    and "udp_tables srv" and "us_conns srv (us_next_id srv) = None"
  shows "udp_tables srv'"
proof -
  from assms(1) obtain r w1 where rc: "recv_from_with_destination S (us_listener srv) MAX_PACKET_SIZE w = Some (r, w1)"
    by (auto simp: udp_accept_once_def split: bind_splits)
  show ?thesis
  proof (cases r)
    case (Inl e)
    with assms(1,2) rc show ?thesis by (simp add: udp_accept_once_def)
  next
    case (Inr d)
    obtain bs src dst where d: "d = (bs, src, dst)" by (cases d)
    let ?find = "case us_src_map srv src of Some ref \<Rightarrow> Some (Some ref, srv, pool, cache, rv, w1)
      | None \<Rightarrow> udp_server_open S cfg srv pool cache rv src dst w1"
    from assms(1) rc Inr d obtain x srv1 pool1 cache1 rv1 w2 where
      f: "?find = Some (x, srv1, pool1, cache1, rv1, w2)"
      and rest: "x = None \<and> srv' = srv1 \<or> (\<exists>ref c c' w3. x = Some ref \<and> us_heap srv1 ref = Some c \<and>
        udp_send_request S c bs dst w2 = Some (c', w3) \<and>
        udp_list_removed (srv1\<lparr>us_heap := (us_heap srv1)(ref \<mapsto> c')\<rparr>) c' (uu_index c') = Some srv')"
      by (auto simp: udp_accept_once_def split: bind_splits if_splits option.splits)
    have t1: "udp_tables srv1 \<and> (\<forall>r. x = Some r \<longrightarrow> (\<exists>c. us_heap srv1 r = Some c \<and> us_conns srv1 (uu_index c) = Some r))"
    proof (cases "us_src_map srv src")
      case None
      with f udp_server_open_tables [OF _ assms(2) None assms(3)] show ?thesis by simp
    next
      case (Some ref)
      with f udp_tables_src [OF assms(2) Some] assms(2) show ?thesis by auto
    qed
    from rest show ?thesis
    proof (elim disjE exE conjE)
      fix ref c c' w3
      assume s: "x = Some ref" "us_heap srv1 ref = Some c" "udp_send_request S c bs dst w2 = Some (c', w3)"
        "udp_list_removed (srv1\<lparr>us_heap := (us_heap srv1)(ref \<mapsto> c')\<rparr>) c' (uu_index c') = Some srv'"
      note id = udp_send_request_ident [OF s(3)]
      have "us_conns srv1 (uu_index c') = Some ref" using t1 s(1,2) id by (auto simp: udp_ident_def)
      from udp_tables_update [OF conjunct1 [OF t1] s(2) id this s(4)] show ?thesis .
    qed (use t1 in simp)
  qed
qed

lemma udp_server_ready_tables:
  assumes "udp_server_ready S srv e cache w = Some (srv', cache', w')" and "udp_tables srv"
  shows "udp_tables srv'"
proof (cases "us_conns srv (proxy_token2index (ev_token e))")
  case None
  with assms show ?thesis by (simp add: udp_server_ready_def)
next
  case (Some ref)
  with assms(1) obtain c c' cache1 w1 where h: "us_heap srv ref = Some c"
    "udp_conn_ready S c e cache w = Some (c', cache1, w1)"
    "udp_list_removed (srv\<lparr>us_heap := (us_heap srv)(ref \<mapsto> c')\<rparr>) c' (proxy_token2index (ev_token e)) = Some srv'"
    by (auto simp: udp_server_ready_def Let_def split: bind_splits)
  from udp_tables_update [OF assms(2) h(1) udp_conn_ready_ident [OF h(2)] Some h(3)] show ?thesis .
qed

text \<open>Removing from both tables.\<close>

definition udp_tables_but :: "usize list \<Rightarrow> udp_server \<Rightarrow> bool" where
  "udp_tables_but l srv \<longleftrightarrow> us_removed srv = Some [] \<and> udp_tables (srv\<lparr>us_removed := Some l\<rparr>)"

lemma udp_remove_one:
  assumes "udp_tables_but (i # is) srv" and "us_conns srv i = Some r" and "us_heap srv r = Some c"
  shows "udp_tables_but is (srv\<lparr>us_conns := (us_conns srv)(i := None), us_src_map := (us_src_map srv)(uu_src_addr c := None)\<rparr>)"
proof -
  let ?s = "srv\<lparr>us_removed := Some (i # is)\<rparr>"
  let ?t = "srv\<lparr>us_conns := (us_conns srv)(i := None), us_src_map := (us_src_map srv)(uu_src_addr c := None), us_removed := Some is\<rparr>"
  have t: "udp_tables ?s" "us_removed srv = Some []" using assms(1) by (simp_all add: udp_tables_but_def)
  from udp_tables_conns [OF t(1), of i r] assms(2,3) have c: "uu_index c = i" "us_src_map srv (uu_src_addr c) = Some r" by auto
  have "udp_tables ?t"
    unfolding udp_tables_def
  proof (intro conjI allI impI, goal_cases)
    case 1 then show ?case using t(1) by (simp add: udp_tables_def)
  next
    case (2 q) then show ?case using udp_tables_heap [OF t(1), of q] by simp
  next
    case (3 j q)
    then have j: "us_conns srv j = Some q" "j \<noteq> i" by (auto split: if_splits)
    from udp_tables_conns [OF t(1), of j q] j(1) obtain d where
      d: "us_heap srv q = Some d" "uu_index d = j" "us_src_map srv (uu_src_addr d) = Some q" by auto
    moreover have "uu_src_addr d \<noteq> uu_src_addr c" using d c assms(3) j(2) by auto
    ultimately show ?case by simp
  next
    case (4 a q)
    then have a: "us_src_map srv a = Some q" "a \<noteq> uu_src_addr c" by (auto split: if_splits)
    from udp_tables_src [OF t(1), of a q] a(1) obtain d where
      d: "us_heap srv q = Some d" "uu_src_addr d = a" "us_conns srv (uu_index d) = Some q" by auto
    moreover have "uu_index d \<noteq> i" using d assms(2,3) a(2) by auto
    ultimately show ?case by simp
  next
    case 5
    have "\<forall>j q d. us_conns srv j = Some q \<and> us_heap srv q = Some d \<and> udp_conn_destroyed d \<longrightarrow> j \<in> set (i # is)"
      using udp_tables_removed [OF t(1)] by simp
    then show ?case by auto
  qed
  then show ?thesis using t(2) by (simp add: udp_tables_but_def)
qed

lemma udp_remove_all_tables:
  "udp_tables_but l srv \<Longrightarrow> \<exists>srv'. udp_remove_all l srv = Some srv' \<and> udp_tables_but [] srv'"
proof (induction l arbitrary: srv)
  case (Cons i l)
  show ?case
  proof (cases "us_conns srv i")
    case None
    then have "udp_tables_but l srv"
      using Cons.prems by (simp add: udp_tables_but_def udp_tables_def) (metis option.distinct(1))
    with Cons.IH None show ?thesis by simp
  next
    case (Some r)
    from udp_tables_conns [of "srv\<lparr>us_removed := Some (i # l)\<rparr>" i r] Cons.prems Some obtain c where
      "us_heap srv r = Some c" by (auto simp: udp_tables_but_def)
    with Cons.IH [OF udp_remove_one [OF Cons.prems Some this]] Some show ?thesis by simp
  qed
qed simp

lemma udp_remove_closed_tables:
  assumes "udp_tables srv"
  shows "\<exists>srv'. udp_server_remove_closed srv = Some srv' \<and> udp_tables srv' \<and>
    (\<forall>i r c. us_conns srv' i = Some r \<and> us_heap srv' r = Some c \<longrightarrow> \<not> udp_conn_destroyed c)"
proof -
  obtain l where l: "us_removed srv = Some l" using udp_tables_removed [OF assms] by blast
  show ?thesis
  proof (cases "l = []")
    case True
    with l udp_tables_removed [OF assms] assms show ?thesis by (auto simp: udp_server_remove_closed_def)
  next
    case False
    have "srv\<lparr>us_removed := Some l\<rparr> = srv" using l by simp
    then have "udp_tables_but l (srv\<lparr>us_removed := Some []\<rparr>)" using assms by (simp add: udp_tables_but_def)
    from udp_remove_all_tables [OF this] obtain srv' where
      r: "udp_remove_all l (srv\<lparr>us_removed := Some []\<rparr>) = Some srv'" "udp_tables_but [] srv'" by blast
    then have e: "us_removed srv' = Some []" by (simp add: udp_tables_but_def)
    then have "srv'\<lparr>us_removed := Some []\<rparr> = srv'" by simp
    then have "udp_tables srv'" using r(2) by (simp add: udp_tables_but_def)
    with r(1) l False e udp_tables_removed [of srv'] show ?thesis by (auto simp: udp_server_remove_closed_def)
  qed
qed

section \<open>Indices\<close>

lemma udp_remove_all_shrinks:
  "udp_remove_all l srv = Some srv' \<Longrightarrow> us_conns srv' \<subseteq>\<^sub>m us_conns srv \<and> us_src_map srv' \<subseteq>\<^sub>m us_src_map srv \<and>
     us_heap srv' = us_heap srv"
proof (induction l arbitrary: srv)
  case (Cons i l)
  show ?case
  proof (cases "us_conns srv i")
    case None
    with Cons show ?thesis by simp
  next
    case (Some r)
    with Cons.prems obtain c where c: "us_heap srv r = Some c"
      "udp_remove_all l (srv\<lparr>us_conns := (us_conns srv)(i := None), us_src_map := (us_src_map srv)(uu_src_addr c := None)\<rparr>) = Some srv'"
      by (auto split: bind_splits)
    have m: "(us_conns srv)(i := None) \<subseteq>\<^sub>m us_conns srv" "(us_src_map srv)(uu_src_addr c := None) \<subseteq>\<^sub>m us_src_map srv"
      by (simp_all add: map_le_def)
    have a: "us_conns srv' \<subseteq>\<^sub>m (us_conns srv)(i := None)" "us_src_map srv' \<subseteq>\<^sub>m (us_src_map srv)(uu_src_addr c := None)"
      "us_heap srv' = us_heap srv" using Cons.IH [OF c(2)] by (simp_all del: fun_upd_apply)
    from map_le_trans [OF a(1) m(1)] map_le_trans [OF a(2) m(2)] a(3) show ?thesis by simp
  qed
qed simp

lemma udp_server_remove_shrinks:
  assumes "udp_server_remove_closed srv = Some srv'"
  shows "us_conns srv' \<subseteq>\<^sub>m us_conns srv \<and> us_src_map srv' \<subseteq>\<^sub>m us_src_map srv \<and> us_heap srv' = us_heap srv"
  using assms by (auto simp: udp_server_remove_closed_def split: bind_splits if_splits dest!: udp_remove_all_shrinks)

text \<open>The server looks at no table before it files a connection under the next index. As long as the indices have
  not started over, all indices in use are below the next one; \<open>n\<close> bounds the number of indices handed out.\<close>

definition udp_low :: "nat \<Rightarrow> udp_server \<Rightarrow> bool" where
  "udp_low n srv \<longleftrightarrow> proxy_index_ok (us_next_id srv) \<and> unat (us_next_id srv) \<le> n + 2 \<and>
     (\<forall>i. us_conns srv i \<noteq> None \<longrightarrow> i < us_next_id srv)"

lemma udp_low_free: "udp_low n srv \<Longrightarrow> us_conns srv (us_next_id srv) = None"
  unfolding udp_low_def by (metis less_irrefl)

lemma udp_low_Suc: "udp_low n srv \<Longrightarrow> udp_low (Suc n) srv"
  by (simp add: udp_low_def)

lemma udp_low_same: "udp_low n srv \<Longrightarrow> us_next_id srv' = us_next_id srv \<Longrightarrow> dom (us_conns srv') \<subseteq> dom (us_conns srv) \<Longrightarrow> udp_low n srv'"
  by (auto simp: udp_low_def dom_def)

lemma udp_low_next:
  assumes "udp_low n srv" and "n + 5 < 2 ^ 62" and "proxy_next_index (us_next_id srv) = Some (us_next_id srv, us_next_id srv')"
    and "dom (us_conns srv') \<subseteq> insert (us_next_id srv) (dom (us_conns srv))"
  shows "udp_low (Suc n) srv'"
proof -
  let ?i = "us_next_id srv"
  have ok: "proxy_index_ok ?i" and le: "unat ?i \<le> n + 2" using assms(1) by (simp_all add: udp_low_def)
  have "?i \<noteq> PROXY_MAX_INDEX - 1"
    using le assms(2) unat_sub [of 1 PROXY_MAX_INDEX] unat_PROXY_MAX by (auto simp: word_le_nat_alt)
  with proxy_next_index_step [OF ok] assms(3) have n: "us_next_id srv' = ?i + 1" "proxy_index_ok (us_next_id srv')" by auto
  have u: "unat (?i + 1) = unat ?i + 1" using le assms(2) by (simp add: unat_word_ariths)
  then have lt: "?i < us_next_id srv'" using n(1) by (simp add: word_less_nat_alt)
  have "i < us_next_id srv'" if "us_conns srv' i \<noteq> None" for i
  proof -
    have "i = ?i \<or> us_conns srv i \<noteq> None" using that assms(4) by (auto simp: dom_def)
    then have "i = ?i \<or> i < ?i" using assms(1) by (auto simp: udp_low_def)
    with lt show ?thesis by auto
  qed
  with n u le show ?thesis by (simp add: udp_low_def)
qed

lemma udp_list_removed_same: "udp_list_removed srv c i = Some srv' \<Longrightarrow> us_conns srv' = us_conns srv \<and> us_next_id srv' = us_next_id srv"
  by (auto simp: udp_list_removed_def split: bind_splits if_splits)

lemma udp_server_open_low:
  assumes "udp_server_open S cfg srv pool cache rv src dst w = Some (x, srv', pool', cache', rv', w')"
    and "udp_low n srv" and "n + 5 < 2 ^ 62"
  shows "udp_low (Suc n) srv'"
proof -
  have "srv' = srv \<or> (\<exists>conn socket v v'. udp_server_admit S cfg srv conn socket src v = Some (x, srv', v'))"
    using assms(1) by (auto simp: udp_server_open_def split: bind_splits option.splits prod.splits)
  then consider "srv' = srv" | conn socket v v' where "udp_server_admit S cfg srv conn socket src v = Some (x, srv', v')"
    by blast
  then show ?thesis
  proof cases
    case 2
    have ok: "proxy_index_ok (us_next_id srv)" using assms(2) by (simp add: udp_low_def)
    from 2 ok show ?thesis
      by (cases rule: udp_server_admit_cases) (auto intro!: udp_low_next [OF assms(2,3)])
  qed (use assms(2) udp_low_Suc in simp)
qed

lemma udp_accept_once_low:
  assumes "udp_accept_once S cfg srv pool cache rv w = Some (res, srv', pool', cache', rv', w')"
    and "udp_low n srv" and "n + 5 < 2 ^ 62"
  shows "udp_low (Suc n) srv'"
proof -
  note up = udp_low_Suc [OF assms(2)]
  from assms(1) obtain r w1 where rc: "recv_from_with_destination S (us_listener srv) MAX_PACKET_SIZE w = Some (r, w1)"
    by (auto simp: udp_accept_once_def split: bind_splits)
  show ?thesis
  proof (cases r)
    case (Inl e)
    with assms(1) rc up show ?thesis by (simp add: udp_accept_once_def)
  next
    case (Inr d)
    obtain bs src dst where d: "d = (bs, src, dst)" by (cases d)
    let ?find = "case us_src_map srv src of Some ref \<Rightarrow> Some (Some ref, srv, pool, cache, rv, w1)
      | None \<Rightarrow> udp_server_open S cfg srv pool cache rv src dst w1"
    from assms(1) rc Inr d obtain x srv1 pool1 cache1 rv1 w2 where
      f: "?find = Some (x, srv1, pool1, cache1, rv1, w2)"
      and rest: "x = None \<and> srv' = srv1 \<or> (\<exists>ref c c' w3. x = Some ref \<and> us_heap srv1 ref = Some c \<and>
        udp_send_request S c bs dst w2 = Some (c', w3) \<and>
        udp_list_removed (srv1\<lparr>us_heap := (us_heap srv1)(ref \<mapsto> c')\<rparr>) c' (uu_index c') = Some srv')"
      by (auto simp: udp_accept_once_def split: bind_splits if_splits option.splits)
    have l1: "udp_low (Suc n) srv1"
    proof (cases "us_src_map srv src")
      case None
      with f udp_server_open_low [OF _ assms(2,3)] show ?thesis by simp
    qed (use f up in simp)
    from rest have "us_next_id srv' = us_next_id srv1 \<and> us_conns srv' = us_conns srv1" using udp_list_removed_same by fastforce
    with udp_low_same [OF l1, of srv'] show ?thesis by simp
  qed
qed

lemma udp_server_ready_low:
  assumes "udp_server_ready S srv e cache w = Some (srv', cache', w')" and "udp_low n srv"
  shows "udp_low n srv'"
proof -
  have "us_conns srv' = us_conns srv \<and> us_next_id srv' = us_next_id srv"
    using assms(1) by (auto simp: udp_server_ready_def Let_def split: bind_splits option.splits dest!: udp_list_removed_same)
  with udp_low_same [OF assms(2), of srv'] show ?thesis by simp
qed

lemma udp_remove_all_next: "udp_remove_all l srv = Some srv' \<Longrightarrow> us_next_id srv' = us_next_id srv"
  by (induction l arbitrary: srv) (force split: option.splits bind_splits)+

lemma udp_server_remove_low:
  assumes "udp_server_remove_closed srv = Some srv'" and "udp_low n srv"
  shows "udp_low n srv'"
proof -
  have "us_next_id srv' = us_next_id srv"
    using assms(1) by (auto simp: udp_server_remove_closed_def split: bind_splits if_splits dest!: udp_remove_all_next)
  with udp_low_same [OF assms(2), of srv'] udp_server_remove_shrinks [OF assms(1)] show ?thesis by (auto dest: map_le_implies_dom_le)
qed

section \<open>Properties\<close>

text \<open>The steps of the UDP server in the event loop: one round of \<open>accept\<close>, an event of a connection, and
  the removal behind the events. Every step takes at most one index.\<close>

inductive udp_step :: "'w sys \<Rightarrow> opts \<Rightarrow> udp_server \<Rightarrow> udp_server \<Rightarrow> bool" for S :: "'w sys" and cfg where
  udp_step_accept: "udp_accept_once S cfg srv pool cache rv w = Some (res, srv', pool', cache', rv', w') \<Longrightarrow> udp_step S cfg srv srv'"
| udp_step_ready: "udp_server_ready S srv e cache w = Some (srv', cache', w') \<Longrightarrow> udp_step S cfg srv srv'"
| udp_step_remove: "udp_server_remove_closed srv = Some srv' \<Longrightarrow> udp_step S cfg srv srv'"

inductive_cases udp_stepE: "udp_step S cfg srv srv'"

lemma udp_step_low: "udp_step S cfg srv srv' \<Longrightarrow> udp_low n srv \<Longrightarrow> n + 5 < 2 ^ 62 \<Longrightarrow> udp_low (Suc n) srv'"
  by (elim udp_stepE) (simp_all add: udp_accept_once_low udp_low_Suc udp_server_ready_low udp_server_remove_low)

lemma udp_step_tables: "udp_step S cfg srv srv' \<Longrightarrow> udp_tables srv \<Longrightarrow> udp_low n srv \<Longrightarrow> udp_tables srv'"
proof (elim udp_stepE)
  assume "udp_server_remove_closed srv = Some srv'" "udp_tables srv"
  with udp_remove_closed_tables [of srv] show "udp_tables srv'" by auto
qed (simp_all add: udp_accept_once_tables udp_server_ready_tables udp_low_free)

lemma udp_low_new: "udp_low 0 (udp_server_new listener)"
  by (simp add: udp_low_def udp_server_new_def proxy_index_first) (simp add: PROXY_MIN_INDEX_def)

lemma udp_reachable:
  assumes "(udp_step S cfg ^^ n) (udp_server_new listener) srv" and "n + 4 < 2 ^ 62"
  shows "udp_tables srv \<and> udp_low n srv"
  using assms
proof (induction n arbitrary: srv)
  case (Suc n)
  from Suc.prems(1) obtain srv1 where s: "(udp_step S cfg ^^ n) (udp_server_new listener) srv1" "udp_step S cfg srv1 srv" by auto
  from Suc.IH [OF s(1)] Suc.prems(2) udp_step_tables [OF s(2)] udp_step_low [OF s(2)] show ?case by auto
qed (auto intro: udp_tables_new udp_low_new)

text \<open>C37. In every state the UDP server can reach by fewer than \<open>2 ^ 62 - 4\<close> datagrams, events and removals in any
  order, from its start, its two tables hold the same connections: a source address leads to the connection whose
  index leads to the same object, and back. Removing closed connections never panics, leaves the tables in
  agreement and leaves no destroyed connection behind, so that the next datagram from that address opens a new one.
  (Behind that number of datagrams the indices start over, and the code does not check that one is free.)\<close>

theorem proxy_udp_tables:
  assumes "(udp_step S cfg ^^ n) (udp_server_new listener) srv" and "n + 4 < 2 ^ 62"
  shows "(\<forall>a r. us_src_map srv a = Some r \<longrightarrow>
      (\<exists>c. us_heap srv r = Some c \<and> uu_src_addr c = a \<and> us_conns srv (uu_index c) = Some r)) \<and>
    (\<forall>i r. us_conns srv i = Some r \<longrightarrow>
      (\<exists>c. us_heap srv r = Some c \<and> uu_index c = i \<and> us_src_map srv (uu_src_addr c) = Some r)) \<and>
    (\<exists>srv'. udp_server_remove_closed srv = Some srv' \<and>
      (\<forall>a r c. us_src_map srv' a = Some r \<and> us_heap srv' r = Some c \<longrightarrow> \<not> udp_conn_destroyed c))"
proof -
  note t = conjunct1 [OF udp_reachable [OF assms]]
  from udp_remove_closed_tables [OF t] obtain srv' where
    r: "udp_server_remove_closed srv = Some srv'" "udp_tables srv'"
    "\<forall>i r c. us_conns srv' i = Some r \<and> us_heap srv' r = Some c \<longrightarrow> \<not> udp_conn_destroyed c" by blast
  have "\<not> udp_conn_destroyed c" if "us_src_map srv' a = Some q" "us_heap srv' q = Some c" for a q c
    using udp_tables_src [OF r(2) that(1)] r(3) that(2) by auto
  with r(1) udp_tables_src [OF t] udp_tables_conns [OF t] show ?thesis by blast
qed

section \<open>An example\<close>

text \<open>The server's side resets the connection when the first bytes are sent: the connection that a datagram opens is
  destroyed before the accept is over, and stays in the tables until the removal.\<close>

abbreviation reset_sys :: "sim sys" where
  "reset_sys \<equiv> sim_sys\<lparr>tls_write_tls := (\<lambda>c s w. (Inl ConnectionReset, w))\<rparr>"

definition sample_src :: socket_addr where
  "sample_src = V4 (ipv4_from_u32 (u32_from_be (192, 168, 0, 2))) (u16_from_be (4, 0))"

definition sample_dst :: socket_addr where
  "sample_dst = V4 (ipv4_from_u32 (u32_from_be (8, 8, 8, 8))) (u16_from_be (0, 53))"

abbreviation one_datagram :: sim where
  "one_datagram \<equiv> sim_idle\<lparr>sim_dgrams_in := (\<lambda>_. [])(7 := [([1], V4 (Ipv4Addr 192 168 0 2) 1024)])\<rparr>"

lemma sample_received:
  "recv_from_with_destination reset_sys 7 MAX_PACKET_SIZE one_datagram = Some (Inr ([1], sample_src, sample_dst), sim_idle)"
  by (simp add: recv_from_with_destination_def sim_recvmsg_def sockaddr_to_std_def MAX_PACKET_SIZE_def sim_idle_def fun_eq_iff
      sample_src_def sample_dst_def)

text \<open>The connection behind its first write, which fails.\<close>

lemma reset_drain:
  "sim_tls_out w (tc_session t) \<noteq> [] \<Longrightarrow> tls_drain reset_sys t w = Some (tls_shutdown reset_sys t w)"
  by (subst tls_drain.simps) simp

lemma reset_tls_shutdown:
  "\<not> is_shutdown (tc_status t) \<Longrightarrow> tls_shutdown reset_sys t w = (t\<lparr>tc_status := Shutdown\<rparr>, w)"
  by (cases "tc_status t") (simp_all add: tls_shutdown_def shutdown_def tls_provider_def is_shutdown_def)

lemma reset_status:
  assumes "tc_status (uu_server_conn c) = Shutdown" and "uu_status c = Established" and "uu_send_buffer c = []"
  shows "udp_do_status reset_sys c w = Some (c\<lparr>uu_status := Deregistered, uu_server_conn := (uu_server_conn c)\<lparr>tc_status := Deregistered\<rparr>\<rparr>, w)"
proof -
  have t: "tls_check_status reset_sys (uu_server_conn c) w = Some ((uu_server_conn c)\<lparr>tc_status := Deregistered\<rparr>, w)"
    unfolding tls_check_status_def by (subst check_status.simps) (use assms(1) in \<open>simp add: tls_provider_def\<close>)
  have d: "check_status (udp_conn_provider reset_sys) (c\<lparr>uu_status := Shutdown\<rparr>) w = Some (c\<lparr>uu_status := Deregistered\<rparr>, w)"
    by (subst check_status.simps) (simp add: udp_conn_provider_def)
  have "check_status (udp_conn_provider reset_sys) (c\<lparr>uu_status := PeerClosed\<rparr>) w = Some (c\<lparr>uu_status := Deregistered\<rparr>, w)"
    by (subst check_status.simps) (use assms(3) d in \<open>simp add: udp_conn_provider_def shutdown_def is_shutdown_def\<close>)
  then show ?thesis using assms t
    by (simp add: udp_do_status_def is_shutdown_def peer_closed_def Let_def) (simp add: udp_conn_provider_def)
qed

lemma reset_send_request:
  assumes "tc_status (uu_server_conn c) = Established" and "tc_session (uu_server_conn c) = 1" and "tc_writable (uu_server_conn c)"
    and "uu_status c = Established" and "uu_send_buffer c = []" and "uu_last_active c = 0" and "sim_now w = 0"
  shows "\<exists>c' w'. udp_send_request reset_sys c bs dst w = Some (c', w') \<and> udp_conn_destroyed c' \<and> uu_index c' = uu_index c \<and>
    uu_src_addr c' = uu_src_addr c \<and> uu_socket c' = uu_socket c"
proof -
  have ne: "udp_generate [] dst (of_nat (length bs)) \<noteq> []" by (cases dst) (simp_all add: udp_generate_def)
  let ?h = "udp_generate [] dst (of_nat (length bs))"
  let ?c = "c\<lparr>uu_bytes_read := uu_bytes_read c + of_nat (length bs), uu_recv_buffer := ?h\<rparr>"
  let ?w = "sim_write_plain 1 bs (sim_write_plain 1 ?h w)"
  have f: "udp_forward reset_sys c bs dst w = (?c, ?w)"
    using assms(2) by (simp add: udp_forward_def tls_write_session_def Let_def)
  have "sim_tls_out ?w (tc_session (uu_server_conn ?c\<lparr>tc_writable := True\<rparr>)) \<noteq> []" using ne assms(2) by (simp add: sim_write_plain_def)
  from reset_drain [OF this] have "udp_try_send_server reset_sys ?c ?w =
      Some (?c\<lparr>uu_server_conn := (uu_server_conn c)\<lparr>tc_writable := True, tc_status := Shutdown\<rparr>\<rparr>, ?w)"
    using assms(1) by (simp add: udp_try_send_server_def tls_do_send_def is_connecting_def reset_tls_shutdown is_shutdown_def)
  moreover have "udp_send_request reset_sys c bs dst w = udp_try_send_server reset_sys ?c ?w \<bind> (\<lambda>(c, w). udp_do_status reset_sys c w)"
    using assms f by (simp add: udp_send_request_def as_secs_def tls_is_writable_def alive_def)
  ultimately show ?thesis using assms by (simp add: reset_status udp_conn_destroyed_def is_deregistered_def)
qed

lemma sample_accept:
  "\<exists>c pool' rv' w'. udp_accept_once reset_sys sample_ready (udp_server_new 7) sample_pool udp_cache_new (resolver_new 2 None) one_datagram =
     Some (Inr (), (udp_server_new 7)\<lparr>us_heap := [0 \<mapsto> c], us_fresh := 1, us_conns := [2 \<mapsto> 0], us_src_map := [sample_src \<mapsto> 0],
         us_removed := Some [2], us_next_id := 3\<rparr>, pool', udp_cache_new\<lparr>uc_conns := [sample_dst \<mapsto> 10]\<rparr>, rv', w') \<and>
     uu_index c = 2 \<and> uu_src_addr c = sample_src \<and> uu_socket c = 10 \<and> udp_conn_destroyed c"
proof -
  let ?w = "sim_idle\<lparr>sim_next := 11\<rparr>"
  let ?t = "sample_tls\<lparr>tc_index := 2, tc_token := 9\<rparr>"
  have pool: "pool_get reset_sys sample_pool (resolver_new 2 None) sim_idle =
      Some (Some (sample_tls\<lparr>tc_index := 3, tc_token := 12\<rparr>), sample_pool\<lparr>ip_pool := butlast (ip_pool sample_pool)\<rparr>, resolver_new 2 None, sim_idle)"
    using full_pool_get [OF sample_pool_full] by (simp add: sample_pool_def)
  have socket: "get_socket reset_sys udp_cache_new sample_dst sim_idle = (Some 10, udp_cache_new\<lparr>uc_conns := [sample_dst \<mapsto> 10]\<rparr>, ?w)"
    by (simp add: get_socket_def udp_cache_new_def new_socket_def set_socket_opts_def sim_fresh_def sim_idle_def)
  have index: "proxy_next_index 2 = Some (2, 3)"
    by (simp add: proxy_next_index_def PROXY_MIN_INDEX_def add_checked_def word_le_nat_alt unat_PROXY_MAX)
  obtain c w1 where admit: "udp_server_admit reset_sys sample_ready (udp_server_new 7) (sample_tls\<lparr>tc_index := 3, tc_token := 12\<rparr>) 10 sample_src ?w =
      Some (Some 0, (udp_server_new 7)\<lparr>us_next_id := 3, us_heap := [0 \<mapsto> c], us_fresh := 1, us_conns := [2 \<mapsto> 0], us_src_map := [sample_src \<mapsto> 0]\<rparr>, w1)"
    "uu_server_conn c = ?t" "uu_status c = Established" "uu_send_buffer c = []" "uu_last_active c = 0" "sim_now w1 = 0" "uu_index c = 2"
    "uu_src_addr c = sample_src" "uu_socket c = 10"
    by (simp add: udp_server_admit_def udp_server_new_def index channel_token_def mul_checked_def add_checked_def proxy_consts tls_reset_index_def tls_reregister_def udp_conn_new_def udp_conn_setup_def sample_ready_def tls_write_session_def unwrap_def
        Let_def sim_write_plain_def sim_idle_def)
  have "tc_status (uu_server_conn c) = Established" "tc_session (uu_server_conn c) = 1" "tc_writable (uu_server_conn c)"
    using admit(2) by (simp_all add: sample_tls_def)
  from reset_send_request [OF this admit(3-6), of "[1]" sample_dst] obtain c' w' where
    req: "udp_send_request reset_sys c [1] sample_dst w1 = Some (c', w')" "udp_conn_destroyed c'" "uu_index c' = 2"
    "uu_src_addr c' = sample_src" "uu_socket c' = 10" using admit(7-9) by auto
  have "us_listener (udp_server_new 7) = 7" "us_src_map (udp_server_new 7) sample_src = None" "us_removed (udp_server_new 7) = Some []"
    by (simp_all add: udp_server_new_def)
  moreover have "\<not> MAX_PACKET_SIZE < Suc 0" by (simp add: MAX_PACKET_SIZE_def)
  ultimately show ?thesis
    using req by (intro exI [of _ c']) (simp add: udp_accept_once_def sample_received udp_server_open_def pool socket admit(1)
        udp_list_removed_def unwrap_def)
qed

theorem proxy_udp_tables_witness:
  "\<exists>srv c srv'. (udp_step reset_sys sample_ready ^^ 1) (udp_server_new 7) srv \<and> us_heap srv 0 = Some c \<and> udp_conn_destroyed c \<and>
     us_src_map srv sample_src = Some 0 \<and> us_conns srv (uu_index c) = Some 0 \<and>
     udp_server_remove_closed srv = Some srv' \<and> us_src_map srv' sample_src = None"
proof -
  obtain c pool' rv' w' where a: "udp_accept_once reset_sys sample_ready (udp_server_new 7) sample_pool udp_cache_new (resolver_new 2 None) one_datagram =
     Some (Inr (), (udp_server_new 7)\<lparr>us_heap := [0 \<mapsto> c], us_fresh := 1, us_conns := [2 \<mapsto> 0], us_src_map := [sample_src \<mapsto> 0],
         us_removed := Some [2], us_next_id := 3\<rparr>, pool', udp_cache_new\<lparr>uc_conns := [sample_dst \<mapsto> 10]\<rparr>, rv', w')"
    "uu_src_addr c = sample_src" "udp_conn_destroyed c" using sample_accept by blast
  let ?srv = "(udp_server_new 7)\<lparr>us_heap := [0 \<mapsto> c], us_fresh := 1, us_conns := [2 \<mapsto> 0], us_src_map := [sample_src \<mapsto> 0],
         us_removed := Some [2], us_next_id := 3\<rparr>"
  have r: "(udp_step reset_sys sample_ready ^^ 1) (udp_server_new 7) ?srv" unfolding relpowp_1 by (rule udp_step_accept [OF a(1)])
  have h: "us_src_map ?srv sample_src = Some 0" "us_heap ?srv 0 = Some c" by simp_all
  from proxy_udp_tables [OF r] h obtain srv' where p: "us_conns ?srv (uu_index c) = Some 0" "udp_server_remove_closed ?srv = Some srv'"
    "\<forall>a r c. us_src_map srv' a = Some r \<and> us_heap srv' r = Some c \<longrightarrow> \<not> udp_conn_destroyed c" by fastforce
  have "us_src_map srv' \<subseteq>\<^sub>m us_src_map ?srv" "us_heap srv' = us_heap ?srv" using udp_server_remove_shrinks [OF p(2)] by blast+
  moreover have "us_src_map srv' sample_src \<noteq> Some 0" using p(3) [rule_format, of sample_src 0 c] a(3) calculation(2) by auto
  ultimately have "us_src_map srv' sample_src = None" by (cases "us_src_map srv' sample_src") (auto simp: map_le_def dom_def)
  with r h p(1,2) a(3) show ?thesis by blast
qed

end
