(* ===== verification/Proxy.thy ===== *)
theory Proxy
  imports Proxy_Tcp Proxy_Udp
begin

text \<open>
  The transparent proxy as a whole (\<open>run\<close> in \<open>src/src/proxy/mod.rs\<close>): the event loop over the TCP
  server, the UDP server, the idle pool, the resolver and the socket cache.
\<close>

section \<open>Model\<close>

record proxy_loop =
  pl_tcp :: tcp_server
  pl_udp :: udp_server
  pl_cache :: udp_svr_cache
  pl_pool :: idle_pool
  pl_resolver :: dns_resolver
  pl_last_check_time :: instant

text \<open>Everything in front of the loop; \<open>name_ok\<close> is the conversion of the host name to a \<open>ServerName\<close> of
  rustls. Creating the poll, the waker and the configuration of the TLS client are calls into \<open>mio\<close> and
  \<open>rustls\<close> without effect on the state below.\<close>

definition proxy_start :: "'w sys \<Rightarrow> (bytes \<Rightarrow> bool) \<Rightarrow> opts \<Rightarrow> 'w \<Rightarrow> (proxy_loop tr \<times> 'w) rs" where
  "proxy_start S name_ok cfg w =
     (case parse_socket_addr (local_addr cfg) of
        None \<Rightarrow> Some (Inl AddrParse, w)
      | Some local \<Rightarrow>
     (case new_socket S local False w of
        (Inl e, w) \<Rightarrow> Some (Inl (StdIo e), w)
      | (Inr tcp_listener, w) \<Rightarrow>
     (case new_socket S local True w of
        (Inl e, w) \<Rightarrow> Some (Inl (StdIo e), w)
      | (Inr udp_listener, w) \<Rightarrow>
     (case poll_register S tcp_listener TCP_LISTENER w of
        (Inl e, w) \<Rightarrow> Some (Inl (StdIo e), w)
      | (Inr _, w) \<Rightarrow>
     (case poll_register S udp_listener UDP_LISTENER w of
        (Inl e, w) \<Rightarrow> Some (Inl (StdIo e), w)
      | (Inr _, w) \<Rightarrow> do {
          args \<leftarrow> get_proxy_args cfg;
          if \<not> name_ok (pa_hostname args) then Some (Inl InvalidDnsName, w)
          else do {
            pool \<leftarrow> pool_new cfg (pa_pool_size args + 1) (pa_port args) (pa_hostname args);
            let pool = pool_init_index pool CHANNEL_CNT4 CHANNEL_IDLE PROXY_MIN_INDEX PROXY_MAX_INDEX;
            (pool, resolver, w) \<leftarrow> pool_init S pool (resolver_new PROXY_RESOLVER None) w;
            let (now, w) = instant_now S w;
            Some (Inr \<lparr>pl_tcp = tcp_server_new tcp_listener, pl_udp = udp_server_new udp_listener,
              pl_cache = udp_cache_new, pl_pool = pool, pl_resolver = resolver, pl_last_check_time = now\<rparr>, w) } })))))"

definition proxy_event :: "'w sys \<Rightarrow> opts \<Rightarrow> proxy_loop \<Rightarrow> net_event \<Rightarrow> 'w \<Rightarrow> (proxy_loop \<times> 'w) rs" where
  "proxy_event S cfg l event w =
     (if ev_token event = TCP_LISTENER then do {
        (tcp, pool, resolver, w) \<leftarrow> tcp_server_accept S cfg (pl_tcp l) (pl_pool l) (pl_resolver l) w;
        Some (l\<lparr>pl_tcp := tcp, pl_pool := pool, pl_resolver := resolver\<rparr>, w) }
      else if ev_token event = UDP_LISTENER then do {
        (udp, pool, cache, resolver, w) \<leftarrow>
          udp_server_accept S cfg (pl_udp l) (pl_pool l) (pl_cache l) (pl_resolver l) w;
        Some (l\<lparr>pl_udp := udp, pl_pool := pool, pl_cache := cache, pl_resolver := resolver\<rparr>, w) }
      else if ev_token event = PROXY_RESOLVER then do {
        (resolver, pool, w) \<leftarrow>
          consume S (\<lambda>_ ip pool w. Some (pool_resolve pool ip, w)) (pl_resolver l) (pl_pool l) w;
        Some (l\<lparr>pl_resolver := resolver, pl_pool := pool\<rparr>, w) }
      else if ev_token event mod CHANNEL_CNT4 = CHANNEL_IDLE then do {
        (pool, w) \<leftarrow> pool_ready S (pl_pool l) event w;
        Some (l\<lparr>pl_pool := pool\<rparr>, w) }
      else if ev_token event mod CHANNEL_CNT4 = CHANNEL_UDP then do {
        (udp, cache, w) \<leftarrow> udp_server_ready S (pl_udp l) event (pl_cache l) w;
        Some (l\<lparr>pl_udp := udp, pl_cache := cache\<rparr>, w) }
      else do {
        (tcp, w) \<leftarrow> tcp_server_ready S (pl_tcp l) event w;
        Some (l\<lparr>pl_tcp := tcp\<rparr>, w) })"

fun proxy_events :: "'w sys \<Rightarrow> opts \<Rightarrow> proxy_loop \<Rightarrow> net_event list \<Rightarrow> 'w \<Rightarrow> (proxy_loop \<times> 'w) rs" where
  "proxy_events S cfg l [] w = Some (l, w)"
| "proxy_events S cfg l (e # es) w = do {
     (l, w) \<leftarrow> proxy_event S cfg l e w;
     proxy_events S cfg l es w }"

text \<open>What follows the events of a round: the removal of closed connections and, once a second, the sweep.\<close>

definition proxy_sweep :: "((usize \<rightharpoonup> client_conn) \<Rightarrow> usize list) \<Rightarrow> 'w sys \<Rightarrow> opts \<Rightarrow> proxy_loop \<Rightarrow> instant \<Rightarrow> 'w \<Rightarrow>
    (proxy_loop \<times> 'w) rs" where
  "proxy_sweep order S cfg l now w = do {
     (tcp, w) \<leftarrow> tcp_server_check_timeout order S cfg (pl_tcp l) now w;
     let cache = cache_check_timeout (udp_held (pl_udp l)) (pl_cache l);
     (pool, w) \<leftarrow> pool_check_timeout S (pl_pool l) w;
     Some (l\<lparr>pl_tcp := tcp, pl_cache := cache, pl_pool := pool, pl_last_check_time := now\<rparr>, w) }"

definition proxy_round :: "((usize \<rightharpoonup> client_conn) \<Rightarrow> usize list) \<Rightarrow> 'w sys \<Rightarrow> opts \<Rightarrow> proxy_loop \<Rightarrow>
    net_event list \<Rightarrow> 'w \<Rightarrow> (proxy_loop \<times> 'w) rs" where
  "proxy_round order S cfg l events w = do {
     (l, w) \<leftarrow> proxy_events S cfg l events w;
     udp \<leftarrow> udp_server_remove_closed (pl_udp l);
     tcp \<leftarrow> tcp_server_remove_closed (pl_tcp l);
     let l = l\<lparr>pl_udp := udp, pl_tcp := tcp\<rparr>;
     let (now, w) = instant_now S w;
     if duration_from_secs 1 < now - pl_last_check_time l then proxy_sweep order S cfg l now w
     else Some (l, w) }"

section \<open>What a TCP connection keeps\<close>

text \<open>Whatever the environment does, a connection keeps its index, its client and its destination, its
  status never falls back, and its TLS connection evolves.\<close>

lemma conn_same_remote: "tls_evolves (cc_server_conn x) t \<Longrightarrow> conn_same x (x\<lparr>cc_server_conn := t\<rparr>)"
  by (simp add: conn_same_def)

lemma conn_same_read:
  assumes "tls_do_read S (cc_server_conn x) w = Some (r, t, w')"
  shows "conn_same x (x\<lparr>cc_server_conn := t\<rparr>)"
  using conn_same_remote [of x t] tls_do_read_evolves [OF assms] by simp

lemma conn_same_shutdown: "client_shutdown S x w = (x', w') \<Longrightarrow> conn_same x x'"
  by (auto simp: conn_same_def dest!: client_shutdown_frame)

lemma conn_same_recv: "client_recv S x w = Some (x', w') \<Longrightarrow> conn_same x x'"
proof -
  assume "client_recv S x w = Some (x', w')"
  then obtain ok buf t w1 where r: "tcp_read S (cc_client x) (cc_recv_buffer x) (cc_server_conn x) w = Some (ok, buf, t, w1)"
    "(x', w') = (case (if ok then (x\<lparr>cc_recv_buffer := buf, cc_server_conn := t\<rparr>, w1)
       else client_shutdown S (x\<lparr>cc_recv_buffer := buf, cc_server_conn := t\<rparr>) w1) of (c, w) \<Rightarrow> (c\<lparr>cc_read_client := False\<rparr>, w))"
    by (auto simp: client_recv_def Let_def split: bind_splits prod.splits)
  from r(2) tcp_read_evolves [OF r(1)] show "conn_same x x'"
    by (auto simp: conn_same_def dest!: client_shutdown_frame split: if_splits prod.splits)
qed

lemma conn_same_send_server:
  assumes "try_send_server S x w = Some (x', w')"
  shows "conn_same x x'"
proof -
  have "conn_same x (fst r)" if "try_send_server S x w = Some r" for r
  proof (rule try_send_server.raw_induct [where P = "\<lambda>S x w r. conn_same x (fst r)", OF _ that], goal_cases)
    case (1 f S x w r)
    from 1(2) obtain t w1 where s: "tls_do_send S (cc_server_conn x) w = Some (t, w1)"
      and rest: "(if tls_is_writable t \<and> cc_read_client x then
         Option.bind (client_recv S (x\<lparr>cc_server_conn := t\<rparr>) w1) (\<lambda>(c, w). f S c w)
       else Some (x\<lparr>cc_server_conn := t\<rparr>, w1)) = Some r"
      by (auto split: bind_splits)
    note e = conn_same_remote [OF tls_do_send_evolves [OF s]]
    show ?case
    proof (cases "tls_is_writable t \<and> cc_read_client x")
      case True
      with rest obtain y v where y: "client_recv S (x\<lparr>cc_server_conn := t\<rparr>) w1 = Some (y, v)" "f S y v = Some r"
        by (auto split: bind_splits)
      from conn_same_trans [OF conn_same_trans [OF e conn_same_recv [OF y(1)]] 1(1) [OF y(2)]] show ?thesis .
    qed (use rest e in auto)
  qed
  from this [OF assms] show ?thesis by simp
qed

lemma conn_same_push: "client_push S x b w = Some (x', w') \<Longrightarrow> conn_same x x'"
proof -
  have d: "conn_same y y'" if "do_send_client S y b v = Some (y', v')" for y y' b v v'
    using that by (auto simp: do_send_client_def conn_same_def Let_def dest!: client_shutdown_frame split: bind_splits if_splits)
  show "client_push S x b w = Some (x', w') \<Longrightarrow> conn_same x x'"
    by (auto simp: client_push_def dest!: d split: if_splits) (auto simp: conn_same_def)
qed

lemma conn_same_flags [simp]:
  "conn_same x (y\<lparr>cc_read_server := b\<rparr>) = conn_same x y" "conn_same x (y\<lparr>cc_read_client := b\<rparr>) = conn_same x y"
  "conn_same (y\<lparr>cc_last_active_time := t\<rparr>) x = conn_same y x"
  by (simp_all add: conn_same_def)

lemma conn_same_send_client:
  assumes "try_send_client S x b w = Some (x', w')"
  shows "conn_same x x'"
proof -
  have "conn_same x (fst r)" if "try_send_client S x b w = Some r" for r
  proof (rule try_send_client.raw_induct [where P = "\<lambda>S x b w r. conn_same x (fst r)", OF _ that], goal_cases)
    case (1 f S x b w r)
    from 1(2) obtain y v where p: "client_push S x b w = Some (y, v)"
      and rest: "(if client_writable y \<and> cc_read_server y then
         Option.bind (tls_do_read S (cc_server_conn y) v) (\<lambda>(r, s, w).
           Option.bind (case r of
               Some b \<Rightarrow> f S (y\<lparr>cc_server_conn := s\<rparr>) b w
             | None \<Rightarrow> Some (y\<lparr>cc_server_conn := s\<rparr>, w)) (\<lambda>(c, w).
             Some (c\<lparr>cc_read_server := False\<rparr>, w)))
       else Some (y, v)) = Some r"
      by (auto split: bind_splits)
    note e = conn_same_push [OF p]
    show ?case
    proof (cases "client_writable y \<and> cc_read_server y")
      case True
      with rest obtain q s u z u' where q: "tls_do_read S (cc_server_conn y) v = Some (q, s, u)"
        "(case q of Some b \<Rightarrow> f S (y\<lparr>cc_server_conn := s\<rparr>) b u | None \<Rightarrow> Some (y\<lparr>cc_server_conn := s\<rparr>, u)) = Some (z, u')"
        "r = (z\<lparr>cc_read_server := False\<rparr>, u')"
        by (auto split: bind_splits)
      have y: "conn_same x (y\<lparr>cc_server_conn := s\<rparr>)"
        using conn_same_trans [OF e conn_same_read [OF q(1)]] .
      have "conn_same (y\<lparr>cc_server_conn := s\<rparr>) z"
        using q(2) 1(1) [of S "y\<lparr>cc_server_conn := s\<rparr>" _ u "(z, u')"] by (auto split: option.splits)
      from conn_same_trans [OF y this] q(3) show ?thesis by simp
    qed (use rest e in auto)
  qed
  from this [OF assms] show ?thesis by simp
qed

lemma conn_same_established: "conn_same x (established (client_provider S) x)"
  by (simp add: conn_same_def client_established_frame)

lemma conn_same_client_channel: "client_channel S x e w = Some (x', w') \<Longrightarrow> conn_same x x'"
proof -
  assume a: "client_channel S x e w = Some (x', w')"
  obtain y v where y: "(if ev_readable e then
                   (if tls_is_writable (cc_server_conn x) then try_read_client S x w
                    else Some (x\<lparr>cc_read_client := True\<rparr>, w))
                 else Some (x, w)) = Some (y, v)"
    "(if ev_writable e then try_send_client S (established (client_provider S) y) [] v else Some (y, v)) = Some (x', w')"
    using a unfolding client_channel_def by (auto split: bind_splits)
  have "conn_same x y"
    using y(1) by (auto simp: try_read_client_def split: if_splits bind_splits
        dest!: conn_same_recv conn_same_send_server intro: conn_same_trans)
  moreover have "conn_same y x'"
    using y(2) conn_same_established [of y S] by (auto split: if_splits dest!: conn_same_send_client intro: conn_same_trans)
  ultimately show "conn_same x x'" by (rule conn_same_trans)
qed

lemma conn_same_server_channel: "server_channel S x e w = Some (x', w') \<Longrightarrow> conn_same x x'"
proof -
  assume a: "server_channel S x e w = Some (x', w')"
  obtain y v where y: "(if ev_readable e then
                   (if client_writable x then try_read_server S x w
                    else Some (x\<lparr>cc_read_server := True\<rparr>, w))
                 else Some (x, w)) = Some (y, v)"
    "(if ev_writable e then try_send_server S (y\<lparr>cc_server_conn := established (tls_provider S) (cc_server_conn y)\<rparr>) v
      else Some (y, v)) = Some (x', w')"
    using a unfolding server_channel_def by (auto split: bind_splits)
  have rd: "conn_same x z" if "try_read_server S x w = Some (z, u)" for z u
    using that by (auto simp: try_read_server_def split: bind_splits option.splits
        dest!: conn_same_send_client conn_same_read intro: conn_same_trans)
  have "conn_same x y" using y(1) by (auto split: if_splits dest!: rd)
  moreover have "conn_same y x'"
    using y(2) conn_same_remote [OF tls_established_evolves [of "cc_server_conn y" S]]
    by (auto split: if_splits dest!: conn_same_send_server intro: conn_same_trans)
  ultimately show "conn_same x x'" by (rule conn_same_trans)
qed

lemma conn_same_check_both: "client_check_both S x w = Some (x', w') \<Longrightarrow> conn_same x x'"
proof -
  assume "client_check_both S x w = Some (x', w')"
  then obtain y v t where c: "check_status (client_provider S) x w = Some (y, v)"
    "tls_check_status S (cc_server_conn y) v = Some (t, w')" "x' = y\<lparr>cc_server_conn := t\<rparr>"
    by (auto simp: client_check_both_def split: bind_splits)
  obtain s where y: "y = x\<lparr>cc_status := s\<rparr>" "cc_status x \<le> s"
    using client_check_frame [OF c(1)] by metis
  show "conn_same x x'" using tls_check_status_evolves [OF c(2)] unfolding c(3) y by (simp add: conn_same_def y(2))
qed

lemma conn_same_propagate: "conn_same x (client_propagate S x)"
proof -
  obtain st t where e: "client_propagate S x = x\<lparr>cc_status := st, cc_server_conn := t\<rparr>" "cc_status x \<le> st"
    "tls_evolves (cc_server_conn x) t" using client_propagate_frame [of S x] by metis
  then show ?thesis by (simp add: conn_same_def)
qed

lemma conn_same_ready: "client_ready S x e w = Some (x', w') \<Longrightarrow> conn_same x x'"
proof -
  assume a: "client_ready S x e w = Some (x', w')"
  obtain now v where t: "instant_now S w = (now, v)" by (cases "instant_now S w")
  with a obtain y u where y: "client_event S (x\<lparr>cc_last_active_time := now\<rparr>) e v = Some (y, u)"
    "client_check_both S (client_propagate S y) u = Some (x', w')"
    by (auto simp: client_ready_def split: bind_splits)
  have "conn_same (x\<lparr>cc_last_active_time := now\<rparr>) y"
    using y(1) by (auto simp: client_event_def Let_def split: if_splits
        dest: conn_same_client_channel conn_same_server_channel conn_same_shutdown)
  then show "conn_same x x'"
    using conn_same_trans [OF conn_same_propagate conn_same_check_both [OF y(2)]] by (auto intro: conn_same_trans)
qed

lemma conn_same_destroy: "client_destroy S x w = Some (x', w') \<Longrightarrow> conn_same x x'"
proof -
  assume a: "client_destroy S x w = Some (x', w')"
  obtain y v where y: "client_shutdown S x w = (y, v)" by (cases "client_shutdown S x w")
  obtain t u where t: "tls_shutdown S (cc_server_conn y) v = (t, u)" by (cases "tls_shutdown S (cc_server_conn y) v")
  have "client_check_both S (y\<lparr>cc_server_conn := t\<rparr>) u = Some (x', w')"
    using a y t by (simp add: client_destroy_def remote_shutdown_def)
  from conn_same_trans [OF conn_same_shutdown [OF y] conn_same_trans [OF conn_same_remote [OF tls_shutdown_evolves [OF t]]
      conn_same_check_both [OF this]]] show "conn_same x x'" .
qed

section \<open>The table of TCP connections\<close>

text \<open>Every connection is filed under its own index, and its TLS connection carries that index and the token
  of the server channel; every destroyed connection that is still in the table is listed for removal.\<close>

definition client_ok :: "usize \<Rightarrow> client_conn \<Rightarrow> bool" where
  "client_ok i c \<longleftrightarrow> proxy_index_ok i \<and> cc_index c = i \<and> tc_index (cc_server_conn c) = i \<and>
     channel_token i CHANNEL_TCP = Some (tc_token (cc_server_conn c))"

definition tcp_table :: "tcp_server \<Rightarrow> bool" where
  "tcp_table srv \<longleftrightarrow> proxy_index_ok (tps_next_id srv) \<and> table_ok client_ok (tps_conns srv) \<and>
     dead_listed client_destroyed (tps_conns srv) (tps_removed srv)"

abbreviation proxy_pool :: "idle_pool \<Rightarrow> bool" where
  "proxy_pool \<equiv> pool_inv PROXY_MIN_INDEX (PROXY_MAX_INDEX - 1)"

definition proxy_inv :: "proxy_loop \<Rightarrow> bool" where
  "proxy_inv l \<longleftrightarrow> tcp_table (pl_tcp l) \<and> proxy_pool (pl_pool l)"

lemma client_ok_same: "conn_same c c' \<Longrightarrow> client_ok i c \<Longrightarrow> client_ok i c'"
  by (simp add: conn_same_def client_ok_def tls_evolves_def)

lemma tcp_table_new: "tcp_table (tcp_server_new listener)"
  by (simp add: tcp_table_def tcp_server_new_def proxy_index_first table_ok_def dead_listed_def)

lemma client_destroy_returns: "client_destroy S c w \<noteq> None"
proof -
  have a: "check_status (client_provider S) c w \<noteq> None" for c w
    using client.check_status_returns [of S c w] by (simp add: client_provider_def)
  have b: "tls_check_status S t w \<noteq> None" for t w
    using tls.check_status_returns [of S t w] by (simp add: tls_check_status_def)
  show ?thesis
    using a b by (auto simp: client_destroy_def client_check_both_def bind_eq_None_conv simp del: not_None_eq split: prod.splits)
qed

interpretation proxy_table: conn_table "client_expire S cfg now" client_destroyed client_ok for S :: "'w sys" and cfg now
proof
  show "client_expire S cfg now c w \<noteq> None" for c w
    using client_destroy_returns [of S c w] by (simp add: client_expire_def)
  show "client_ok i c'" if "client_expire S cfg now c w = Some (c', w')" "client_ok i c" for i c c' w w'
    using that client_ok_same [OF conn_same_destroy] by (auto simp: client_expire_def split: if_splits)
qed

lemma proxy_pool_get: "pool_get S p r w = Some (x, p', r', w') \<Longrightarrow> proxy_pool p \<Longrightarrow> proxy_pool p'"
  using pool_get_loop_spec [of PROXY_MIN_INDEX "PROXY_MAX_INDEX - 1" p S "ip_size p" r w] by (auto simp: pool_get_def)

lemma tls_reset_index_ident:
  "tls_reset_index S t i k w = (ok, t', w') \<Longrightarrow> tc_index t' = i \<and> tc_token t' = k"
  by (auto simp: tls_reset_index_def tls_reregister_def dest!: tls_shutdown_evolves
      simp: tls_evolves_def split: prod.splits sum.splits)

text \<open>A client that is set up has the identity the server gave it, and is not destroyed.\<close>

lemma client_made:
  assumes "client_conn_new S i t dst k w = (c, w1)" and "client_setup S cfg c w1 = Some (ok, c', w2)"
    and "tc_index t = i" and "channel_token i CHANNEL_TCP = Some (tc_token t)" and "proxy_index_ok i"
  shows "client_ok i c' \<and> \<not> client_destroyed c'"
proof -
  from assms(2) obtain b v w3 where ws: "tls_write_session S (cc_server_conn c) (trojan_request_generate cfg [] CONNECT (cc_dst_addr c)) w1 = (b, v, w3)"
    and c': "c' = c\<lparr>cc_server_conn := v\<rparr>"
    by (auto simp: client_setup_def Let_def split: bind_splits prod.splits if_splits sum.splits)
  from tls_write_session_evolves [OF ws] c' assms(1,3-5) show ?thesis
    by (auto simp: client_conn_new_def client_ok_def tls_evolves_def client_destroyed_def is_deregistered_def
        split: prod.splits)
qed

lemma tcp_server_admit_table:
  assumes "tcp_server_admit S cfg srv pool rv k dst w = Some (srv', pool', rv', w')" and "tcp_table srv" and "proxy_pool pool"
  shows "tcp_table srv' \<and> proxy_pool pool'"
proof -
  from assms(1) obtain x pool1 rv1 w1 where g: "pool_get S pool rv w = Some (x, pool1, rv1, w1)"
    by (auto simp: tcp_server_admit_def Let_def split: bind_splits)
  have p: "proxy_pool pool1" using proxy_pool_get [OF g assms(3)] .
  let ?i = "tps_next_id srv"
  have iok: "proxy_index_ok ?i" using assms(2) by (simp add: tcp_table_def)
  obtain j where j: "proxy_next_index ?i = Some (?i, j)" "proxy_index_ok j" using proxy_next_index_step [OF iok] by blast
  obtain tk where tk: "channel_token ?i CHANNEL_TCP = Some tk"
    using channel_token_spec [OF iok channels_small, of CHANNEL_TCP] by blast
  show ?thesis
  proof (cases x)
    case None
    with assms g p show ?thesis by (simp add: tcp_server_admit_def)
  next
    case (Some conn)
    obtain ok t w2 where ri: "tls_reset_index S conn ?i tk w1 = (ok, t, w2)" by (cases "tls_reset_index S conn ?i tk w1")
    note id = tls_reset_index_ident [OF ri]
    have "srv' = srv\<lparr>tps_next_id := j\<rparr> \<and> pool' = pool1 \<or>
      (\<exists>c. client_ok ?i c \<and> \<not> client_destroyed c \<and> pool' = pool1 \<and>
         srv' = srv\<lparr>tps_next_id := j, tps_conns := (tps_conns srv)(?i \<mapsto> c)\<rparr>)"
    proof (cases ok)
      case True
      obtain c w3 where new: "client_conn_new S ?i t dst k w2 = (c, w3)" by (cases "client_conn_new S ?i t dst k w2")
      from assms(1) g Some j(1) tk ri True new obtain ok2 c2 w4 where
        su: "client_setup S cfg c w3 = Some (ok2, c2, w4)"
        by (auto simp: tcp_server_admit_def Let_def split: bind_splits)
      have made: "client_ok ?i c2 \<and> \<not> client_destroyed c2"
        by (rule client_made [OF new su]) (use id tk iok in simp_all)
      then have "cc_index c2 = ?i" by (simp add: client_ok_def)
      with assms(1) g Some j(1) tk ri True new su made show ?thesis
        by (auto simp: tcp_server_admit_def Let_def split: bind_splits if_splits)
    qed (use assms(1) g Some j(1) tk ri in \<open>auto simp: tcp_server_admit_def Let_def split: bind_splits\<close>)
    then show ?thesis
    proof (elim disjE exE conjE)
      fix c assume c: "client_ok ?i c" "\<not> client_destroyed c" "pool' = pool1"
        "srv' = srv\<lparr>tps_next_id := j, tps_conns := (tps_conns srv)(?i \<mapsto> c)\<rparr>"
      obtain r where r: "tps_removed srv = Some r" "dead_listed client_destroyed (tps_conns srv) (Some r)"
        using assms(2) by (auto simp: tcp_table_def dead_listed_def)
      have "dead_listed client_destroyed ((tps_conns srv)(?i \<mapsto> c)) (Some r)"
        using dead_listed_update [OF r(2), of ?i c] c(2) by simp
      with c p j(2) r(1) table_ok_update [of client_ok "tps_conns srv" ?i c] assms(2) show ?thesis
        by (simp add: tcp_table_def)
    qed (use assms(2) p j(2) in \<open>simp add: tcp_table_def\<close>)
  qed
qed

lemma tcp_server_accept_table:
  assumes "tcp_server_accept S cfg srv pool rv w = Some (srv', pool', rv', w')" and "tcp_table srv" and "proxy_pool pool"
  shows "tcp_table srv' \<and> proxy_pool pool'"
proof -
  have "tcp_table srv \<and> proxy_pool pool \<longrightarrow> tcp_table (fst r) \<and> proxy_pool (fst (snd r))"
    if "tcp_server_accept S cfg srv pool rv w = Some r" for r
  proof (rule tcp_server_accept.raw_induct [where P = "\<lambda>S cfg srv pool rv w r. tcp_table srv \<and> proxy_pool pool \<longrightarrow>
      tcp_table (fst r) \<and> proxy_pool (fst (snd r))", OF _ that], goal_cases)
    case (1 f S cfg srv pool rv w r)
    from 1(2) obtain x srv1 pool1 rv1 w1 where o: "tcp_accept_once S cfg srv pool rv w = Some (x, srv1, pool1, rv1, w1)"
      and rest: "(if x = Inl (StdIo WouldBlock) then Some (srv1, pool1, rv1, w1) else f S cfg srv1 pool1 rv1 w1) = Some r"
      by (auto split: bind_splits)
    have "tcp_table srv1 \<and> proxy_pool pool1" if "tcp_table srv \<and> proxy_pool pool"
      using o that by (auto simp: tcp_accept_once_def split: prod.splits sum.splits bind_splits dest: tcp_server_admit_table)
    with rest show ?case by (auto split: if_splits dest!: 1(1))
  qed
  from this [OF assms(1)] assms(2,3) show ?thesis by simp
qed

lemma tcp_server_ready_table:
  assumes "tcp_server_ready S srv e w = Some (srv', w')" and "tcp_table srv"
  shows "tcp_table srv'"
proof (cases "tps_conns srv (proxy_token2index (ev_token e))")
  case None
  with assms show ?thesis by (simp add: tcp_server_ready_def)
next
  case (Some c)
  let ?i = "proxy_token2index (ev_token e)"
  from assms(1) Some obtain c' w1 where rd: "client_ready S c e w = Some (c', w1)"
    by (auto simp: tcp_server_ready_def Let_def split: bind_splits)
  obtain r where r: "tps_removed srv = Some r" "dead_listed client_destroyed (tps_conns srv) (Some r)"
    using assms(2) by (auto simp: tcp_table_def dead_listed_def)
  have "client_ok ?i c'"
    using client_ok_same [OF conn_same_ready [OF rd]] assms(2) Some by (simp add: tcp_table_def table_ok_def)
  moreover have "srv' = srv\<lparr>tps_conns := (tps_conns srv)(?i \<mapsto> c'), tps_removed := Some (if client_destroyed c' then r @ [?i] else r)\<rparr>"
    using assms(1) Some rd r(1) by (auto simp: tcp_server_ready_def Let_def split: if_splits)
  ultimately show ?thesis
    using assms(2) dead_listed_update [OF r(2), of ?i c'] table_ok_update [of client_ok "tps_conns srv" ?i c']
    by (simp add: tcp_table_def)
qed

lemma tcp_remove_closed_table:
  assumes "tcp_server_remove_closed srv = Some srv'" and "tcp_table srv"
  shows "tcp_table srv' \<and> none_dead client_destroyed (tps_conns srv')"
proof -
  obtain r where r: "tps_removed srv = Some r" "dead_listed client_destroyed (tps_conns srv) (Some r)"
    using assms(2) by (auto simp: tcp_table_def dead_listed_def)
  show ?thesis
  proof (cases "r = []")
    case True
    with assms r dead_listed_empty show ?thesis by (auto simp: tcp_server_remove_closed_def)
  next
    case False
    with assms r dead_listed_removed [OF r(2)] remove_all_ok [of client_ok "tps_conns srv" r] none_dead_listed show ?thesis
      by (auto simp: tcp_server_remove_closed_def tcp_table_def)
  qed
qed

lemma tcp_check_timeout_table:
  assumes "tcp_server_check_timeout order S cfg srv now w = Some (srv', w')" and "iterates order" and "tcp_table srv"
  shows "tcp_table srv' \<and> none_dead client_destroyed (tps_conns srv')"
proof -
  obtain r where r: "tps_removed srv = Some r" using assms(3) by (auto simp: tcp_table_def dead_listed_def)
  have "table_ok client_ok (tps_conns srv)" using assms(3) by (simp add: tcp_table_def)
  from proxy_table.scan_and_remove [OF assms(2) this, of S cfg now w] assms(1) r assms(3) none_dead_listed show ?thesis
    by (auto simp: tcp_server_check_timeout_def tcp_table_def)
qed

section \<open>The loop\<close>

lemma udp_accept_pool:
  assumes "udp_server_accept S cfg srv pool cache rv w = Some (srv', pool', cache', rv', w')" and "proxy_pool pool"
  shows "proxy_pool pool'"
proof -
  have "proxy_pool pool \<longrightarrow> proxy_pool (fst (snd r))" if "udp_server_accept S cfg srv pool cache rv w = Some r" for r
  proof (rule udp_server_accept.raw_induct
      [where P = "\<lambda>S cfg srv pool cache rv w r. proxy_pool pool \<longrightarrow> proxy_pool (fst (snd r))", OF _ that], goal_cases)
    case (1 f S cfg srv pool cache rv w r)
    from 1(2) obtain x srv1 pool1 cache1 rv1 w1 where o: "udp_accept_once S cfg srv pool cache rv w = Some (x, srv1, pool1, cache1, rv1, w1)"
      and rest: "(if x = Inl (StdIo WouldBlock) then Some (srv1, pool1, cache1, rv1, w1) else f S cfg srv1 pool1 cache1 rv1 w1) = Some r"
      by (auto split: bind_splits)
    have op: "proxy_pool p'" if "udp_server_open S cfg srv pool cache rv a b v = Some (y, s', p', c', rv', v')" "proxy_pool pool"
      for a b v y s' p' c' rv' v'
      using that by (auto simp: udp_server_open_def split: bind_splits option.splits prod.splits dest: proxy_pool_get)
    have "pool1 = pool \<or> (\<exists>a b v y s' c' rv' v'. udp_server_open S cfg srv pool cache rv a b v = Some (y, s', pool1, c', rv', v'))"
      using o by (auto simp: udp_accept_once_def split: bind_splits sum.splits if_splits option.splits)
    then have "proxy_pool pool1" if "proxy_pool pool" using that op by auto
    with rest show ?case by (auto split: if_splits dest!: 1(1))
  qed
  from this [OF assms(1)] assms(2) show ?thesis by simp
qed

lemma consume_pool:
  assumes "consume S (\<lambda>_ ip pool w. Some (pool_resolve pool ip, w)) rv pool w = Some (rv', pool', w')" and "proxy_pool pool"
  shows "proxy_pool pool'"
proof -
  have "proxy_pool p'" if "consume_messages S (\<lambda>_ ip pool w. Some (pool_resolve pool ip, w)) r ms p v = Some (r', p', v')" "proxy_pool p"
    for r ms p v r' p' v'
    using that
  proof (induction ms arbitrary: r p v)
    case (Cons m ms)
    obtain t d ip where m: "m = (t, d, ip)" by (cases m)
    have "proxy_pool (pool_resolve p ip)"
      using Cons.prems(2) by (simp add: pool_resolve_def pool_inv_def pool_index_ok_def split: option.split)
    with Cons.IH Cons.prems(1) show ?case by (auto simp: m split: bind_splits)
  qed simp
  with assms show ?thesis by (auto simp: consume_def split: if_splits bind_splits)
qed

lemma proxy_event_inv:
  assumes "tls_input_finite S pin" and "tls_output_ends S pout"
    and "proxy_event S cfg l e w = Some (l', w')" and "proxy_inv l"
  shows "proxy_inv l'"
proof -
  have rd: "proxy_pool p'" if "pool_ready S p e v = Some (p', v')" "proxy_pool p" for p p' v v'
    using pool_ready_spec [OF assms(1,2) that(2), of e v] that(1) by auto
  show ?thesis
    using assms(3,4)
    by (auto simp: proxy_event_def proxy_inv_def split: if_splits bind_splits
        dest: tcp_server_accept_table udp_accept_pool consume_pool rd tcp_server_ready_table)
qed

lemma proxy_events_inv:
  assumes "tls_input_finite S pin" and "tls_output_ends S pout"
  shows "proxy_events S cfg l es w = Some (l', w') \<Longrightarrow> proxy_inv l \<Longrightarrow> proxy_inv l'"
  by (induction es arbitrary: l w) (auto split: bind_splits dest: proxy_event_inv [OF assms])

lemma proxy_round_inv:
  assumes "tls_input_finite S pin" and "tls_output_ends S pout" and "iterates order"
    and "proxy_round order S cfg l es w = Some (l', w')" and "proxy_inv l"
  shows "proxy_inv l' \<and> none_dead client_destroyed (tps_conns (pl_tcp l'))"
proof -
  from assms(4) obtain l1 w1 udp tcp where ev: "proxy_events S cfg l es w = Some (l1, w1)"
    and rm: "udp_server_remove_closed (pl_udp l1) = Some udp" "tcp_server_remove_closed (pl_tcp l1) = Some tcp"
    by (auto simp: proxy_round_def split: bind_splits)
  let ?l = "l1\<lparr>pl_udp := udp, pl_tcp := tcp\<rparr>"
  have 1: "proxy_inv l1" by (rule proxy_events_inv [OF assms(1,2) ev assms(5)])
  then have t: "tcp_table tcp \<and> none_dead client_destroyed (tps_conns tcp)"
    using tcp_remove_closed_table [OF rm(2)] by (simp add: proxy_inv_def)
  obtain now w2 where now: "instant_now S w1 = (now, w2)" by (cases "instant_now S w1")
  show ?thesis
  proof (cases "duration_from_secs 1 < now - pl_last_check_time l1")
    case False
    with assms(4) ev rm now t 1 show ?thesis by (auto simp: proxy_round_def proxy_inv_def)
  next
    case True
    with assms(4) ev rm now have "proxy_sweep order S cfg ?l now w2 = Some (l', w')" by (simp add: proxy_round_def)
    then obtain tcp2 w3 pool2 where sw: "tcp_server_check_timeout order S cfg tcp now w2 = Some (tcp2, w3)"
      "pool_check_timeout S (pl_pool l1) w3 = Some (pool2, w')" "pl_tcp l' = tcp2" "pl_pool l' = pool2"
      by (auto simp: proxy_sweep_def Let_def split: bind_splits)
    have "proxy_pool pool2"
      using pool_check_timeout_spec [OF assms(1), of PROXY_MIN_INDEX "PROXY_MAX_INDEX - 1" "pl_pool l1" w3] sw(2) 1 by (auto simp: proxy_inv_def)
    with sw tcp_check_timeout_table [OF sw(1) assms(3)] t show ?thesis by (simp add: proxy_inv_def)
  qed
qed

section \<open>Properties\<close>

fun proxy_rounds :: "((usize \<rightharpoonup> client_conn) \<Rightarrow> usize list) \<Rightarrow> 'w sys \<Rightarrow> opts \<Rightarrow> proxy_loop \<Rightarrow>
    net_event list list \<Rightarrow> 'w \<Rightarrow> (proxy_loop \<times> 'w) rs" where
  "proxy_rounds order S cfg l [] w = Some (l, w)"
| "proxy_rounds order S cfg l (es # ess) w = do {
     (l, w) \<leftarrow> proxy_round order S cfg l es w;
     proxy_rounds order S cfg l ess w }"

lemma proxy_start_inv:
  assumes "proxy_start S name_ok cfg w = Some (Inr l, w')"
  shows "proxy_inv l \<and> tps_conns (pl_tcp l) = Map.empty"
proof -
  let ?hi = "PROXY_MAX_INDEX - 1"
  have hi: "unat ?hi = 2 ^ 62 - 2"
    using unat_sub [of 1 PROXY_MAX_INDEX] unat_PROXY_MAX by (simp add: word_le_nat_alt)
  have fit: "PROXY_MIN_INDEX \<le> ?hi" "unat PROXY_MAX_INDEX = unat ?hi + 1" "unat ?hi * unat CHANNEL_CNT4 + unat CHANNEL_IDLE < 2 ^ 64"
    using hi unat_PROXY_MAX by (simp_all add: word_le_nat_alt proxy_consts)
  obtain args :: proxy_args and pool r w1 w2 k where s: "pool_new cfg (pa_pool_size args + 1) (pa_port args) (pa_hostname args) = Some pool"
    "pool_init S (pool_init_index pool CHANNEL_CNT4 CHANNEL_IDLE PROXY_MIN_INDEX PROXY_MAX_INDEX) (resolver_new PROXY_RESOLVER None) w1
      = Some (pl_pool l, r, w2)" "pl_tcp l = tcp_server_new k"
    using assms by (auto simp: proxy_start_def Let_def split: prod.splits sum.splits bind_splits option.splits if_splits)
  have "proxy_pool (pl_pool l)"
    using pool_new_inv [OF s(1) fit] s(2) pool_alloc_spec [OF pool_new_inv [OF s(1) fit], of S "resolver_new PROXY_RESOLVER None" w1]
    by (auto simp: pool_init_def split: if_splits)
  with s(3) tcp_table_new show ?thesis by (simp add: proxy_inv_def tcp_server_new_def)
qed

lemma proxy_rounds_inv:
  assumes "tls_input_finite S pin" and "tls_output_ends S pout" and "iterates order"
  shows "proxy_rounds order S cfg l ess w = Some (l', w') \<Longrightarrow> proxy_inv l \<Longrightarrow>
    proxy_inv l' \<and> (none_dead client_destroyed (tps_conns (pl_tcp l)) \<longrightarrow> none_dead client_destroyed (tps_conns (pl_tcp l')))"
proof (induction ess arbitrary: l w)
  case (Cons es ess)
  then obtain l1 w1 where r: "proxy_round order S cfg l es w = Some (l1, w1)"
    "proxy_rounds order S cfg l1 ess w1 = Some (l', w')" by (auto split: bind_splits)
  from proxy_round_inv [OF assms r(1) Cons.prems(2)] Cons.IH [OF r(2)] show ?case by blast
qed simp

text \<open>C39. A running proxy: from its start and through any rounds of events, every TCP connection in the table is
  filed under its own index, and its TLS connection carries the token that leads events back to that
  index on the server channel; between rounds no destroyed connection is left in the table. The
  idle pool never holds more connections than configured, each live and with a token of the idle channel, so
  that no event of a pooled connection can reach one of the servers.\<close>

theorem proxy_run_invariant:
  assumes "tls_input_finite S pin" and "tls_output_ends S pout" and "iterates order"
    and "proxy_start S name_ok cfg w = Some (Inr l, w0)" and "proxy_rounds order S cfg l ess w1 = Some (l', w')"
  shows "(\<forall>i c. tps_conns (pl_tcp l') i = Some c \<longrightarrow> cc_index c = i \<and> \<not> client_destroyed c \<and>
      proxy_token2index (tc_token (cc_server_conn c)) = i \<and> tc_token (cc_server_conn c) mod CHANNEL_CNT4 = CHANNEL_TCP) \<and>
    length (ip_pool (pl_pool l')) \<le> ip_size (pl_pool l') \<and> proxy_pool (pl_pool l')"
proof -
  note st = proxy_start_inv [OF assms(4)]
  have "none_dead client_destroyed (tps_conns (pl_tcp l))" using st by (simp add: none_dead_def)
  with proxy_rounds_inv [OF assms(1-3,5)] st have inv: "proxy_inv l'" and
    nd: "none_dead client_destroyed (tps_conns (pl_tcp l'))" by blast+
  have "cc_index c = i \<and> \<not> client_destroyed c \<and> proxy_token2index (tc_token (cc_server_conn c)) = i \<and>
      tc_token (cc_server_conn c) mod CHANNEL_CNT4 = CHANNEL_TCP" if c: "tps_conns (pl_tcp l') i = Some c" for i c
  proof -
    have ok: "client_ok i c" using inv c by (simp add: proxy_inv_def tcp_table_def table_ok_def)
    with channel_token_spec [of i CHANNEL_TCP] channels_small [of CHANNEL_TCP] c nd show ?thesis
      by (auto simp: client_ok_def none_dead_def)
  qed
  with inv show ?thesis by (auto simp: proxy_inv_def pool_inv_def)
qed

definition sample_proxy :: opts where
  "sample_proxy = sample_ready\<lparr>mode := Proxy \<lparr>pa_hostname = [97], pa_port = 443, pa_pool_size = 0\<rparr>,
     local_addr := [49, 50, 55, 46, 48, 46, 48, 46, 49, 58, 56, 48]\<rparr>"

theorem proxy_run_invariant_witness:
  "\<exists>l w0 l' w'. proxy_start sim_sys (\<lambda>name. name \<noteq> []) sample_proxy sim_idle = Some (Inr l, w0) \<and>
     proxy_rounds ascending sim_sys sample_proxy l [[\<lparr>ev_token = 1, ev_readable = True, ev_writable = False\<rparr>], []] w0 = Some (l', w') \<and>
     proxy_pool (pl_pool l')"
proof -
  let ?e = "\<lparr>ev_token = 1, ev_readable = True, ev_writable = False\<rparr>"
  have ad: "parse_socket_addr [49, 50, 55, 46, 48, 46, 48, 46, 49, 58, 56, 48] = Some (V4 (Ipv4Addr 127 0 0 1) 80)"
    by (simp add: parse_socket_addr_def read_socket_addr_v4_def read_ipv4_addr_def read_port_def net_parse_simps)
  obtain l w0 where st: "proxy_start sim_sys (\<lambda>name. name \<noteq> []) sample_proxy sim_idle = Some (Inr l, w0)"
    and l: "pl_udp l = udp_server_new 11" "pl_tcp l = tcp_server_new 10" "pl_last_check_time l = 0" "sim_now w0 = 0"
    by (simp add: proxy_start_def ad new_socket_def set_socket_opts_def sim_fresh_def sim_idle_def sample_proxy_def
        get_proxy_args_def pool_new_def sample_ready_def sample_opts_def pool_init_def pool_init_index_def unspecified_v4_def)
  have "tcp_server_accept sim_sys sample_proxy (tcp_server_new 10) p r w0 = Some (tcp_server_new 10, p, r, w0)" for p r
    by (simp add: tcp_server_accept.simps [of sim_sys] tcp_accept_once_def)
  then have "\<exists>l' w'. proxy_rounds ascending sim_sys sample_proxy l [[?e], []] w0 = Some (l', w')"
    using l by (simp add: proxy_round_def proxy_event_def proxy_consts udp_server_remove_closed_def udp_server_new_def
        tcp_server_remove_closed_def tcp_server_new_def duration_from_secs_def)
  then obtain l' w' where r: "proxy_rounds ascending sim_sys sample_proxy l [[?e], []] w0 = Some (l', w')" by blast
  from proxy_run_invariant [OF sim_input_finite sim_output_finite ascending_iterates st r] st r show ?thesis by blast
qed

end
