(* ===== verification/Proxy_Sockets.thy ===== *)
theory Proxy_Sockets
  imports Proxy_Udp
begin

text \<open>
  The sockets of the proxy's UDP side: the cache of \<open>src/src/proxy/udp_cache.rs\<close> and the connections that use
  its sockets. A socket is shared by the cache and by every connection that answers from its address.
\<close>

section \<open>Cached sockets\<close>

definition cached :: "udp_svr_cache \<Rightarrow> sock \<Rightarrow> bool" where
  "cached cache s \<longleftrightarrow> (\<exists>a. uc_conns cache a = Some s)"

lemma get_socket_cached:
  assumes "get_socket S cache a w = (x, cache', w')"
  shows "uc_conns cache \<subseteq>\<^sub>m uc_conns cache' \<and> (\<forall>s. x = Some s \<longrightarrow> uc_conns cache' a = Some s)"
  using assms by (auto simp: get_socket_def map_le_def split: option.splits prod.splits sum.splits)

lemma cached_grows: "uc_conns cache \<subseteq>\<^sub>m uc_conns cache' \<Longrightarrow> cached cache s \<Longrightarrow> cached cache' s"
  by (auto simp: cached_def map_le_def dom_def) (metis option.distinct(1))

text \<open>Sending to the client keeps every cached socket, and leaves the connection with a cached one.\<close>

definition sockets_kept :: "udp_svr_cache \<Rightarrow> udp_conn \<Rightarrow> udp_svr_cache \<Rightarrow> udp_conn \<Rightarrow> bool" where
  "sockets_kept cache c cache' c' \<longleftrightarrow> uc_conns cache \<subseteq>\<^sub>m uc_conns cache' \<and>
     (cached cache (uu_socket c) \<longrightarrow> cached cache' (uu_socket c'))"

lemma sockets_kept_trans:
  "sockets_kept cache c cache1 c1 \<Longrightarrow> sockets_kept cache1 c1 cache2 c2 \<Longrightarrow> sockets_kept cache c cache2 c2"
  by (auto simp: sockets_kept_def intro: map_le_trans)

lemma sockets_kept_same [simp]: "uu_socket c' = uu_socket c \<Longrightarrow> sockets_kept cache c cache c'"
  by (simp add: sockets_kept_def)

lemma udp_do_send_udp_sockets:
  "udp_do_send_udp S c a d cache w = (c', cache', w') \<Longrightarrow> sockets_kept cache c cache' c'"
proof -
  have get: "uc_conns cache \<subseteq>\<^sub>m uc_conns cache1 \<and> (\<forall>s. x = Some s \<longrightarrow> cached cache1 s)"
    if "get_socket S cache a w = (x, cache1, v)" for x cache1 v
    using get_socket_cached [OF that] by (auto simp: cached_def)
  show "udp_do_send_udp S c a d cache w = (c', cache', w') \<Longrightarrow> sockets_kept cache c cache' c'"
    by (auto simp: udp_do_send_udp_def sockets_kept_def dest!: get
        split: prod.splits sum.splits if_splits option.splits bool.splits intro: cached_grows)
qed

lemma udp_do_send_client_sockets:
  "udp_do_send_client S c b cache w = Some (c', cache', w') \<Longrightarrow> sockets_kept cache c cache' c'"
proof (induction S c b cache w rule: udp_do_send_client.induct)
  case (1 S c b cache w)
  from 1(2) show ?case
    unfolding udp_do_send_client.simps [of S c b]
    by (auto dest!: 1(1) dest: udp_do_send_udp_sockets intro: sockets_kept_trans
        split: option.splits udp_parse_result.splits if_splits prod.splits)
qed

lemma udp_do_status_socket: "udp_do_status S c w = Some (c', w') \<Longrightarrow> uu_socket c' = uu_socket c"
proof -
  have ck: "uu_socket c1 = uu_socket c0" if "check_status (udp_conn_provider S) c0 v = Some (c1, v')" for c0 c1 v v'
    using udp_conn_check_frame [OF that] by (metis udp_conn.select_convs(7) udp_conn.surjective udp_conn.update_convs(6))
  show "udp_do_status S c w = Some (c', w') \<Longrightarrow> uu_socket c' = uu_socket c"
    by (auto simp: udp_do_status_def Let_def udp_conn_peer_closed_frame dest!: ck split: bind_splits if_splits)
qed

lemma udp_send_request_socket: "udp_send_request S c d a w = Some (c', w') \<Longrightarrow> uu_socket c' = uu_socket c"
proof -
  have sd: "uu_socket c1 = uu_socket c0" if "udp_conn_shutdown S c0 v = (c1, v')" for c0 c1 v v'
    using udp_conn_shutdown_frame [OF that] by simp
  have fw: "uu_socket c1 = uu_socket c0" if "udp_forward S c0 d a v = (c1, v')" for c0 c1 v v'
    using that by (auto simp: udp_forward_def Let_def split: prod.splits bool.splits)
  show "udp_send_request S c d a w = Some (c', w') \<Longrightarrow> uu_socket c' = uu_socket c"
    by (auto simp: udp_send_request_def udp_try_send_server_def dest!: udp_do_status_socket sd fw
        split: prod.splits if_splits bind_splits)
qed

lemma udp_conn_ready_sockets:
  assumes "udp_conn_ready S c e cache w = Some (c', cache', w')"
  shows "sockets_kept cache c cache' c'"
proof -
  obtain now w0 where now: "instant_now S w = (now, w0)" by (cases "instant_now S w")
  let ?c = "c\<lparr>uu_last_active := now\<rparr>"
  obtain c1 w1 c2 w2 where r: "(if ev_readable e then udp_try_read_server S ?c cache w0 else Some (?c, cache, w0)) = Some (c1, cache', w1)"
    "(if ev_writable e then udp_try_send_server S (c1\<lparr>uu_server_conn := established (tls_provider S) (uu_server_conn c1)\<rparr>) w1
      else Some (c1, w1)) = Some (c2, w2)" "udp_do_status S c2 w2 = Some (c', w')"
    using assms now by (auto simp: udp_conn_ready_def Let_def split: bind_splits)
  have "sockets_kept cache c cache' c1"
    using r(1) by (auto simp: udp_try_read_server_def udp_try_send_client_def Let_def
        dest!: udp_do_send_client_sockets split: bind_splits if_splits option.splits) (auto simp: sockets_kept_def)
  moreover have "uu_socket c' = uu_socket c1"
    using udp_do_status_socket [OF r(3)] r(2) by (auto simp: udp_try_send_server_def split: if_splits bind_splits)
  ultimately show ?thesis by (simp add: sockets_kept_def)
qed

section \<open>The invariant\<close>

definition sockets_inv :: "udp_server \<Rightarrow> udp_svr_cache \<Rightarrow> bool" where
  "sockets_inv srv cache \<longleftrightarrow> udp_tables srv \<and> finite (dom (us_conns srv)) \<and> finite (dom (us_src_map srv)) \<and>
     (\<forall>i r c. us_conns srv i = Some r \<and> us_heap srv r = Some c \<longrightarrow> cached cache (uu_socket c))"

lemma sockets_inv_update:
  assumes "sockets_inv srv cache" and "us_heap srv r = Some c" and "udp_ident c' = udp_ident c" and "us_conns srv i = Some r"
    and "udp_list_removed (srv\<lparr>us_heap := (us_heap srv)(r \<mapsto> c')\<rparr>) c' i = Some srv'" and "sockets_kept cache c cache' c'"
  shows "sockets_inv srv' cache'"
proof -
  have t: "udp_tables srv'" using udp_tables_update [OF _ assms(2-5)] assms(1) by (simp add: sockets_inv_def)
  have eq: "us_conns srv' = us_conns srv" "us_src_map srv' = us_src_map srv" "us_heap srv' = (us_heap srv)(r \<mapsto> c')"
    using assms(5) by (auto simp: udp_list_removed_def split: if_splits bind_splits)
  have g: "uc_conns cache \<subseteq>\<^sub>m uc_conns cache'" using assms(6) by (simp add: sockets_kept_def)
  have "cached cache' (uu_socket d)" if "us_conns srv j = Some q" "((us_heap srv)(r \<mapsto> c')) q = Some d" for j q d
  proof (cases "q = r")
    case True
    with that assms(1,2,4,6) show ?thesis by (auto simp: sockets_inv_def sockets_kept_def)
  next
    case False
    with that assms(1) have "cached cache (uu_socket d)" by (auto simp: sockets_inv_def)
    with cached_grows [OF g] show ?thesis by simp
  qed
  with t eq assms(1) show ?thesis by (auto simp: sockets_inv_def)
qed

lemma sockets_inv_grows: "sockets_inv srv cache \<Longrightarrow> uc_conns cache \<subseteq>\<^sub>m uc_conns cache' \<Longrightarrow> sockets_inv srv cache'"
  by (auto simp: sockets_inv_def intro: cached_grows)

lemma sockets_inv_admit:
  assumes "udp_server_admit S cfg srv conn socket src w = Some (x, srv', w')" and "sockets_inv srv cache"
    and "us_src_map srv src = None" and "us_conns srv (us_next_id srv) = None" and "cached cache socket"
  shows "sockets_inv srv' cache \<and> (\<forall>r. x = Some r \<longrightarrow> (\<exists>c. us_heap srv' r = Some c \<and> us_conns srv' (uu_index c) = Some r))"
proof -
  have t: "udp_tables srv" using assms(2) by (simp add: sockets_inv_def)
  note ad = udp_server_admit_tables [OF assms(1) t assms(3,4)]
  have ok: "proxy_index_ok (us_next_id srv)" using t by (simp add: udp_tables_def)
  from assms(1) ok show ?thesis
  proof (cases rule: udp_server_admit_cases)
    case (skipped j)
    with ad assms(2) show ?thesis by (simp add: sockets_inv_def)
  next
    case (made j c)
    have "us_heap srv (us_fresh srv) = None" using udp_tables_heap [OF t] by blast
    then have "us_conns srv i \<noteq> Some (us_fresh srv)" for i using udp_tables_conns [OF t] by fastforce
    with ad made assms(2,5) show ?thesis by (auto simp: sockets_inv_def split: if_splits)
  qed
qed

lemma sockets_inv_open:
  assumes "udp_server_open S cfg srv pool cache rv src dst w = Some (x, srv', pool', cache', rv', w')"
    and "sockets_inv srv cache" and "us_src_map srv src = None" and "us_conns srv (us_next_id srv) = None"
  shows "sockets_inv srv' cache' \<and> (\<forall>r. x = Some r \<longrightarrow> (\<exists>c. us_heap srv' r = Some c \<and> us_conns srv' (uu_index c) = Some r))"
proof -
  have "srv' = srv \<and> cache' = cache \<and> x = None \<or> (\<exists>k v v'. get_socket S cache dst v = (k, cache', v') \<and>
      (k = None \<and> srv' = srv \<and> x = None \<or>
       (\<exists>socket conn u. k = Some socket \<and> udp_server_admit S cfg srv conn socket src v' = Some (x, srv', u))))"
    using assms(1) by (auto simp: udp_server_open_def split: bind_splits option.splits prod.splits)
  then show ?thesis
  proof (elim disjE exE conjE)
    fix k v v' assume g: "get_socket S cache dst v = (k, cache', v')" "srv' = srv" "x = None"
    from sockets_inv_grows [OF assms(2)] get_socket_cached [OF g(1)] g(2,3) show ?thesis by simp
  next
    fix k v v' socket conn u
    assume g: "get_socket S cache dst v = (k, cache', v')" "k = Some socket"
      "udp_server_admit S cfg srv conn socket src v' = Some (x, srv', u)"
    have "sockets_inv srv cache'" using sockets_inv_grows [OF assms(2)] get_socket_cached [OF g(1)] by simp
    moreover have "cached cache' socket" using get_socket_cached [OF g(1)] g(2) by (auto simp: cached_def)
    ultimately show ?thesis using sockets_inv_admit [OF g(3) _ assms(3,4)] by simp
  qed (use assms(2) in simp)
qed

lemma sockets_inv_accept:
  assumes "udp_accept_once S cfg srv pool cache rv w = Some (res, srv', pool', cache', rv', w')"
    and "sockets_inv srv cache" and "us_conns srv (us_next_id srv) = None"
  shows "sockets_inv srv' cache'"
proof -
  from assms(1) obtain r w1 where rc: "recv_from_with_destination S (us_listener srv) MAX_PACKET_SIZE w = Some (r, w1)"
    by (auto simp: udp_accept_once_def split: bind_splits)
  show ?thesis
  proof (cases r)
    case (Inl e)
    with assms(1,2) rc show ?thesis by (simp add: udp_accept_once_def)
  next
    case (Inr d)
    obtain bs src dst where d: "d = (bs, src, dst)" by (cases d)
    let ?find = "case us_src_map srv src of Some ref \<Rightarrow> Some (Some ref, srv, pool, cache, rv, w1)
      | None \<Rightarrow> udp_server_open S cfg srv pool cache rv src dst w1"
    from assms(1) rc Inr d obtain x srv1 pool1 rv1 w2 where
      f: "?find = Some (x, srv1, pool1, cache', rv1, w2)"
      and rest: "x = None \<and> srv' = srv1 \<or> (\<exists>ref c c' w3. x = Some ref \<and> us_heap srv1 ref = Some c \<and>
        udp_send_request S c bs dst w2 = Some (c', w3) \<and>
        udp_list_removed (srv1\<lparr>us_heap := (us_heap srv1)(ref \<mapsto> c')\<rparr>) c' (uu_index c') = Some srv')"
      by (auto simp: udp_accept_once_def split: bind_splits if_splits option.splits)
    have t1: "sockets_inv srv1 cache' \<and> (\<forall>r. x = Some r \<longrightarrow> (\<exists>c. us_heap srv1 r = Some c \<and> us_conns srv1 (uu_index c) = Some r))"
    proof (cases "us_src_map srv src")
      case None
      with f sockets_inv_open [OF _ assms(2) None assms(3)] show ?thesis by simp
    next
      case (Some ref)
      with f udp_tables_src [of srv src ref] assms(2) show ?thesis by (auto simp: sockets_inv_def)
    qed
    from rest show ?thesis
    proof (elim disjE exE conjE)
      fix ref c c' w3
      assume s: "x = Some ref" "us_heap srv1 ref = Some c" "udp_send_request S c bs dst w2 = Some (c', w3)"
        "udp_list_removed (srv1\<lparr>us_heap := (us_heap srv1)(ref \<mapsto> c')\<rparr>) c' (uu_index c') = Some srv'"
      note id = udp_send_request_ident [OF s(3)]
      have "us_conns srv1 (uu_index c') = Some ref" using t1 s(1,2) id by (auto simp: udp_ident_def)
      from sockets_inv_update [OF conjunct1 [OF t1] s(2) id this s(4)] udp_send_request_socket [OF s(3)] show ?thesis by simp
    qed (use t1 in simp)
  qed
qed

lemma sockets_inv_ready:
  assumes "udp_server_ready S srv e cache w = Some (srv', cache', w')" and "sockets_inv srv cache"
  shows "sockets_inv srv' cache'"
proof (cases "us_conns srv (proxy_token2index (ev_token e))")
  case None
  with assms show ?thesis by (simp add: udp_server_ready_def)
next
  case (Some ref)
  with assms(1) obtain c c' w1 where h: "us_heap srv ref = Some c"
    "udp_conn_ready S c e cache w = Some (c', cache', w1)"
    "udp_list_removed (srv\<lparr>us_heap := (us_heap srv)(ref \<mapsto> c')\<rparr>) c' (proxy_token2index (ev_token e)) = Some srv'"
    by (auto simp: udp_server_ready_def Let_def split: bind_splits)
  from sockets_inv_update [OF assms(2) h(1) udp_conn_ready_ident [OF h(2)] Some h(3) udp_conn_ready_sockets [OF h(2)]]
  show ?thesis .
qed

lemma sockets_inv_remove:
  assumes "udp_server_remove_closed srv = Some srv'" and "sockets_inv srv cache"
  shows "sockets_inv srv' cache"
proof -
  have t: "udp_tables srv'" using udp_remove_closed_tables [of srv] assms by (auto simp: sockets_inv_def)
  note le = udp_server_remove_shrinks [OF assms(1)]
  then have "dom (us_conns srv') \<subseteq> dom (us_conns srv)" "dom (us_src_map srv') \<subseteq> dom (us_src_map srv)"
    by (auto dest: map_le_implies_dom_le)
  then have "finite (dom (us_conns srv'))" "finite (dom (us_src_map srv'))"
    using assms(2) by (auto simp: sockets_inv_def intro: finite_subset)
  moreover have "cached cache (uu_socket c)" if "us_conns srv' i = Some r" "us_heap srv' r = Some c" for i r c
  proof -
    have "us_conns srv i = Some r" "us_heap srv r = Some c" using le that by (auto simp: map_le_def dom_def)
    with assms(2) show ?thesis unfolding sockets_inv_def by blast
  qed
  ultimately show ?thesis using t unfolding sockets_inv_def by blast
qed

text \<open>The sweep counts the connections that hold a socket.\<close>

lemma udp_held_pos:
  assumes "sockets_inv srv cache"
  shows "udp_held srv s \<noteq> 0 \<longleftrightarrow> (\<exists>i r c. us_conns srv i = Some r \<and> us_heap srv r = Some c \<and> uu_socket c = s)"
proof -
  have "finite (udp_live srv)" using assms by (simp add: sockets_inv_def udp_live_def finite_ran)
  moreover have "\<exists>i. us_conns srv i = Some r" if "us_src_map srv a = Some r" for a r
    using udp_tables_src [OF _ that] assms unfolding sockets_inv_def by blast
  then have "r \<in> udp_live srv \<longleftrightarrow> (\<exists>i. us_conns srv i = Some r)" for r
    by (auto simp: udp_live_def ran_def)
  then have "{ref \<in> udp_live srv. map_option uu_socket (us_heap srv ref) = Some s} \<noteq> {} \<longleftrightarrow>
      (\<exists>i r c. us_conns srv i = Some r \<and> us_heap srv r = Some c \<and> uu_socket c = s)" by auto
  ultimately show ?thesis by (simp add: udp_held_def)
qed

lemma cache_check_timeout_iff:
  assumes "sockets_inv srv cache"
  shows "uc_conns (cache_check_timeout (udp_held srv) cache) a = Some s \<longleftrightarrow> uc_conns cache a = Some s \<and>
    (\<exists>i r c. us_conns srv i = Some r \<and> us_heap srv r = Some c \<and> uu_socket c = s)"
  using udp_held_pos [OF assms, of s] by (auto simp: cache_check_timeout_def split: option.splits)

lemma sockets_inv_sweep:
  assumes "sockets_inv srv cache"
  shows "sockets_inv srv (cache_check_timeout (udp_held srv) cache)"
proof -
  have "cached (cache_check_timeout (udp_held srv) cache) (uu_socket c)" if "us_conns srv i = Some r" "us_heap srv r = Some c" for i r c
    using assms that cache_check_timeout_iff [OF assms, of _ "uu_socket c"] unfolding sockets_inv_def cached_def by blast
  with assms show ?thesis by (auto simp: sockets_inv_def)
qed

section \<open>Properties\<close>

text \<open>The steps of the UDP server and of the cache in the event loop; the first three are those of
  \<open>udp_step\<close>, the last is the cache's \<open>check_timeout\<close>.\<close>

inductive sockets_step :: "'w sys \<Rightarrow> opts \<Rightarrow> udp_server \<times> udp_svr_cache \<Rightarrow> udp_server \<times> udp_svr_cache \<Rightarrow> bool"
  for S :: "'w sys" and cfg where
  sockets_accept: "udp_accept_once S cfg srv pool cache rv w = Some (res, srv', pool', cache', rv', w') \<Longrightarrow>
    sockets_step S cfg (srv, cache) (srv', cache')"
| sockets_ready: "udp_server_ready S srv e cache w = Some (srv', cache', w') \<Longrightarrow>
    sockets_step S cfg (srv, cache) (srv', cache')"
| sockets_remove: "udp_server_remove_closed srv = Some srv' \<Longrightarrow> sockets_step S cfg (srv, cache) (srv', cache)"
| sockets_sweep: "sockets_step S cfg (srv, cache) (srv, cache_check_timeout (udp_held srv) cache)"

inductive_cases sockets_stepE: "sockets_step S cfg x y"

lemma sockets_step_low: "sockets_step S cfg x y \<Longrightarrow> udp_low n (fst x) \<Longrightarrow> n + 5 < 2 ^ 62 \<Longrightarrow> udp_low (Suc n) (fst y)"
  by (elim sockets_stepE) (simp_all add: udp_accept_once_low udp_low_Suc udp_server_ready_low udp_server_remove_low)

lemma sockets_step_inv:
  "sockets_step S cfg x y \<Longrightarrow> sockets_inv (fst x) (snd x) \<Longrightarrow> udp_low n (fst x) \<Longrightarrow> sockets_inv (fst y) (snd y)"
  by (elim sockets_stepE)
    (auto dest: sockets_inv_accept sockets_inv_ready sockets_inv_remove intro: sockets_inv_sweep simp: udp_low_free)

lemma sockets_reachable:
  assumes "(sockets_step S cfg ^^ n) (udp_server_new listener, udp_cache_new) x" and "n + 4 < 2 ^ 62"
  shows "sockets_inv (fst x) (snd x) \<and> udp_low n (fst x)"
  using assms
proof (induction n arbitrary: x)
  case 0
  then show ?case using udp_tables_new [of listener] udp_low_new [of listener] by (auto simp: sockets_inv_def udp_server_new_def)
next
  case (Suc n)
  from Suc.prems(1) obtain y where s: "(sockets_step S cfg ^^ n) (udp_server_new listener, udp_cache_new) y" "sockets_step S cfg y x" by auto
  from Suc.IH [OF s(1)] Suc.prems(2) sockets_step_inv [OF s(2)] sockets_step_low [OF s(2)] show ?case by auto
qed

text \<open>C40. The socket cache and the connections agree: in every state that fewer than \<open>2 ^ 62 - 4\<close> datagrams, events,
  removals and sweeps lead to, the socket of every connection in the tables is in the cache, so that no second socket is
  bound to the address it answers from; and a sweep drops from the cache exactly the sockets that no
  connection uses any more.\<close>

theorem proxy_sockets_cached:
  assumes "(sockets_step S cfg ^^ n) (udp_server_new listener, udp_cache_new) (srv, cache)" and "n + 4 < 2 ^ 62"
  shows "(\<forall>i r c. us_conns srv i = Some r \<and> us_heap srv r = Some c \<longrightarrow> (\<exists>a. uc_conns cache a = Some (uu_socket c))) \<and>
    (\<forall>a s. uc_conns (cache_check_timeout (udp_held srv) cache) a = Some s \<longleftrightarrow>
       uc_conns cache a = Some s \<and> (\<exists>i r c. us_conns srv i = Some r \<and> us_heap srv r = Some c \<and> uu_socket c = s))"
proof -
  have inv: "sockets_inv srv cache" using sockets_reachable [OF assms] by simp
  then have "\<forall>i r c. us_conns srv i = Some r \<and> us_heap srv r = Some c \<longrightarrow> (\<exists>a. uc_conns cache a = Some (uu_socket c))"
    unfolding sockets_inv_def cached_def by blast
  with cache_check_timeout_iff [OF inv] show ?thesis by blast
qed

text \<open>The socket that a datagram opens is kept as long as the connection is in the tables, even a destroyed one, and
  dropped by the first sweep behind the removal.\<close>

theorem proxy_sockets_cached_witness:
  "\<exists>srv srv' cache. (sockets_step reset_sys sample_ready ^^ 1) (udp_server_new 7, udp_cache_new) (srv, cache) \<and>
     (sockets_step reset_sys sample_ready ^^ 2) (udp_server_new 7, udp_cache_new) (srv', cache) \<and>
     uc_conns (cache_check_timeout (udp_held srv) cache) sample_dst = Some 10 \<and>
     uc_conns (cache_check_timeout (udp_held srv') cache) sample_dst = None"
proof -
  obtain c pool' rv' w' where a: "udp_accept_once reset_sys sample_ready (udp_server_new 7) sample_pool udp_cache_new (resolver_new 2 None) one_datagram =
     Some (Inr (), (udp_server_new 7)\<lparr>us_heap := [0 \<mapsto> c], us_fresh := 1, us_conns := [2 \<mapsto> 0], us_src_map := [sample_src \<mapsto> 0],
         us_removed := Some [2], us_next_id := 3\<rparr>, pool', udp_cache_new\<lparr>uc_conns := [sample_dst \<mapsto> 10]\<rparr>, rv', w')"
    "uu_socket c = 10" using sample_accept by blast
  let ?srv = "(udp_server_new 7)\<lparr>us_heap := [0 \<mapsto> c], us_fresh := 1, us_conns := [2 \<mapsto> 0], us_src_map := [sample_src \<mapsto> 0],
         us_removed := Some [2], us_next_id := 3\<rparr>"
  let ?cache = "udp_cache_new\<lparr>uc_conns := [sample_dst \<mapsto> 10]\<rparr>"
  have r1: "(sockets_step reset_sys sample_ready ^^ 1) (udp_server_new 7, udp_cache_new) (?srv, ?cache)"
    unfolding relpowp_1 by (rule sockets_accept [OF a(1)])
  obtain srv' where rm: "udp_server_remove_closed ?srv = Some srv'" "us_conns srv' = Map.empty"
    by (simp add: udp_server_remove_closed_def udp_server_new_def unwrap_def)
  have r2: "(sockets_step reset_sys sample_ready ^^ 2) (udp_server_new 7, udp_cache_new) (srv', ?cache)"
    using r1 sockets_remove [OF rm(1), of reset_sys sample_ready ?cache] by (auto simp: numeral_2_eq_2)
  have "uc_conns (cache_check_timeout (udp_held ?srv) ?cache) sample_dst = Some 10"
    using proxy_sockets_cached [OF r1] a(2) by force
  moreover have "uc_conns (cache_check_timeout (udp_held srv') ?cache) sample_dst \<noteq> Some s" for s
    using proxy_sockets_cached [OF r2] rm(2) by simp
  ultimately show ?thesis using r1 r2 by blast
qed

end
