(* ===== verification/Proxy_Datagrams.thy ===== *)
theory Proxy_Datagrams
  imports Proxy_Udp
begin

text \<open>
  The datagrams of the proxy's UDP side as the client sees them. The server's answers arrive as a byte stream
  that is cut anywhere; the connection reassembles the frames. The abstract view is a sequence of datagrams,
  each handled by \<open>do_send_udp\<close>, and the stream refines it. In the other direction each datagram becomes one
  frame of the stream to the server.
\<close>

section \<open>From the server\<close>

text \<open>The abstract operation: datagrams, one after the other.\<close>

fun udp_down :: "'w sys \<Rightarrow> udp_conn \<Rightarrow> (socket_addr \<times> bytes) list \<Rightarrow> udp_svr_cache \<Rightarrow> 'w \<Rightarrow>
    udp_conn \<times> udp_svr_cache \<times> 'w" where
  "udp_down S c [] cache w = (c, cache, w)"
| "udp_down S c (x # xs) cache w =
     (case udp_do_send_udp S c (fst x) (snd x) cache w of (c, cache, w) \<Rightarrow> udp_down S c xs cache w)"

text \<open>The concrete one: chunks of the stream, as \<open>do_read\<close> returns them.\<close>

fun udp_receives :: "'w sys \<Rightarrow> udp_conn \<Rightarrow> bytes list \<Rightarrow> udp_svr_cache \<Rightarrow> 'w \<Rightarrow>
    (udp_conn \<times> udp_svr_cache \<times> 'w) rs" where
  "udp_receives S c [] cache w = Some (c, cache, w)"
| "udp_receives S c (d # ds) cache w = do {
     (c, cache, w) \<leftarrow> udp_try_send_client S c d cache w;
     udp_receives S c ds cache w }"

lemma udp_do_send_udp_buffer: "udp_do_send_udp S c a d cache w = (c', cache', w') \<Longrightarrow> uu_send_buffer c' = uu_send_buffer c"
  by (auto simp: udp_do_send_udp_def split: prod.splits sum.splits if_splits option.splits bool.splits)

lemma udp_down_buffer: "udp_down S c xs cache w = (c', cache', w') \<Longrightarrow> uu_send_buffer c' = uu_send_buffer c"
  by (induction xs arbitrary: c cache w) (auto dest: udp_do_send_udp_buffer split: prod.splits)

lemma udp_down_append:
  "udp_down S c (xs @ ys) cache w = (case udp_down S c xs cache w of (c, cache, w) \<Rightarrow> udp_down S c ys cache w)"
  by (induction xs arbitrary: c cache w) (auto split: prod.splits)

lemma udp_frame_nonempty: "udp_frame_bytes x \<noteq> []"
  by (simp add: udp_frame_bytes_def udp_generate_def)

text \<open>What is buffered: the front of a stream whose first frame is not complete yet.\<close>

definition udp_partial :: "bytes \<Rightarrow> bytes \<Rightarrow> (socket_addr \<times> bytes) list \<Rightarrow> bool" where
  "udp_partial buf rest xs \<longleftrightarrow> buf @ rest = udp_stream xs \<and> (xs = [] \<or> length buf < length (udp_frame_bytes (hd xs)))"

lemma udp_partial_complete: "udp_partial buf [] xs \<Longrightarrow> xs = [] \<and> buf = []"
  by (cases xs) (auto simp: udp_partial_def udp_stream_def)

lemma udp_do_send_client_stream:
  "list_all udp_sendable xs \<Longrightarrow> buf @ rest = udp_stream xs \<Longrightarrow>
    \<exists>qs rs buf'. xs = qs @ rs \<and> udp_partial buf' rest rs \<and>
      udp_do_send_client S c buf cache w =
        (case udp_down S c qs cache w of (c', cache', w') \<Rightarrow> Some (c'\<lparr>uu_send_buffer := uu_send_buffer c' @ buf'\<rparr>, cache', w'))"
proof (induction xs arbitrary: c buf cache w)
  case Nil
  then show ?case
    by (auto simp: udp_stream_def udp_partial_def udp_do_send_client.simps [of S c "[]"] udp_parse_def udp_parse_with_def)
next
  case (Cons x xs)
  from Cons.prems have x: "udp_sendable x" and eq: "buf @ rest = udp_frame_bytes x @ udp_stream xs"
    by (simp_all add: udp_stream_def)
  show ?case
  proof (cases "length buf < length (udp_frame_bytes x)")
    case True
    with eq obtain c' where c': "buf @ c' = udp_frame_bytes x" "c' \<noteq> []" using append_cut_before by blast
    with Cons.prems(2) True udp_parse_cut_frame [OF x c'] show ?thesis
      by (intro exI [of _ "[]"] exI [of _ "x # xs"] exI [of _ buf])
        (simp add: udp_do_send_client.simps [of S c buf] udp_partial_def)
  next
    case False
    with eq obtain buf1 where b1: "buf = udp_frame_bytes x @ buf1" "buf1 @ rest = udp_stream xs"
      using append_cut_after by blast
    note pkt = udp_parse_frame [OF x, of buf1, folded b1(1)]
    obtain c1 cache1 w1 where s: "udp_do_send_udp S c (fst x) (snd x) cache w = (c1, cache1, w1)"
      by (cases "udp_do_send_udp S c (fst x) (snd x) cache w")
    from Cons.IH [OF _ b1(2), of c1 cache1 w1] Cons.prems(1) obtain qs rs buf' where
      r: "xs = qs @ rs" "udp_partial buf' rest rs" "udp_do_send_client S c1 buf1 cache1 w1 =
        (case udp_down S c1 qs cache1 w1 of (c', cache', w') \<Rightarrow> Some (c'\<lparr>uu_send_buffer := uu_send_buffer c' @ buf'\<rparr>, cache', w'))"
      by auto
    have "udp_do_send_client S c buf cache w = udp_do_send_client S c1 buf1 cache1 w1"
      using pkt s by (simp add: udp_do_send_client.simps [of S c buf])
    with r s show ?thesis by (intro exI [of _ "x # qs"] exI [of _ rs] exI [of _ buf']) simp
  qed
qed

lemma udp_try_send_client_eq:
  "udp_try_send_client S c d cache w = udp_do_send_client S (c\<lparr>uu_send_buffer := []\<rparr>) (uu_send_buffer c @ d) cache w"
proof (cases "uu_send_buffer c = []")
  case True
  then have c: "c\<lparr>uu_send_buffer := []\<rparr> = c" by simp
  show ?thesis unfolding c udp_try_send_client_def by (simp add: True)
qed (simp add: udp_try_send_client_def)

lemma udp_receives_stream:
  "list_all udp_sendable xs \<Longrightarrow> udp_partial buf (concat ds @ rest) xs \<Longrightarrow> uu_send_buffer c = [] \<Longrightarrow>
    \<exists>qs rs buf'. xs = qs @ rs \<and> udp_partial buf' rest rs \<and>
      udp_receives S (c\<lparr>uu_send_buffer := buf\<rparr>) ds cache w =
        (case udp_down S c qs cache w of (c', cache', w') \<Rightarrow> Some (c'\<lparr>uu_send_buffer := buf'\<rparr>, cache', w'))"
proof (induction ds arbitrary: xs buf c cache w)
  case Nil
  then show ?case by (intro exI [of _ "[]"] exI [of _ xs] exI [of _ buf]) simp
next
  case (Cons d ds)
  have "(buf @ d) @ (concat ds @ rest) = udp_stream xs" using Cons.prems(2) by (simp add: udp_partial_def)
  from udp_do_send_client_stream [OF Cons.prems(1) this, of S c cache w] obtain qs rs buf1 where
    one: "xs = qs @ rs" "udp_partial buf1 (concat ds @ rest) rs" "udp_do_send_client S c (buf @ d) cache w =
      (case udp_down S c qs cache w of (c', cache', w') \<Rightarrow> Some (c'\<lparr>uu_send_buffer := uu_send_buffer c' @ buf1\<rparr>, cache', w'))"
    by blast
  obtain c1 cache1 w1 where d: "udp_down S c qs cache w = (c1, cache1, w1)" by (cases "udp_down S c qs cache w")
  have e: "uu_send_buffer c1 = []" using udp_down_buffer [OF d] Cons.prems(3) by simp
  have c: "c\<lparr>uu_send_buffer := []\<rparr> = c" using Cons.prems(3) by simp
  have "udp_try_send_client S (c\<lparr>uu_send_buffer := buf\<rparr>) d cache w = Some (c1\<lparr>uu_send_buffer := buf1\<rparr>, cache1, w1)"
    using one(3) d e c by (simp add: udp_try_send_client_eq)
  moreover obtain qs2 rs2 buf2 where two: "rs = qs2 @ rs2" "udp_partial buf2 rest rs2"
    "udp_receives S (c1\<lparr>uu_send_buffer := buf1\<rparr>) ds cache1 w1 =
        (case udp_down S c1 qs2 cache1 w1 of (c', cache', w') \<Rightarrow> Some (c'\<lparr>uu_send_buffer := buf2\<rparr>, cache', w'))"
    using Cons.IH [OF _ one(2) e, of cache1 w1] Cons.prems(1) one(1) by auto
  ultimately show ?case using one(1) d
    by (intro exI [of _ "qs @ qs2"] exI [of _ rs2] exI [of _ buf2]) (simp add: udp_down_append)
qed

text \<open>C10. The stream from the server refines a sequence of datagrams: however the frames are cut into
  chunks, the connection, the socket cache and the world end exactly as if each datagram had been
  handed to \<open>do_send_udp\<close> on its own, and nothing is left buffered. When the stream stops in
  the middle of a frame, the complete datagrams have been handled and the rest is kept.\<close>

theorem udp_stream_refines_datagrams:
  assumes "list_all udp_sendable xs" and "uu_send_buffer c = []" and "concat ds @ rest = udp_stream xs"
  shows "\<exists>qs rs buf. xs = qs @ rs \<and> buf @ rest = udp_stream rs \<and> (rest = [] \<longrightarrow> rs = [] \<and> buf = []) \<and>
    udp_receives S c ds cache w =
      (case udp_down S c qs cache w of (c', cache', w') \<Rightarrow> Some (c'\<lparr>uu_send_buffer := buf\<rparr>, cache', w'))"
proof -
  have p: "udp_partial [] (concat ds @ rest) xs" using assms(3) udp_frame_nonempty by (auto simp: udp_partial_def)
  have c: "c\<lparr>uu_send_buffer := []\<rparr> = c" using assms(2) by simp
  from udp_receives_stream [OF assms(1) p assms(2), of S cache w, unfolded c] obtain qs rs buf where
    r: "xs = qs @ rs" "udp_partial buf rest rs" "udp_receives S c ds cache w =
      (case udp_down S c qs cache w of (c', cache', w') \<Rightarrow> Some (c'\<lparr>uu_send_buffer := buf\<rparr>, cache', w'))" by blast
  have "rest = [] \<longrightarrow> rs = [] \<and> buf = []" using udp_partial_complete r(2) by blast
  with r show ?thesis by (auto simp: udp_partial_def)
qed

definition sample_udp_conn :: udp_conn where
  "sample_udp_conn = \<lparr>uu_index = 2, uu_src_addr = V4 (Ipv4Addr 192 168 0 2) 1024, uu_send_buffer = [], uu_recv_buffer = [],
     uu_server_conn = sample_tls, uu_status = Established, uu_socket = 5, uu_dst_addr = V4 (Ipv4Addr 8 8 8 8) 53,
     uu_bytes_read = 0, uu_bytes_sent = 0, uu_last_active = 0\<rparr>"

theorem udp_stream_refines_datagrams_witness:
  "list_all udp_sendable sample_datagrams \<and>
   udp_receives sim_sys sample_udp_conn [take 5 (udp_stream sample_datagrams), drop 5 (udp_stream sample_datagrams)] udp_cache_new sim_idle =
     (case udp_down sim_sys sample_udp_conn sample_datagrams udp_cache_new sim_idle of
        (c', cache', w') \<Rightarrow> Some (c'\<lparr>uu_send_buffer := []\<rparr>, cache', w'))"
proof -
  have ok: "list_all udp_sendable sample_datagrams" by (simp add: udp_sendable_def MAX_PACKET_SIZE_def)
  have e: "uu_send_buffer sample_udp_conn = []" by (simp add: sample_udp_conn_def)
  have cut: "concat [take 5 (udp_stream sample_datagrams), drop 5 (udp_stream sample_datagrams)] @ [] = udp_stream sample_datagrams"
    by simp
  from udp_stream_refines_datagrams [OF ok e cut, of sim_sys udp_cache_new sim_idle] ok show ?thesis by auto
qed

section \<open>To the server\<close>

text \<open>The datagrams of a client, one after the other. As long as the TLS connection is not shut down, the
  plaintext of its session grows by exactly their frames.\<close>

fun udp_forwards :: "'w sys \<Rightarrow> udp_conn \<Rightarrow> (socket_addr \<times> bytes) list \<Rightarrow> 'w \<Rightarrow> udp_conn \<times> 'w" where
  "udp_forwards S c [] w = (c, w)"
| "udp_forwards S c (x # xs) w = (case udp_forward S c (snd x) (fst x) w of (c, w) \<Rightarrow> udp_forwards S c xs w)"

lemma udp_forward_plain:
  assumes "tls_write_contract S plain" and "udp_forward S c d a w = (c', w')"
    and "\<not> is_shutdown (tc_status (uu_server_conn c'))"
  shows "tc_session (uu_server_conn c') = tc_session (uu_server_conn c) \<and>
    plain (tc_session (uu_server_conn c)) w' = plain (tc_session (uu_server_conn c)) w @ udp_frame_bytes (a, d)"
proof -
  let ?h = "udp_generate [] a (of_nat (length d))"
  have wr: "if ok then t' = t \<and> plain (tc_session t) w2 = plain (tc_session t) w1 @ b else is_shutdown (tc_status t')"
    if "tls_write_session S t b w1 = (ok, t', w2)" for t b w1 ok t' w2
    using that assms(1) [unfolded tls_write_contract_def, rule_format, where c = "tc_session t" and d = b and w = w1]
    by (auto simp: tls_write_session_def is_shutdown_iff dest!: tls_shutdown_status split: prod.splits sum.splits)
  obtain ok1 t1 w1 where w1: "tls_write_session S (uu_server_conn c) ?h w = (ok1, t1, w1)"
    by (cases "tls_write_session S (uu_server_conn c) ?h w")
  obtain ok2 t2 w2 where w2: "tls_write_session S t1 d w1 = (ok2, t2, w2)" by (cases "tls_write_session S t1 d w1")
  show ?thesis
    using assms(2,3) w1 w2 wr [OF w1] wr [OF w2] by (cases ok1; cases ok2) (auto simp: udp_forward_def Let_def udp_frame_bytes_def)
qed

lemma udp_forward_evolves: "udp_forward S c d a w = (c', w') \<Longrightarrow> tls_evolves (uu_server_conn c) (uu_server_conn c')"
  by (auto simp: udp_forward_def Let_def split: prod.splits bool.splits
      dest!: tls_write_session_evolves intro: tls_evolves_trans)

lemma udp_forwards_plain:
  assumes "tls_write_contract S plain"
  shows "udp_forwards S c xs w = (c', w') \<Longrightarrow> \<not> is_shutdown (tc_status (uu_server_conn c')) \<Longrightarrow>
    tc_session (uu_server_conn c') = tc_session (uu_server_conn c) \<and>
    plain (tc_session (uu_server_conn c)) w' = plain (tc_session (uu_server_conn c)) w @ udp_stream xs"
proof (induction xs arbitrary: c w)
  case (Cons x xs)
  obtain c1 w1 where one: "udp_forward S c (snd x) (fst x) w = (c1, w1)" by (cases "udp_forward S c (snd x) (fst x) w")
  with Cons.prems(1) have rest: "udp_forwards S c1 xs w1 = (c', w')" by simp
  have ev: "tls_evolves (uu_server_conn b) (uu_server_conn b')" if "udp_forwards S b ys v = (b', v')" for b ys v b' v'
    using that by (induction ys arbitrary: b v) (auto split: prod.splits dest!: udp_forward_evolves intro: tls_evolves_trans)
  have "\<not> is_shutdown (tc_status (uu_server_conn c1))"
    using ev [OF rest] Cons.prems(2) is_shutdown_mono by (auto simp: tls_evolves_def)
  from udp_forward_plain [OF assms one this] Cons.IH [OF rest Cons.prems(2)] show ?case by (simp add: udp_stream_def)
qed (simp add: udp_stream_def)

end
