(* ===== verification/Winapi.thy ===== *)
theory Winapi
  imports Ip_Set Utils Config "HOL-Library.Sublist"
begin

text \<open>
  What the program does around the Windows API: routes (\<open>src/src/wintun/route.rs\<close>, \<open>add_route\<close> in
  \<open>src/src/wintun/ipset.rs\<close>, \<open>apply_ipset\<close> in \<open>src/src/wintun/mod.rs\<close>) and network adapters
  (\<open>src/src/dns/adapter.rs\<close>). The API functions are the fields of \<open>'w winapi\<close>; the pointers they fill in are
  given by the values they leave there.
\<close>

section \<open>The API\<close>

record forward_row =
  dwForwardDest :: u32
  dwForwardMask :: u32
  dwForwardPolicy :: u32
  dwForwardNextHop :: u32
  dwForwardIfIndex :: u32
  ForwardType :: u32
  ForwardProto :: u32
  dwForwardAge :: u32
  dwForwardNextHopAS :: u32
  dwForwardMetric1 :: u32
  dwForwardMetric2 :: u32
  dwForwardMetric3 :: u32
  dwForwardMetric4 :: u32
  dwForwardMetric5 :: u32

text \<open>\<open>IP_ADAPTER_INFO\<close>: the fields the program reads; strings are arrays of characters with a zero behind
  the text.\<close>

record ip_adapter =
  ad_AdapterName :: bytes
  ad_Description :: bytes
  ad_Index :: u32
  ad_Type :: u32
  ad_IpAddress :: bytes
  ad_Gateway :: bytes

type_synonym guid = nat

text \<open>\<open>GetAdaptersInfo\<close> is called for the length first, and then for the linked list of adapters. The name server
  of \<open>SetInterfaceDnsSettings\<close> is \<open>None\<close> for the null pointer.\<close>

record 'w winapi =
  CreateIpForwardEntry :: "forward_row \<Rightarrow> 'w \<Rightarrow> u32 \<times> 'w"
  GetAdaptersInfo_length :: "'w \<Rightarrow> u32 \<times> u32"
  GetAdaptersInfo :: "u32 \<Rightarrow> 'w \<Rightarrow> u32 \<times> ip_adapter list"
  IIDFromString :: "bytes \<Rightarrow> u32 \<times> guid"
  GetInterfaceDnsSettings :: "guid \<Rightarrow> 'w \<Rightarrow> u32 \<times> 'w"
  SetInterfaceDnsSettings :: "guid \<Rightarrow> bytes option \<Rightarrow> 'w \<Rightarrow> u32 \<times> 'w"

definition "NO_ERROR = (0 :: u32)"
definition "S_OK = (0 :: u32)"
definition "ERROR_ACCESS_DENIED = (5 :: u32)"
definition "ERROR_NOT_SUPPORTED = (50 :: u32)"
definition "ERROR_INVALID_PARAMETER = (87 :: u32)"
definition "ERROR_BUFFER_OVERFLOW = (111 :: u32)"
definition "ERROR_OBJECT_ALREADY_EXISTS = (5010 :: u32)"
definition "MIB_IPROUTE_TYPE_DIRECT = (3 :: u32)"
definition "MIB_IPPROTO_NETMGMT = (3 :: u32)"
definition "MIB_IF_TYPE_ETHERNET = (6 :: u32)"

lemmas winapi_consts = NO_ERROR_def S_OK_def ERROR_ACCESS_DENIED_def ERROR_NOT_SUPPORTED_def ERROR_INVALID_PARAMETER_def
  ERROR_BUFFER_OVERFLOW_def ERROR_OBJECT_ALREADY_EXISTS_def MIB_IPROUTE_TYPE_DIRECT_def MIB_IPPROTO_NETMGMT_def
  MIB_IF_TYPE_ETHERNET_def

section \<open>Routes\<close>

text \<open>\<open>u32::to_be\<close> on a little-endian machine.\<close>

definition u32_to_be :: "u32 \<Rightarrow> u32" where
  "u32_to_be x = push_bit 24 (x AND 0xFF) OR push_bit 8 (x AND 0xFF00) OR
     (drop_bit 8 x AND 0xFF00) OR drop_bit 24 x"

definition route_row :: "u32 \<Rightarrow> u32 \<Rightarrow> u32 \<Rightarrow> u32 \<Rightarrow> forward_row" where
  "route_row dst msk gw if_index = \<lparr>dwForwardDest = u32_to_be dst, dwForwardMask = u32_to_be msk, dwForwardPolicy = 0,
     dwForwardNextHop = u32_to_be gw, dwForwardIfIndex = if_index, ForwardType = MIB_IPROUTE_TYPE_DIRECT,
     ForwardProto = MIB_IPPROTO_NETMGMT, dwForwardAge = 0, dwForwardNextHopAS = 0, dwForwardMetric1 = 99,
     dwForwardMetric2 = NOT 0, dwForwardMetric3 = NOT 0, dwForwardMetric4 = NOT 0, dwForwardMetric5 = NOT 0\<rparr>"

definition ascii :: "string \<Rightarrow> bytes" where
  "ascii s = map of_char s"

definition route_result :: "u32 \<Rightarrow> unit tr" where
  "route_result ret =
     (if ret = NO_ERROR \<or> ret = ERROR_OBJECT_ALREADY_EXISTS then Inr ()
      else if ret = ERROR_INVALID_PARAMETER then Inl (Winapi (ascii ''route add invalid parameter''))
      else if ret = ERROR_NOT_SUPPORTED then Inl (Winapi (ascii ''route add not supported''))
      else if ret = ERROR_ACCESS_DENIED then Inl (Winapi (ascii ''route add access denied''))
      else Inl (Winapi (ascii ''route add error unknown'')))"

definition route_add_with_if :: "'w winapi \<Rightarrow> u32 \<Rightarrow> u32 \<Rightarrow> u32 \<Rightarrow> u32 \<Rightarrow> 'w \<Rightarrow> unit tr \<times> 'w" where
  "route_add_with_if A dst msk gw if_index w =
     (case CreateIpForwardEntry A (route_row dst msk gw if_index) w of (ret, w) \<Rightarrow> (route_result ret, w))"

text \<open>The loop of \<open>add_route\<close>; \<open>?\<close> ends it at the first failure.\<close>

fun ipset_add_routes :: "'w winapi \<Rightarrow> cidr list \<Rightarrow> u32 \<Rightarrow> 'w \<Rightarrow> (unit tr \<times> 'w) rs" where
  "ipset_add_routes A [] index w = Some (Inr (), w)"
| "ipset_add_routes A (item # items) index w = do {
     msk \<leftarrow> cidr_mask item;
     (case route_add_with_if A (cidr_ip item) msk 0 index w of
        (Inl e, w) \<Rightarrow> Some (Inl e, w)
      | (Inr _, w) \<Rightarrow> ipset_add_routes A items index w) }"

definition ipset_add_route :: "'w winapi \<Rightarrow> ipset \<Rightarrow> u32 \<Rightarrow> 'w \<Rightarrow> (unit tr \<times> 'w) rs" where
  "ipset_add_route A s index w = ipset_add_routes A (ips_data s) index w"

text \<open>\<open>lines\<close> are the lines of the file, or the error with which it could not be opened.\<close>

definition apply_ipset :: "'w winapi \<Rightarrow> opts \<Rightarrow> bytes list io \<Rightarrow> u32 \<Rightarrow> bool \<Rightarrow> 'w \<Rightarrow> (unit tr \<times> 'w) rs" where
  "apply_ipset A cfg lines index invert w =
     (case lines of
        Inl e \<Rightarrow> Some (Inl (StdIo e), w)
      | Inr lines \<Rightarrow> do {
          s \<leftarrow> ipset_with_lines lines invert;
          args \<leftarrow> get_wintun_args cfg;
          s \<leftarrow> (if wa_inverse_route args then ipset_not s else Some s);
          ipset_add_route A s index w })"

section \<open>Adapters\<close>

fun utf8_valid :: "bytes \<Rightarrow> bool" where
  "utf8_valid [] = True"
| "utf8_valid (b # bs) = (case utf8_next b bs of (ok, n) \<Rightarrow> ok \<and> utf8_valid (drop n bs))"

definition get_string :: "bytes \<Rightarrow> bytes rs" where
  "get_string s = (let t = takeWhile (\<lambda>c. c \<noteq> 0) s in if utf8_valid t then Some t else None)"

fun str_contains :: "bytes \<Rightarrow> bytes \<Rightarrow> bool" where
  "str_contains [] name = (name = [])"
| "str_contains (b # bs) name = (prefix name (b # bs) \<or> str_contains bs name)"

definition unspecified_text :: bytes where
  "unspecified_text = ascii ''0.0.0.0''"

text \<open>The walk along the list of adapters: the callback, a function of what it has gathered, ends it with
  \<open>True\<close>.\<close>

fun walk_adapters :: "(ip_adapter \<Rightarrow> 's \<Rightarrow> (bool \<times> 's) rs) \<Rightarrow> ip_adapter list \<Rightarrow> bool \<Rightarrow> 's \<Rightarrow> (bool \<times> 's) rs" where
  "walk_adapters callback [] ret s = Some (ret, s)"
| "walk_adapters callback (adapter # info) ret s = do {
     (ret, s) \<leftarrow> callback adapter s;
     if ret then Some (ret, s) else walk_adapters callback info ret s }"

definition get_adapters :: "'w winapi \<Rightarrow> (ip_adapter \<Rightarrow> 's \<Rightarrow> (bool \<times> 's) rs) \<Rightarrow> 's \<Rightarrow> 'w \<Rightarrow> (bool \<times> 's) rs" where
  "get_adapters A callback s w =
     (case GetAdaptersInfo_length A w of (result, len) \<Rightarrow>
        if result \<noteq> NO_ERROR \<and> result \<noteq> ERROR_BUFFER_OVERFLOW then None
        else (case GetAdaptersInfo A len w of (result, info) \<Rightarrow>
                if result \<noteq> NO_ERROR \<and> result \<noteq> ERROR_BUFFER_OVERFLOW then None
                else walk_adapters callback info False s))"

definition get_adapter_ip :: "'w winapi \<Rightarrow> bytes \<Rightarrow> 'w \<Rightarrow> bytes option rs" where
  "get_adapter_ip A name w = do {
     (_, ret) \<leftarrow> get_adapters A (\<lambda>adapter ret. do {
         adapter_name \<leftarrow> get_string (ad_Description adapter);
         if str_contains adapter_name name then do {
           ip \<leftarrow> get_string (ad_IpAddress adapter);
           Some (True, if ip \<noteq> unspecified_text then Some ip else ret) }
         else Some (False, ret) }) None w;
     Some ret }"

definition get_adapter_index :: "'w winapi \<Rightarrow> bytes \<Rightarrow> 'w \<Rightarrow> u32 option rs" where
  "get_adapter_index A name w = do {
     (_, index) \<leftarrow> get_adapters A (\<lambda>adapter index. do {
         adapter_name \<leftarrow> get_string (ad_Description adapter);
         if str_contains adapter_name name then Some (True, Some (ad_Index adapter))
         else Some (False, index) }) None w;
     Some index }"

definition get_main_adapter_ip :: "'w winapi \<Rightarrow> 'w \<Rightarrow> bytes option rs" where
  "get_main_adapter_ip A w = do {
     (_, ret) \<leftarrow> get_adapters A (\<lambda>adapter ret.
         if ad_Type adapter \<noteq> MIB_IF_TYPE_ETHERNET then Some (False, ret)
         else do {
           ip \<leftarrow> get_string (ad_Gateway adapter);
           if ip = [] \<or> ip = unspecified_text then Some (False, ret)
           else do { ip \<leftarrow> get_string (ad_IpAddress adapter); Some (True, Some ip) } }) None w;
     Some ret }"

definition get_main_adapter_gwif :: "'w winapi \<Rightarrow> 'w \<Rightarrow> (bytes \<times> u32) option rs" where
  "get_main_adapter_gwif A w = do {
     (_, ret) \<leftarrow> get_adapters A (\<lambda>adapter ret.
         if ad_Type adapter \<noteq> MIB_IF_TYPE_ETHERNET then Some (False, ret)
         else do {
           ip \<leftarrow> get_string (ad_Gateway adapter);
           Some (ip \<noteq> [] \<and> ip \<noteq> unspecified_text \<and> ad_Type adapter = 6, Some (ip, ad_Index adapter)) }) None w;
     Some ret }"

text \<open>\<open>U16CString::from_str\<close> fails on a name with a zero in it.\<close>

definition set_dns_server :: "'w winapi \<Rightarrow> bytes \<Rightarrow> 'w \<Rightarrow> (bool \<times> 'w) rs" where
  "set_dns_server A name_server w =
     get_adapters A (\<lambda>adapter w.
       if ad_Type adapter \<noteq> MIB_IF_TYPE_ETHERNET then Some (False, w)
       else do {
         ip \<leftarrow> get_string (ad_Gateway adapter);
         if ip = [] \<or> ip = unspecified_text then Some (False, w)
         else (case IIDFromString A (ad_AdapterName adapter) of (r, guid) \<Rightarrow>
           if S_OK \<noteq> r then Some (False, w)
           else (case GetInterfaceDnsSettings A guid w of (code, w) \<Rightarrow>
             if code \<noteq> NO_ERROR then Some (False, w)
             else if 0 \<in> set name_server then None
             else (case SetInterfaceDnsSettings A guid (if name_server = [] then None else Some name_server) w of (code, w) \<Rightarrow>
               Some (code = NO_ERROR, w)))) }) w w"

end
