(* ===== verification/Dns_Server.thy ===== *)
theory Dns_Server
  imports Winapi World Sim_World Domain_Map Proto
begin

text \<open>
  The forwarding name server (\<open>src/src/dns/server.rs\<close>, \<open>src/src/dns/mod.rs\<close>). Queries of clients go to the trusted
  server when their domain is listed, else to the other one; answers are cached and sent to everybody who asked.
  Messages belong to the crate \<open>trust_dns_proto\<close>: they are values of the type \<open>'m\<close>, and the calls on them are the
  fields of \<open>'m dns_lib\<close>.
\<close>

section \<open>Model\<close>

datatype record_type = PTR | OtherType nat

text \<open>A query is given by its name in text form and its type, an answer record by its time to live and the
  address in its data, if there is one.\<close>

record 'm dns_lib =
  msg_from_bytes :: "bytes \<Rightarrow> 'm option"
  msg_to_vec :: "'m \<Rightarrow> bytes option"
  msg_queries :: "'m \<Rightarrow> (bytes \<times> record_type) list"
  msg_query_count :: "'m \<Rightarrow> u16"
  msg_id :: "'m \<Rightarrow> u16"
  msg_set_id :: "u16 \<Rightarrow> 'm \<Rightarrow> 'm"
  msg_answers :: "'m \<Rightarrow> (u32 \<times> ip_addr option) list"
  msg_type_text :: "record_type \<Rightarrow> bytes"
  msg_ptr_response :: "u16 \<Rightarrow> bytes \<Rightarrow> u32 \<Rightarrow> bytes \<Rightarrow> 'm option"

record 'm query_result =
  qr_addresses :: "(socket_addr \<times> u16) list"
  qr_response :: "'m option"
  qr_expire_time :: instant

record 'm dns_server =
  ds_listener :: sock
  ds_trusted :: sock
  ds_poisoned :: sock
  ds_arp_data :: bytes
  ds_blocked_domains :: domain_map
  ds_store :: "bytes \<rightharpoonup> 'm query_result"
  ds_ptr_name :: bytes
  ds_trusted_addr :: socket_addr
  ds_poisoned_addr :: socket_addr
  ds_route_added :: "u32 set"
  ds_adapter_index :: u32

definition DNS_TRUSTED :: usize where "DNS_TRUSTED = 2"
definition DNS_POISONED :: usize where "DNS_POISONED = 3"
definition DNS_LOCAL :: usize where "DNS_LOCAL = 4"

lemmas dns_consts = DNS_TRUSTED_def DNS_POISONED_def DNS_LOCAL_def

definition io_unwrap :: "'a io \<times> 'w \<Rightarrow> ('a \<times> 'w) rs" where
  "io_unwrap r = (case r of (Inl e, w) \<Rightarrow> None | (Inr a, w) \<Rightarrow> Some (a, w))"

definition dns_server_new :: "'w sys \<Rightarrow> opts \<Rightarrow> u32 \<Rightarrow> 'w \<Rightarrow> ('m dns_server \<times> 'w) rs" where
  "dns_server_new S cfg index w = do {
     args \<leftarrow> get_dns_args cfg;
     trusted_addr \<leftarrow> parse_socket_addr (da_trusted_dns args @ ascii '':53'');
     poisoned_addr \<leftarrow> parse_socket_addr (da_poisoned_dns args @ ascii '':53'');
     listen \<leftarrow> parse_socket_addr (da_dns_listen_address args);
     (listener, w) \<leftarrow> io_unwrap (udp_bind S listen w);
     default_addr \<leftarrow> parse_socket_addr (ascii ''0.0.0.0:0'');
     (trusted, w) \<leftarrow> io_unwrap (udp_bind S default_addr w);
     (poisoned, w) \<leftarrow> io_unwrap (udp_bind S default_addr w);
     Some (\<lparr>ds_listener = listener, ds_trusted = trusted, ds_poisoned = poisoned, ds_arp_data = [],
       ds_blocked_domains = domain_map_new, ds_store = Map.empty, ds_ptr_name = [], ds_trusted_addr = trusted_addr,
       ds_poisoned_addr = poisoned_addr, ds_route_added = {}, ds_adapter_index = index\<rparr>, w) }"

text \<open>The lines of the domain list; a line that cannot be read is skipped. \<open>ip_text\<close> is the listener's address in
  text form.\<close>

definition add_domains :: "bytes io list \<Rightarrow> domain_map" where
  "add_domains lines = fold (\<lambda>line m. case line of Inr line \<Rightarrow> add_domain line m | Inl _ \<Rightarrow> m) lines domain_map_new"

fun join_dots :: "bytes list \<Rightarrow> bytes" where
  "join_dots [] = []"
| "join_dots [x] = x"
| "join_dots (x # xs) = x @ 46 # join_dots xs"

definition ptr_name_of :: "bytes \<Rightarrow> bytes" where
  "ptr_name_of ip_text = join_dots (rev (str_split 46 ip_text)) @ ascii ''.in-addr.arpa.''"

definition dns_setup :: "'w sys \<Rightarrow> 'm dns_lib \<Rightarrow> bytes io list \<Rightarrow> bytes \<Rightarrow> 'm dns_server \<Rightarrow> 'w \<Rightarrow> ('m dns_server \<times> 'w) rs" where
  "dns_setup S L lines ip_text srv w = do {
     (_, w) \<leftarrow> io_unwrap (poll_register S (ds_trusted srv) DNS_TRUSTED w);
     (_, w) \<leftarrow> io_unwrap (poll_register S (ds_poisoned srv) DNS_POISONED w);
     (_, w) \<leftarrow> io_unwrap (poll_register S (ds_listener srv) DNS_LOCAL w);
     let name = ptr_name_of ip_text;
     message \<leftarrow> msg_ptr_response L 1 name 20567 (ascii ''trojan.dns'');
     arp_data \<leftarrow> msg_to_vec L message;
     Some (srv\<lparr>ds_blocked_domains := add_domains lines, ds_ptr_name := name, ds_arp_data := arp_data\<rparr>, w) }"

definition get_message_key :: "'m dns_lib \<Rightarrow> 'm \<Rightarrow> bytes rs" where
  "get_message_key L message = do {
     query \<leftarrow> idx (msg_queries L message) 0;
     Some (fst query @ ascii ''|'' @ msg_type_text L (snd query)) }"

definition is_blocked :: "'m dns_server \<Rightarrow> bytes \<Rightarrow> bool" where
  "is_blocked srv name = domain_contains (ds_blocked_domains srv) name"

definition add_request :: "'w sys \<Rightarrow> opts \<Rightarrow> 'm dns_server \<Rightarrow> bytes \<Rightarrow> socket_addr \<Rightarrow> u16 \<Rightarrow> 'w \<Rightarrow> ('m dns_server \<times> 'w) rs" where
  "add_request S cfg srv name a i w = do {
     (result, w) \<leftarrow> (case ds_store srv name of
         Some result \<Rightarrow> Some (result, w)
       | None \<Rightarrow>
           (case instant_now S w of (now, w) \<Rightarrow> do {
              args \<leftarrow> get_dns_args cfg;
              e \<leftarrow> instant_add now (duration_from_secs (da_dns_cache_time args));
              Some (\<lparr>qr_addresses = [], qr_response = None, qr_expire_time = e\<rparr>, w) }));
     Some (srv\<lparr>ds_store := (ds_store srv)(name \<mapsto> result\<lparr>qr_addresses := qr_addresses result @ [(a, i)]\<rparr>)\<rparr>, w) }"

text \<open>A query: the answer from the cache, if there is one, and whether the query has to be sent on, and whether
  its sender has to be answered later.\<close>

definition cached_answer :: "'w sys \<Rightarrow> 'm dns_lib \<Rightarrow> 'm dns_server \<Rightarrow> bytes \<Rightarrow> u16 \<Rightarrow> instant \<Rightarrow> socket_addr \<Rightarrow> 'w \<Rightarrow>
    (bool \<times> bool \<times> 'm dns_server \<times> 'w) rs" where
  "cached_answer S L srv key i now from w =
     (case ds_store srv key of
        None \<Rightarrow> Some (True, True, srv, w)
      | Some result \<Rightarrow>
          (case qr_response result of
             None \<Rightarrow> Some (True, True, srv, w)
           | Some response \<Rightarrow> do {
               let response = msg_set_id L i response;
               let srv = srv\<lparr>ds_store := (ds_store srv)(key \<mapsto> result\<lparr>qr_response := Some response\<rparr>)\<rparr>;
               data \<leftarrow> msg_to_vec L response;
               (case udp_send_to S (ds_listener srv) data from w of (_, w) \<Rightarrow>
                  Some (qr_expire_time result \<le> now, False, srv, w)) }))"

text \<open>Sending a query on; \<open>False\<close> is the failure on which the code continues with the next message.\<close>

definition forward_query :: "'w sys \<Rightarrow> 'm dns_server \<Rightarrow> bytes \<Rightarrow> bytes \<Rightarrow> 'w \<Rightarrow> bool \<times> 'w" where
  "forward_query S srv name data w =
     (case (if is_blocked srv name then udp_send_to S (ds_trusted srv) data (ds_trusted_addr srv) w
            else udp_send_to S (ds_poisoned srv) data (ds_poisoned_addr srv) w) of
        (Inl e, w) \<Rightarrow> (False, w)
      | (Inr n, w) \<Rightarrow> (True, w))"

definition local_message :: "'w sys \<Rightarrow> 'm dns_lib \<Rightarrow> opts \<Rightarrow> 'm dns_server \<Rightarrow> instant \<Rightarrow> bytes \<Rightarrow> socket_addr \<Rightarrow> 'w \<Rightarrow>
    ('m dns_server \<times> 'w) rs" where
  "local_message S L cfg srv now data from w =
     (case msg_from_bytes L data of
        None \<Rightarrow> Some (srv, w)
      | Some message \<Rightarrow>
          if msg_query_count L message \<noteq> 1 then Some (srv, w)
          else do {
            (name, qt) \<leftarrow> idx (msg_queries L message) 0;
            if qt = PTR \<and> name = ds_ptr_name srv then
              Some (srv, snd (udp_send_to S (ds_listener srv) (ds_arp_data srv) from w))
            else do {
              key \<leftarrow> get_message_key L message;
              (renew, respond, srv, w) \<leftarrow> cached_answer S L srv key (msg_id L message) now from w;
              if renew then
                (case forward_query S srv name data w of (ok, w) \<Rightarrow>
                   if ok \<and> respond then add_request S cfg srv key from (msg_id L message) w
                   else Some (srv, w))
              else Some (srv, w) } })"

partial_function (option) dispatch_local_loop :: "'w sys \<Rightarrow> 'm dns_lib \<Rightarrow> opts \<Rightarrow> 'm dns_server \<Rightarrow> instant \<Rightarrow> 'w \<Rightarrow>
    ('m dns_server \<times> 'w) rs" where
  "dispatch_local_loop S L cfg srv now w =
     (case udp_recv_from S (ds_listener srv) MAX_PACKET_SIZE w of
        (Inr (bs, from), w) \<Rightarrow>
          if MAX_PACKET_SIZE < length bs then None
          else Option.bind (local_message S L cfg srv now bs from w) (\<lambda>(srv, w). dispatch_local_loop S L cfg srv now w)
      | (Inl e, w) \<Rightarrow>
          if e = WouldBlock then Some (srv, w)
          else if e = ConnectionReset then dispatch_local_loop S L cfg srv now w
          else Option.bind (io_unwrap (poll_reregister S (ds_listener srv) DNS_LOCAL w)) (\<lambda>(_, w). Some (srv, w)))"

definition dispatch_local :: "'w sys \<Rightarrow> 'm dns_lib \<Rightarrow> opts \<Rightarrow> 'm dns_server \<Rightarrow> 'w \<Rightarrow> ('m dns_server \<times> 'w) rs" where
  "dispatch_local S L cfg srv w = (case instant_now S w of (now, w) \<Rightarrow> dispatch_local_loop S L cfg srv now w)"

text \<open>An answer of one of the servers goes to everybody who asked, each with its own identifier. The message keeps
  the last identifier.\<close>

fun answer_all :: "'w sys \<Rightarrow> 'm dns_lib \<Rightarrow> sock \<Rightarrow> (socket_addr \<times> u16) list \<Rightarrow> 'm \<Rightarrow> 'w \<Rightarrow> ('m \<times> 'w) rs" where
  "answer_all S L send_socket [] message w = Some (message, w)"
| "answer_all S L send_socket ((a, i) # as) message w = do {
     let message = msg_set_id L i message;
     data \<leftarrow> msg_to_vec L message;
     (case udp_send_to S send_socket data a w of (_, w) \<Rightarrow> answer_all S L send_socket as message w) }"

text \<open>The records of the answer: the last time to live, and the routes to the addresses of listed domains.\<close>

fun scan_answers :: "'w winapi \<Rightarrow> opts \<Rightarrow> u32 \<Rightarrow> bool \<Rightarrow> (u32 \<times> ip_addr option) list \<Rightarrow> u32 \<Rightarrow> u32 set \<Rightarrow> 'w \<Rightarrow>
    (u32 \<times> u32 set \<times> 'w) rs" where
  "scan_answers A cfg index blocked [] timeout routes w = Some (timeout, routes, w)"
| "scan_answers A cfg index blocked ((ttl, data) # rs) timeout routes w = do {
     (routes, w) \<leftarrow> (case data of
         None \<Rightarrow> Some (routes, w)
       | Some ip \<Rightarrow> do {
           args \<leftarrow> get_dns_args cfg;
           Some (case ip of
               IpV4 v4 \<Rightarrow>
                 if da_add_route args \<and> blocked \<and> ipv4_to_u32 v4 \<notin> routes then
                   (case route_add_with_if A (ipv4_to_u32 v4) (NOT 0) 0 index w of
                      (Inr _, w) \<Rightarrow> (insert (ipv4_to_u32 v4) routes, w)
                    | (Inl e, w) \<Rightarrow> (routes, w))
                 else (routes, w)
             | IpV6 v6 \<Rightarrow> (routes, w)) });
     scan_answers A cfg index blocked rs ttl routes w }"

definition server_message :: "'w sys \<Rightarrow> 'w winapi \<Rightarrow> 'm dns_lib \<Rightarrow> opts \<Rightarrow> 'm dns_server \<Rightarrow> bool \<Rightarrow> instant \<Rightarrow> bytes \<Rightarrow> 'w \<Rightarrow>
    ('m dns_server \<times> 'w) rs" where
  "server_message S A L cfg srv blocked now data w =
     (case msg_from_bytes L data of
        None \<Rightarrow> Some (srv, w)
      | Some message \<Rightarrow> do {
          name \<leftarrow> get_message_key L message;
          (case ds_store srv name of
             None \<Rightarrow> Some (srv, w)
           | Some result \<Rightarrow> do {
               (message, w) \<leftarrow> answer_all S L (ds_listener srv) (qr_addresses result) message w;
               (timeout, routes, w) \<leftarrow> scan_answers A cfg (ds_adapter_index srv) blocked (msg_answers L message) 0 (ds_route_added srv) w;
               e \<leftarrow> instant_add now (duration_from_secs (unat timeout));
               Some (srv\<lparr>ds_store := (ds_store srv)(name \<mapsto>
                   \<lparr>qr_addresses = [], qr_response = Some message, qr_expire_time = e\<rparr>), ds_route_added := routes\<rparr>, w) }) })"

partial_function (option) dispatch_server_loop :: "'w sys \<Rightarrow> 'w winapi \<Rightarrow> 'm dns_lib \<Rightarrow> opts \<Rightarrow> sock \<Rightarrow> 'm dns_server \<Rightarrow> bool \<Rightarrow>
    instant \<Rightarrow> 'w \<Rightarrow> (bool \<times> 'm dns_server \<times> 'w) rs" where
  "dispatch_server_loop S A L cfg recv_socket srv blocked now w =
     (case udp_recv_from S recv_socket MAX_PACKET_SIZE w of
        (Inr (bs, from), w) \<Rightarrow>
          if MAX_PACKET_SIZE < length bs then None
          else Option.bind (server_message S A L cfg srv blocked now bs w)
            (\<lambda>(srv, w). dispatch_server_loop S A L cfg recv_socket srv blocked now w)
      | (Inl e, w) \<Rightarrow>
          if e = WouldBlock then Some (True, srv, w)
          else if e = ConnectionReset then dispatch_server_loop S A L cfg recv_socket srv blocked now w
          else Some (False, srv, w))"

definition dispatch_server :: "'w sys \<Rightarrow> 'w winapi \<Rightarrow> 'm dns_lib \<Rightarrow> opts \<Rightarrow> sock \<Rightarrow> 'm dns_server \<Rightarrow> bool \<Rightarrow> 'w \<Rightarrow>
    (bool \<times> 'm dns_server \<times> 'w) rs" where
  "dispatch_server S A L cfg recv_socket srv blocked w =
     (case instant_now S w of (now, w) \<Rightarrow> dispatch_server_loop S A L cfg recv_socket srv blocked now w)"

definition dispatch_trusted :: "'w sys \<Rightarrow> 'w winapi \<Rightarrow> 'm dns_lib \<Rightarrow> opts \<Rightarrow> 'm dns_server \<Rightarrow> 'w \<Rightarrow> ('m dns_server \<times> 'w) rs" where
  "dispatch_trusted S A L cfg srv w = do {
     (ok, srv, w) \<leftarrow> dispatch_server S A L cfg (ds_trusted srv) srv True w;
     if \<not> ok then do { (_, w) \<leftarrow> io_unwrap (poll_reregister S (ds_trusted srv) DNS_TRUSTED w); Some (srv, w) }
     else Some (srv, w) }"

definition dispatch_poisoned :: "'w sys \<Rightarrow> 'w winapi \<Rightarrow> 'm dns_lib \<Rightarrow> opts \<Rightarrow> 'm dns_server \<Rightarrow> 'w \<Rightarrow> ('m dns_server \<times> 'w) rs" where
  "dispatch_poisoned S A L cfg srv w = do {
     (ok, srv, w) \<leftarrow> dispatch_server S A L cfg (ds_poisoned srv) srv False w;
     if \<not> ok then do { (_, w) \<leftarrow> io_unwrap (poll_reregister S (ds_poisoned srv) DNS_POISONED w); Some (srv, w) }
     else Some (srv, w) }"

definition dns_ready :: "'w sys \<Rightarrow> 'w winapi \<Rightarrow> 'm dns_lib \<Rightarrow> opts \<Rightarrow> 'm dns_server \<Rightarrow> net_event \<Rightarrow> 'w \<Rightarrow> ('m dns_server \<times> 'w) rs" where
  "dns_ready S A L cfg srv event w =
     (if ev_token event = DNS_LOCAL then dispatch_local S L cfg srv w
      else if ev_token event = DNS_TRUSTED then dispatch_trusted S A L cfg srv w
      else if ev_token event = DNS_POISONED then dispatch_poisoned S A L cfg srv w
      else None)"

text \<open>One round of the loop of \<open>run\<close>.\<close>

fun dns_round :: "'w sys \<Rightarrow> 'w winapi \<Rightarrow> 'm dns_lib \<Rightarrow> opts \<Rightarrow> 'm dns_server \<Rightarrow> net_event list \<Rightarrow> 'w \<Rightarrow> ('m dns_server \<times> 'w) rs" where
  "dns_round S A L cfg srv [] w = Some (srv, w)"
| "dns_round S A L cfg srv (e # es) w = do {
     (srv, w) \<leftarrow> dns_ready S A L cfg srv e w;
     dns_round S A L cfg srv es w }"

text \<open>The start of \<open>run\<close>: wait until the tunnel's adapter has an address, bind the sockets, read the list and make
  this server the name server of the machine. \<open>sleep\<close> is the passing of a second.\<close>

partial_function (option) wait_adapter :: "'w winapi \<Rightarrow> ('w \<Rightarrow> 'w) \<Rightarrow> bytes \<Rightarrow> 'w \<Rightarrow> 'w rs" where
  "wait_adapter A sleep name w =
     Option.bind (get_adapter_ip A name w) (\<lambda>ip. if ip = None then wait_adapter A sleep name (sleep w) else Some w)"

definition dns_start :: "'w sys \<Rightarrow> 'w winapi \<Rightarrow> 'm dns_lib \<Rightarrow> ('w \<Rightarrow> 'w) \<Rightarrow> opts \<Rightarrow> bytes io list \<Rightarrow> bytes \<Rightarrow> 'w \<Rightarrow>
    ('m dns_server \<times> 'w) rs" where
  "dns_start S A L sleep cfg lines ip_text w = do {
     args \<leftarrow> get_dns_args cfg;
     w \<leftarrow> wait_adapter A sleep (da_tun_name args) w;
     index \<leftarrow> get_adapter_index A (da_tun_name args) w;
     index \<leftarrow> index;
     (srv, w) \<leftarrow> dns_server_new S cfg index w;
     (srv, w) \<leftarrow> dns_setup S L lines ip_text srv w;
     (_, w) \<leftarrow> set_dns_server A ip_text w;
     Some (srv, w) }"

text \<open>When the console is closed the name server of the machine is reset.\<close>

definition CTRL_C_EVENT :: u32 where "CTRL_C_EVENT = 0"
definition CTRL_BREAK_EVENT :: u32 where "CTRL_BREAK_EVENT = 1"
definition CTRL_CLOSE_EVENT :: u32 where "CTRL_CLOSE_EVENT = 2"
definition CTRL_LOGOFF_EVENT :: u32 where "CTRL_LOGOFF_EVENT = 5"
definition CTRL_SHUTDOWN_EVENT :: u32 where "CTRL_SHUTDOWN_EVENT = 6"

definition console_callback :: "'w winapi \<Rightarrow> u32 \<Rightarrow> 'w \<Rightarrow> 'w rs" where
  "console_callback A ctrl_type w =
     (if ctrl_type \<in> {CTRL_C_EVENT, CTRL_CLOSE_EVENT, CTRL_BREAK_EVENT, CTRL_SHUTDOWN_EVENT, CTRL_LOGOFF_EVENT} then do {
        (_, w) \<leftarrow> set_dns_server A [] w;
        Some w }
      else Some w)"

section \<open>What the handlers send\<close>

text \<open>\<open>sent s w\<close> is what socket \<open>s\<close> has sent so far, with the addresses. Sending on one socket does not change
  the others, and nothing else sends.\<close>

definition dns_world :: "'w sys \<Rightarrow> 'w winapi \<Rightarrow> (sock \<Rightarrow> 'w \<Rightarrow> (bytes \<times> socket_addr) list) \<Rightarrow> bool" where
  "dns_world S A sent \<longleftrightarrow> udp_send_contract S sent \<and>
     (\<forall>s s' d a w. s' \<noteq> s \<longrightarrow> sent s' (snd (udp_send_to S s d a w)) = sent s' w) \<and>
     (\<forall>s w. sent s (snd (instant_now S w)) = sent s w) \<and>
     (\<forall>s k n w. sent s (snd (udp_recv_from S k n w)) = sent s w) \<and>
     (\<forall>s k t w. sent s (snd (poll_reregister S k t w)) = sent s w) \<and>
     (\<forall>s row w. sent s (snd (CreateIpForwardEntry A row w)) = sent s w)"

text \<open>What a server never changes after its setup.\<close>

definition dns_same :: "'m dns_server \<Rightarrow> 'm dns_server \<Rightarrow> bool" where
  "dns_same srv srv' \<longleftrightarrow> ds_listener srv' = ds_listener srv \<and> ds_trusted srv' = ds_trusted srv \<and>
     ds_poisoned srv' = ds_poisoned srv \<and> ds_blocked_domains srv' = ds_blocked_domains srv \<and>
     ds_trusted_addr srv' = ds_trusted_addr srv \<and> ds_poisoned_addr srv' = ds_poisoned_addr srv"

lemma dns_same_refl [simp]: "dns_same srv srv" and dns_same_trans: "dns_same a b \<Longrightarrow> dns_same b c \<Longrightarrow> dns_same a c"
  by (simp_all add: dns_same_def)

text \<open>A datagram that may go to the server for listed domains, or to the one for the others: (the front of) a
  query for such a domain.\<close>

definition query_about :: "'m dns_lib \<Rightarrow> (bytes \<Rightarrow> bool) \<Rightarrow> bytes \<Rightarrow> bool" where
  "query_about L ok d \<longleftrightarrow> (\<exists>data message name qt qs. prefix d data \<and> msg_from_bytes L data = Some message \<and>
     msg_queries L message = (name, qt) # qs \<and> ok name)"

definition routed :: "'m dns_lib \<Rightarrow> 'm dns_server \<Rightarrow> (sock \<Rightarrow> 'w \<Rightarrow> (bytes \<times> socket_addr) list) \<Rightarrow> 'w \<Rightarrow> 'w \<Rightarrow> bool" where
  "routed L srv sent w w' \<longleftrightarrow>
     (\<exists>ps. sent (ds_trusted srv) w' = sent (ds_trusted srv) w @ ps \<and>
        (\<forall>(d, a)\<in>set ps. a = ds_trusted_addr srv \<and> query_about L (is_blocked srv) d)) \<and>
     (\<exists>ps. sent (ds_poisoned srv) w' = sent (ds_poisoned srv) w @ ps \<and>
        (\<forall>(d, a)\<in>set ps. a = ds_poisoned_addr srv \<and> query_about L (\<lambda>name. \<not> is_blocked srv name) d))"

lemma routed_quiet:
  "sent (ds_trusted srv) w' = sent (ds_trusted srv) w \<Longrightarrow> sent (ds_poisoned srv) w' = sent (ds_poisoned srv) w \<Longrightarrow>
     routed L srv sent w w'"
  by (simp add: routed_def)

lemma routed_trans:
  assumes "routed L srv sent w v" and "routed L srv' sent v u" and "dns_same srv srv'"
  shows "routed L srv sent w u"
proof -
  have same: "ds_trusted srv' = ds_trusted srv" "ds_poisoned srv' = ds_poisoned srv" "is_blocked srv' = is_blocked srv"
    "ds_trusted_addr srv' = ds_trusted_addr srv" "ds_poisoned_addr srv' = ds_poisoned_addr srv"
    using assms(3) by (auto simp: dns_same_def is_blocked_def fun_eq_iff)
  from assms(1) obtain p1 q1 where 1: "sent (ds_trusted srv) v = sent (ds_trusted srv) w @ p1"
    "\<forall>(d, a)\<in>set p1. a = ds_trusted_addr srv \<and> query_about L (is_blocked srv) d"
    "sent (ds_poisoned srv) v = sent (ds_poisoned srv) w @ q1"
    "\<forall>(d, a)\<in>set q1. a = ds_poisoned_addr srv \<and> query_about L (\<lambda>name. \<not> is_blocked srv name) d"
    unfolding routed_def by blast
  from assms(2) obtain p2 q2 where 2: "sent (ds_trusted srv) u = sent (ds_trusted srv) v @ p2"
    "\<forall>(d, a)\<in>set p2. a = ds_trusted_addr srv \<and> query_about L (is_blocked srv) d"
    "sent (ds_poisoned srv) u = sent (ds_poisoned srv) v @ q2"
    "\<forall>(d, a)\<in>set q2. a = ds_poisoned_addr srv \<and> query_about L (\<lambda>name. \<not> is_blocked srv name) d"
    unfolding routed_def same by blast
  show ?thesis unfolding routed_def
  proof (intro conjI)
    show "\<exists>ps. sent (ds_trusted srv) u = sent (ds_trusted srv) w @ ps \<and>
        (\<forall>(d, a)\<in>set ps. a = ds_trusted_addr srv \<and> query_about L (is_blocked srv) d)"
      by (rule exI [of _ "p1 @ p2"]) (use 1 2 in auto)
    show "\<exists>ps. sent (ds_poisoned srv) u = sent (ds_poisoned srv) w @ ps \<and>
        (\<forall>(d, a)\<in>set ps. a = ds_poisoned_addr srv \<and> query_about L (\<lambda>name. \<not> is_blocked srv name) d)"
      by (rule exI [of _ "q1 @ q2"]) (use 1 2 in auto)
  qed
qed

lemma dns_world_other:
  assumes "dns_world S A sent"
  shows "s' \<noteq> s \<Longrightarrow> udp_send_to S s d a w = (r, w') \<Longrightarrow> sent s' w' = sent s' w"
    and "instant_now S w = (t, w') \<Longrightarrow> sent s w' = sent s w"
    and "udp_recv_from S k n w = (x, w') \<Longrightarrow> sent s w' = sent s w"
    and "poll_reregister S k tk w = (y, w') \<Longrightarrow> sent s w' = sent s w"
    and "CreateIpForwardEntry A row w = (z, w') \<Longrightarrow> sent s w' = sent s w"
proof -
  note c = assms [unfolded dns_world_def]
  show "s' \<noteq> s \<Longrightarrow> udp_send_to S s d a w = (r, w') \<Longrightarrow> sent s' w' = sent s' w" using c by (metis snd_conv)
  show "instant_now S w = (t, w') \<Longrightarrow> sent s w' = sent s w" using c by (metis snd_conv)
  show "udp_recv_from S k n w = (x, w') \<Longrightarrow> sent s w' = sent s w" using c by (metis snd_conv)
  show "poll_reregister S k tk w = (y, w') \<Longrightarrow> sent s w' = sent s w" using c by (metis snd_conv)
  show "CreateIpForwardEntry A row w = (z, w') \<Longrightarrow> sent s w' = sent s w" using c by (metis snd_conv)
qed

text \<open>The sockets of a server are distinct.\<close>

abbreviation dns_sockets :: "'m dns_server \<Rightarrow> bool" where
  "dns_sockets srv \<equiv> distinct [ds_listener srv, ds_trusted srv, ds_poisoned srv]"

lemma cached_answer_routed:
  assumes "dns_world S A sent" and "cached_answer S L srv key i now from w = Some (renew, respond, srv', w')" and "dns_sockets srv"
  shows "dns_same srv srv' \<and> sent (ds_trusted srv) w' = sent (ds_trusted srv) w \<and> sent (ds_poisoned srv) w' = sent (ds_poisoned srv) w"
proof -
  have o: "sent (ds_trusted srv) v = sent (ds_trusted srv) w \<and> sent (ds_poisoned srv) v = sent (ds_poisoned srv) w"
    if "udp_send_to S (ds_listener srv) d a w = (r, v)" for d a r v
    using dns_world_other(1) [OF assms(1) _ that] assms(3) by auto
  from assms(2) show ?thesis
    by (auto simp: cached_answer_def Let_def dns_same_def dest: o split: option.splits bind_splits prod.splits)
qed

lemma forward_query_routed:
  assumes "dns_world S A sent" and "forward_query S srv name data w = (ok, w')" and "dns_sockets srv"
    and "msg_from_bytes L data = Some message" and "msg_queries L message = (name, qt) # qs"
  shows "routed L srv sent w w'"
proof -
  have c: "udp_send_contract S sent" using assms(1) by (simp add: dns_world_def)
  have q: "query_about L P (take n data)" if "P name" for P n
    using that assms(4,5) take_is_prefix [of n data] unfolding query_about_def by blast
  have one: "\<exists>ps. sent s w' = sent s w @ ps \<and> (\<forall>(d, a')\<in>set ps. a' = a \<and> query_about L P d)"
    if "udp_send_to S s data a w = (r, w')" "P name" for s a r P
  proof (cases r)
    case (Inl e)
    with udp_send_contractD(2) [OF c] that(1) show ?thesis by auto
  next
    case (Inr n)
    then have "sent s w' = sent s w @ [(take n data, a)]" using udp_send_contractD(1) [OF c] that(1) by simp
    with q [of P n, OF that(2)] show ?thesis by auto
  qed
  obtain r where r: "udp_send_to S (if is_blocked srv name then ds_trusted srv else ds_poisoned srv) data
      (if is_blocked srv name then ds_trusted_addr srv else ds_poisoned_addr srv) w = (r, w')"
    using assms(2) by (auto simp: forward_query_def split: prod.splits sum.splits if_splits)
  show ?thesis
  proof (cases "is_blocked srv name")
    case True
    with r have t: "udp_send_to S (ds_trusted srv) data (ds_trusted_addr srv) w = (r, w')" by simp
    from one [OF t, of "is_blocked srv"] True dns_world_other(1) [OF assms(1) _ t, of "ds_poisoned srv"] assms(3)
    show ?thesis by (auto simp: routed_def)
  next
    case False
    with r have t: "udp_send_to S (ds_poisoned srv) data (ds_poisoned_addr srv) w = (r, w')" by simp
    from one [OF t, of "\<lambda>n. \<not> is_blocked srv n"] False dns_world_other(1) [OF assms(1) _ t, of "ds_trusted srv"] assms(3)
    show ?thesis by (auto simp: routed_def)
  qed
qed

lemma add_request_quiet:
  assumes "dns_world S A sent" and "add_request S cfg srv key a i w = Some (srv', w')"
  shows "dns_same srv srv' \<and> sent s w' = sent s w"
  using assms(2) dns_world_other(2) [OF assms(1)]
  by (auto simp: add_request_def dns_same_def split: option.splits bind_splits prod.splits)

lemma local_message_routed:
  assumes "dns_world S A sent" and "local_message S L cfg srv now data from w = Some (srv', w')" and "dns_sockets srv"
  shows "dns_same srv srv' \<and> routed L srv sent w w'"
proof (cases "msg_from_bytes L data")
  case None
  with assms(2) show ?thesis by (simp add: local_message_def routed_quiet)
next
  case (Some message)
  show ?thesis
  proof (cases "msg_query_count L message = 1")
    case False
    with assms(2) Some show ?thesis by (simp add: local_message_def routed_quiet)
  next
    case True
    with assms(2) Some obtain name qt where "idx (msg_queries L message) 0 = Some (name, qt)"
      by (auto simp: local_message_def split: bind_splits)
    then obtain qs where q: "msg_queries L message = (name, qt) # qs"
      by (cases "msg_queries L message") (auto simp: idx_def split: if_splits)
    then have i: "idx (msg_queries L message) 0 = Some (name, qt)" by (simp add: idx_def)
    show ?thesis
    proof (cases "qt = PTR \<and> name = ds_ptr_name srv")
      case True
      with assms(2) Some \<open>msg_query_count L message = 1\<close> i obtain r where
        s: "srv' = srv" "udp_send_to S (ds_listener srv) (ds_arp_data srv) from w = (r, w')"
        by (cases "udp_send_to S (ds_listener srv) (ds_arp_data srv) from w") (auto simp: local_message_def)
      have "routed L srv sent w w'"
        by (rule routed_quiet) (use dns_world_other(1) [OF assms(1) _ s(2)] assms(3) in auto)
      with s(1) show ?thesis by simp
    next
      case False
      let ?rest = "\<lambda>key (renew, respond, srv1, w1). if renew then
                (case forward_query S srv1 name data w1 of (ok, w) \<Rightarrow>
                   if ok \<and> respond then add_request S cfg srv1 key from (msg_id L message) w
                   else Some (srv1, w))
              else Some (srv1, w1)"
      from assms(2) Some \<open>msg_query_count L message = 1\<close> i False obtain key y where
        k: "cached_answer S L srv key (msg_id L message) now from w = Some y" "?rest key y = Some (srv', w')"
        unfolding local_message_def by (simp del: de_Morgan_conj split: bind_splits)
      obtain renew respond srv1 w1 where y: "y = (renew, respond, srv1, w1)" by (cases y)
      note ca = k(1) [unfolded y] and rest = k(2) [unfolded y prod.case]
      note c = cached_answer_routed [OF assms(1) ca assms(3)]
      have r1: "routed L srv sent w w1" using c by (simp add: routed_quiet)
      have ds1: "dns_sockets srv1" using c assms(3) by (simp add: dns_same_def)
      show ?thesis
      proof (cases renew)
        case True
        obtain ok w2 where f: "forward_query S srv1 name data w1 = (ok, w2)" by (cases "forward_query S srv1 name data w1")
        note r2 = forward_query_routed [OF assms(1) f ds1 Some q]
        have r3: "dns_same srv1 srv' \<and> routed L srv1 sent w2 w'"
          using rest True f add_request_quiet [OF assms(1), of cfg srv1 key "from" "msg_id L message" w2 srv' w']
          by (auto simp: routed_quiet split: if_splits)
        have "routed L srv1 sent w1 w'" using routed_trans [OF r2 conjunct2 [OF r3]] by simp
        then have "routed L srv sent w w'" using routed_trans [OF r1] c by simp
        then show ?thesis using dns_same_trans [OF _ conjunct1 [OF r3], of srv] c by simp
      qed (use rest r1 c in auto)
    qed
  qed
qed

lemma answer_all_quiet:
  assumes "dns_world S A sent"
  shows "answer_all S L k as m w = Some (m', w') \<Longrightarrow> s \<noteq> k \<Longrightarrow> sent s w' = sent s w"
proof (induction "as" arbitrary: m w)
  case (Cons x "as")
  obtain a i where x: "x = (a, i)" by (cases x)
  obtain d r w1 where s: "udp_send_to S k d a w = (r, w1)" "answer_all S L k as (msg_set_id L i m) w1 = Some (m', w')"
    using Cons.prems(1) by (auto simp: x Let_def split: bind_splits prod.splits)
  from Cons.IH [OF s(2) Cons.prems(2)] dns_world_other(1) [OF assms Cons.prems(2) s(1)] show ?case by simp
qed simp

lemma scan_answers_quiet:
  assumes "dns_world S A sent"
  shows "scan_answers A cfg ix b rs t R w = Some (t', R', w') \<Longrightarrow> sent s w' = sent s w"
proof (induction rs arbitrary: t R w)
  case (Cons x rs)
  have ra: "sent s v' = sent s v" if "route_add_with_if A d n g ix v = (r, v')" for d n g v r v'
    using that dns_world_other(5) [OF assms] by (auto simp: route_add_with_if_def split: prod.splits)
  obtain ttl ip where x: "x = (ttl, ip)" by (cases x)
  obtain R1 w1 where s: "sent s w1 = sent s w" "scan_answers A cfg ix b rs ttl R1 w1 = Some (t', R', w')"
    using Cons.prems by (auto simp: x dest: ra split: bind_splits option.splits ip_addr.splits if_splits prod.splits sum.splits)
  from Cons.IH [OF s(2)] s(1) show ?case by simp
qed simp

lemma server_message_quiet:
  assumes "dns_world S A sent" and "server_message S A L cfg srv b now data w = Some (srv', w')" and "dns_sockets srv"
  shows "dns_same srv srv' \<and> routed L srv sent w w'"
proof -
  have a: "sent (ds_trusted srv) v' = sent (ds_trusted srv) v \<and> sent (ds_poisoned srv) v' = sent (ds_poisoned srv) v"
    if "answer_all S L (ds_listener srv) as m v = Some (m', v')" for "as" m v m' v'
    using answer_all_quiet [OF assms(1) that] assms(3) by auto
  have b: "sent (ds_trusted srv) v' = sent (ds_trusted srv) v \<and> sent (ds_poisoned srv) v' = sent (ds_poisoned srv) v"
    if "scan_answers A cfg ix bl rs t R v = Some (t', R', v')" for ix bl rs t R v t' R' v'
    using scan_answers_quiet [OF assms(1) that] by simp
  from assms(2) show ?thesis
    by (auto simp: server_message_def dns_same_def intro!: routed_quiet dest!: a b split: option.splits bind_splits)
qed

section \<open>Rounds\<close>

lemma dispatch_local_routed:
  assumes "dns_world S A sent" and "dispatch_local_loop S L cfg srv now w = Some (srv', w')" and "dns_sockets srv"
  shows "dns_same srv srv' \<and> routed L srv sent w w'"
proof -
  have "dns_world S A sent \<and> dns_sockets srv \<longrightarrow> dns_same srv (fst r) \<and> routed L srv sent w (snd r)"
    if "dispatch_local_loop S L cfg srv now w = Some r" for r
  proof (rule dispatch_local_loop.raw_induct [where P = "\<lambda>S L cfg srv now w r. dns_world S A sent \<and> dns_sockets srv \<longrightarrow>
      dns_same srv (fst r) \<and> routed L srv sent w (snd r)", OF _ that], goal_cases)
    case (1 f S L cfg srv now w r)
    show ?case
    proof
      assume a: "dns_world S A sent \<and> dns_sockets srv"
      obtain x w1 where rc: "udp_recv_from S (ds_listener srv) MAX_PACKET_SIZE w = (x, w1)"
        by (cases "udp_recv_from S (ds_listener srv) MAX_PACKET_SIZE w")
      have q1: "routed L srv sent w w1" by (rule routed_quiet) (use dns_world_other(3) [OF conjunct1 [OF a] rc] in auto)
      show "dns_same srv (fst r) \<and> routed L srv sent w (snd r)"
      proof (cases x)
        case (Inr d)
        obtain bs fr where d: "d = (bs, fr)" by (cases d)
        from 1(2) rc Inr d obtain srv1 w2 where m: "local_message S L cfg srv now bs fr w1 = Some (srv1, w2)"
          "f S L cfg srv1 now w2 = Some r" by (auto split: if_splits bind_splits)
        note lm = local_message_routed [OF conjunct1 [OF a] m(1) conjunct2 [OF a]]
        have s1: "dns_world S A sent \<and> dns_sockets srv1" using a lm by (simp add: dns_same_def)
        note ih = 1(1) [OF m(2), rule_format, OF s1]
        have "routed L srv sent w (snd r)"
          using routed_trans [OF routed_trans [OF q1 conjunct2 [OF lm] dns_same_refl] conjunct2 [OF ih] conjunct1 [OF lm]] .
        with dns_same_trans [OF conjunct1 [OF lm] conjunct1 [OF ih]] show ?thesis by simp
      next
        case (Inl e)
        have rr: "routed L srv sent w w2" if "poll_reregister S (ds_listener srv) DNS_LOCAL w1 = (y, w2)" for y w2
          using routed_trans [OF q1, of srv w2] routed_quiet [of sent srv w2 w1 L] dns_world_other(4) [OF conjunct1 [OF a] that] by simp
        show ?thesis
        proof (cases "e = ConnectionReset")
          case True
          with 1(2) rc Inl have "f S L cfg srv now w1 = Some r" by simp
          from 1(1) [OF this, rule_format, OF a] routed_trans [OF q1, of srv "snd r"] show ?thesis by simp
        next
          case False
          with 1(2) rc Inl q1 show ?thesis
            by (auto simp: io_unwrap_def dest: rr split: if_splits bind_splits prod.splits sum.splits)
        qed
      qed
    qed
  qed
  from this [OF assms(2)] assms(1,3) show ?thesis by simp
qed

lemma dispatch_server_routed:
  assumes "dns_world S A sent" and "dispatch_server_loop S A L cfg k srv b now w = Some (ok, srv', w')" and "dns_sockets srv"
  shows "dns_same srv srv' \<and> routed L srv sent w w'"
proof -
  have "dns_world S A sent \<and> dns_sockets srv \<longrightarrow> dns_same srv (fst (snd r)) \<and> routed L srv sent w (snd (snd r))"
    if "dispatch_server_loop S A L cfg k srv b now w = Some r" for r
  proof (rule dispatch_server_loop.raw_induct [where P = "\<lambda>S A L cfg k srv b now w r. dns_world S A sent \<and> dns_sockets srv \<longrightarrow>
      dns_same srv (fst (snd r)) \<and> routed L srv sent w (snd (snd r))", OF _ that], goal_cases)
    case (1 f S A L cfg k srv b now w r)
    show ?case
    proof
      assume a: "dns_world S A sent \<and> dns_sockets srv"
      obtain x w1 where rc: "udp_recv_from S k MAX_PACKET_SIZE w = (x, w1)" by (cases "udp_recv_from S k MAX_PACKET_SIZE w")
      have q1: "routed L srv sent w w1" by (rule routed_quiet) (use dns_world_other(3) [OF conjunct1 [OF a] rc] in auto)
      show "dns_same srv (fst (snd r)) \<and> routed L srv sent w (snd (snd r))"
      proof (cases x)
        case (Inr d)
        obtain bs fr where d: "d = (bs, fr)" by (cases d)
        from 1(2) rc Inr d obtain srv1 w2 where m: "server_message S A L cfg srv b now bs w1 = Some (srv1, w2)"
          "f S A L cfg k srv1 b now w2 = Some r" by (auto split: if_splits bind_splits)
        note lm = server_message_quiet [OF conjunct1 [OF a] m(1) conjunct2 [OF a]]
        have s1: "dns_world S A sent \<and> dns_sockets srv1" using a lm by (simp add: dns_same_def)
        note ih = 1(1) [OF m(2), rule_format, OF s1]
        have "routed L srv sent w (snd (snd r))"
          using routed_trans [OF routed_trans [OF q1 conjunct2 [OF lm] dns_same_refl] conjunct2 [OF ih] conjunct1 [OF lm]] .
        with dns_same_trans [OF conjunct1 [OF lm] conjunct1 [OF ih]] show ?thesis by simp
      next
        case (Inl e)
        show ?thesis
        proof (cases "e = ConnectionReset")
          case True
          with 1(2) rc Inl have "f S A L cfg k srv b now w1 = Some r" by simp
          from 1(1) [OF this, rule_format, OF a] routed_trans [OF q1, of srv "snd (snd r)"] show ?thesis by simp
        qed (use 1(2) rc Inl q1 in \<open>auto split: if_splits\<close>)
      qed
    qed
  qed
  from this [OF assms(2)] assms(1,3) show ?thesis by simp
qed

lemma dispatch_upstream_routed:
  assumes "dns_world S A sent" and "dns_sockets srv"
    and "Option.bind (dispatch_server S A L cfg k srv b w) (\<lambda>(ok, srv, w). if \<not> ok then
        Option.bind (io_unwrap (poll_reregister S (g srv) t w)) (\<lambda>(_, w). Some (srv, w)) else Some (srv, w)) = Some (srv', w')"
  shows "dns_same srv srv' \<and> routed L srv sent w w'"
proof -
  obtain now w0 where t: "instant_now S w = (now, w0)" by (cases "instant_now S w")
  from assms(3) t obtain ok srv1 w1 where d: "dispatch_server_loop S A L cfg k srv b now w0 = Some (ok, srv1, w1)"
    and e: "(if \<not> ok then Option.bind (io_unwrap (poll_reregister S (g srv1) t w1)) (\<lambda>(_, w). Some (srv1, w)) else Some (srv1, w1)) = Some (srv', w')"
    by (auto simp: dispatch_server_def split: bind_splits)
  note l = dispatch_server_routed [OF assms(1) d assms(2)]
  have q: "routed L srv sent w w0" by (rule routed_quiet) (use dns_world_other(2) [OF assms(1) t] in auto)
  have "srv' = srv1 \<and> routed L srv1 sent w1 w'"
    using e dns_world_other(4) [OF assms(1)]
    by (auto simp: io_unwrap_def intro!: routed_quiet split: if_splits bind_splits prod.splits sum.splits)
  with routed_trans [OF q routed_trans [OF conjunct2 [OF l] _ conjunct1 [OF l]] dns_same_refl] l show ?thesis by simp
qed

lemma dns_ready_routed:
  assumes "dns_world S A sent" and "dns_ready S A L cfg srv e w = Some (srv', w')" and "dns_sockets srv"
  shows "dns_same srv srv' \<and> routed L srv sent w w'"
proof -
  obtain now w0 where t: "instant_now S w = (now, w0)" by (cases "instant_now S w")
  have q: "routed L srv sent w w0" by (rule routed_quiet) (use dns_world_other(2) [OF assms(1) t] in auto)
  consider "dispatch_local_loop S L cfg srv now w0 = Some (srv', w')" | "dispatch_trusted S A L cfg srv w = Some (srv', w')"
    | "dispatch_poisoned S A L cfg srv w = Some (srv', w')"
    using assms(2) t by (auto simp: dns_ready_def dispatch_local_def split: if_splits)
  then show ?thesis
  proof cases
    case 1
    note l = dispatch_local_routed [OF assms(1) 1 assms(3)]
    from l routed_trans [OF q conjunct2 [OF l] dns_same_refl] show ?thesis by simp
  next
    case 2
    from dispatch_upstream_routed [OF assms(1,3) 2 [unfolded dispatch_trusted_def]] show ?thesis .
  next
    case 3
    from dispatch_upstream_routed [OF assms(1,3) 3 [unfolded dispatch_poisoned_def]] show ?thesis .
  qed
qed

lemma dns_round_routed:
  assumes "dns_world S A sent"
  shows "dns_round S A L cfg srv es w = Some (srv', w') \<Longrightarrow> dns_sockets srv \<Longrightarrow> dns_same srv srv' \<and> routed L srv sent w w'"
proof (induction es arbitrary: srv w)
  case (Cons e es)
  from Cons.prems(1) obtain srv1 w1 where r: "dns_ready S A L cfg srv e w = Some (srv1, w1)"
    "dns_round S A L cfg srv1 es w1 = Some (srv', w')" by (auto split: bind_splits)
  note l = dns_ready_routed [OF assms r(1) Cons.prems(2)]
  have "dns_sockets srv1" using l Cons.prems(2) by (simp add: dns_same_def)
  note ih = Cons.IH [OF r(2) this]
  from routed_trans [OF conjunct2 [OF l] conjunct2 [OF ih] conjunct1 [OF l]] dns_same_trans [OF conjunct1 [OF l] conjunct1 [OF ih]]
  show ?case by simp
qed (simp add: routed_quiet)

end
