(* ===== verification/Dns_Answers.thy ===== *)
theory Dns_Answers
  imports Dns_Server
begin

text \<open>
  What the name server promises its clients: queries only reach the server meant for them, an answer reaches
  everybody who asked, with the identifier of the question, and is kept for the time to live of its last record.
\<close>

section \<open>Messages\<close>

text \<open>What the code relies on of messages: the identifier is a field of its own. Writing a message may fail.\<close>

definition dns_lib_ok :: "'m dns_lib \<Rightarrow> bool" where
  "dns_lib_ok L \<longleftrightarrow> (\<forall>i j m. msg_set_id L i (msg_set_id L j m) = msg_set_id L i m) \<and>
     (\<forall>i m. msg_answers L (msg_set_id L i m) = msg_answers L m) \<and>
     (\<forall>i m. msg_queries L (msg_set_id L i m) = msg_queries L m)"

lemma dns_lib_okD [simp]:
  assumes "dns_lib_ok L"
  shows "msg_set_id L i (msg_set_id L j m) = msg_set_id L i m" and "msg_answers L (msg_set_id L i m) = msg_answers L m"
    and "msg_queries L (msg_set_id L i m) = msg_queries L m"
  using assms unfolding dns_lib_ok_def by blast+

text \<open>A message that can be written, whoever it goes to.\<close>

definition encodes :: "'m dns_lib \<Rightarrow> 'm \<Rightarrow> bool" where
  "encodes L m \<longleftrightarrow> (\<forall>i. msg_to_vec L (msg_set_id L i m) \<noteq> None)"

lemma encodes_set_id [simp]: "dns_lib_ok L \<Longrightarrow> encodes L (msg_set_id L i m) = encodes L m"
  by (simp add: encodes_def)

text \<open>A message as it is sent to somebody who asked with identifier \<open>i\<close>.\<close>

definition reply :: "'m dns_lib \<Rightarrow> 'm \<Rightarrow> socket_addr \<times> u16 \<Rightarrow> bytes \<times> socket_addr" where
  "reply L m = (\<lambda>(a, i). (the (msg_to_vec L (msg_set_id L i m)), a))"

lemma to_vec_reply: "encodes L m \<Longrightarrow> msg_to_vec L (msg_set_id L i m) = Some (fst (reply L m (a, i)))"
  by (simp add: encodes_def reply_def)

lemma reply_set_id [simp]: "dns_lib_ok L \<Longrightarrow> reply L (msg_set_id L j m) = reply L m"
  by (auto simp: reply_def fun_eq_iff)

text \<open>Datagrams are sent whole or not at all.\<close>

definition whole_datagrams :: "'w sys \<Rightarrow> (sock \<Rightarrow> 'w \<Rightarrow> (bytes \<times> socket_addr) list) \<Rightarrow> bool" where
  "whole_datagrams S sent \<longleftrightarrow> (\<forall>s d a w. case udp_send_to S s d a w of
      (Inr n, w') \<Rightarrow> sent s w' = sent s w @ [(d, a)]
    | (Inl e, w') \<Rightarrow> sent s w' = sent s w)"

lemma whole_datagramsD:
  assumes "whole_datagrams S sent"
  shows "udp_send_to S s d a w = (Inr n, w') \<Longrightarrow> sent s w' = sent s w @ [(d, a)]"
    and "udp_send_to S s d a w = (Inl e, w') \<Longrightarrow> sent s w' = sent s w"
  using assms [unfolded whole_datagrams_def, rule_format, where s = s and d = d and a = a and w = w] by auto

definition never_refuses :: "'w sys \<Rightarrow> sock \<Rightarrow> bool" where
  "never_refuses S s \<longleftrightarrow> (\<forall>d a w. \<exists>n w'. udp_send_to S s d a w = (Inr n, w'))"

section \<open>Answers\<close>

definition last_ttl :: "u32 \<Rightarrow> (u32 \<times> ip_addr option) list \<Rightarrow> u32" where
  "last_ttl t rs = last (t # map fst rs)"

lemma scan_answers_total:
  assumes "get_dns_args cfg = Some args"
  shows "\<exists>R' w'. scan_answers A cfg ix b rs t R w = Some (last_ttl t rs, R', w')"
proof (induction rs arbitrary: t R w)
  case (Cons x rs)
  obtain ttl ip where x: "x = (ttl, ip)" by (cases x)
  have "\<exists>R1 w1. scan_answers A cfg ix b (x # rs) t R w = scan_answers A cfg ix b rs ttl R1 w1"
    unfolding x using assms by (auto split: option.splits ip_addr.splits sum.splits prod.splits)
  with Cons.IH [of ttl] show ?case by (auto simp: last_ttl_def x)
qed (simp add: last_ttl_def)

lemma answer_all_sends:
  assumes "dns_lib_ok L" and "whole_datagrams S sent"
  shows "encodes L m \<Longrightarrow> \<exists>m' w' rs. answer_all S L k as m w = Some (m', w') \<and> subseq rs as \<and>
     sent k w' = sent k w @ map (reply L m) rs \<and> (never_refuses S k \<longrightarrow> rs = as) \<and> (m' = m \<or> (\<exists>i. m' = msg_set_id L i m))"
proof (induction "as" arbitrary: m w)
  case (Cons x "as")
  obtain a i where x: "x = (a, i)" by (cases x)
  obtain r w1 where s: "udp_send_to S k (fst (reply L m (a, i))) a w = (r, w1)"
    by (cases "udp_send_to S k (fst (reply L m (a, i))) a w")
  have p: "reply L m (a, i) = (fst (reply L m (a, i)), a)" by (simp add: reply_def)
  from Cons.IH [of "msg_set_id L i m" w1] Cons.prems assms(1) obtain m' w' rs where ih: "answer_all S L k as (msg_set_id L i m) w1 = Some (m', w')"
    "subseq rs as" "sent k w' = sent k w1 @ map (reply L m) rs" "never_refuses S k \<longrightarrow> rs = as"
    "m' = msg_set_id L i m \<or> (\<exists>j. m' = msg_set_id L j m)" using assms(1) by auto
  have step: "answer_all S L k (x # as) m w = Some (m', w')"
    using s ih(1) by (simp add: x to_vec_reply [OF Cons.prems, where a = a])
  show ?case
  proof (cases r)
    case (Inl e)
    then have "sent k w1 = sent k w" using whole_datagramsD(2) [OF assms(2)] s by simp
    moreover have "\<not> never_refuses S k" using s Inl by (auto simp: never_refuses_def dest!: spec [of _ "fst (reply L m (a, i))"])
      (metis Inl_Inr_False Pair_inject)
    ultimately show ?thesis
      using step ih by (auto intro!: exI [of _ rs])
  next
    case (Inr n)
    with s assms(2) have "sent k w1 = sent k w @ [reply L m x]" 
      using whole_datagramsD(1) [OF assms(2), of k "fst (reply L m (a, i))" a w n w1] p by (simp add: x)
    with step ih Inr show ?thesis by (auto intro!: exI [of _ "x # rs"])
  qed
qed auto

text \<open>A response to a stored question: who asked is answered and the message is kept.\<close>

lemma server_message_answers:
  assumes "dns_lib_ok L" and "whole_datagrams S sent" and "dns_world S A sent" and "get_dns_args cfg = Some args"
    and "msg_from_bytes L data = Some m" and "get_message_key L m = Some key" and "ds_store srv key = Some result"
    and "instant_add now (duration_from_secs (unat (last_ttl 0 (msg_answers L m)))) = Some e" and "encodes L m"
  shows "\<exists>srv' w' rs m'. server_message S A L cfg srv b now data w = Some (srv', w') \<and> subseq rs (qr_addresses result) \<and>
     sent (ds_listener srv) w' = sent (ds_listener srv) w @ map (reply L m) rs \<and>
     (never_refuses S (ds_listener srv) \<longrightarrow> rs = qr_addresses result) \<and> (m' = m \<or> (\<exists>i. m' = msg_set_id L i m)) \<and>
     ds_store srv' = (ds_store srv)(key \<mapsto> \<lparr>qr_addresses = [], qr_response = Some m', qr_expire_time = e\<rparr>)"
proof -
  from answer_all_sends [OF assms(1,2,9), where k = "ds_listener srv" and as = "qr_addresses result" and w = w] obtain m' w1 rs where
    a: "answer_all S L (ds_listener srv) (qr_addresses result) m w = Some (m', w1)" "subseq rs (qr_addresses result)"
    "sent (ds_listener srv) w1 = sent (ds_listener srv) w @ map (reply L m) rs"
    "never_refuses S (ds_listener srv) \<longrightarrow> rs = qr_addresses result" "m' = m \<or> (\<exists>i. m' = msg_set_id L i m)" by blast
  then have ans: "msg_answers L m' = msg_answers L m" using assms(1) by auto
  from scan_answers_total [OF assms(4), of A "ds_adapter_index srv" b "msg_answers L m" 0 "ds_route_added srv" w1] obtain R w2 where
    s: "scan_answers A cfg (ds_adapter_index srv) b (msg_answers L m) 0 (ds_route_added srv) w1 =
      Some (last_ttl 0 (msg_answers L m), R, w2)" by blast
  from scan_answers_quiet [OF assms(3) s] have q: "sent (ds_listener srv) w2 = sent (ds_listener srv) w1" .
  let ?srv = "srv\<lparr>ds_store := (ds_store srv)(key \<mapsto> \<lparr>qr_addresses = [], qr_response = Some m', qr_expire_time = e\<rparr>),
      ds_route_added := R\<rparr>"
  have "server_message S A L cfg srv b now data w = Some (?srv, w2)"
    using assms(5-8) a(1) s ans by (simp add: server_message_def)
  then show ?thesis using a(2-5) q by (intro exI [of _ ?srv] exI [of _ w2] exI [of _ rs] exI [of _ m']) simp
qed

text \<open>A question that is not in the cache and could be sent on: its sender is added to those who wait.\<close>

lemma local_message_waits:
  assumes "msg_from_bytes L data = Some m" and "msg_query_count L m = 1" and "msg_queries L m = [(name, qt)]"
    and "\<not> (qt = PTR \<and> name = ds_ptr_name srv)" and "get_message_key L m = Some key"
    and "Option.bind (ds_store srv key) qr_response = None" and "fst (forward_query S srv name data w)"
    and "local_message S L cfg srv now data from w = Some (srv', w')"
  shows "\<exists>r. ds_store srv' key = Some r \<and> (from, msg_id L m) \<in> set (qr_addresses r) \<and> qr_response r = None"
    and "ds_listener srv' = ds_listener srv"
proof -
  obtain w1 where f: "forward_query S srv name data w = (True, w1)"
    using assms(7) by (cases "forward_query S srv name data w") simp
  have c: "cached_answer S L srv key (msg_id L m) now from w = Some (True, True, srv, w)"
    using assms(6) by (auto simp: cached_answer_def split: option.splits)
  have i: "idx (msg_queries L m) 0 = Some (name, qt)" using assms(3) by (simp add: idx_def)
  have "local_message S L cfg srv now data from w = add_request S cfg srv key from (msg_id L m) w1"
    using assms(1,2,4,5) i c f by (auto simp: local_message_def)
  with assms(8) have a: "add_request S cfg srv key from (msg_id L m) w1 = Some (srv', w')" by simp
  show "\<exists>r. ds_store srv' key = Some r \<and> (from, msg_id L m) \<in> set (qr_addresses r) \<and> qr_response r = None"
    using a assms(6) by (auto simp: add_request_def split: option.splits bind_splits prod.splits)
  show "ds_listener srv' = ds_listener srv"
    using a by (auto simp: add_request_def split: option.splits bind_splits prod.splits)
qed

lemma server_message_same:
  assumes "server_message S A L cfg srv b now data w = Some (srv', w')"
  shows "dns_same srv srv'"
  using assms by (auto simp: server_message_def dns_same_def split: option.splits bind_splits)

text \<open>Answering fails exactly when the message cannot be written for one of those who wait.\<close>

lemma answer_all_None:
  assumes "dns_lib_ok L"
  shows "answer_all S L k as m w = None \<longleftrightarrow> (\<exists>(a, i)\<in>set as. msg_to_vec L (msg_set_id L i m) = None)"
proof (induction "as" arbitrary: m w)
  case (Cons x "as")
  obtain a i where x: "x = (a, i)" by (cases x)
  show ?case
  proof (cases "msg_to_vec L (msg_set_id L i m)")
    case (Some d)
    obtain r w1 where "udp_send_to S k d a w = (r, w1)" by (cases "udp_send_to S k d a w")
    with Cons.IH [of "msg_set_id L i m" w1] Some assms show ?thesis by (simp add: x)
  qed (simp add: x)
qed simp

section \<open>Properties\<close>

text \<open>C32. Questions do not leak: whatever a round of the name server sends on the socket to the server for unlisted
  domains goes to that server and is (the front of) a question for a domain that is not listed, and on the socket
  to the trusted server only questions for listed domains are sent.\<close>

theorem dns_no_leak:
  assumes "dns_world S A sent" and "dns_sockets srv" and "dns_round S A L cfg srv es w = Some (srv', w')"
  shows "(\<exists>ps. sent (ds_poisoned srv) w' = sent (ds_poisoned srv) w @ ps \<and> (\<forall>(d, a)\<in>set ps. a = ds_poisoned_addr srv \<and>
       (\<exists>data m name qt qs. prefix d data \<and> msg_from_bytes L data = Some m \<and> msg_queries L m = (name, qt) # qs \<and>
          \<not> domain_contains (ds_blocked_domains srv) name))) \<and>
     (\<exists>ps. sent (ds_trusted srv) w' = sent (ds_trusted srv) w @ ps \<and> (\<forall>(d, a)\<in>set ps. a = ds_trusted_addr srv \<and>
       (\<exists>data m name qt qs. prefix d data \<and> msg_from_bytes L data = Some m \<and> msg_queries L m = (name, qt) # qs \<and>
          domain_contains (ds_blocked_domains srv) name)))"
  using dns_round_routed [OF assms(1,3,2)] unfolding routed_def query_about_def is_blocked_def by blast

text \<open>C33. A question is answered: when it is not in the cache and could be sent on, and a response with the same
  name and type comes in that can be written again, then its sender receives that response with the identifier of the question, in whatever
  world that happens; and the response stays in the cache until the time to live of its last record has passed.\<close>

theorem dns_query_answered:
  assumes "dns_lib_ok L" and "whole_datagrams S sent" and "dns_world S A sent" and "never_refuses S (ds_listener srv)"
    and "get_dns_args cfg = Some args"
    and "msg_from_bytes L data = Some m" and "msg_query_count L m = 1" and "msg_queries L m = [(name, qt)]"
    and "\<not> (qt = PTR \<and> name = ds_ptr_name srv)" and "get_message_key L m = Some key"
    and "Option.bind (ds_store srv key) qr_response = None" and "fst (forward_query S srv name data w)"
    and "local_message S L cfg srv now data from w = Some (srv1, w1)"
    and "msg_from_bytes L answer = Some m2" and "get_message_key L m2 = Some key"
    and "instant_add t (duration_from_secs (unat (last_ttl 0 (msg_answers L m2)))) = Some e" and "encodes L m2"
  shows "\<exists>srv2 w3 ps. server_message S A L cfg srv1 b t answer w2 = Some (srv2, w3) \<and>
     sent (ds_listener srv) w3 = sent (ds_listener srv) w2 @ ps \<and>
     (the (msg_to_vec L (msg_set_id L (msg_id L m) m2)), from) \<in> set ps \<and>
     (\<forall>now2 < e. \<forall>id2 from2 w4. \<exists>srv5 w5. cached_answer S L srv2 key id2 now2 from2 w4 = Some (False, False, srv5, w5) \<and>
        sent (ds_listener srv) w5 = sent (ds_listener srv) w4 @ [(the (msg_to_vec L (msg_set_id L id2 m2)), from2)])"
proof -
  note wt = local_message_waits [OF assms(6-13)]
  from wt(1) obtain r where r: "ds_store srv1 key = Some r" "(from, msg_id L m) \<in> set (qr_addresses r)" by blast
  from server_message_answers [OF assms(1-3,5,14,15) r(1) assms(16,17), of b w2] assms(4) wt(2) obtain srv2 w3 m' where
    a: "server_message S A L cfg srv1 b t answer w2 = Some (srv2, w3)"
    "sent (ds_listener srv) w3 = sent (ds_listener srv) w2 @ map (reply L m2) (qr_addresses r)"
    "m' = m2 \<or> (\<exists>i. m' = msg_set_id L i m2)"
    "ds_store srv2 = (ds_store srv1)(key \<mapsto> \<lparr>qr_addresses = [], qr_response = Some m', qr_expire_time = e\<rparr>)" by auto
  have l2: "ds_listener srv2 = ds_listener srv"
    using server_message_same [OF a(1)] wt(2) by (simp add: dns_same_def)
  have "reply L m2 (from, msg_id L m) \<in> reply L m2 ` set (qr_addresses r)" using r(2) by blast
  then have "(the (msg_to_vec L (msg_set_id L (msg_id L m) m2)), from) \<in> set (map (reply L m2) (qr_addresses r))"
    by (simp add: reply_def)
  moreover have "\<exists>srv5 w5. cached_answer S L srv2 key id2 now2 from2 w4 = Some (False, False, srv5, w5) \<and>
        sent (ds_listener srv) w5 = sent (ds_listener srv) w4 @ [(the (msg_to_vec L (msg_set_id L id2 m2)), from2)]"
    if "now2 < e" for now2 id2 from2 w4
  proof -
    have v: "msg_to_vec L (msg_set_id L id2 m') = Some (fst (reply L m2 (from2, id2)))"
      using a(3) to_vec_reply [OF assms(17), of id2 from2] assms(1) by auto
    obtain n w5 where s: "udp_send_to S (ds_listener srv) (fst (reply L m2 (from2, id2))) from2 w4 = (Inr n, w5)"
      using assms(4) unfolding never_refuses_def by blast
    show ?thesis using whole_datagramsD(1) [OF assms(2) s] s v a(4) l2 that
      by (auto simp: cached_answer_def Let_def reply_def)
  qed
  ultimately show ?thesis using a(1,2) by blast
qed

text \<open>C34. Exactly two kinds of response end the name server: one that parses as a message with an empty question
  section, which anybody can send to the port, and one that somebody waits for and that cannot be written again
  (the result of \<open>to_vec\<close> is unwrapped). Every other response is handled.\<close>

theorem dns_server_message_panics:
  assumes "dns_lib_ok L" and "get_dns_args cfg = Some args" and "now + duration_from_secs (2 ^ 32) < 2 ^ 63 * 1000000000"
  shows "server_message S A L cfg srv b now data w = None \<longleftrightarrow>
     (\<exists>m. msg_from_bytes L data = Some m \<and>
        (msg_queries L m = [] \<or>
         (\<exists>key r a i. get_message_key L m = Some key \<and> ds_store srv key = Some r \<and> (a, i) \<in> set (qr_addresses r) \<and>
            msg_to_vec L (msg_set_id L i m) = None)))"
proof (cases "msg_from_bytes L data")
  case (Some m)
  show ?thesis
  proof (cases "msg_queries L m = []")
    case True
    with Some show ?thesis by (simp add: server_message_def get_message_key_def idx_def)
  next
    case False
    then obtain key where k: "get_message_key L m = Some key"
      by (cases "msg_queries L m") (auto simp: get_message_key_def idx_def)
    show ?thesis
    proof (cases "ds_store srv key")
      case st: (Some result)
      note none = answer_all_None [OF assms(1), of S "ds_listener srv" "qr_addresses result" m w]
      show ?thesis
      proof (cases "answer_all S L (ds_listener srv) (qr_addresses result) m w")
        case None
        with Some st k none show ?thesis by (auto simp: server_message_def)
      next
        case a: (Some x)
        obtain m' w1 where x: "x = (m', w1)" by (cases x)
        from scan_answers_total [OF assms(2), of A "ds_adapter_index srv" b "msg_answers L m'" 0 "ds_route_added srv" w1]
        obtain R w2 where
          s: "scan_answers A cfg (ds_adapter_index srv) b (msg_answers L m') 0 (ds_route_added srv) w1 =
            Some (last_ttl 0 (msg_answers L m'), R, w2)" by blast
        have "unat (last_ttl 0 (msg_answers L m')) < 2 ^ 32" using unsigned_less [of "last_ttl 0 (msg_answers L m')"] by simp
        with assms(3) have "instant_add now (duration_from_secs (unat (last_ttl 0 (msg_answers L m')))) \<noteq> None"
          by (simp add: instant_add_def duration_from_secs_def)
        with Some st k a x s have "server_message S A L cfg srv b now data w \<noteq> None" by (auto simp: server_message_def)
        with Some False st k a none show ?thesis by (auto simp del: not_None_eq)
      qed
    qed (use Some k False in \<open>simp add: server_message_def\<close>)
  qed
qed (simp add: server_message_def)

section \<open>An example\<close>

text \<open>Messages of an identifier and a name, whose answer lives for a minute.\<close>

definition tiny_lib :: "(u16 \<times> bytes) dns_lib" where
  "tiny_lib = \<lparr>msg_from_bytes = (\<lambda>bs. case bs of [] \<Rightarrow> None | b # name \<Rightarrow> Some (ucast b, name)),
     msg_to_vec = (\<lambda>(i, name). Some (ucast i # name)),
     msg_queries = (\<lambda>(i, name). if name = [] then [] else [(name, OtherType 1)]),
     msg_query_count = (\<lambda>(i, name). if name = [] then 0 else 1),
     msg_id = fst, msg_set_id = (\<lambda>i (_, name). (i, name)), msg_answers = (\<lambda>_. [(60, Some (IpV4 (Ipv4Addr 1 2 3 4)))]),
     msg_type_text = (\<lambda>_. [65]), msg_ptr_response = (\<lambda>i name ttl data. Some (i, name))\<rparr>"

definition sim_api :: "sim winapi" where
  "sim_api = \<lparr>CreateIpForwardEntry = (\<lambda>row w. (NO_ERROR, w)), GetAdaptersInfo_length = (\<lambda>w. (NO_ERROR, 0)),
     GetAdaptersInfo = (\<lambda>n w. (NO_ERROR, [])), IIDFromString = (\<lambda>s. (S_OK, 0)),
     GetInterfaceDnsSettings = (\<lambda>g w. (NO_ERROR, w)), SetInterfaceDnsSettings = (\<lambda>g n w. (NO_ERROR, w))\<rparr>"

text \<open>Sockets with room for every datagram.\<close>

definition roomy_sys :: "sim sys" where
  "roomy_sys = sim_sys\<lparr>udp_send_to := (\<lambda>s d a w.
     (Inr (length d), w\<lparr>sim_dgrams_out := (sim_dgrams_out w)(s := sim_dgrams_out w s @ [(d, a)])\<rparr>))\<rparr>"

definition sample_dns :: opts where
  "sample_dns = sample_opts\<lparr>mode := Dns \<lparr>da_tun_name = [], da_blocked_domain_list = [], da_dns_listen_address = [],
     da_trusted_dns = [], da_poisoned_dns = [], da_dns_cache_time = 600, da_add_route = True\<rparr>\<rparr>"

definition dns_client :: socket_addr where
  "dns_client = V4 (Ipv4Addr 127 0 0 1) 5000"

definition sample_server :: "(u16 \<times> bytes) dns_server" where
  "sample_server = \<lparr>ds_listener = 1, ds_trusted = 2, ds_poisoned = 3, ds_arp_data = [], ds_blocked_domains = domain_map_new,
     ds_store = Map.empty, ds_ptr_name = [], ds_trusted_addr = V4 (Ipv4Addr 8 8 8 8) 53,
     ds_poisoned_addr = V4 (Ipv4Addr 9 9 9 9) 53, ds_route_added = {}, ds_adapter_index = 7\<rparr>"

lemma tiny_lib_ok: "dns_lib_ok tiny_lib"
  by (auto simp: dns_lib_ok_def tiny_lib_def split: prod.splits)

lemma roomy_world: "whole_datagrams roomy_sys (\<lambda>s w. sim_dgrams_out w s)" "never_refuses roomy_sys s"
  "dns_world roomy_sys sim_api (\<lambda>s w. sim_dgrams_out w s)"
  by (auto simp: whole_datagrams_def never_refuses_def dns_world_def udp_send_contract_def roomy_sys_def sim_api_def
      sim_recv_from_def split: list.splits prod.splits)

text \<open>A library that refuses to write one name.\<close>

definition picky_lib :: "(u16 \<times> bytes) dns_lib" where
  "picky_lib = tiny_lib\<lparr>msg_to_vec := (\<lambda>(i, name). if name = [98] then None else Some (ucast i # name))\<rparr>"

text \<open>Empty questions, a waiting client whose answer cannot be written, and one whose answer can.\<close>

theorem dns_server_message_panics_witness:
  "server_message roomy_sys sim_api tiny_lib sample_dns sample_server True 0 [5] sim_idle = None \<and>
   server_message roomy_sys sim_api picky_lib sample_dns (sample_server\<lparr>ds_store := [[98, 124, 65] \<mapsto>
      \<lparr>qr_addresses = [(dns_client, 5)], qr_response = None, qr_expire_time = 0\<rparr>]\<rparr>) True 0 [9, 98] sim_idle = None \<and>
   server_message roomy_sys sim_api picky_lib sample_dns (sample_server\<lparr>ds_store := [[97, 124, 65] \<mapsto>
      \<lparr>qr_addresses = [(dns_client, 5)], qr_response = None, qr_expire_time = 0\<rparr>]\<rparr>) True 0 [9, 97] sim_idle \<noteq> None"
proof -
  have args: "get_dns_args sample_dns = Some \<lparr>da_tun_name = [], da_blocked_domain_list = [], da_dns_listen_address = [],
     da_trusted_dns = [], da_poisoned_dns = [], da_dns_cache_time = 600, da_add_route = True\<rparr>"
    by (simp add: sample_dns_def get_dns_args_def)
  have now: "0 + duration_from_secs (2 ^ 32) < 2 ^ 63 * 1000000000" by (simp add: duration_from_secs_def)
  have picky: "dns_lib_ok picky_lib" by (auto simp: dns_lib_ok_def picky_lib_def tiny_lib_def split: prod.splits)
  show ?thesis
    unfolding dns_server_message_panics [OF tiny_lib_ok args now] dns_server_message_panics [OF picky args now]
    by (simp add: tiny_lib_def picky_lib_def get_message_key_def idx_def ascii_def)
qed

lemma sample_not_listed: "domain_contains domain_map_new [97] = False"
  by code_simp

lemma sample_query:
  "local_message roomy_sys tiny_lib sample_dns sample_server 0 [5, 97] dns_client sim_idle =
     Some (sample_server\<lparr>ds_store := [[97, 124, 65] \<mapsto>
         \<lparr>qr_addresses = [(dns_client, 5)], qr_response = None, qr_expire_time = 600000000000\<rparr>]\<rparr>,
       sim_idle\<lparr>sim_dgrams_out := (\<lambda>_. [])(3 := [([5, 97], V4 (Ipv4Addr 9 9 9 9) 53)])\<rparr>)"
  by (simp add: local_message_def tiny_lib_def sample_server_def roomy_sys_def sim_idle_def get_message_key_def idx_def
      cached_answer_def forward_query_def is_blocked_def sample_not_listed add_request_def sample_dns_def get_dns_args_def
      instant_add_def duration_from_secs_def ascii_def)

theorem dns_query_answered_witness:
  "\<exists>srv2 w3 ps. server_message roomy_sys sim_api tiny_lib sample_dns (sample_server\<lparr>ds_store := [[97, 124, 65] \<mapsto>
         \<lparr>qr_addresses = [(dns_client, 5)], qr_response = None, qr_expire_time = 600000000000\<rparr>]\<rparr>) False 0 [9, 97] sim_idle =
      Some (srv2, w3) \<and> sim_dgrams_out w3 1 = sim_dgrams_out sim_idle 1 @ ps \<and> ([5, 97], dns_client) \<in> set ps"
proof -
  have args: "get_dns_args sample_dns = Some \<lparr>da_tun_name = [], da_blocked_domain_list = [], da_dns_listen_address = [],
     da_trusted_dns = [], da_poisoned_dns = [], da_dns_cache_time = 600, da_add_route = True\<rparr>"
    by (simp add: sample_dns_def get_dns_args_def)
  have q: "msg_from_bytes tiny_lib [5, 97] = Some (5, [97])" "msg_query_count tiny_lib (5, [97]) = 1"
    "msg_queries tiny_lib (5, [97]) = [([97], OtherType 1)]" "get_message_key tiny_lib (5, [97]) = Some [97, 124, 65]"
    "msg_from_bytes tiny_lib [9, 97] = Some (9, [97])" "get_message_key tiny_lib (9, [97]) = Some [97, 124, 65]"
    by (simp_all add: tiny_lib_def get_message_key_def idx_def ascii_def)
  have f: "fst (forward_query roomy_sys sample_server [97] [5, 97] sim_idle)"
    by (simp add: forward_query_def is_blocked_def sample_server_def sample_not_listed roomy_sys_def)
  have e: "instant_add 0 (duration_from_secs (unat (last_ttl 0 (msg_answers tiny_lib (9, [97]))))) = Some 60000000000"
    by (simp add: tiny_lib_def last_ttl_def instant_add_def duration_from_secs_def)
  have enc: "encodes tiny_lib (9, [97])" by (simp add: encodes_def tiny_lib_def)
  show ?thesis
    using dns_query_answered [OF tiny_lib_ok roomy_world(1,3,2) args q(1-3) _ q(4) _ f sample_query q(5,6) e enc, of False sim_idle]
    by (auto simp: sample_server_def tiny_lib_def)
qed

lemma sample_round:
  "dns_round roomy_sys sim_api tiny_lib sample_dns sample_server [\<lparr>ev_token = DNS_LOCAL, ev_readable = True, ev_writable = False\<rparr>]
       (sim_idle\<lparr>sim_dgrams_in := (\<lambda>_. [])(1 := [([5, 97], dns_client)])\<rparr>) =
     Some (sample_server\<lparr>ds_store := [[97, 124, 65] \<mapsto>
         \<lparr>qr_addresses = [(dns_client, 5)], qr_response = None, qr_expire_time = 600000000000\<rparr>]\<rparr>,
       sim_idle\<lparr>sim_dgrams_in := (\<lambda>_. []), sim_dgrams_out := (\<lambda>_. [])(3 := [([5, 97], V4 (Ipv4Addr 9 9 9 9) 53)])\<rparr>)"
proof -
  let ?w = "sim_idle\<lparr>sim_dgrams_out := (\<lambda>_. [])(3 := [([5, 97], V4 (Ipv4Addr 9 9 9 9) 53)])\<rparr>"
  let ?srv = "sample_server\<lparr>ds_store := [[97, 124, 65] \<mapsto>
         \<lparr>qr_addresses = [(dns_client, 5)], qr_response = None, qr_expire_time = 600000000000\<rparr>]\<rparr>"
  have i: "(\<lambda>_. [])(1 := []) = (\<lambda>_. [])" by auto
  have rc: "udp_recv_from roomy_sys (ds_listener sample_server) n
      (sim_idle\<lparr>sim_dgrams_in := (\<lambda>_. [])(1 := [([5, 97], dns_client)])\<rparr>) = (Inr (take n [5, 97], dns_client), sim_idle)" for n
    by (simp add: roomy_sys_def sim_recv_from_def sim_idle_def sample_server_def fun_eq_iff)
  have l: "dispatch_local_loop roomy_sys tiny_lib sample_dns ?srv 0 ?w = Some (?srv, ?w)"
    by (subst dispatch_local_loop.simps) (simp add: roomy_sys_def sim_recv_from_def sim_idle_def)
  have "dispatch_local_loop roomy_sys tiny_lib sample_dns sample_server 0
      (sim_idle\<lparr>sim_dgrams_in := (\<lambda>_. [])(1 := [([5, 97], dns_client)])\<rparr>) = Some (?srv, ?w)"
    by (subst dispatch_local_loop.simps) (simp add: rc MAX_PACKET_SIZE_def sample_query l del: One_nat_def)
  then show ?thesis by (simp add: dns_ready_def dispatch_local_def roomy_sys_def sim_idle_def)
qed

theorem dns_no_leak_witness:
  "dns_round roomy_sys sim_api tiny_lib sample_dns sample_server [\<lparr>ev_token = DNS_LOCAL, ev_readable = True, ev_writable = False\<rparr>]
       (sim_idle\<lparr>sim_dgrams_in := (\<lambda>_. [])(1 := [([5, 97], dns_client)])\<rparr>) =
     Some (sample_server\<lparr>ds_store := [[97, 124, 65] \<mapsto>
         \<lparr>qr_addresses = [(dns_client, 5)], qr_response = None, qr_expire_time = 600000000000\<rparr>]\<rparr>,
       sim_idle\<lparr>sim_dgrams_in := (\<lambda>_. []), sim_dgrams_out := (\<lambda>_. [])(3 := [([5, 97], V4 (Ipv4Addr 9 9 9 9) 53)])\<rparr>) \<and>
   (\<exists>data m name qt qs. prefix [5, 97] data \<and> msg_from_bytes tiny_lib data = Some m \<and> msg_queries tiny_lib m = (name, qt) # qs \<and>
      \<not> domain_contains domain_map_new name)"
  using dns_no_leak [OF roomy_world(3) _ sample_round] sample_round by (simp add: sample_server_def sim_idle_def)

end
