(* ===== verification/Routes.thy ===== *)
theory Routes
  imports Winapi "HOL-Library.Multiset"
begin

text \<open>
  The routes the program installs: which addresses they match, and that inverse routing sends exactly the addresses
  into the tunnel that are neither in the list nor reserved. This joins \<open>apply_ipset\<close>, the address sets and the
  rows handed to \<open>CreateIpForwardEntry\<close>.
\<close>

section \<open>Rows and the addresses they match\<close>

text \<open>The system compares in network byte order.\<close>

definition row_matches :: "forward_row \<Rightarrow> u32 \<Rightarrow> bool" where
  "row_matches row x \<longleftrightarrow> u32_to_be x AND dwForwardMask row = dwForwardDest row"

lemma bit_u32_to_be:
  "bit (u32_to_be x) n \<longleftrightarrow> n < 32 \<and> bit x (if n < 8 then n + 24 else if n < 16 then n + 8 else if n < 24 then n - 8 else n - 24)"
proof -
  have f: "bit (0xFF :: u32) k \<longleftrightarrow> k < 8" "bit (0xFF00 :: u32) k \<longleftrightarrow> 8 \<le> k \<and> k < 16" for k
  proof -
    have m: "(0xFF :: u32) = mask 8" "(0xFF00 :: u32) = push_bit 8 (mask 8)" by (simp_all add: mask_eq_exp_minus_1)
    show "bit (0xFF :: u32) k \<longleftrightarrow> k < 8" unfolding m by (auto simp: bit_simps simp del: mask_numeral)
    show "bit (0xFF00 :: u32) k \<longleftrightarrow> 8 \<le> k \<and> k < 16" unfolding m by (auto simp: bit_simps simp del: mask_numeral)
  qed
  have o: "bit x (24 + n) \<Longrightarrow> n < 8" using bit_imp_le_length [of x "24 + n"] by simp
  have "bit (u32_to_be x) n \<longleftrightarrow> (24 \<le> n \<and> n < 32 \<and> bit x (n - 24) \<and> n - 24 < 8) \<or>
      (8 \<le> n \<and> n < 32 \<and> bit x (n - 8) \<and> 8 \<le> n - 8 \<and> n - 8 < 16) \<or> (bit x (8 + n) \<and> 8 \<le> n \<and> n < 16) \<or> bit x (24 + n)"
    unfolding u32_to_be_def
    by (simp only: bit_or_iff bit_push_bit_iff bit_drop_bit_eq bit_and_iff f comp_apply possible_bit_word) auto
  with o show ?thesis by (auto simp: add.commute)
qed

lemma u32_to_be_and: "u32_to_be (x AND y) = u32_to_be x AND u32_to_be y"
  by (rule bit_word_eqI) (simp add: bit_u32_to_be bit_and_iff)

lemma u32_to_be_involution [simp]: "u32_to_be (u32_to_be x) = x"
  by (rule bit_word_eqI) (auto simp: bit_u32_to_be)

lemma u32_to_be_inject [simp]: "u32_to_be x = u32_to_be y \<longleftrightarrow> x = y"
  by (metis u32_to_be_involution)

lemma route_row_matches: "row_matches (route_row dst msk gw ix) x \<longleftrightarrow> x AND msk = dst"
  by (simp add: row_matches_def route_row_def flip: u32_to_be_and)

lemma cidr_row_matches:
  assumes "cidr_ok c"
  obtains m where "cidr_mask c = Some m" and "\<And>x gw ix. row_matches (route_row (cidr_ip c) m gw ix) x \<longleftrightarrow> unat x \<in> cidr_addrs c"
proof -
  let ?n = "32 - unat (cidr_prefix c)"
  have n: "?n < 32" and p: "cidr_prefix c = 32 - of_nat ?n"
    using assms by (auto simp: cidr_ok_def word_unat_eq_iff unat_prefix)
  have m: "cidr_mask c = Some (NOT (2 ^ ?n - 1))"
    using cidr_mask_eq [OF n, of "cidr_ip c"] p by (cases c) simp
  have "x AND NOT (2 ^ ?n - 1) = cidr_ip c \<longleftrightarrow> unat x \<in> cidr_addrs c" for x
  proof -
    from assms obtain k where k: "unat (cidr_ip c) = 2 ^ ?n * k" by (auto simp: cidr_ok_def dvd_def)
    have "x AND NOT (2 ^ ?n - 1) = cidr_ip c \<longleftrightarrow> unat x - unat x mod 2 ^ ?n = 2 ^ ?n * k"
      by (simp add: word_unat_eq_iff unat_and_not k)
    also have "\<dots> \<longleftrightarrow> unat x div 2 ^ ?n = k"
      by (simp add: minus_mod_eq_mult_div)
    also have "\<dots> \<longleftrightarrow> unat x \<in> cidr_addrs c"
      using in_block_iff [of "unat x" k ?n] by (simp add: cidr_addrs_def k mult.commute)
    finally show ?thesis .
  qed
  with that [OF m] show ?thesis by (simp add: route_row_matches)
qed

text \<open>\<open>CreateIpForwardEntry\<close> adds the row exactly when it reports success. \<open>rows w\<close> is the routing table.\<close>

definition route_contract :: "'w winapi \<Rightarrow> ('w \<Rightarrow> forward_row set) \<Rightarrow> bool" where
  "route_contract A rows \<longleftrightarrow> (\<forall>row w. case CreateIpForwardEntry A row w of (ret, w') \<Rightarrow>
     rows w' = (if ret = NO_ERROR then insert row (rows w) else rows w) \<and>
     (ret = ERROR_OBJECT_ALREADY_EXISTS \<longrightarrow> row \<in> rows w))"

lemma route_add_ok:
  assumes "route_contract A rows" and "route_add_with_if A dst msk gw ix w = (Inr u, w')"
  shows "rows w' = insert (route_row dst msk gw ix) (rows w)"
proof -
  obtain ret where c: "CreateIpForwardEntry A (route_row dst msk gw ix) w = (ret, w')" "route_result ret = Inr u"
    using assms(2) by (auto simp: route_add_with_if_def split: prod.splits)
  then have "ret = NO_ERROR \<or> ret = ERROR_OBJECT_ALREADY_EXISTS" by (auto simp: route_result_def split: if_splits)
  with assms(1) [unfolded route_contract_def, rule_format, of "route_row dst msk gw ix" w] c(1) show ?thesis
    by (auto simp: winapi_consts)
qed

lemma ipset_add_routes_rows:
  assumes "route_contract A rows" and "list_all cidr_ok cs"
  shows "ipset_add_routes A cs ix w = Some (Inr u, w') \<Longrightarrow>
    (\<forall>row\<in>rows w' - rows w. dwForwardIfIndex row = ix) \<and>
    (\<forall>x. (\<exists>row\<in>rows w'. row_matches row x) \<longleftrightarrow> (\<exists>row\<in>rows w. row_matches row x) \<or> (\<exists>c\<in>set cs. unat x \<in> cidr_addrs c))"
  using assms(2)
proof (induction cs arbitrary: w)
  case (Cons c cs)
  from Cons.prems(2) obtain m where m: "cidr_mask c = Some m"
    "\<And>x gw ix. row_matches (route_row (cidr_ip c) m gw ix) x \<longleftrightarrow> unat x \<in> cidr_addrs c" by (auto elim: cidr_row_matches)
  with Cons.prems(1) obtain u1 w1 where s: "route_add_with_if A (cidr_ip c) m 0 ix w = (Inr u1, w1)"
    "ipset_add_routes A cs ix w1 = Some (Inr u, w')" by (auto split: prod.splits sum.splits)
  note r = route_add_ok [OF assms(1) s(1)]
  have ih: "\<forall>row\<in>rows w' - rows w1. dwForwardIfIndex row = ix"
    "(\<exists>row\<in>rows w'. row_matches row x) \<longleftrightarrow> (\<exists>row\<in>rows w1. row_matches row x) \<or> (\<exists>c\<in>set cs. unat x \<in> cidr_addrs c)" for x
    using Cons.IH [OF s(2)] Cons.prems(2) by auto
  have "dwForwardIfIndex (route_row (cidr_ip c) m 0 ix) = ix" by (simp add: route_row_def)
  with ih r m(2) show ?case by auto
qed auto

lemma ipset_add_routes_returns:
  assumes "list_all cidr_ok cs"
  shows "\<exists>r w'. ipset_add_routes A cs ix w = Some (r, w')"
  using assms
proof (induction cs arbitrary: w)
  case (Cons c cs)
  then obtain m where m: "cidr_mask c = Some m" by (auto elim: cidr_row_matches)
  obtain r w1 where s: "route_add_with_if A (cidr_ip c) m 0 ix w = (r, w1)"
    by (cases "route_add_with_if A (cidr_ip c) m 0 ix w")
  show ?case using Cons m s by (cases r) auto
qed simp

section \<open>Inverse routing\<close>

lemma not_loop_append:
  assumes "list_all cidr_ok xs"
  shows "not_loop (xs @ ys) r out = Option.bind (not_loop xs r out)
    (not_loop ys (if xs = [] then r else snd (the (cidr_range (last xs)))))"
  using assms
proof (induction xs arbitrary: r out)
  case (Cons c xs)
  then obtain e where e: "cidr_range c = Some (cidr_ip c, e)" using cidr_range_ok [of c] by auto
  show ?case using Cons by (auto simp: e split: bind_splits)
qed simp

lemma gaps_complement:
  assumes "list_all cidr_ok cs" and "0 < hits cs 0" and "0 < hits cs (2 ^ 32 - 1)"
  shows "x \<in> gaps 0 cs \<longleftrightarrow> x < 2 ^ 32 \<and> hits cs x = 0"
proof
  have out: "hits cs x = 0" if "2 ^ 32 \<le> x" for x
    using assms(1) that cidr_ok_bounds unfolding hits_0 by (fastforce simp: list_all_iff cidr_addrs_def)
  assume "x \<in> gaps 0 cs"
  then obtain y where "hits cs x = 0" "x < y" "0 < hits cs y" by (auto simp: gaps_def)
  moreover from this out [of y] have "y < 2 ^ 32" by (cases "2 ^ 32 \<le> y") simp_all
  ultimately show "x < 2 ^ 32 \<and> hits cs x = 0" by simp
next
  assume x: "x < 2 ^ 32 \<and> hits cs x = 0"
  then have "x \<noteq> 0" "x \<noteq> 2 ^ 32 - 1" using assms(2,3) less_irrefl by metis+
  with x have "x < 2 ^ 32 - 1" by linarith
  with x assms(3) \<open>x \<noteq> 0\<close> show "x \<in> gaps 0 cs" by (auto simp: gaps_def)
qed

text \<open>The blocks that \<open>with_file\<close> adds overlap at the end: the last address is a block of its own behind \<open>240/4\<close>.
  The inversion passes over it.\<close>

abbreviation top_block :: cidr where "top_block \<equiv> Cidr 4026531840 4"
abbreviation last_address :: cidr where "last_address \<equiv> Cidr 4294967295 32"

lemma top_block_addrs: "cidr_addrs top_block = {4026531840 ..< 2 ^ 32}" "cidr_addrs last_address = {4294967295}"
  by (auto simp: cidr_addrs_def)

lemma le_last_address: "cidr_ok c \<Longrightarrow> c \<le> last_address"
proof (cases c)
  case (Cidr ip p)
  assume ok: "cidr_ok c"
  have "p = 32" if "ip = 4294967295"
  proof -
    have "2 ^ (32 - unat p) dvd (4294967295 :: nat)" using ok that by (simp add: Cidr cidr_ok_def)
    then have "\<not> 2 dvd (2 :: nat) ^ (32 - unat p)" using dvd_trans [of 2 "2 ^ (32 - unat p)" "4294967295 :: nat"] by auto
    then have "32 - unat p = 0" by (cases "32 - unat p") simp_all
    with ok show ?thesis by (simp add: Cidr cidr_ok_def word_unat_eq_iff)
  qed
  moreover have "ip \<le> 4294967295" using unsigned_less [of ip, where 'a = nat] by (simp add: word_le_nat_alt)
  ultimately show ?thesis by (auto simp: Cidr less_eq_cidr_def)
qed

lemma last_sorted_top:
  assumes "list_all cidr_ok cs" and "\<forall>x. hits cs x \<le> 1" and "top_block \<in> set cs"
  shows "last (sort cs) = top_block"
proof (rule ccontr)
  let ?d = "last (sort cs)"
  assume n: "?d \<noteq> top_block"
  have ne: "sort cs \<noteq> []" using assms(3) by (metis list.set(1) empty_iff set_sort)
  then have d: "?d \<in> set cs" using last_in_set [OF ne] by simp
  from ne have s: "sort cs = butlast (sort cs) @ [?d]" by simp
  have "set (sort cs) = set (butlast (sort cs)) \<union> {?d}" using arg_cong [OF s, of set] by (simp only: set_append list.set)
  with assms(3) n have "top_block \<in> set (butlast (sort cs))" by auto
  moreover have "sorted (butlast (sort cs) @ [?d])" using s by (metis sorted_sort)
  ultimately have "top_block \<le> ?d" by (simp add: sorted_append)
  then have "4026531840 \<le> unat (cidr_ip ?d)" by (auto simp: less_eq_cidr_def word_le_nat_alt word_less_nat_alt)
  moreover have "unat (cidr_ip ?d) < 2 ^ 32" using unsigned_less [of "cidr_ip ?d"] by simp
  ultimately have "unat (cidr_ip ?d) \<in> cidr_addrs top_block" by (simp add: top_block_addrs)
  then have f: "{top_block, ?d} \<subseteq> set (filter (\<lambda>c. unat (cidr_ip ?d) \<in> cidr_addrs c) cs)"
    using assms(3) d cidr_addrs_ip by simp
  have "card {top_block, ?d} \<le> length (filter (\<lambda>c. unat (cidr_ip ?d) \<in> cidr_addrs c) cs)"
    using card_mono [OF _ f] card_length le_trans by blast
  moreover have "card {top_block, ?d} = 2" using n by simp
  ultimately show False using assms(2) [rule_format, of "unat (cidr_ip ?d)"] by (simp add: hits_def)
qed

lemma ipset_not_reserved:
  assumes "list_all cidr_ok cs" and "\<forall>x. hits cs x \<le> 1" and "top_block \<in> set cs" and "0 < hits cs 0"
    and "ips_data s = sort (cs @ [last_address])"
  shows "\<exists>t. ipset_not s = Some t \<and> list_all cidr_ok (ips_data t) \<and>
    (\<forall>x < 2 ^ 32. (\<exists>c\<in>set (ips_data t). x \<in> cidr_addrs c) \<longleftrightarrow> (\<forall>c\<in>set cs. x \<notin> cidr_addrs c))"
proof -
  have ok: "list_all cidr_ok (sort cs)" using assms(1) by (simp add: list_all_iff)
  have m: "0 < hits cs (2 ^ 32 - 1)"
    using hits_0 [of cs "2 ^ 32 - 1"] assms(3) top_block_addrs(1) by force
  have "sort (cs @ [last_address]) = sort cs @ [last_address]"
    using assms(1) le_last_address by (intro properties_for_sort) (auto simp: sorted_append list_all_iff)
  then have st: "sort (ips_data s) = sort cs @ [last_address]" using assms(5) by (metis sorted_sort sorted_sort_id)
  have ne: "sort cs \<noteq> []" using assms(3) by (metis list.set(1) empty_iff set_sort)
  have tr: "cidr_range top_block = Some (4026531840, 4294967295)" "cidr_range last_address = Some (4294967295, 4294967295)"
    by (simp_all add: cidr_range_def cidr_mask_def sub_checked_def shl_checked_def add_checked_def)
  have "not_loop [last_address] 4294967295 = Some" by (simp add: tr fun_eq_iff)
  then have "not_loop (sort (ips_data s)) 0 out = not_loop (sort cs) 0 out" for out
    using ne by (simp add: st not_loop_append [OF ok] last_sorted_top [OF assms(1-3)] tr)
  then have e: "ipset_not s = ipset_not \<lparr>ips_data = cs\<rparr>" by (simp add: ipset_not_def)
  from ipset_not_gaps [of "\<lparr>ips_data = cs\<rparr>"] assms(1,2) obtain t where
    t: "ipset_not s = Some t" "list_all cidr_ok (ips_data t)" "tiles (ips_data t) (gaps 0 cs)" by (auto simp: e)
  have "(\<exists>c\<in>set (ips_data t). x \<in> cidr_addrs c) \<longleftrightarrow> x < 2 ^ 32 \<and> (\<forall>c\<in>set cs. x \<notin> cidr_addrs c)" for x
    using tiles_iff [OF t(3), of x] gaps_complement [OF assms(1,4) m, of x] hits_0 [of cs x] by simp
  with t show ?thesis by blast
qed

lemma reserved_lines_added:
  "ipset_add_lines s reserved_lines = Some \<lparr>ips_data = ips_data s @ reserved_blocks\<rparr>"
  by (simp add: reserved_lines_def ipset_add_str_def parse_ipv4_def read_ipv4_addr_def
      parse_u32_def net_parse_simps idx_def ipset_add_def cidr_new_def cidr_mask_def sub_checked_def
      shl_checked_def reserved_blocks_def)

lemma reserved_blocks_snoc:
  "reserved_blocks = butlast reserved_blocks @ [last_address]" "list_all cidr_ok reserved_blocks"
  "top_block \<in> set (butlast reserved_blocks)" "Cidr 0 8 \<in> set (butlast reserved_blocks)"
  by (simp_all add: reserved_blocks_def cidr_ok_def)

lemma ipset_add_routes_accepted:
  assumes "\<And>row w. fst (CreateIpForwardEntry A row w) = NO_ERROR"
  shows "ipset_add_routes A cs ix w = Some (r, w') \<Longrightarrow> r = Inr ()"
proof (induction cs arbitrary: w)
  case (Cons c cs)
  obtain m where m: "cidr_mask c = Some m" using Cons.prems by (auto split: bind_splits)
  obtain w1 where "route_add_with_if A (cidr_ip c) m 0 ix w = (Inr (), w1)"
    using assms [of "route_row (cidr_ip c) m 0 ix" w]
    by (cases "CreateIpForwardEntry A (route_row (cidr_ip c) m 0 ix) w") (simp add: route_add_with_if_def route_result_def)
  with Cons.prems m have "ipset_add_routes A cs ix w1 = Some (r, w')" by simp
  then show ?case by (rule Cons.IH)
qed simp

text \<open>C35. Inverse routing sends into the tunnel exactly the addresses that are neither listed nor reserved: for a
  list of blocks that overlap neither each other nor the reserved ones, \<open>apply_ipset\<close> returns, and when every entry
  is accepted an address matches an entry of the routing table exactly when it did before or it is in no block of
  the list and in no reserved one, and all new entries lead to the given interface.\<close>

theorem inverse_routing:
  assumes "get_wintun_args cfg = Some args" and "wa_inverse_route args" and "route_contract A rows"
    and "ipset_add_lines ipset_new lines = Some s" and "list_all cidr_ok (ips_data s)"
    and "\<forall>x. length (filter (\<lambda>c. x \<in> cidr_addrs c) (ips_data s @ butlast reserved_blocks)) \<le> 1"
  shows "\<exists>r w'. apply_ipset A cfg (Inr lines) ix (wa_inverse_route args) w = Some (r, w') \<and> (r = Inr () \<longrightarrow>
     (\<forall>row\<in>rows w' - rows w. dwForwardIfIndex row = ix) \<and>
     (\<forall>x. (\<exists>row\<in>rows w'. row_matches row x) \<longleftrightarrow> (\<exists>row\<in>rows w. row_matches row x) \<or>
        \<not> (\<exists>c\<in>set (ips_data s @ reserved_blocks). unat x \<in> cidr_addrs c)))"
proof -
  let ?cs = "ips_data s @ butlast reserved_blocks"
  have ok: "list_all cidr_ok ?cs" using assms(5) reserved_blocks_snoc(2) by (auto simp: list_all_iff dest: in_set_butlastD)
  have top: "top_block \<in> set ?cs" using reserved_blocks_snoc(3) by simp
  have "0 \<in> cidr_addrs (Cidr 0 8)" by (simp add: cidr_addrs_def)
  then have z: "0 < hits ?cs 0" using hits_0 [of ?cs 0] reserved_blocks_snoc(4) by force
  let ?s = "\<lparr>ips_data = sort (?cs @ [last_address])\<rparr>"
  have ws: "ipset_with_lines lines True = Some ?s"
    using assms(4) reserved_blocks_snoc(1) by (simp add: ipset_with_lines_def reserved_lines_added ipset_build_def)
  obtain t where t: "ipset_not ?s = Some t" "list_all cidr_ok (ips_data t)"
    "\<forall>x < 2 ^ 32. (\<exists>c\<in>set (ips_data t). x \<in> cidr_addrs c) \<longleftrightarrow> (\<forall>c\<in>set ?cs. x \<notin> cidr_addrs c)"
    using ipset_not_reserved [OF ok _ top z, of ?s] assms(6) by (auto simp: hits_def)
  have u: "(\<exists>c\<in>set (ips_data t). unat x \<in> cidr_addrs c) \<longleftrightarrow> \<not> (\<exists>c\<in>set (ips_data s @ reserved_blocks). unat x \<in> cidr_addrs c)" for x :: u32
  proof -
    have l: "unat x \<in> cidr_addrs last_address \<Longrightarrow> unat x \<in> cidr_addrs top_block" by (simp add: top_block_addrs)
    have "set (ips_data s @ reserved_blocks) = insert last_address (set ?cs)" using reserved_blocks_snoc(1)
      by (metis append.assoc list.simps(15) rotate1.simps(2) set_append set_rotate1)
    moreover have "unat x < 2 ^ 32" using unsigned_less [of x, where 'a = nat] by simp
    ultimately show ?thesis using t(3) l top by auto
  qed
  obtain r w' where r: "ipset_add_routes A (ips_data t) ix w = Some (r, w')" using ipset_add_routes_returns [OF t(2), of A ix w] by blast
  then have "apply_ipset A cfg (Inr lines) ix (wa_inverse_route args) w = Some (r, w')"
    using assms(1,2) ws t(1) by (simp add: apply_ipset_def ipset_add_route_def)
  moreover have "(\<forall>row\<in>rows w' - rows w. dwForwardIfIndex row = ix) \<and>
     (\<forall>x. (\<exists>row\<in>rows w'. row_matches row x) \<longleftrightarrow> (\<exists>row\<in>rows w. row_matches row x) \<or>
        \<not> (\<exists>c\<in>set (ips_data s @ reserved_blocks). unat x \<in> cidr_addrs c))" if "r = Inr ()"
    using ipset_add_routes_rows [OF assms(3) t(2), of ix w "()" w'] r that u by simp
  ultimately show ?thesis by blast
qed

definition table_api :: "forward_row set winapi" where
  "table_api = \<lparr>CreateIpForwardEntry = (\<lambda>row w. (NO_ERROR, insert row w)), GetAdaptersInfo_length = (\<lambda>w. (NO_ERROR, 0)),
     GetAdaptersInfo = (\<lambda>n w. (NO_ERROR, [])), IIDFromString = (\<lambda>s. (S_OK, 0)),
     GetInterfaceDnsSettings = (\<lambda>g w. (NO_ERROR, w)), SetInterfaceDnsSettings = (\<lambda>g n w. (NO_ERROR, w))\<rparr>"

definition sample_wintun_args :: wintun_args where
  "sample_wintun_args = \<lparr>wa_wintun = [], wa_name = [], wa_buffer_size = 1, wa_hostname = [], wa_port = 443, wa_pool_size = 0,
     wa_mtu = 1500, wa_udp_rx_meta_size = 64, wa_udp_rx_buffer_size = 65536, wa_udp_tx_meta_size = 64,
     wa_udp_tx_buffer_size = 65536, wa_tcp_rx_buffer_size = 65536, wa_tcp_tx_buffer_size = 65536, wa_route_ipset = None,
     wa_inverse_route = True, wa_dns_server_addr = None\<rparr>"

text \<open>The range list of the reserved blocks alone: everything else is routed.\<close>

theorem inverse_routing_witness:
  "\<exists>w'. apply_ipset table_api (sample_opts\<lparr>mode := mode.Wintun sample_wintun_args\<rparr>) (Inr []) 7 True {} = Some (Inr (), w') \<and>
     (\<exists>row\<in>w'. row_matches row 134744072) \<and> \<not> (\<exists>row\<in>w'. row_matches row 2130706433)"
proof -
  let ?cfg = "sample_opts\<lparr>mode := mode.Wintun sample_wintun_args\<rparr>"
  have c: "route_contract table_api id" by (auto simp: route_contract_def table_api_def winapi_consts)
  have d: "\<forall>x. length (filter (\<lambda>c. x \<in> cidr_addrs c) (ips_data ipset_new @ butlast reserved_blocks)) \<le> 1"
    by (auto simp: ipset_new_def reserved_blocks_def cidr_addrs_def)
  have "\<exists>r w'. apply_ipset table_api ?cfg (Inr []) 7 True {} = Some (r, w') \<and> (r = Inr () \<longrightarrow>
     (\<forall>x. (\<exists>row\<in>w'. row_matches row x) \<longleftrightarrow> \<not> (\<exists>c\<in>set reserved_blocks. unat x \<in> cidr_addrs c)))"
    using inverse_routing [of ?cfg sample_wintun_args table_api id "[]" ipset_new 7 "{}", OF _ _ c _ _ d]
    by (auto simp: get_wintun_args_def sample_wintun_args_def ipset_new_def)
  then obtain r w' where r: "apply_ipset table_api ?cfg (Inr []) 7 True {} = Some (r, w')" "r = Inr () \<longrightarrow>
     (\<forall>x. (\<exists>row\<in>w'. row_matches row x) \<longleftrightarrow> \<not> (\<exists>c\<in>set reserved_blocks. unat x \<in> cidr_addrs c))" by blast
  have "\<exists>t :: ipset. ipset_add_routes table_api (ips_data t) 7 {} = Some (r, w')"
    using r(1) by (auto simp: apply_ipset_def ipset_add_route_def split: bind_splits)
  then obtain t :: ipset where "ipset_add_routes table_api (ips_data t) 7 {} = Some (r, w')" ..
  then have a: "r = Inr ()" by (rule ipset_add_routes_accepted [rotated]) (simp add: table_api_def)
  have "\<not> (\<exists>c\<in>set reserved_blocks. unat (134744072 :: u32) \<in> cidr_addrs c)" "\<exists>c\<in>set reserved_blocks. unat (2130706433 :: u32) \<in> cidr_addrs c"
    by (simp_all add: reserved_blocks_def cidr_addrs_def)
  with r a show ?thesis by blast
qed

end
