(* ===== verification/Tun_Base.thy ===== *)
theory Tun_Base
  imports Idle_Pool Conn_Table Index_Alloc Utils Proto Proxy_Base
begin

text \<open>
  The ground of the tunnel mode: events and wakers (\<open>src/src/wintun/waker.rs\<close>), the indices and tokens of
  \<open>src/src/wintun/mod.rs\<close>, \<open>tcp.rs\<close> and \<open>udp.rs\<close>, and the calls into the crates \<open>smoltcp\<close> (the sockets of the
  user-space network stack) and \<open>crossbeam\<close> (the channels over which sockets report events), which are the fields of
  \<open>'w smol\<close>. Sockets are handles; using a handle without a socket panics.
\<close>

section \<open>Events and wakers\<close>

type_synonym handle = nat

datatype tun_event = TunEvent u8

definition tun_event_rx :: tun_event where "tun_event_rx = TunEvent 1"
definition tun_event_tx :: tun_event where "tun_event_tx = TunEvent 2"

fun tun_is_readable :: "tun_event \<Rightarrow> bool" where
  "tun_is_readable (TunEvent b) \<longleftrightarrow> b AND 1 \<noteq> 0"

fun tun_is_writable :: "tun_event \<Rightarrow> bool" where
  "tun_is_writable (TunEvent b) \<longleftrightarrow> b AND 2 \<noteq> 0"

fun tun_event_add :: "tun_event \<Rightarrow> tun_event \<Rightarrow> tun_event" where
  "tun_event_add (TunEvent b) (TunEvent e) = TunEvent (b OR e)"

text \<open>A waker holds its event, its socket and the channel it reports to; the dummy does nothing.\<close>

datatype waker = TunWaker tun_event handle nat | DummyWaker

fun waker_wake :: "waker \<Rightarrow> (nat \<times> handle \<times> tun_event) option" where
  "waker_wake (TunWaker event h sender) = Some (sender, h, event)"
| "waker_wake DummyWaker = None"

record wakers =
  wk_wakers :: "handle \<rightharpoonup> waker \<times> waker"
  wk_channel :: nat

definition wakers_new :: "nat \<Rightarrow> wakers" where
  "wakers_new channel = \<lparr>wk_wakers = Map.empty, wk_channel = channel\<rparr>"

definition get_wakers :: "wakers \<Rightarrow> handle \<Rightarrow> ((waker \<times> waker) \<times> wakers) rs" where
  "get_wakers wk h = do {
     let wk = (if wk_wakers wk h = None
       then wk\<lparr>wk_wakers := (wk_wakers wk)(h \<mapsto> (TunWaker tun_event_rx h (wk_channel wk), TunWaker tun_event_tx h (wk_channel wk)))\<rparr>
       else wk);
     x \<leftarrow> unwrap (wk_wakers wk h);
     Some (x, wk) }"

lemma get_wakers_total: "\<exists>p wk'. get_wakers wk h = Some (p, wk')"
  by (auto simp: get_wakers_def unwrap_def Let_def)

section \<open>The network stack\<close>

datatype smol_error = Exhausted | SmolError nat

record 'w smol =
  channel_try_recv :: "nat \<Rightarrow> 'w \<Rightarrow> (handle \<times> tun_event) option \<times> 'w"
  has_tcp :: "handle \<Rightarrow> 'w \<Rightarrow> bool"
  has_udp :: "handle \<Rightarrow> 'w \<Rightarrow> bool"
  add_tcp_socket :: "nat \<Rightarrow> nat \<Rightarrow> 'w \<Rightarrow> handle \<times> 'w"
  add_udp_socket :: "nat \<times> nat \<Rightarrow> nat \<times> nat \<Rightarrow> ip_endpoint \<Rightarrow> 'w \<Rightarrow> handle \<times> 'w"
  remove_socket :: "handle \<Rightarrow> 'w \<Rightarrow> 'w"
  register_recv_waker :: "handle \<Rightarrow> waker \<Rightarrow> 'w \<Rightarrow> 'w"
  register_send_waker :: "handle \<Rightarrow> waker \<Rightarrow> 'w \<Rightarrow> 'w"
  ts_listen :: "handle \<Rightarrow> ip_endpoint \<Rightarrow> 'w \<Rightarrow> unit option \<times> 'w"
  ts_no_delay :: "handle \<Rightarrow> 'w \<Rightarrow> 'w"
  ts_may_recv :: "handle \<Rightarrow> 'w \<Rightarrow> bool"
  ts_may_send :: "handle \<Rightarrow> 'w \<Rightarrow> bool"
  ts_is_active :: "handle \<Rightarrow> 'w \<Rightarrow> bool"
  ts_is_listening :: "handle \<Rightarrow> 'w \<Rightarrow> bool"
  ts_is_closed :: "handle \<Rightarrow> 'w \<Rightarrow> bool"
  ts_send_queue :: "handle \<Rightarrow> 'w \<Rightarrow> nat"
  ts_local_endpoint :: "handle \<Rightarrow> 'w \<Rightarrow> ip_endpoint"
  ts_recv_slice :: "handle \<Rightarrow> nat \<Rightarrow> 'w \<Rightarrow> (smol_error + bytes) \<times> 'w"
  ts_send_slice :: "handle \<Rightarrow> bytes \<Rightarrow> 'w \<Rightarrow> (smol_error + nat) \<times> 'w"
  ts_close :: "handle \<Rightarrow> 'w \<Rightarrow> 'w"
  ts_abort :: "handle \<Rightarrow> 'w \<Rightarrow> 'w"
  us_bind :: "ip_endpoint \<Rightarrow> unit option"
  us_endpoint :: "handle \<Rightarrow> 'w \<Rightarrow> ip_endpoint"
  us_endpoints :: "'w \<Rightarrow> ip_endpoint list"
  us_recv :: "handle \<Rightarrow> 'w \<Rightarrow> (smol_error + bytes \<times> ip_endpoint) \<times> 'w"
  us_send_slice :: "handle \<Rightarrow> bytes \<Rightarrow> ip_endpoint \<Rightarrow> 'w \<Rightarrow> (smol_error + unit) \<times> 'w"
  us_close :: "handle \<Rightarrow> 'w \<Rightarrow> 'w"

text \<open>\<open>get_socket\<close> and \<open>remove_socket\<close>.\<close>

definition get_tcp :: "'w smol \<Rightarrow> handle \<Rightarrow> 'w \<Rightarrow> unit rs" where
  "get_tcp M h w = (if has_tcp M h w then Some () else None)"

definition get_udp :: "'w smol \<Rightarrow> handle \<Rightarrow> 'w \<Rightarrow> unit rs" where
  "get_udp M h w = (if has_udp M h w then Some () else None)"

definition tun_remove_socket :: "'w smol \<Rightarrow> handle \<Rightarrow> 'w \<Rightarrow> 'w rs" where
  "tun_remove_socket M h w = (if has_tcp M h w \<or> has_udp M h w then Some (remove_socket M h w) else None)"

text \<open>The events reported since the last call, merged per socket; the loop of \<open>get_events\<close> with what it has
  gathered.\<close>

definition note_event :: "(handle \<rightharpoonup> tun_event) \<Rightarrow> handle \<Rightarrow> tun_event \<Rightarrow> (handle \<rightharpoonup> tun_event)" where
  "note_event events h event =
     events(h \<mapsto> tun_event_add (case events h of None \<Rightarrow> event | Some e \<Rightarrow> e) event)"

partial_function (option) get_events_loop :: "'w smol \<Rightarrow> nat \<Rightarrow> (handle \<rightharpoonup> tun_event) \<Rightarrow> 'w \<Rightarrow>
    ((handle \<rightharpoonup> tun_event) \<times> 'w) rs" where
  "get_events_loop M channel events w =
     (case channel_try_recv M channel w of
        (None, w) \<Rightarrow> Some (events, w)
      | (Some (h, event), w) \<Rightarrow> get_events_loop M channel (note_event events h event) w)"

definition get_events :: "'w smol \<Rightarrow> wakers \<Rightarrow> 'w \<Rightarrow> ((handle \<rightharpoonup> tun_event) \<times> 'w) rs" where
  "get_events M wk w = get_events_loop M (wk_channel wk) Map.empty w"

section \<open>Indices and tokens\<close>

definition TUN_RESOLVER :: usize where "TUN_RESOLVER = 1"
definition TUN_MIN_INDEX :: usize where "TUN_MIN_INDEX = 2"
definition TUN_CHANNEL_CNT :: usize where "TUN_CHANNEL_CNT = 3"
definition TUN_MAX_INDEX :: usize where "TUN_MAX_INDEX = (- 1) div TUN_CHANNEL_CNT"
definition TUN_CHANNEL_IDLE :: usize where "TUN_CHANNEL_IDLE = 0"
definition TUN_CHANNEL_UDP :: usize where "TUN_CHANNEL_UDP = 1"
definition TUN_CHANNEL_TCP :: usize where "TUN_CHANNEL_TCP = 2"

lemmas tun_consts = TUN_RESOLVER_def TUN_MIN_INDEX_def TUN_CHANNEL_CNT_def TUN_CHANNEL_IDLE_def TUN_CHANNEL_UDP_def
  TUN_CHANNEL_TCP_def

text \<open>\<open>next_token\<close> of the two servers, each with its own counter; the result is the token and the next counter.\<close>

definition tun_next_index :: "usize \<Rightarrow> (usize \<times> usize) rs" where
  "tun_next_index index = do {
     n \<leftarrow> add_checked index 1;
     Some (index, if TUN_MAX_INDEX \<le> n then TUN_MIN_INDEX else n) }"

definition tun_next_token :: "usize \<Rightarrow> usize \<Rightarrow> (usize \<times> usize) rs" where
  "tun_next_token channel next_index = do {
     (index, next_index) \<leftarrow> tun_next_index next_index;
     t \<leftarrow> mul_checked index TUN_CHANNEL_CNT;
     t \<leftarrow> add_checked t channel;
     Some (t, next_index) }"

definition tun_index_ok :: "usize \<Rightarrow> bool" where
  "tun_index_ok i \<longleftrightarrow> TUN_MIN_INDEX \<le> i \<and> i < TUN_MAX_INDEX"

lemma unat_TUN_MAX: "unat TUN_MAX_INDEX = (2 ^ 64 - 1) div 3"
  by (simp add: TUN_MAX_INDEX_def TUN_CHANNEL_CNT_def unat_div_distrib unsigned_minus_1_eq_mask mask_eq_exp_minus_1)

lemma tun_index_bounds: "tun_index_ok i \<Longrightarrow> 2 \<le> unat i \<and> unat i < (2 ^ 64 - 1) div 3"
  by (simp add: tun_index_ok_def TUN_MIN_INDEX_def word_less_nat_alt word_le_nat_alt unat_TUN_MAX)

lemma tun_index_first: "tun_index_ok TUN_MIN_INDEX"
  by (simp add: tun_index_ok_def word_less_nat_alt unat_TUN_MAX) (simp add: TUN_MIN_INDEX_def)

lemma tun_next_token_spec:
  assumes "tun_index_ok i" and "unat ch < 3"
  shows "\<exists>t j. tun_next_token ch i = Some (t, j) \<and> tun_index_ok j \<and> unat t = 3 * unat i + unat ch"
proof -
  note b = tun_index_bounds [OF assms(1)]
  then have "unat i < 6148914691236517205" by simp
  then have i: "unat i + 1 < 2 ^ 64" "3 * unat i + unat ch < 2 ^ 64" using assms(2) by simp_all
  then have a: "add_checked i 1 = Some (i + 1)" by (simp add: add_checked_def)
  from add_checked_SomeD [OF a] have i1: "unat (i + 1) = unat i + 1" by simp
  have m: "mul_checked i TUN_CHANNEL_CNT = Some (i * TUN_CHANNEL_CNT)"
    using i by (simp add: mul_checked_def TUN_CHANNEL_CNT_def)
  from mul_checked_SomeD [OF m] have m': "unat (i * TUN_CHANNEL_CNT) = 3 * unat i" by (simp add: TUN_CHANNEL_CNT_def)
  have t: "add_checked (i * TUN_CHANNEL_CNT) ch = Some (i * TUN_CHANNEL_CNT + ch)"
    using i m' by (simp add: add_checked_def)
  from add_checked_SomeD [OF t] m' have t': "unat (i * TUN_CHANNEL_CNT + ch) = 3 * unat i + unat ch" by simp
  have "tun_index_ok (if TUN_MAX_INDEX \<le> i + 1 then TUN_MIN_INDEX else i + 1)"
    using tun_index_first i1 b by (auto simp: tun_index_ok_def TUN_MIN_INDEX_def word_le_nat_alt word_less_nat_alt)
  with a m t t' show ?thesis by (simp add: tun_next_token_def tun_next_index_def)
qed

text \<open>The counter after a token was handed out, short of the largest index.\<close>

lemma tun_next_token_next:
  assumes "tun_next_token ch i = Some (t, j)" and "Suc (unat i) < unat TUN_MAX_INDEX" and "unat ch < 3"
  shows "unat t = 3 * unat i + unat ch \<and> unat j = Suc (unat i)"
proof -
  from assms(1) obtain u v where a: "add_checked i 1 = Some u" "j = (if TUN_MAX_INDEX \<le> u then TUN_MIN_INDEX else u)"
    and m: "mul_checked i TUN_CHANNEL_CNT = Some v" "add_checked v ch = Some t"
    by (auto simp: tun_next_token_def tun_next_index_def split: bind_splits)
  have "unat u = Suc (unat i)" using add_checked_SomeD [OF a(1)] by simp
  moreover have "unat v = 3 * unat i" using mul_checked_SomeD [OF m(1)] by (simp add: TUN_CHANNEL_CNT_def)
  ultimately show ?thesis using add_checked_SomeD [OF m(2)] a(2) assms(2) by (auto simp: word_le_nat_alt)
qed

end
