(* ===== verification/Tun_Udp.thy ===== *)
theory Tun_Udp
  imports Tun_Base
begin

text \<open>
  UDP in the tunnel (\<open>src/src/wintun/udp.rs\<close>): one TLS connection for every source address, over which the client's
  datagrams are framed, the sockets of the user-space stack by which they come in and the answers go out, and the
  tables of the server.
\<close>

section \<open>Connections\<close>

record tun_udp =
  tu_token :: usize
  tu_local :: handle
  tu_remote :: tls_conn
  tu_rclosed :: bool
  tu_rbuffer :: bytes
  tu_lbuffer :: bytes
  tu_endpoint :: ip_endpoint
  tu_established :: bool
  tu_last_remote :: instant

definition tu_close_remote :: "'w sys \<Rightarrow> tun_udp \<Rightarrow> 'w \<Rightarrow> tun_udp \<times> 'w" where
  "tu_close_remote S c w = (if tu_rclosed c then (c, w) else (c\<lparr>tu_rclosed := True\<rparr>, tls_close S (tu_remote c) w))"

definition tu_flush_remote :: "'w sys \<Rightarrow> tun_udp \<Rightarrow> 'w \<Rightarrow> tun_udp \<times> 'w" where
  "tu_flush_remote S c w =
     (case tls_flush S (tu_remote c) w of
        (Inl e, w) \<Rightarrow> if e = WouldBlock then (c, w) else tu_close_remote S c w
      | (Inr _, w) \<Rightarrow> (c, w))"

text \<open>The loop of \<open>local_to_remote\<close> that writes header and body: \<open>None\<close> when the connection broke, else what it
  has in hand and how much it has written.\<close>

function tu_write_loop :: "'w writer \<Rightarrow> bytes \<Rightarrow> bytes \<Rightarrow> bytes \<Rightarrow> nat \<Rightarrow> 'w \<Rightarrow> ((bytes \<times> nat) option \<times> 'w) rs" where
  "tu_write_loop wr header body data offset w =
     (if data = [] then Some (Some (data, offset), w)
      else case wr data w of
        None \<Rightarrow> None
      | Some (Inr n, w) \<Rightarrow>
          if n = 0 then Some (None, w)
          else if length data < n then None
          else tu_write_loop wr header body
            (if drop n data = [] \<and> offset + n = length header then body else drop n data) (offset + n) w
      | Some (Inl e, w) \<Rightarrow>
          if e = WouldBlock then Some (Some (data, offset), w) else Some (None, w))"
  by pat_completeness auto
termination
  by (relation "measure (\<lambda>(wr, header, body, data, offset, w). length data + (if offset < length header then length body else 0))") auto

declare tu_write_loop.simps [simp del]

definition tu_send_packet :: "'w sys \<Rightarrow> bytes \<Rightarrow> bytes \<Rightarrow> tun_udp \<Rightarrow> 'w \<Rightarrow> (tun_udp \<times> 'w) rs" where
  "tu_send_packet S header body c w = do {
     (r, w) \<leftarrow> tu_write_loop (tls_write S (tu_remote c)) header body header 0 w;
     (case r of
        None \<Rightarrow> Some (tu_close_remote S c w)
      | Some (data, offset) \<Rightarrow>
          if length header + length body < offset then None
          else
            let remaining = length header + length body - offset;
                c = (if remaining \<noteq> 0
                     then c\<lparr>tu_rbuffer := tu_rbuffer c @ data @ (if length data < length header then body else [])\<rparr>
                     else c)
            in Some (tu_flush_remote S c w)) }"

definition tu_local_to_remote :: "'w sys \<Rightarrow> bytes \<Rightarrow> bytes \<Rightarrow> tun_udp \<Rightarrow> 'w \<Rightarrow> (tun_udp \<times> 'w) rs" where
  "tu_local_to_remote S header body c w =
     (if tu_rbuffer c \<noteq> [] then do {
        (r, buffer, w) \<leftarrow> send_all (tls_write S (tu_remote c)) (tu_rbuffer c) w;
        let c = c\<lparr>tu_rbuffer := buffer\<rparr>;
        (case r of
           Inr True \<Rightarrow> tu_send_packet S header body c w
         | Inr False \<Rightarrow> Some (tu_flush_remote S c w)
         | Inl e \<Rightarrow> Some (tu_close_remote S c w)) }
      else tu_send_packet S header body c w)"

definition tun_udp_local :: "'w sys \<Rightarrow> bytes \<Rightarrow> bytes \<Rightarrow> tun_udp \<Rightarrow> 'w \<Rightarrow> (tun_udp \<times> 'w) rs" where
  "tun_udp_local S header body c w =
     (case instant_now S w of (now, w) \<Rightarrow>
        if 120 < as_secs (now - tu_last_remote c) then Some (tu_close_remote S c w)
        else if tu_rbuffer c \<noteq> [] then Some (c, w)
        else if \<not> tu_established c then Some (c\<lparr>tu_rbuffer := tu_rbuffer c @ header @ body\<rparr>, w)
        else tu_local_to_remote S header body c w)"

text \<open>\<open>remote_to_local\<close>: the inner loop over the frames in the buffer, which ends with the incomplete rest or with a
  protocol error, and the outer loop over what the TLS connection delivers. The result of sending an answer is
  ignored.\<close>

partial_function (option) tu_deliver :: "smoltcp_ops \<Rightarrow> 'w smol \<Rightarrow> handle \<Rightarrow> ip_endpoint \<Rightarrow> bytes \<Rightarrow> 'w \<Rightarrow> (bytes option \<times> 'w) rs" where
  "tu_deliver SM M h endpoint buffer w =
     Option.bind (udp_parse_endpoint SM buffer) (\<lambda>r. case r of
        Continued \<Rightarrow> Some (Some buffer, w)
      | InvalidProtocol \<Rightarrow> Some (None, w)
      | Packet packet \<Rightarrow>
          Option.bind (slice_to (udp_payload packet) (udp_length packet)) (\<lambda>payload.
            let w = snd (us_send_slice M h payload endpoint w)
            in Option.bind (slice_from (udp_payload packet) (udp_length packet)) (\<lambda>buffer.
              tu_deliver SM M h endpoint buffer w)))"

partial_function (option) tu_remote_to_local :: "'w sys \<Rightarrow> 'w smol \<Rightarrow> smoltcp_ops \<Rightarrow> (bytes \<Rightarrow> nat) \<Rightarrow> handle \<Rightarrow> tun_udp \<Rightarrow> 'w \<Rightarrow>
    (tun_udp \<times> 'w) rs" where
  "tu_remote_to_local S M SM spare h c w =
     Option.bind (read_once spare (tls_read S (tu_remote c)) (tu_lbuffer c) w) (\<lambda>(r, buffer, w).
       let c = c\<lparr>tu_lbuffer := buffer\<rparr>
       in case r of
            Inl e \<Rightarrow> Some (tu_close_remote S c w)
          | Inr got \<Rightarrow>
              if \<not> got then Some (c, w)
              else Option.bind (tu_deliver SM M h (tu_endpoint c) buffer w) (\<lambda>(r, w).
                case r of
                  None \<Rightarrow> Some (tu_close_remote S c w)
                | Some rest \<Rightarrow> tu_remote_to_local S M SM spare h (c\<lparr>tu_lbuffer := rest\<rparr>) w))"

text \<open>The writable branch of \<open>do_remote\<close>; \<open>False\<close> is its early \<open>return\<close>.\<close>

definition tu_remote_writable :: "'w sys \<Rightarrow> opts \<Rightarrow> tun_udp \<Rightarrow> 'w \<Rightarrow> (bool \<times> tun_udp \<times> 'w) rs" where
  "tu_remote_writable S cfg c w = do {
     (ok, c, w) \<leftarrow> (if \<not> tu_established c then do {
         a \<leftarrow> unwrap (empty_addr cfg);
         (r, w) \<leftarrow> tls_write S (tu_remote c) (trojan_request_generate cfg [] UDP_ASSOCIATE a) w;
         (case r of
            Inr _ \<Rightarrow> Some (True, c\<lparr>tu_established := True\<rparr>, w)
          | Inl _ \<Rightarrow> (case tu_close_remote S c w of (c, w) \<Rightarrow> Some (False, c, w))) }
       else Some (True, c, w));
     if ok then do {
       (c, w) \<leftarrow> tu_local_to_remote S [] [] c w;
       Some (True, c, w) }
     else Some (False, c, w) }"

definition tun_udp_remote :: "'w sys \<Rightarrow> 'w smol \<Rightarrow> smoltcp_ops \<Rightarrow> (bytes \<Rightarrow> nat) \<Rightarrow> opts \<Rightarrow> handle \<Rightarrow> net_event \<Rightarrow> tun_udp \<Rightarrow> 'w \<Rightarrow>
    (tun_udp \<times> 'w) rs" where
  "tun_udp_remote S M SM spare cfg h event c w =
     (case instant_now S w of (now, w) \<Rightarrow> do {
        let c = c\<lparr>tu_last_remote := now\<rparr>;
        (ok, c, w) \<leftarrow> (if ev_writable event then tu_remote_writable S cfg c w else Some (True, c, w));
        if ok \<and> ev_readable event then tu_remote_to_local S M SM spare h c w else Some (c, w) })"

section \<open>The server\<close>

record tun_udp_server =
  tus_heap :: "nat \<rightharpoonup> tun_udp"
  tus_fresh :: nat
  tus_token2conns :: "usize \<rightharpoonup> nat"
  tus_addr2conns :: "ip_endpoint \<rightharpoonup> nat"
  tus_handles :: "handle \<rightharpoonup> instant \<times> nat"
  tus_removed :: "usize set"
  tus_next_index :: usize

definition tun_udp_server_new :: tun_udp_server where
  "tun_udp_server_new = \<lparr>tus_heap = Map.empty, tus_fresh = 0, tus_token2conns = Map.empty, tus_addr2conns = Map.empty,
     tus_handles = Map.empty, tus_removed = {}, tus_next_index = TUN_MIN_INDEX\<rparr>"

text \<open>The connection of a source address, made when there is none; the socket's counter goes up.\<close>

definition tun_udp_entry :: "'w sys \<Rightarrow> tun_udp_server \<Rightarrow> idle_pool \<Rightarrow> dns_resolver \<Rightarrow> handle \<Rightarrow> ip_endpoint \<Rightarrow> 'w \<Rightarrow>
    (nat \<times> tun_udp_server \<times> idle_pool \<times> dns_resolver \<times> 'w) rs" where
  "tun_udp_entry S srv pool resolver h src_endpoint w =
     (case tus_addr2conns srv src_endpoint of
        Some ref \<Rightarrow> Some (ref, srv, pool, resolver, w)
      | None \<Rightarrow> do {
          (last_active, ref_count) \<leftarrow> tus_handles srv h;
          (tls, pool, resolver, w) \<leftarrow> pool_get S pool resolver w;
          tls \<leftarrow> unwrap tls;
          (token, next_index) \<leftarrow> tun_next_token TUN_CHANNEL_UDP (tus_next_index srv);
          (case tls_set_token S tls token w of (_, tls, w) \<Rightarrow>
             (case instant_now S w of (now, w) \<Rightarrow>
                let conn = \<lparr>tu_token = tc_token tls, tu_local = h, tu_remote = tls, tu_rclosed = False, tu_rbuffer = [],
                      tu_lbuffer = [], tu_endpoint = src_endpoint, tu_established = False, tu_last_remote = now\<rparr>
                in Some (tus_fresh srv, srv\<lparr>tus_heap := (tus_heap srv)(tus_fresh srv \<mapsto> conn), tus_fresh := Suc (tus_fresh srv),
                     tus_handles := (tus_handles srv)(h \<mapsto> (last_active, Suc ref_count)),
                     tus_addr2conns := (tus_addr2conns srv)(src_endpoint \<mapsto> tus_fresh srv), tus_next_index := next_index\<rparr>,
                     pool, resolver, w))) })"

definition tu_note_closed :: "tun_udp_server \<Rightarrow> tun_udp \<Rightarrow> tun_udp_server" where
  "tu_note_closed srv c = (if tu_rclosed c then srv\<lparr>tus_removed := insert (tu_token c) (tus_removed srv)\<rparr> else srv)"

text \<open>One datagram of a client.\<close>

definition tun_udp_datagram :: "'w sys \<Rightarrow> tun_udp_server \<Rightarrow> idle_pool \<Rightarrow> dns_resolver \<Rightarrow> handle \<Rightarrow> ip_endpoint \<Rightarrow> bytes \<Rightarrow> ip_endpoint \<Rightarrow> 'w \<Rightarrow>
    (tun_udp_server \<times> idle_pool \<times> dns_resolver \<times> 'w) rs" where
  "tun_udp_datagram S srv pool resolver h dst_endpoint data src_endpoint w = do {
     header \<leftarrow> udp_generate_endpoint [] dst_endpoint (of_nat (length data));
     (ref, srv, pool, resolver, w) \<leftarrow> tun_udp_entry S srv pool resolver h src_endpoint w;
     conn \<leftarrow> tus_heap srv ref;
     let srv = (if tus_token2conns srv (tu_token conn) = None
       then srv\<lparr>tus_token2conns := (tus_token2conns srv)(tu_token conn \<mapsto> ref)\<rparr> else srv);
     (conn, w) \<leftarrow> tun_udp_local S header data conn w;
     Some (tu_note_closed (srv\<lparr>tus_heap := (tus_heap srv)(ref \<mapsto> conn)\<rparr>) conn, pool, resolver, w) }"

partial_function (option) tun_udp_receive :: "'w sys \<Rightarrow> 'w smol \<Rightarrow> tun_udp_server \<Rightarrow> idle_pool \<Rightarrow> dns_resolver \<Rightarrow> handle \<Rightarrow> ip_endpoint \<Rightarrow> 'w \<Rightarrow>
    (tun_udp_server \<times> idle_pool \<times> dns_resolver \<times> 'w) rs" where
  "tun_udp_receive S M srv pool resolver h dst_endpoint w =
     (case us_recv M h w of
        (Inl e, w) \<Rightarrow> Some (srv, pool, resolver, w)
      | (Inr (data, src_endpoint), w) \<Rightarrow>
          Option.bind (tun_udp_datagram S srv pool resolver h dst_endpoint data src_endpoint w)
            (\<lambda>(srv, pool, resolver, w). tun_udp_receive S M srv pool resolver h dst_endpoint w))"

text \<open>The body of the loop of \<open>do_local\<close> over the sockets with events.\<close>

definition tun_udp_handle :: "'w sys \<Rightarrow> 'w smol \<Rightarrow> tun_udp_server \<Rightarrow> idle_pool \<Rightarrow> dns_resolver \<Rightarrow> wakers \<Rightarrow> handle \<Rightarrow> 'w \<Rightarrow>
    (tun_udp_server \<times> idle_pool \<times> dns_resolver \<times> wakers \<times> 'w) rs" where
  "tun_udp_handle S M srv pool resolver wk h w = do {
     get_udp M h w;
     ((rx_waker, _), wk) \<leftarrow> get_wakers wk h;
     let w = register_recv_waker M h rx_waker w;
     let dst_endpoint = us_endpoint M h w;
     let (info, w) = (case tus_handles srv h of
         Some info \<Rightarrow> (info, w)
       | None \<Rightarrow> (case instant_now S w of (now, w) \<Rightarrow> ((now, 0), w)));
     let (now, w) = instant_now S w;
     let srv = srv\<lparr>tus_handles := (tus_handles srv)(h \<mapsto> (now, snd info))\<rparr>;
     (srv, pool, resolver, w) \<leftarrow> tun_udp_receive S M srv pool resolver h dst_endpoint w;
     Some (srv, pool, resolver, wk, w) }"

fun tun_udp_sockets :: "'w sys \<Rightarrow> 'w smol \<Rightarrow> tun_udp_server \<Rightarrow> idle_pool \<Rightarrow> dns_resolver \<Rightarrow> wakers \<Rightarrow> handle list \<Rightarrow> 'w \<Rightarrow>
    (tun_udp_server \<times> idle_pool \<times> dns_resolver \<times> wakers \<times> 'w) rs" where
  "tun_udp_sockets S M srv pool resolver wk [] w = Some (srv, pool, resolver, wk, w)"
| "tun_udp_sockets S M srv pool resolver wk (h # hs) w = do {
     (srv, pool, resolver, wk, w) \<leftarrow> tun_udp_handle S M srv pool resolver wk h w;
     tun_udp_sockets S M srv pool resolver wk hs w }"

definition tun_udp_server_local :: "((handle \<rightharpoonup> tun_event) \<Rightarrow> handle list) \<Rightarrow> 'w sys \<Rightarrow> 'w smol \<Rightarrow> tun_udp_server \<Rightarrow> idle_pool \<Rightarrow>
    dns_resolver \<Rightarrow> wakers \<Rightarrow> 'w \<Rightarrow> (tun_udp_server \<times> idle_pool \<times> dns_resolver \<times> wakers \<times> 'w) rs" where
  "tun_udp_server_local order S M srv pool resolver wk w = do {
     (events, w) \<leftarrow> get_events M wk w;
     tun_udp_sockets S M srv pool resolver wk (order events) w }"

definition tun_udp_server_remote :: "'w sys \<Rightarrow> 'w smol \<Rightarrow> smoltcp_ops \<Rightarrow> (bytes \<Rightarrow> nat) \<Rightarrow> opts \<Rightarrow> tun_udp_server \<Rightarrow> net_event \<Rightarrow> 'w \<Rightarrow>
    (tun_udp_server \<times> 'w) rs" where
  "tun_udp_server_remote S M SM spare cfg srv event w =
     (case tus_token2conns srv (ev_token event) of
        None \<Rightarrow> Some (srv, w)
      | Some ref \<Rightarrow> do {
          conn \<leftarrow> tus_heap srv ref;
          get_udp M (tu_local conn) w;
          (conn, w) \<leftarrow> tun_udp_remote S M SM spare cfg (tu_local conn) event conn w;
          Some (tu_note_closed (srv\<lparr>tus_heap := (tus_heap srv)(ref \<mapsto> conn)\<rparr>) conn, w) })"

text \<open>The loop of \<open>remove_closed\<close>; the counter of the connection's socket goes down.\<close>

fun tun_udp_drop :: "usize list \<Rightarrow> tun_udp_server \<Rightarrow> tun_udp_server rs" where
  "tun_udp_drop [] srv = Some srv"
| "tun_udp_drop (token # tokens) srv =
     (case tus_token2conns srv token of
        None \<Rightarrow> tun_udp_drop tokens srv
      | Some ref \<Rightarrow> do {
          conn \<leftarrow> tus_heap srv ref;
          (last_active, ref_count) \<leftarrow> unwrap (tus_handles srv (tu_local conn));
          if ref_count = 0 then None
          else tun_udp_drop tokens (srv\<lparr>tus_handles := (tus_handles srv)(tu_local conn \<mapsto> (last_active, ref_count - 1)),
            tus_token2conns := (tus_token2conns srv)(tu_token conn := None),
            tus_addr2conns := (tus_addr2conns srv)(tu_endpoint conn := None)\<rparr>) })"

definition tun_udp_remove_closed :: "(usize set \<Rightarrow> usize list) \<Rightarrow> tun_udp_server \<Rightarrow> tun_udp_server rs" where
  "tun_udp_remove_closed sorder srv = do {
     srv \<leftarrow> tun_udp_drop (sorder (tus_removed srv)) srv;
     Some (srv\<lparr>tus_removed := {}\<rparr>) }"

text \<open>\<open>check_timeout\<close>: sockets that no connection uses are closed ten minutes after their last event.\<close>

fun tun_udp_close_all :: "'w smol \<Rightarrow> waker \<Rightarrow> handle list \<Rightarrow> tun_udp_server \<Rightarrow> 'w \<Rightarrow> (tun_udp_server \<times> 'w) rs" where
  "tun_udp_close_all M wkr [] srv w = Some (srv, w)"
| "tun_udp_close_all M wkr (h # hs) srv w = do {
     get_udp M h w;
     let w = register_send_waker M h wkr w;
     let w = register_recv_waker M h wkr w;
     let w = us_close M h w;
     w \<leftarrow> tun_remove_socket M h w;
     tun_udp_close_all M wkr hs (srv\<lparr>tus_handles := (tus_handles srv)(h := None)\<rparr>) w }"

definition tu_expired :: "instant \<Rightarrow> instant \<times> nat \<Rightarrow> bool" where
  "tu_expired now = (\<lambda>(last_active, ref_count). \<not> 0 < ref_count \<and> duration_from_secs 600 < now - last_active)"

definition tun_udp_check_timeout :: "((handle \<rightharpoonup> instant \<times> nat) \<Rightarrow> handle list) \<Rightarrow> 'w smol \<Rightarrow> tun_udp_server \<Rightarrow> instant \<Rightarrow> waker \<Rightarrow> 'w \<Rightarrow>
    (tun_udp_server \<times> 'w) rs" where
  "tun_udp_check_timeout horder M srv now wkr w =
     tun_udp_close_all M wkr (filter (\<lambda>h. case tus_handles srv h of None \<Rightarrow> False | Some info \<Rightarrow> tu_expired now info)
       (horder (tus_handles srv))) srv w"

end
