(* ===== verification/Tun_Tcp.thy ===== *)
theory Tun_Tcp
  imports Tun_Base
begin

text \<open>
  TCP connections of the tunnel (\<open>src/src/wintun/tcp.rs\<close>): a socket of the user-space stack on one side, a TLS
  connection to the server on the other, and the two tables the server keeps of the shared connections. The
  connections live in a store, the tables hold references into it. The room that \<open>BytesMut::reserve\<close> leaves is
  the parameter \<open>spare\<close>.
\<close>

section \<open>The local stream\<close>

definition local_read :: "'w smol \<Rightarrow> handle \<Rightarrow> 'w reader" where
  "local_read M h n w =
     (if ts_may_recv M h w then
        (case ts_recv_slice M h n w of
           (Inr bs, w) \<Rightarrow> Some (if bs = [] then Inl WouldBlock else Inr bs, w)
         | (Inl e, w) \<Rightarrow> Some (Inl UnexpectedEof, w))
      else if ts_is_active M h w then Some (Inl WouldBlock, w)
      else Some (Inl UnexpectedEof, w))"

definition local_write :: "'w smol \<Rightarrow> handle \<Rightarrow> 'w writer" where
  "local_write M h data w =
     (if ts_may_send M h w then
        (case ts_send_slice M h data w of
           (Inr n, w) \<Rightarrow> Some (if n = 0 then Inl WouldBlock else Inr n, w)
         | (Inl e, w) \<Rightarrow> Some (Inl UnexpectedEof, w))
      else if ts_is_active M h w then Some (Inl WouldBlock, w)
      else Some (Inl UnexpectedEof, w))"

section \<open>Connections\<close>

record tun_tcp =
  tt_token :: usize
  tt_local :: handle
  tt_remote :: tls_conn
  tt_lbuffer :: bytes
  tt_rbuffer :: bytes
  tt_lclosed :: bool
  tt_rclosed :: bool
  tt_established :: bool
  tt_last_active :: instant

definition tun_tcp_new :: "'w sys \<Rightarrow> usize \<Rightarrow> handle \<Rightarrow> tls_conn \<Rightarrow> 'w \<Rightarrow> tun_tcp \<times> 'w" where
  "tun_tcp_new S token h remote w =
     (case instant_now S w of (now, w) \<Rightarrow>
        (\<lparr>tt_token = token, tt_local = h, tt_remote = remote, tt_lbuffer = [], tt_rbuffer = [], tt_lclosed = False,
          tt_rclosed = False, tt_established = False, tt_last_active = now\<rparr>, w))"

definition close_stream :: "'w sys \<Rightarrow> 'w smol \<Rightarrow> bool \<Rightarrow> waker \<Rightarrow> tun_tcp \<Rightarrow> 'w \<Rightarrow> (tun_tcp \<times> 'w) rs" where
  "close_stream S M is_local wkr c w =
     (if is_local \<and> \<not> tt_lclosed c then do {
        get_tcp M (tt_local c) w;
        let w = register_recv_waker M (tt_local c) wkr w;
        let w = register_send_waker M (tt_local c) wkr w;
        let w = ts_close M (tt_local c) w;
        Some (c\<lparr>tt_lclosed := True\<rparr>, w) }
      else if \<not> is_local \<and> \<not> tt_rclosed c then
        Some (c\<lparr>tt_rclosed := True\<rparr>, tls_close S (tt_remote c) w)
      else Some (c, w))"

definition reregister_local :: "'w smol \<Rightarrow> wakers \<Rightarrow> tun_tcp \<Rightarrow> 'w \<Rightarrow> (wakers \<times> 'w) rs" where
  "reregister_local M wk c w =
     (if tt_lclosed c then Some (wk, w)
      else do {
        ((rx, tx), wk) \<leftarrow> get_wakers wk (tt_local c);
        get_tcp M (tt_local c) w;
        let w = (if tt_lbuffer c \<noteq> [] then register_send_waker M (tt_local c) tx w else w);
        let w = (if tt_rbuffer c = [] \<and> \<not> tt_rclosed c then register_recv_waker M (tt_local c) rx w else w);
        Some (wk, w) })"

definition flush_remote :: "'w sys \<Rightarrow> 'w smol \<Rightarrow> waker \<Rightarrow> tun_tcp \<Rightarrow> 'w \<Rightarrow> (tun_tcp \<times> 'w) rs" where
  "flush_remote S M wkr c w =
     (case tls_flush S (tt_remote c) w of
        (Inl e, w) \<Rightarrow> if e = WouldBlock then Some (c, w) else close_stream S M False wkr c w
      | (Inr _, w) \<Rightarrow> Some (c, w))"

definition local_to_remote :: "'w sys \<Rightarrow> 'w smol \<Rightarrow> (bytes \<Rightarrow> nat) \<Rightarrow> waker \<Rightarrow> tun_tcp \<Rightarrow> 'w \<Rightarrow> (tun_tcp \<times> 'w) rs" where
  "local_to_remote S M spare wkr c w = do {
     get_tcp M (tt_local c) w;
     if \<not> tt_established c then
       (if \<not> ts_is_active M (tt_local c) w then close_stream S M True wkr c w else Some (c, w))
     else do {
       (ret, buffer, w) \<leftarrow> copy_stream spare (local_read M (tt_local c)) (tls_write S (tt_remote c)) (tt_rbuffer c) w;
       let c = c\<lparr>tt_rbuffer := buffer\<rparr>;
       (c, w) \<leftarrow> (case ret of
           Inr TxBlock \<Rightarrow> Some (c, w)
         | Inr RxBlock \<Rightarrow> Some (c, w)
         | Inl (RxBreak e) \<Rightarrow> close_stream S M True wkr c w
         | Inl (TxBreak e) \<Rightarrow> close_stream S M False wkr c w
         | Inl _ \<Rightarrow> None);
       if \<not> tt_rclosed c then flush_remote S M wkr c w else Some (c, w) } }"

definition remote_to_local :: "'w sys \<Rightarrow> 'w smol \<Rightarrow> (bytes \<Rightarrow> nat) \<Rightarrow> waker \<Rightarrow> tun_tcp \<Rightarrow> 'w \<Rightarrow> (tun_tcp \<times> 'w) rs" where
  "remote_to_local S M spare wkr c w = do {
     get_tcp M (tt_local c) w;
     (ret, buffer, w) \<leftarrow> copy_stream spare (tls_read S (tt_remote c)) (local_write M (tt_local c)) (tt_lbuffer c) w;
     let c = c\<lparr>tt_lbuffer := buffer\<rparr>;
     let send_size = ts_send_queue M (tt_local c) w;
     (c, w) \<leftarrow> (case ret of
         Inr RxBlock \<Rightarrow> Some (c, w)
       | Inr TxBlock \<Rightarrow> Some (c, w)
       | Inl (RxBreak e) \<Rightarrow> close_stream S M False wkr c w
       | Inl (TxBreak e) \<Rightarrow> close_stream S M True wkr c w
       | Inl _ \<Rightarrow> None);
     if tt_rclosed c \<and> \<not> tt_lclosed c \<and> tt_lbuffer c = [] \<and> send_size = 0 then close_stream S M True wkr c w
     else Some (c, w) }"

definition check_half_close :: "'w sys \<Rightarrow> 'w smol \<Rightarrow> waker \<Rightarrow> tun_tcp \<Rightarrow> 'w \<Rightarrow> (tun_tcp \<times> 'w) rs" where
  "check_half_close S M wkr c w = do {
     (c, w) \<leftarrow> (if tt_lclosed c \<and> \<not> tt_rclosed c \<and> tt_rbuffer c = [] then close_stream S M False wkr c w else Some (c, w));
     if tt_rclosed c \<and> \<not> tt_lclosed c \<and> tt_lbuffer c = [] then close_stream S M True wkr c w else Some (c, w) }"

definition tun_tcp_close :: "'w sys \<Rightarrow> 'w smol \<Rightarrow> waker \<Rightarrow> tun_tcp \<Rightarrow> 'w \<Rightarrow> (tun_tcp \<times> 'w) rs" where
  "tun_tcp_close S M wkr c w = do {
     (c, w) \<leftarrow> close_stream S M True wkr c w;
     close_stream S M False wkr c w }"

definition tun_tcp_local :: "'w sys \<Rightarrow> 'w smol \<Rightarrow> (bytes \<Rightarrow> nat) \<Rightarrow> wakers \<Rightarrow> tun_event \<Rightarrow> tun_tcp \<Rightarrow> 'w \<Rightarrow>
    (tun_tcp \<times> wakers \<times> 'w) rs" where
  "tun_tcp_local S M spare wk event c w =
     (case instant_now S w of (now, w) \<Rightarrow> do {
        let c = c\<lparr>tt_last_active := now\<rparr>;
        (c, w) \<leftarrow> (if tun_is_readable event then local_to_remote S M spare DummyWaker c w else Some (c, w));
        (c, w) \<leftarrow> (if tun_is_writable event then remote_to_local S M spare DummyWaker c w else Some (c, w));
        (c, w) \<leftarrow> check_half_close S M DummyWaker c w;
        (wk, w) \<leftarrow> reregister_local M wk c w;
        Some (c, wk, w) })"

text \<open>The writable branch of \<open>do_remote\<close>; \<open>False\<close> is its early \<open>return\<close>.\<close>

definition remote_writable :: "'w sys \<Rightarrow> 'w smol \<Rightarrow> (bytes \<Rightarrow> nat) \<Rightarrow> opts \<Rightarrow> tun_tcp \<Rightarrow> 'w \<Rightarrow> (bool \<times> tun_tcp \<times> 'w) rs" where
  "remote_writable S M spare cfg c w = do {
     (ok, c, w) \<leftarrow> (if \<not> tt_established c then
         (if tt_lclosed c then do {
            (c, w) \<leftarrow> close_stream S M False DummyWaker c w;
            Some (False, c, w) }
          else do {
            get_tcp M (tt_local c) w;
            request \<leftarrow> trojan_request_generate_endpoint cfg [] CONNECT (ts_local_endpoint M (tt_local c) w);
            (r, w) \<leftarrow> tls_write S (tt_remote c) request w;
            (case r of
               Inr _ \<Rightarrow> Some (True, c\<lparr>tt_established := True\<rparr>, w)
             | Inl _ \<Rightarrow> do {
                 (c, w) \<leftarrow> tun_tcp_close S M DummyWaker c w;
                 Some (False, c, w) }) })
       else Some (True, c, w));
     if ok then do {
       (c, w) \<leftarrow> local_to_remote S M spare DummyWaker c w;
       Some (True, c, w) }
     else Some (False, c, w) }"

definition tun_tcp_remote :: "'w sys \<Rightarrow> 'w smol \<Rightarrow> (bytes \<Rightarrow> nat) \<Rightarrow> opts \<Rightarrow> wakers \<Rightarrow> net_event \<Rightarrow> tun_tcp \<Rightarrow> 'w \<Rightarrow>
    (tun_tcp \<times> wakers \<times> 'w) rs" where
  "tun_tcp_remote S M spare cfg wk event c w =
     (case instant_now S w of (now, w) \<Rightarrow> do {
        let c = c\<lparr>tt_last_active := now\<rparr>;
        (ok, c, w) \<leftarrow> (if ev_writable event then remote_writable S M spare cfg c w else Some (True, c, w));
        if \<not> ok then Some (c, wk, w)
        else do {
          (c, w) \<leftarrow> (if ev_readable event then remote_to_local S M spare DummyWaker c w else Some (c, w));
          (c, w) \<leftarrow> check_half_close S M DummyWaker c w;
          (wk, w) \<leftarrow> reregister_local M wk c w;
          Some (c, wk, w) } })"

definition tun_tcp_is_closed :: "'w smol \<Rightarrow> tun_tcp \<Rightarrow> 'w \<Rightarrow> bool rs" where
  "tun_tcp_is_closed M c w = do {
     get_tcp M (tt_local c) w;
     Some (tt_rclosed c \<and> ts_is_closed M (tt_local c) w) }"

definition abort_local :: "'w smol \<Rightarrow> tun_tcp \<Rightarrow> 'w \<Rightarrow> 'w rs" where
  "abort_local M c w = do {
     get_tcp M (tt_local c) w;
     Some (ts_abort M (tt_local c) w) }"

section \<open>The server\<close>

record tun_tcp_server =
  tts_heap :: "nat \<rightharpoonup> tun_tcp"
  tts_fresh :: nat
  tts_token2conns :: "usize \<rightharpoonup> nat"
  tts_handle2conns :: "handle \<rightharpoonup> nat"
  tts_removed :: "handle set"
  tts_next_index :: usize

definition tun_tcp_server_new :: tun_tcp_server where
  "tun_tcp_server_new = \<lparr>tts_heap = Map.empty, tts_fresh = 0, tts_token2conns = Map.empty, tts_handle2conns = Map.empty,
     tts_removed = {}, tts_next_index = TUN_MIN_INDEX\<rparr>"

text \<open>The connection of a socket, made when there is none.\<close>

definition tun_tcp_entry :: "'w sys \<Rightarrow> tun_tcp_server \<Rightarrow> idle_pool \<Rightarrow> dns_resolver \<Rightarrow> handle \<Rightarrow> 'w \<Rightarrow>
    (nat \<times> tun_tcp_server \<times> idle_pool \<times> dns_resolver \<times> 'w) rs" where
  "tun_tcp_entry S srv pool resolver h w =
     (case tts_handle2conns srv h of
        Some ref \<Rightarrow> Some (ref, srv, pool, resolver, w)
      | None \<Rightarrow> do {
          (token, next_index) \<leftarrow> tun_next_token TUN_CHANNEL_TCP (tts_next_index srv);
          (remote, pool, resolver, w) \<leftarrow> pool_get S pool resolver w;
          remote \<leftarrow> unwrap remote;
          (case tls_set_token S remote token w of (_, remote, w) \<Rightarrow>
             (case tun_tcp_new S token h remote w of (conn, w) \<Rightarrow>
                Some (tts_fresh srv, srv\<lparr>tts_heap := (tts_heap srv)(tts_fresh srv \<mapsto> conn), tts_fresh := Suc (tts_fresh srv),
                  tts_handle2conns := (tts_handle2conns srv)(h \<mapsto> tts_fresh srv), tts_next_index := next_index\<rparr>,
                  pool, resolver, w))) })"

definition tun_note_closed :: "'w smol \<Rightarrow> tun_tcp_server \<Rightarrow> tun_tcp \<Rightarrow> 'w \<Rightarrow> tun_tcp_server rs" where
  "tun_note_closed M srv c w = do {
     closed \<leftarrow> tun_tcp_is_closed M c w;
     Some (if closed then srv\<lparr>tts_removed := insert (tt_local c) (tts_removed srv)\<rparr> else srv) }"

text \<open>The body of the loop of \<open>do_local\<close>.\<close>

definition tun_tcp_handle :: "'w sys \<Rightarrow> 'w smol \<Rightarrow> (bytes \<Rightarrow> nat) \<Rightarrow> tun_tcp_server \<Rightarrow> idle_pool \<Rightarrow> dns_resolver \<Rightarrow> wakers \<Rightarrow>
    handle \<Rightarrow> tun_event \<Rightarrow> 'w \<Rightarrow> (tun_tcp_server \<times> idle_pool \<times> dns_resolver \<times> wakers \<times> 'w) rs" where
  "tun_tcp_handle S M spare srv pool resolver wk h event w = do {
     get_tcp M h w;
     if ts_is_listening M h w \<and> tts_handle2conns srv h = None then do {
       w \<leftarrow> tun_remove_socket M h w;
       Some (srv, pool, resolver, wk, w) }
     else do {
       (ref, srv, pool, resolver, w) \<leftarrow> tun_tcp_entry S srv pool resolver h w;
       conn \<leftarrow> tts_heap srv ref;
       let srv = (if tts_token2conns srv (tt_token conn) = None
         then srv\<lparr>tts_token2conns := (tts_token2conns srv)(tt_token conn \<mapsto> ref)\<rparr> else srv);
       (conn, wk, w) \<leftarrow> tun_tcp_local S M spare wk event conn w;
       srv \<leftarrow> tun_note_closed M (srv\<lparr>tts_heap := (tts_heap srv)(ref \<mapsto> conn)\<rparr>) conn w;
       Some (srv, pool, resolver, wk, w) } }"

fun tun_tcp_handles :: "'w sys \<Rightarrow> 'w smol \<Rightarrow> (bytes \<Rightarrow> nat) \<Rightarrow> tun_tcp_server \<Rightarrow> idle_pool \<Rightarrow> dns_resolver \<Rightarrow> wakers \<Rightarrow>
    (handle \<rightharpoonup> tun_event) \<Rightarrow> handle list \<Rightarrow> 'w \<Rightarrow> (tun_tcp_server \<times> idle_pool \<times> dns_resolver \<times> wakers \<times> 'w) rs" where
  "tun_tcp_handles S M spare srv pool resolver wk events [] w = Some (srv, pool, resolver, wk, w)"
| "tun_tcp_handles S M spare srv pool resolver wk events (h # hs) w = do {
     event \<leftarrow> events h;
     (srv, pool, resolver, wk, w) \<leftarrow> tun_tcp_handle S M spare srv pool resolver wk h event w;
     tun_tcp_handles S M spare srv pool resolver wk events hs w }"

definition tun_tcp_server_local :: "((handle \<rightharpoonup> tun_event) \<Rightarrow> handle list) \<Rightarrow> 'w sys \<Rightarrow> 'w smol \<Rightarrow> (bytes \<Rightarrow> nat) \<Rightarrow>
    tun_tcp_server \<Rightarrow> idle_pool \<Rightarrow> dns_resolver \<Rightarrow> wakers \<Rightarrow> 'w \<Rightarrow>
    (tun_tcp_server \<times> idle_pool \<times> dns_resolver \<times> wakers \<times> 'w) rs" where
  "tun_tcp_server_local order S M spare srv pool resolver wk w = do {
     (events, w) \<leftarrow> get_events M wk w;
     tun_tcp_handles S M spare srv pool resolver wk events (order events) w }"

definition tun_tcp_server_remote :: "'w sys \<Rightarrow> 'w smol \<Rightarrow> (bytes \<Rightarrow> nat) \<Rightarrow> opts \<Rightarrow> tun_tcp_server \<Rightarrow> wakers \<Rightarrow> net_event \<Rightarrow>
    'w \<Rightarrow> (tun_tcp_server \<times> wakers \<times> 'w) rs" where
  "tun_tcp_server_remote S M spare cfg srv wk event w =
     (case tts_token2conns srv (ev_token event) of
        None \<Rightarrow> Some (srv, wk, w)
      | Some ref \<Rightarrow> do {
          conn \<leftarrow> tts_heap srv ref;
          (conn, wk, w) \<leftarrow> tun_tcp_remote S M spare cfg wk event conn w;
          srv \<leftarrow> tun_note_closed M (srv\<lparr>tts_heap := (tts_heap srv)(ref \<mapsto> conn)\<rparr>) conn w;
          Some (srv, wk, w) })"

text \<open>The loop of \<open>remove_closed\<close> over the handles in the order in which the hash set gives them.\<close>

fun tun_tcp_drop :: "'w smol \<Rightarrow> handle list \<Rightarrow> tun_tcp_server \<Rightarrow> 'w \<Rightarrow> (tun_tcp_server \<times> 'w) rs" where
  "tun_tcp_drop M [] srv w = Some (srv, w)"
| "tun_tcp_drop M (h # hs) srv w =
     (case tts_handle2conns srv h of
        None \<Rightarrow> tun_tcp_drop M hs srv w
      | Some ref \<Rightarrow> do {
          conn \<leftarrow> tts_heap srv ref;
          w \<leftarrow> tun_remove_socket M h w;
          tun_tcp_drop M hs (srv\<lparr>tts_handle2conns := (tts_handle2conns srv)(h := None),
            tts_token2conns := (tts_token2conns srv)(tt_token conn := None)\<rparr>) w })"

definition tun_tcp_remove_closed :: "(handle set \<Rightarrow> handle list) \<Rightarrow> 'w smol \<Rightarrow> tun_tcp_server \<Rightarrow> 'w \<Rightarrow> (tun_tcp_server \<times> 'w) rs" where
  "tun_tcp_remove_closed sorder M srv w = do {
     (srv, w) \<leftarrow> tun_tcp_drop M (sorder (tts_removed srv)) srv w;
     Some (srv\<lparr>tts_removed := {}\<rparr>, w) }"

text \<open>\<open>check_timeout\<close>: the connections to be closed, gathered over the table, and the loop that closes them.\<close>

fun tun_tcp_expired :: "'w smol \<Rightarrow> tun_tcp_server \<Rightarrow> instant \<Rightarrow> usize list \<Rightarrow> 'w \<Rightarrow> (nat list \<times> 'w) rs" where
  "tun_tcp_expired M srv now [] w = Some ([], w)"
| "tun_tcp_expired M srv now (token # tokens) w = do {
     ref \<leftarrow> tts_token2conns srv token;
     conn \<leftarrow> tts_heap srv ref;
     let elapsed = now - tt_last_active conn;
     if tt_lclosed conn \<and> duration_from_secs 120 < elapsed then do {
       w \<leftarrow> abort_local M conn w;
       (refs, w) \<leftarrow> tun_tcp_expired M srv now tokens w;
       Some (ref # refs, w) }
     else if duration_from_secs 3600 < elapsed then do {
       (refs, w) \<leftarrow> tun_tcp_expired M srv now tokens w;
       Some (ref # refs, w) }
     else tun_tcp_expired M srv now tokens w }"

fun tun_tcp_close_all :: "'w sys \<Rightarrow> 'w smol \<Rightarrow> waker \<Rightarrow> nat list \<Rightarrow> tun_tcp_server \<Rightarrow> 'w \<Rightarrow> (tun_tcp_server \<times> 'w) rs" where
  "tun_tcp_close_all S M wkr [] srv w = Some (srv, w)"
| "tun_tcp_close_all S M wkr (ref # refs) srv w = do {
     conn \<leftarrow> tts_heap srv ref;
     (conn, w) \<leftarrow> tun_tcp_close S M wkr conn w;
     tun_tcp_close_all S M wkr refs
       (srv\<lparr>tts_heap := (tts_heap srv)(ref \<mapsto> conn), tts_removed := insert (tt_local conn) (tts_removed srv)\<rparr>) w }"

definition tun_tcp_check_timeout :: "((usize \<rightharpoonup> nat) \<Rightarrow> usize list) \<Rightarrow> (handle set \<Rightarrow> handle list) \<Rightarrow> 'w sys \<Rightarrow> 'w smol \<Rightarrow>
    tun_tcp_server \<Rightarrow> instant \<Rightarrow> waker \<Rightarrow> 'w \<Rightarrow> (tun_tcp_server \<times> 'w) rs" where
  "tun_tcp_check_timeout torder sorder S M srv now wkr w = do {
     (refs, w) \<leftarrow> tun_tcp_expired M srv now (torder (tts_token2conns srv)) w;
     (srv, w) \<leftarrow> tun_tcp_close_all S M wkr refs srv w;
     tun_tcp_remove_closed sorder M srv w }"

end
