(* ===== verification/Tun_Tcp_Relay.thy ===== *)
theory Tun_Tcp_Relay
  imports Tun_Tcp
begin

text \<open>
  What a TCP connection of the tunnel does with its two streams: for any sequence of events and arriving data, the
  request and the client's bytes reach the TLS session in order, the server's bytes reach the client's socket in
  order, and a side that is closed closes the other one as soon as nothing is left for it.
\<close>

section \<open>Copying and what it does not touch\<close>

lemma send_all_loop_keeps:
  assumes "\<And>d s r s'. wr d s = Some (r, s') \<Longrightarrow> f s' = f s"
  shows "send_all_loop wr data offset s = Some (r, n, s') \<Longrightarrow> f s' = f s"
proof (induction "length data" arbitrary: data offset s rule: less_induct)
  case less
  show ?case
  proof (cases "data = [] \<or> wr data s = None")
    case True
    with less.prems show ?thesis by (auto simp: send_all_loop.simps [of wr data] split: if_splits)
  next
    case False
    then obtain x s1 where w: "data \<noteq> []" "wr data s = Some (x, s1)" by auto
    show ?thesis
    proof (cases "\<exists>k. x = Inr k \<and> k \<noteq> 0 \<and> k \<le> length data")
      case True
      then obtain k where k: "x = Inr k" "k \<noteq> 0" "k \<le> length data" by blast
      with less.prems w have "send_all_loop wr (drop k data) (offset + k) s1 = Some (r, n, s')"
        by (subst (asm) send_all_loop.simps) simp
      with less.hyps [of "drop k data"] w k assms [OF w(2)] show ?thesis by simp
    next
      case F: False
      have "s' = s1" using less.prems w F by (subst (asm) send_all_loop.simps) (auto split: sum.splits if_splits)
      with assms [OF w(2)] show ?thesis by simp
    qed
  qed
qed

lemma send_all_keeps:
  assumes "\<And>d s r s'. wr d s = Some (r, s') \<Longrightarrow> f s' = f s" and "send_all wr buffer s = Some (r, b, s')"
  shows "f s' = f s"
proof (cases "buffer = []")
  case False
  with assms(2) obtain r1 n where "send_all_loop wr buffer 0 s = Some (r1, n, s')"
    by (auto simp: send_all_def split: bind_splits sum.splits)
  from send_all_loop_keeps [where f = f, OF assms(1) this] show ?thesis by simp
qed (use assms(2) in \<open>simp add: send_all_def\<close>)

lemma read_once_keeps:
  assumes "\<And>n s r s'. rd n s = Some (r, s') \<Longrightarrow> f s' = f s" and "read_once spare rd buffer s = Some (r, b, s')"
  shows "f s' = f s"
proof -
  from assms(2) obtain x where "rd (spare buffer) s = Some (x, s')"
    by (auto simp: read_once_def split: bind_splits sum.splits if_splits)
  then show ?thesis by (rule assms(1))
qed

lemma copy_stream_keeps:
  assumes "\<And>n s r s'. rd n s = Some (r, s') \<Longrightarrow> f s' = f s" and "\<And>d s r s'. wr d s = Some (r, s') \<Longrightarrow> f s' = f s"
    and "copy_stream spare rd wr buffer s = Some (ret, b, s')"
  shows "f s' = f s"
proof -
  have "(\<forall>n s r s'. rd n s = Some (r, s') \<longrightarrow> f s' = f s) \<and> (\<forall>d s r s'. wr d s = Some (r, s') \<longrightarrow> f s' = f s) \<longrightarrow> f (snd (snd x)) = f s"
    if "copy_stream spare rd wr buffer s = Some x" for x
  proof (rule copy_stream.raw_induct [where P = "\<lambda>spare rd wr buffer s x. (\<forall>n s r s'. rd n s = Some (r, s') \<longrightarrow> f s' = f s) \<and>
      (\<forall>d s r s'. wr d s = Some (r, s') \<longrightarrow> f s' = f s) \<longrightarrow> f (snd (snd x)) = f s", OF _ that], goal_cases)
    case (1 g spare rd wr buffer s x)
    show ?case
    proof
      assume k: "(\<forall>n s r s'. rd n s = Some (r, s') \<longrightarrow> f s' = f s) \<and> (\<forall>d s r s'. wr d s = Some (r, s') \<longrightarrow> f s' = f s)"
      from 1(2) obtain sent b1 s1 where sa: "send_all wr buffer s = Some (sent, b1, s1)" by (auto split: bind_splits)
      have s1: "f s1 = f s" by (rule send_all_keeps [OF _ sa]) (use k in blast)
      show "f (snd (snd x)) = f s"
      proof (cases "sent = Inr True")
        case True
        with 1(2) sa obtain got b2 s2 where ro: "read_once spare rd b1 s1 = Some (got, b2, s2)" by (auto split: bind_splits)
        have s2: "f s2 = f s1" by (rule read_once_keeps [OF _ ro]) (use k in blast)
        show ?thesis
        proof (cases "got = Inr True")
          case True
          with 1(2) sa \<open>sent = Inr True\<close> ro have "g spare rd wr b2 s2 = Some x" by simp
          from 1(1) [OF this] k s1 s2 show ?thesis by simp
        qed (use 1(2) sa \<open>sent = Inr True\<close> ro s1 s2 in \<open>auto split: sum.splits\<close>)
      qed (use 1(2) sa s1 in \<open>auto split: sum.splits\<close>)
    qed
  qed
  from this [OF assms(3)] assms(1,2) show ?thesis by simp
qed

section \<open>The two streams\<close>

text \<open>What is observed of the world: the plaintext written to the TLS session and the client's bytes still unread
  in its socket, the bytes the client's socket has taken and the server's bytes still unread.\<close>

record 'w link_view =
  up_tx :: "'w \<Rightarrow> bytes"
  up_avail :: "'w \<Rightarrow> bytes"
  dn_tx :: "'w \<Rightarrow> bytes"
  dn_avail :: "'w \<Rightarrow> bytes"

abbreviation up_of :: "'w link_view \<Rightarrow> 'w smol \<Rightarrow> handle \<Rightarrow> 'w \<Rightarrow> bytes \<times> bytes \<times> bool" where
  "up_of V M h w \<equiv> (up_tx V w, up_avail V w, has_tcp M h w)"

abbreviation dn_of :: "'w link_view \<Rightarrow> 'w smol \<Rightarrow> handle \<Rightarrow> 'w \<Rightarrow> bytes \<times> bytes \<times> bool" where
  "dn_of V M h w \<equiv> (dn_tx V w, dn_avail V w, has_tcp M h w)"

definition link_quiet :: "'w link_view \<Rightarrow> 'w smol \<Rightarrow> handle \<Rightarrow> 'w \<Rightarrow> 'w \<Rightarrow> bool" where
  "link_quiet V M h w w' \<longleftrightarrow> up_of V M h w' = up_of V M h w \<and> dn_of V M h w' = dn_of V M h w"

lemma link_quiet_refl [simp]: "link_quiet V M h w w" and link_quiet_trans: "link_quiet V M h a b \<Longrightarrow> link_quiet V M h b c \<Longrightarrow> link_quiet V M h a c"
  by (simp_all add: link_quiet_def)

text \<open>The documented behaviour of the two streams: each direction has a reader and a writer that conserve its bytes
  and leave the other direction alone, the session takes every write whole, and nothing else moves bytes or removes
  the socket.\<close>

definition tun_link :: "'w sys \<Rightarrow> 'w smol \<Rightarrow> 'w link_view \<Rightarrow> tls_conn \<Rightarrow> handle \<Rightarrow> bool" where
  "tun_link S M V t h \<longleftrightarrow>
     writer_contract (tls_write S t) (up_tx V) (up_avail V) \<and> reader_contract (local_read M h) (up_tx V) (up_avail V) \<and>
     writer_contract (local_write M h) (dn_tx V) (dn_avail V) \<and> reader_contract (tls_read S t) (dn_tx V) (dn_avail V) \<and>
     (\<forall>d w r w'. tls_write S t d w = Some (r, w') \<longrightarrow> dn_of V M h w' = dn_of V M h w \<and> (\<forall>n. r = Inr n \<longrightarrow> n = length d)) \<and>
     (\<forall>n w r w'. local_read M h n w = Some (r, w') \<longrightarrow> dn_of V M h w' = dn_of V M h w) \<and>
     (\<forall>d w r w'. local_write M h d w = Some (r, w') \<longrightarrow> up_of V M h w' = up_of V M h w) \<and>
     (\<forall>n w r w'. tls_read S t n w = Some (r, w') \<longrightarrow> up_of V M h w' = up_of V M h w) \<and>
     (\<forall>w. link_quiet V M h w (snd (tls_flush S t w)) \<and> link_quiet V M h w (tls_close S t w) \<and>
        link_quiet V M h w (ts_close M h w) \<and> link_quiet V M h w (snd (instant_now S w)) \<and>
        (\<forall>k. link_quiet V M h w (register_recv_waker M h k w) \<and> link_quiet V M h w (register_send_waker M h k w)))"

lemma tun_linkD:
  assumes "tun_link S M V t h"
  shows "writer_contract (tls_write S t) (up_tx V) (up_avail V)" and "reader_contract (local_read M h) (up_tx V) (up_avail V)"
    and "writer_contract (local_write M h) (dn_tx V) (dn_avail V)" and "reader_contract (tls_read S t) (dn_tx V) (dn_avail V)"
    and "tls_write S t d w = Some (r, w') \<Longrightarrow> dn_of V M h w' = dn_of V M h w"
    and "tls_write S t d w = Some (Inr n, w') \<Longrightarrow> n = length d"
    and "local_read M h k w = Some (x, w') \<Longrightarrow> dn_of V M h w' = dn_of V M h w"
    and "local_write M h d w = Some (r, w') \<Longrightarrow> up_of V M h w' = up_of V M h w"
    and "tls_read S t k w = Some (x, w') \<Longrightarrow> up_of V M h w' = up_of V M h w"
    and "tls_flush S t w = (u, w') \<Longrightarrow> link_quiet V M h w w'" and "link_quiet V M h w (tls_close S t w)"
    and "link_quiet V M h w (ts_close M h w)" and "instant_now S w = (i, w') \<Longrightarrow> link_quiet V M h w w'"
    and "link_quiet V M h w (register_recv_waker M h j w)" and "link_quiet V M h w (register_send_waker M h j w)"
proof -
  note l = assms [unfolded tun_link_def]
  show "tls_flush S t w = (u, w') \<Longrightarrow> link_quiet V M h w w'" using l by (metis snd_conv)
  show "instant_now S w = (i, w') \<Longrightarrow> link_quiet V M h w w'" using l by (metis snd_conv)
qed (use assms [unfolded tun_link_def] in blast)+

section \<open>What is kept\<close>

text \<open>\<open>req\<close> is the request, \<open>L\<close> what the client has sent so far, \<open>R\<close> what the server has sent so far.\<close>

definition link_inv :: "'w link_view \<Rightarrow> 'w smol \<Rightarrow> bytes \<Rightarrow> bytes \<Rightarrow> bytes \<Rightarrow> tun_tcp \<Rightarrow> 'w \<Rightarrow> bool" where
  "link_inv V M req L R c w \<longleftrightarrow> has_tcp M (tt_local c) w \<and>
     (\<not> tt_rclosed c \<longrightarrow> (if tt_established c then up_tx V w @ tt_rbuffer c @ up_avail V w = req @ L
        else up_tx V w = [] \<and> tt_rbuffer c = [] \<and> up_avail V w = L)) \<and>
     (\<not> tt_lclosed c \<longrightarrow> dn_tx V w @ tt_lbuffer c @ dn_avail V w = R)"

text \<open>The identity of a connection, and that closing is final.\<close>

definition tun_same :: "tun_tcp \<Rightarrow> tun_tcp \<Rightarrow> bool" where
  "tun_same c c' \<longleftrightarrow> tt_token c' = tt_token c \<and> tt_local c' = tt_local c \<and> tt_remote c' = tt_remote c \<and>
     (tt_lclosed c \<longrightarrow> tt_lclosed c') \<and> (tt_rclosed c \<longrightarrow> tt_rclosed c') \<and> (tt_established c \<longrightarrow> tt_established c')"

lemma tun_same_refl [simp]: "tun_same c c" and tun_same_trans: "tun_same a b \<Longrightarrow> tun_same b c \<Longrightarrow> tun_same a c"
  by (auto simp: tun_same_def)

lemma link_inv_quiet: "link_inv V M req L R c w \<Longrightarrow> link_quiet V M (tt_local c) w w' \<Longrightarrow> link_inv V M req L R c w'"
  by (simp add: link_inv_def link_quiet_def)

text \<open>Closing a side needs the invariant of what is left only.\<close>

definition side_closed :: "bool \<Rightarrow> tun_tcp \<Rightarrow> tun_tcp" where
  "side_closed is_local c = (if is_local then c\<lparr>tt_lclosed := True\<rparr> else c\<lparr>tt_rclosed := True\<rparr>)"

lemma link_inv_side: "link_inv V M req L R c w \<Longrightarrow> link_inv V M req L R (side_closed b c) w"
  by (simp add: link_inv_def side_closed_def)

lemma close_stream_inv:
  assumes "tun_link S M V (tt_remote c) (tt_local c)" and "link_inv V M req L R (side_closed b c) w"
  shows "\<exists>w'. close_stream S M b wkr c w = Some (side_closed b c, w') \<and> link_inv V M req L R (side_closed b c) w'"
proof (cases "b \<and> \<not> tt_lclosed c")
  case True
  have "has_tcp M (tt_local c) w" using assms(2) by (simp add: link_inv_def side_closed_def split: if_splits)
  moreover have "link_quiet V M (tt_local c) w (ts_close M (tt_local c) (register_send_waker M (tt_local c) wkr
      (register_recv_waker M (tt_local c) wkr w)))"
    using tun_linkD(12,14,15) [OF assms(1)] link_quiet_trans by meson
  ultimately show ?thesis using True link_inv_quiet [OF assms(2)]
    by (auto simp: close_stream_def get_tcp_def Let_def side_closed_def)
next
  case False
  show ?thesis
  proof (cases "\<not> b \<and> \<not> tt_rclosed c")
    case True
    with link_inv_quiet [OF assms(2)] tun_linkD(11) [OF assms(1)] show ?thesis
      by (auto simp: close_stream_def side_closed_def)
  qed (use False assms(2) in \<open>auto simp: close_stream_def side_closed_def\<close>)
qed

lemma side_closed_simps [simp]:
  "tt_token (side_closed b c) = tt_token c" "tt_local (side_closed b c) = tt_local c" "tt_remote (side_closed b c) = tt_remote c"
  "tt_lclosed (side_closed b c) = (b \<or> tt_lclosed c)" "tt_rclosed (side_closed b c) = (\<not> b \<or> tt_rclosed c)"
  "tt_established (side_closed b c) = tt_established c" "tt_rbuffer (side_closed b c) = tt_rbuffer c"
  "tt_lbuffer (side_closed b c) = tt_lbuffer c"
  by (simp_all add: side_closed_def)

lemma tun_same_side [simp]: "tun_same c (side_closed b c)"
  by (simp add: tun_same_def)

lemma flush_remote_inv:
  assumes "tun_link S M V (tt_remote c) (tt_local c)" and "link_inv V M req L R c w"
  shows "\<exists>c' w'. flush_remote S M wkr c w = Some (c', w') \<and> link_inv V M req L R c' w' \<and> tun_same c c'"
proof -
  obtain u w1 where f: "tls_flush S (tt_remote c) w = (u, w1)" by (cases "tls_flush S (tt_remote c) w")
  have i: "link_inv V M req L R c w1" by (rule link_inv_quiet [OF assms(2) tun_linkD(10) [OF assms(1) f]])
  from close_stream_inv [OF assms(1) link_inv_side [OF i], of False wkr] f i show ?thesis
    by (cases u) (auto simp: flush_remote_def)
qed

text \<open>One direction of copying, from the outcome of \<open>copy_stream\<close>.\<close>

lemma local_to_remote_inv:
  assumes "tun_link S M V (tt_remote c) (tt_local c)" and "link_inv V M req L R c w" and "\<forall>b. 0 < spare b"
  shows "\<exists>c' w'. local_to_remote S M spare wkr c w = Some (c', w') \<and> link_inv V M req L R c' w' \<and> tun_same c c'"
proof -
  have t: "get_tcp M (tt_local c) w = Some ()" using assms(2) by (simp add: link_inv_def get_tcp_def)
  show ?thesis
  proof (cases "tt_established c")
    case False
    from close_stream_inv [OF assms(1) link_inv_side [OF assms(2)], of True wkr] False t assms(2) show ?thesis
      by (auto simp: local_to_remote_def)
  next
    case True
    let ?rd = "local_read M (tt_local c)" and ?wr = "tls_write S (tt_remote c)"
    obtain ret b w1 where cp: "copy_stream spare ?rd ?wr (tt_rbuffer c) w = Some (ret, b, w1)"
      and out: "copied (up_tx V w @ tt_rbuffer c @ up_avail V w) ret (up_tx V w1) b (up_avail V w1)"
      using copy_stream_spec [OF tun_linkD(1,2) [OF assms(1)] assms(3), of "tt_rbuffer c" w] by blast
    have dn: "dn_of V M (tt_local c) w1 = dn_of V M (tt_local c) w"
      by (rule copy_stream_keeps [where f = "dn_of V M (tt_local c)", OF _ _ cp]) (rule tun_linkD(5,7) [OF assms(1)], assumption)+
    let ?c = "c\<lparr>tt_rbuffer := b\<rparr>"
    have link: "tun_link S M V (tt_remote ?c) (tt_local ?c)" using assms(1) by simp
    have fin: "\<exists>c' w'. (if \<not> tt_rclosed d then flush_remote S M wkr d v else Some (d, v)) = Some (c', w') \<and>
        link_inv V M req L R c' w' \<and> tun_same c c'"
      if "link_inv V M req L R d v" "tun_same ?c d" "tt_remote d = tt_remote c" "tt_local d = tt_local c" for d v
      using flush_remote_inv [of S M V d req L R v wkr] assms(1) that by (auto simp: tun_same_def)
    consider (block) r where "ret = Inr r" | (rx) e where "ret = Inl (RxBreak e)" | (tx) e where "ret = Inl (TxBreak e)"
      using out by (cases ret) (auto simp: copied_def split: trojan_error.splits)
    then show ?thesis
    proof cases
      case block
      have i: "link_inv V M req L R ?c w1" using assms(2) out block dn True by (auto simp: link_inv_def copied_def)
      from fin [OF i] block cp t True show ?thesis by (cases r) (simp_all add: local_to_remote_def Let_def)
    next
      case rx
      have i: "link_inv V M req L R ?c w1" using assms(2) out rx dn True by (auto simp: link_inv_def copied_def)
      from close_stream_inv [OF link link_inv_side [OF i], of True wkr] obtain w2 where
        "close_stream S M True wkr ?c w1 = Some (side_closed True ?c, w2)" "link_inv V M req L R (side_closed True ?c) w2" by auto
      with fin [of "side_closed True ?c" w2] rx cp t True show ?thesis by (simp add: local_to_remote_def Let_def)
    next
      case tx
      have i: "link_inv V M req L R (side_closed False ?c) w1" using assms(2) dn by (auto simp: link_inv_def)
      from close_stream_inv [OF link i, of wkr] tx cp t True show ?thesis
        by (auto simp: local_to_remote_def Let_def tun_same_def)
    qed
  qed
qed

lemma remote_to_local_inv:
  assumes "tun_link S M V (tt_remote c) (tt_local c)" and "link_inv V M req L R c w" and "\<forall>b. 0 < spare b"
  shows "\<exists>c' w'. remote_to_local S M spare wkr c w = Some (c', w') \<and> link_inv V M req L R c' w' \<and> tun_same c c'"
proof -
  have t: "get_tcp M (tt_local c) w = Some ()" using assms(2) by (simp add: link_inv_def get_tcp_def)
  let ?rd = "tls_read S (tt_remote c)" and ?wr = "local_write M (tt_local c)"
  obtain ret b w1 where cp: "copy_stream spare ?rd ?wr (tt_lbuffer c) w = Some (ret, b, w1)"
    and out: "copied (dn_tx V w @ tt_lbuffer c @ dn_avail V w) ret (dn_tx V w1) b (dn_avail V w1)"
    using copy_stream_spec [OF tun_linkD(3,4) [OF assms(1)] assms(3), of "tt_lbuffer c" w] by blast
  have up: "up_of V M (tt_local c) w1 = up_of V M (tt_local c) w"
    by (rule copy_stream_keeps [where f = "up_of V M (tt_local c)", OF _ _ cp]) (rule tun_linkD(8,9) [OF assms(1)], assumption)+
  let ?c = "c\<lparr>tt_lbuffer := b\<rparr>" and ?n = "ts_send_queue M (tt_local c) w1"
  have link: "tun_link S M V (tt_remote ?c) (tt_local ?c)" using assms(1) by simp
  have fin: "\<exists>c' w'. (if tt_rclosed d \<and> \<not> tt_lclosed d \<and> tt_lbuffer d = [] \<and> ?n = 0 then close_stream S M True wkr d v else Some (d, v)) =
      Some (c', w') \<and> link_inv V M req L R c' w' \<and> tun_same c c'"
    if i: "link_inv V M req L R d v" and s: "tun_same ?c d" "tt_remote d = tt_remote c" "tt_local d = tt_local c" for d v
  proof -
    have "tun_same c d" using s(1) by (simp add: tun_same_def)
    with close_stream_inv [of S M V d, OF _ link_inv_side [OF i], of True wkr] assms(1) i s tun_same_trans [OF _ tun_same_side, of c d True]
    show ?thesis by auto
  qed
  consider (block) r where "ret = Inr r" | (rx) e where "ret = Inl (RxBreak e)" | (tx) e where "ret = Inl (TxBreak e)"
    using out by (cases ret) (auto simp: copied_def split: trojan_error.splits)
  then show ?thesis
  proof cases
    case block
    have i: "link_inv V M req L R ?c w1" using assms(2) out block up by (auto simp: link_inv_def copied_def)
    from fin [OF i] block cp t show ?thesis by (cases r) (simp_all add: remote_to_local_def Let_def)
  next
    case rx
    have i: "link_inv V M req L R ?c w1" using assms(2) out rx up by (auto simp: link_inv_def copied_def)
    from close_stream_inv [OF link link_inv_side [OF i], of False wkr] obtain w2 where
      "close_stream S M False wkr ?c w1 = Some (side_closed False ?c, w2)" "link_inv V M req L R (side_closed False ?c) w2" by auto
    with fin [of "side_closed False ?c" w2] rx cp t show ?thesis by (simp add: remote_to_local_def Let_def)
  next
    case tx
    have i: "link_inv V M req L R (side_closed True ?c) w1" using assms(2) up by (auto simp: link_inv_def)
    from close_stream_inv [OF link i, of wkr] obtain w2 where
      "close_stream S M True wkr ?c w1 = Some (side_closed True ?c, w2)" "link_inv V M req L R (side_closed True ?c) w2" by auto
    with fin [of "side_closed True ?c" w2] tx cp t show ?thesis by (simp add: remote_to_local_def Let_def)
  qed
qed

section \<open>Events\<close>

text \<open>A closed side leaves the other one open only as long as something is buffered for it.\<close>

definition half_ok :: "tun_tcp \<Rightarrow> bool" where
  "half_ok c \<longleftrightarrow> (tt_lclosed c \<and> \<not> tt_rclosed c \<longrightarrow> tt_rbuffer c \<noteq> []) \<and> (tt_rclosed c \<and> \<not> tt_lclosed c \<longrightarrow> tt_lbuffer c \<noteq> [])"

lemma check_half_close_inv:
  assumes "tun_link S M V (tt_remote c) (tt_local c)" and "link_inv V M req L R c w"
  shows "\<exists>c' w'. check_half_close S M wkr c w = Some (c', w') \<and> link_inv V M req L R c' w' \<and> tun_same c c' \<and> half_ok c'"
proof -
  let ?a = "tt_lclosed c \<and> \<not> tt_rclosed c \<and> tt_rbuffer c = []"
  let ?b = "tt_rclosed c \<and> \<not> tt_lclosed c \<and> tt_lbuffer c = []"
  note r = close_stream_inv [OF assms(1) link_inv_side [OF assms(2)], of False wkr]
  note l = close_stream_inv [OF assms(1) link_inv_side [OF assms(2)], of True wkr]
  consider ?a | ?b | "\<not> ?a" "\<not> ?b" by blast
  then show ?thesis
  proof cases
    case 1
    with r show ?thesis by (auto simp: check_half_close_def half_ok_def)
  next
    case 2
    with l show ?thesis by (auto simp: check_half_close_def half_ok_def)
  next
    case 3
    then have e: "check_half_close S M wkr c w = Some (c, w)" by (auto simp: check_half_close_def)
    from 3 have "half_ok c" unfolding half_ok_def by blast
    with e assms(2) show ?thesis by auto
  qed
qed

lemma reregister_local_inv:
  assumes "tun_link S M V (tt_remote c) (tt_local c)" and "link_inv V M req L R c w"
  shows "\<exists>wk' w'. reregister_local M wk c w = Some (wk', w') \<and> link_inv V M req L R c w'"
proof (cases "tt_lclosed c")
  case True
  with assms(2) show ?thesis by (simp add: reregister_local_def)
next
  case False
  obtain rx tx wk' where g: "get_wakers wk (tt_local c) = Some ((rx, tx), wk')" using get_wakers_total by fast
  have h: "has_tcp M (tt_local c) w" using assms(2) by (simp add: link_inv_def)
  let ?w1 = "if tt_lbuffer c \<noteq> [] then register_send_waker M (tt_local c) tx w else w"
  let ?w2 = "if tt_rbuffer c = [] \<and> \<not> tt_rclosed c then register_recv_waker M (tt_local c) rx ?w1 else ?w1"
  have q1: "link_quiet V M (tt_local c) w ?w1" using tun_linkD(15) [OF assms(1)] by simp
  have q2: "link_quiet V M (tt_local c) ?w1 ?w2" using tun_linkD(14) [OF assms(1)] by simp
  have "link_inv V M req L R c ?w2" by (rule link_inv_quiet [OF assms(2) link_quiet_trans [OF q1 q2]])
  with False g h show ?thesis by (simp add: reregister_local_def get_tcp_def Let_def)
qed

text \<open>What every event ends with.\<close>

lemma tun_tcp_finish:
  assumes "tun_link S M V (tt_remote c) (tt_local c)" and "link_inv V M req L R c w"
  shows "\<exists>c' wk' w'. Option.bind (check_half_close S M DummyWaker c w) (\<lambda>(c, w). Option.bind (reregister_local M wk c w)
      (\<lambda>(wk, w). Some (c, wk, w))) = Some (c', wk', w') \<and> link_inv V M req L R c' w' \<and> tun_same c c' \<and> half_ok c'"
proof -
  obtain c1 w1 where h: "check_half_close S M DummyWaker c w = Some (c1, w1)" "link_inv V M req L R c1 w1" "tun_same c c1" "half_ok c1"
    using check_half_close_inv [OF assms] by blast
  have "tun_link S M V (tt_remote c1) (tt_local c1)" using assms(1) h(3) by (simp add: tun_same_def)
  from reregister_local_inv [OF this h(2), of wk] obtain wk' w' where
    "reregister_local M wk c1 w1 = Some (wk', w')" "link_inv V M req L R c1 w'" by blast
  with h show ?thesis by simp
qed

lemma tun_link_same: "tun_link S M V (tt_remote c) (tt_local c) \<Longrightarrow> tun_same c d \<Longrightarrow> tun_link S M V (tt_remote d) (tt_local d)"
  by (simp add: tun_same_def)

lemma tun_tcp_local_inv:
  assumes "tun_link S M V (tt_remote c) (tt_local c)" and "link_inv V M req L R c w" and "\<forall>b. 0 < spare b"
  shows "\<exists>c' wk' w'. tun_tcp_local S M spare wk e c w = Some (c', wk', w') \<and> link_inv V M req L R c' w' \<and> tun_same c c' \<and> half_ok c'"
proof -
  obtain now w0 where n: "instant_now S w = (now, w0)" by (cases "instant_now S w")
  let ?c = "c\<lparr>tt_last_active := now\<rparr>"
  have i0: "link_inv V M req L R ?c w0" using link_inv_quiet [OF assms(2) tun_linkD(13) [OF assms(1) n]] by (simp add: link_inv_def)
  have l0: "tun_link S M V (tt_remote ?c) (tt_local ?c)" using assms(1) by simp
  obtain c1 w1 where 1: "(if tun_is_readable e then local_to_remote S M spare DummyWaker ?c w0 else Some (?c, w0)) = Some (c1, w1)"
    "link_inv V M req L R c1 w1" "tun_same ?c c1"
    using local_to_remote_inv [OF l0 i0 assms(3), of DummyWaker] i0 by (cases "tun_is_readable e") auto
  note l1 = tun_link_same [OF l0 1(3)]
  obtain c2 w2 where 2: "(if tun_is_writable e then remote_to_local S M spare DummyWaker c1 w1 else Some (c1, w1)) = Some (c2, w2)"
    "link_inv V M req L R c2 w2" "tun_same c1 c2"
    using remote_to_local_inv [OF l1 1(2) assms(3), of DummyWaker] 1(2) by (cases "tun_is_writable e") auto
  obtain c3 wk3 w3 where 3: "Option.bind (check_half_close S M DummyWaker c2 w2) (\<lambda>(c, w). Option.bind (reregister_local M wk c w)
      (\<lambda>(wk, w). Some (c, wk, w))) = Some (c3, wk3, w3)" "link_inv V M req L R c3 w3" "tun_same c2 c3" "half_ok c3"
    using tun_tcp_finish [OF tun_link_same [OF l1 2(3)] 2(2), of wk] by blast
  have "tun_same c c1" using 1(3) by (simp add: tun_same_def)
  from tun_same_trans [OF tun_same_trans [OF this 2(3)] 3(3)] n 1(1) 2(1) 3(1,2,4) show ?thesis
    by (simp add: tun_tcp_local_def Let_def)
qed

lemma tun_tcp_close_inv:
  assumes "tun_link S M V (tt_remote c) (tt_local c)" and "link_inv V M req L R c w"
  shows "\<exists>c' w'. tun_tcp_close S M wkr c w = Some (c', w') \<and> link_inv V M req L R c' w' \<and> tun_same c c' \<and> tt_lclosed c' \<and> tt_rclosed c'"
proof -
  obtain w1 where 1: "close_stream S M True wkr c w = Some (side_closed True c, w1)" "link_inv V M req L R (side_closed True c) w1"
    using close_stream_inv [OF assms(1) link_inv_side [OF assms(2)]] by blast
  have "tun_link S M V (tt_remote (side_closed True c)) (tt_local (side_closed True c))" using assms(1) by simp
  from close_stream_inv [OF this link_inv_side [OF 1(2)], of False wkr] 1 show ?thesis
    by (auto simp: tun_tcp_close_def tun_same_def)
qed

lemma request_nonempty: "trojan_request_generate_endpoint cfg b cmd e = Some r \<Longrightarrow> r \<noteq> []"
  by (auto simp: trojan_request_generate_endpoint_def sock5_generate_endpoint_def split: ip_address.splits bind_splits)

lemma remote_writable_inv:
  assumes "tun_link S M V (tt_remote c) (tt_local c)" and "link_inv V M req L R c w" and "\<forall>b. 0 < spare b"
    and "\<forall>w. trojan_request_generate_endpoint cfg [] CONNECT (ts_local_endpoint M (tt_local c) w) = Some req"
  shows "\<exists>ok c' w'. remote_writable S M spare cfg c w = Some (ok, c', w') \<and> link_inv V M req L R c' w' \<and> tun_same c c' \<and>
    (\<not> ok \<longrightarrow> tt_lclosed c' \<and> tt_rclosed c')"
proof -
  have t: "get_tcp M (tt_local c) w = Some ()" using assms(2) by (simp add: link_inv_def get_tcp_def)
  have go: "\<exists>c' w'. local_to_remote S M spare DummyWaker d v = Some (c', w') \<and> link_inv V M req L R c' w' \<and> tun_same c c'"
    if "link_inv V M req L R d v" "tun_same c d" for d v
    using local_to_remote_inv [OF tun_link_same [OF assms(1) that(2)] that(1) assms(3), of DummyWaker] tun_same_trans [OF that(2)] by blast
  consider (est) "tt_established c" | (gone) "\<not> tt_established c" "tt_lclosed c" | (new) "\<not> tt_established c" "\<not> tt_lclosed c" by blast
  then show ?thesis
  proof cases
    case est
    with go [OF assms(2)] show ?thesis by (auto simp: remote_writable_def)
  next
    case gone
    with close_stream_inv [OF assms(1) link_inv_side [OF assms(2)], of False DummyWaker] show ?thesis
      by (auto simp: remote_writable_def)
  next
    case new
    have ne: "req \<noteq> []" using assms(4) request_nonempty by blast
    show ?thesis
    proof (cases rule: writer_cases [OF tun_linkD(1) [OF assms(1)] ne, of w, case_names taken failed])
      case (taken n w1)
      have n: "n = length req" using tun_linkD(6) [OF assms(1) taken(1)] .
      have "link_inv V M req L R (c\<lparr>tt_established := True\<rparr>) w1"
        using assms(2) new taken(3,4) n tun_linkD(5) [OF assms(1) taken(1)] by (auto simp: link_inv_def)
      from go [OF this] new taken(1) t assms(4) show ?thesis by (auto simp: remote_writable_def tun_same_def)
    next
      case (failed e w1)
      have "link_inv V M req L R c w1"
        using assms(2) failed(2,3) tun_linkD(5) [OF assms(1) failed(1)] by (auto simp: link_inv_def)
      from tun_tcp_close_inv [OF assms(1) this, of DummyWaker] new failed(1) t assms(4) show ?thesis
        by (auto simp: remote_writable_def)
    qed
  qed
qed

lemma tun_tcp_remote_inv:
  assumes "tun_link S M V (tt_remote c) (tt_local c)" and "link_inv V M req L R c w" and "\<forall>b. 0 < spare b"
    and "\<forall>w. trojan_request_generate_endpoint cfg [] CONNECT (ts_local_endpoint M (tt_local c) w) = Some req"
  shows "\<exists>c' wk' w'. tun_tcp_remote S M spare cfg wk e c w = Some (c', wk', w') \<and> link_inv V M req L R c' w' \<and> tun_same c c' \<and> half_ok c'"
proof -
  obtain now w0 where n: "instant_now S w = (now, w0)" by (cases "instant_now S w")
  let ?c = "c\<lparr>tt_last_active := now\<rparr>"
  have i0: "link_inv V M req L R ?c w0" using link_inv_quiet [OF assms(2) tun_linkD(13) [OF assms(1) n]] by (simp add: link_inv_def)
  have l0: "tun_link S M V (tt_remote ?c) (tt_local ?c)" using assms(1) by simp
  obtain ok c1 w1 where 1: "(if ev_writable e then remote_writable S M spare cfg ?c w0 else Some (True, ?c, w0)) = Some (ok, c1, w1)"
    "link_inv V M req L R c1 w1" "tun_same ?c c1" "\<not> ok \<longrightarrow> tt_lclosed c1 \<and> tt_rclosed c1"
    using remote_writable_inv [OF l0 i0 assms(3), of cfg] assms(4) i0 by (cases "ev_writable e") auto
  have s1: "tun_same c c1" using 1(3) by (simp add: tun_same_def)
  show ?thesis
  proof (cases ok)
    case False
    with n 1 s1 show ?thesis by (simp add: tun_tcp_remote_def half_ok_def Let_def)
  next
    case True
    note l1 = tun_link_same [OF l0 1(3)]
    obtain c2 w2 where 2: "(if ev_readable e then remote_to_local S M spare DummyWaker c1 w1 else Some (c1, w1)) = Some (c2, w2)"
      "link_inv V M req L R c2 w2" "tun_same c1 c2"
      using remote_to_local_inv [OF l1 1(2) assms(3), of DummyWaker] 1(2) by (cases "ev_readable e") auto
    obtain c3 wk3 w3 where 3: "Option.bind (check_half_close S M DummyWaker c2 w2) (\<lambda>(c, w). Option.bind (reregister_local M wk c w)
        (\<lambda>(wk, w). Some (c, wk, w))) = Some (c3, wk3, w3)" "link_inv V M req L R c3 w3" "tun_same c2 c3" "half_ok c3"
      using tun_tcp_finish [OF tun_link_same [OF l1 2(3)] 2(2), of wk] by blast
    from tun_same_trans [OF tun_same_trans [OF s1 2(3)] 3(3)] n 1(1) True 2(1) 3(1,2,4) show ?thesis
      by (simp add: tun_tcp_remote_def Let_def)
  qed
qed

section \<open>Runs\<close>

text \<open>The life of a connection: events on either side, and data that arrives in between, \<open>arrive\<close> being what that
  does to the world.\<close>

datatype tun_step = LocalEvent tun_event | RemoteEvent net_event | Arrive bytes bytes

fun tun_run :: "'w sys \<Rightarrow> 'w smol \<Rightarrow> (bytes \<Rightarrow> nat) \<Rightarrow> opts \<Rightarrow> (bytes \<Rightarrow> bytes \<Rightarrow> 'w \<Rightarrow> 'w) \<Rightarrow> tun_step list \<Rightarrow> tun_tcp \<Rightarrow> wakers \<Rightarrow> 'w \<Rightarrow>
    (tun_tcp \<times> wakers \<times> 'w) rs" where
  "tun_run S M spare cfg arrive [] c wk w = Some (c, wk, w)"
| "tun_run S M spare cfg arrive (LocalEvent e # es) c wk w = do {
     (c, wk, w) \<leftarrow> tun_tcp_local S M spare wk e c w;
     tun_run S M spare cfg arrive es c wk w }"
| "tun_run S M spare cfg arrive (RemoteEvent e # es) c wk w = do {
     (c, wk, w) \<leftarrow> tun_tcp_remote S M spare cfg wk e c w;
     tun_run S M spare cfg arrive es c wk w }"
| "tun_run S M spare cfg arrive (Arrive l r # es) c wk w = tun_run S M spare cfg arrive es c wk (arrive l r w)"

text \<open>Where the length of the socket's send queue is looked at: \<open>remote_to_local\<close> closes the local side only when it
  is 0. The check that follows closes it in any case.\<close>

lemma close_then_check:
  assumes "tt_rclosed c" and "\<not> tt_lclosed c" and "tt_lbuffer c = []"
  shows "close_stream S M True wkr c w \<bind> (\<lambda>(c, w). check_half_close S M wkr c w) = check_half_close S M wkr c w"
  using assms by (auto simp: check_half_close_def close_stream_def Let_def split: bind_splits)

lemma queue_quiet:
  "get_tcp (M\<lparr>ts_send_queue := q\<rparr>) h w = get_tcp M h w"
  "local_read (M\<lparr>ts_send_queue := q\<rparr>) = local_read M" "local_write (M\<lparr>ts_send_queue := q\<rparr>) = local_write M"
  "close_stream S (M\<lparr>ts_send_queue := q\<rparr>) = close_stream S M" "check_half_close S (M\<lparr>ts_send_queue := q\<rparr>) = check_half_close S M"
  "reregister_local (M\<lparr>ts_send_queue := q\<rparr>) = reregister_local M" "local_to_remote S (M\<lparr>ts_send_queue := q\<rparr>) = local_to_remote S M"
  "remote_writable S (M\<lparr>ts_send_queue := q\<rparr>) = remote_writable S M"
proof -
  show g: "get_tcp (M\<lparr>ts_send_queue := q\<rparr>) h w = get_tcp M h w" for h w by (simp add: get_tcp_def)
  show rd: "local_read (M\<lparr>ts_send_queue := q\<rparr>) = local_read M" by (simp add: fun_eq_iff local_read_def)
  show "local_write (M\<lparr>ts_send_queue := q\<rparr>) = local_write M" by (simp add: fun_eq_iff local_write_def)
  show cl: "close_stream S (M\<lparr>ts_send_queue := q\<rparr>) = close_stream S M" by (auto simp: fun_eq_iff close_stream_def g Let_def)
  show "check_half_close S (M\<lparr>ts_send_queue := q\<rparr>) = check_half_close S M"
    by (intro ext) (unfold check_half_close_def cl, rule refl)
  show "reregister_local (M\<lparr>ts_send_queue := q\<rparr>) = reregister_local M"
    by (intro ext) (simp add: reregister_local_def g Let_def cong: if_cong)
  have le: "ts_local_endpoint (M\<lparr>ts_send_queue := q\<rparr>) = ts_local_endpoint M" by simp
  have ac: "ts_is_active (M\<lparr>ts_send_queue := q\<rparr>) = ts_is_active M" by simp
  show lr: "local_to_remote S (M\<lparr>ts_send_queue := q\<rparr>) = local_to_remote S M"
    by (intro ext) (unfold local_to_remote_def flush_remote_def g rd cl ac, rule refl)
  show "remote_writable S (M\<lparr>ts_send_queue := q\<rparr>) = remote_writable S M"
    by (intro ext) (unfold remote_writable_def tun_tcp_close_def g cl lr le, rule refl)
qed

text \<open>\<open>remote_to_local\<close> without its last statement.\<close>

lemma relay_then_check:
  "remote_to_local S M spare wkr c w \<bind> (\<lambda>(c, w). check_half_close S M wkr c w) =
     remote_to_local S (M\<lparr>ts_send_queue := q\<rparr>) spare wkr c w \<bind> (\<lambda>(c, w). check_half_close S M wkr c w)"
proof -
  have "(if tt_rclosed c \<and> \<not> tt_lclosed c \<and> tt_lbuffer c = [] \<and> n = 0 then close_stream S M True wkr c w else Some (c, w)) \<bind>
      (\<lambda>(c, w). check_half_close S M wkr c w) = check_half_close S M wkr c w" for n :: nat and c w
    using close_then_check [of c S M wkr w] by simp
  then show ?thesis
    unfolding remote_to_local_def queue_quiet by (simp add: Let_def case_prod_unfold)
qed

lemma relay_check_then:
  "remote_to_local S (M\<lparr>ts_send_queue := q\<rparr>) spare wkr c w \<bind> (\<lambda>(c, w). check_half_close S M wkr c w \<bind> f) =
     remote_to_local S M spare wkr c w \<bind> (\<lambda>(c, w). check_half_close S M wkr c w \<bind> f)"
proof -
  have "x \<bind> (\<lambda>(c, w). check_half_close S M wkr c w \<bind> f) = (x \<bind> (\<lambda>(c, w). check_half_close S M wkr c w)) \<bind> f" for x
    by (cases x) auto
  then show ?thesis using relay_then_check [of S M spare wkr c w q] by metis
qed

lemma tun_tcp_local_queue: "tun_tcp_local S (M\<lparr>ts_send_queue := q\<rparr>) spare wk e c w = tun_tcp_local S M spare wk e c w"
  by (cases "tun_is_writable e") (simp_all only: tun_tcp_local_def queue_quiet if_True if_False Let_def relay_check_then cong: if_cong)

lemma tun_tcp_remote_queue:
  "tun_tcp_remote S (M\<lparr>ts_send_queue := q\<rparr>) spare cfg wk e c w = tun_tcp_remote S M spare cfg wk e c w"
  by (cases "ev_readable e") (simp_all only: tun_tcp_remote_def queue_quiet if_True if_False Let_def relay_check_then cong: if_cong)

lemma tun_run_queue: "tun_run S (M\<lparr>ts_send_queue := q\<rparr>) spare cfg arrive es c wk w = tun_run S M spare cfg arrive es c wk w"
proof (induction es arbitrary: c wk w)
  case (Cons x es)
  show ?case
  proof (cases x)
    case (LocalEvent e)
    with Cons show ?thesis by (cases "tun_tcp_local S M spare wk e c w") (simp_all add: tun_tcp_local_queue split: prod.splits)
  next
    case (RemoteEvent e)
    with Cons show ?thesis by (cases "tun_tcp_remote S M spare cfg wk e c w") (simp_all add: tun_tcp_remote_queue split: prod.splits)
  qed (use Cons in simp)
qed simp

fun client_sent :: "tun_step list \<Rightarrow> bytes" where
  "client_sent (Arrive l r # es) = l @ client_sent es"
| "client_sent (_ # es) = client_sent es"
| "client_sent [] = []"

fun server_sent :: "tun_step list \<Rightarrow> bytes" where
  "server_sent (Arrive l r # es) = r @ server_sent es"
| "server_sent (_ # es) = server_sent es"
| "server_sent [] = []"

definition tun_arrives :: "'w smol \<Rightarrow> 'w link_view \<Rightarrow> handle \<Rightarrow> (bytes \<Rightarrow> bytes \<Rightarrow> 'w \<Rightarrow> 'w) \<Rightarrow> bool" where
  "tun_arrives M V h arrive \<longleftrightarrow> (\<forall>l r w. up_tx V (arrive l r w) = up_tx V w \<and> up_avail V (arrive l r w) = up_avail V w @ l \<and>
     dn_tx V (arrive l r w) = dn_tx V w \<and> dn_avail V (arrive l r w) = dn_avail V w @ r \<and> has_tcp M h (arrive l r w) = has_tcp M h w)"

lemma link_inv_arrives:
  assumes "link_inv V M req L R c w" and "tun_arrives M V (tt_local c) arrive"
  shows "link_inv V M req (L @ l) (R @ r) c (arrive l r w)"
proof -
  have "up_tx V w @ tt_rbuffer c @ up_avail V w @ l = req @ L @ l" if "up_tx V w @ tt_rbuffer c @ up_avail V w = req @ L"
    using arg_cong [OF that, of "\<lambda>x. x @ l"] by simp
  moreover have "dn_tx V w @ tt_lbuffer c @ dn_avail V w @ r = R @ r" if "dn_tx V w @ tt_lbuffer c @ dn_avail V w = R"
    using arg_cong [OF that, of "\<lambda>x. x @ r"] by simp
  ultimately show ?thesis using assms by (auto simp: link_inv_def tun_arrives_def)
qed

lemma tun_run_inv:
  assumes "\<forall>b. 0 < spare b"
  shows "tun_link S M V (tt_remote c) (tt_local c) \<Longrightarrow> link_inv V M req L R c w \<Longrightarrow> half_ok c \<Longrightarrow> tun_arrives M V (tt_local c) arrive \<Longrightarrow>
    \<forall>w. trojan_request_generate_endpoint cfg [] CONNECT (ts_local_endpoint M (tt_local c) w) = Some req \<Longrightarrow>
    \<exists>c' wk' w'. tun_run S M spare cfg arrive es c wk w = Some (c', wk', w') \<and>
      link_inv V M req (L @ client_sent es) (R @ server_sent es) c' w' \<and> tun_same c c' \<and> half_ok c'"
proof (induction es arbitrary: c wk w L R)
  case (Cons x es)
  have step: ?case
    if "tun_run S M spare cfg arrive (x # es) c wk w = tun_run S M spare cfg arrive es d wk' w'"
      "link_inv V M req (L @ l) (R @ r) d w'" "tun_same c d" "half_ok d" "client_sent (x # es) = l @ client_sent es"
      "server_sent (x # es) = r @ server_sent es" for d wk' w' l r
  proof -
    have l: "tt_local d = tt_local c" using that(3) by (simp add: tun_same_def)
    from Cons.IH [OF tun_link_same [OF Cons.prems(1) that(3)] that(2,4), of wk'] Cons.prems(4,5) l that(1,5,6)
      tun_same_trans [OF that(3)] show ?thesis by (simp add: Let_def) blast
  qed
  show ?case
  proof (cases x)
    case (LocalEvent e)
    from tun_tcp_local_inv [OF Cons.prems(1,2) assms, of wk e] obtain d wk' w' where
      "tun_tcp_local S M spare wk e c w = Some (d, wk', w')" "link_inv V M req L R d w'" "tun_same c d" "half_ok d" by blast
    with step [of d wk' w' "[]" "[]"] show ?thesis by (simp add: LocalEvent)
  next
    case (RemoteEvent e)
    from tun_tcp_remote_inv [OF Cons.prems(1,2) assms Cons.prems(5), of wk e] obtain d wk' w' where
      "tun_tcp_remote S M spare cfg wk e c w = Some (d, wk', w')" "link_inv V M req L R d w'" "tun_same c d" "half_ok d" by blast
    with step [of d wk' w' "[]" "[]"] show ?thesis by (simp add: RemoteEvent)
  next
    case (Arrive l r)
    from step [of c wk "arrive l r w" l r] link_inv_arrives [OF Cons.prems(2,4)] Cons.prems(3) show ?thesis by (simp add: Arrive)
  qed
qed auto

lemma tun_run_new:
  assumes "tun_link S M V t h" and "tun_arrives M V h arrive" and "\<forall>b. 1500 \<le> spare b"
    and "\<forall>w. trojan_request_generate_endpoint cfg [] CONNECT (ts_local_endpoint M h w) = Some req"
    and "tun_tcp_new S token h t w0 = (c, w)" and "has_tcp M h w"
    and "up_tx V w = []" and "up_avail V w = []" and "dn_tx V w = []" and "dn_avail V w = []"
  shows "\<exists>c' wk' w'. tun_run S M spare cfg arrive es c wk w = Some (c', wk', w') \<and>
    link_inv V M req (client_sent es) (server_sent es) c' w' \<and> half_ok c'"
proof -
  have sp: "\<forall>b. 0 < spare b" using assms(3) by (metis gr0I not_numeral_le_zero)
  have "tt_remote c = t" "tt_local c = h" "half_ok c" "link_inv V M req [] [] c w"
    using assms(5-10) by (auto simp: tun_tcp_new_def half_ok_def link_inv_def split: prod.splits)
  with tun_run_inv [OF sp, of S M V c req "[]" "[]" w arrive cfg es wk] assms(1,2,4) show ?thesis by auto
qed

section \<open>Properties\<close>

text \<open>C7. A tunnelled TCP connection relays both streams: from a new connection on, through any sequence of events
  on either side and of arriving data, every handler returns; as long as the server side is open, the plaintext in
  the TLS session followed by what is buffered and what is unread is the request for the socket's address and then
  all the client has sent, in order and without loss or duplication (nothing before the request); and as long as the
  client side is open, what its socket has taken, what is buffered and what is unread is all the server has sent.\<close>

theorem tun_tcp_relay:
  assumes "tun_link S M V t h" and "tun_arrives M V h arrive" and "\<forall>b. 1500 \<le> spare b"
    and "\<forall>w. trojan_request_generate_endpoint cfg [] CONNECT (ts_local_endpoint M h w) = Some req"
    and "tun_tcp_new S token h t w0 = (c, w)" and "has_tcp M h w"
    and "up_tx V w = []" and "up_avail V w = []" and "dn_tx V w = []" and "dn_avail V w = []"
  shows "\<exists>c' wk' w'. tun_run S M spare cfg arrive es c wk w = Some (c', wk', w') \<and>
    (\<not> tt_rclosed c' \<longrightarrow> (if tt_established c' then up_tx V w' @ tt_rbuffer c' @ up_avail V w' = req @ client_sent es
       else up_tx V w' = [] \<and> up_avail V w' = client_sent es)) \<and>
    (\<not> tt_lclosed c' \<longrightarrow> dn_tx V w' @ tt_lbuffer c' @ dn_avail V w' = server_sent es)"
proof -
  from tun_run_new [OF assms, of es wk] obtain c' wk' w' where
    "tun_run S M spare cfg arrive es c wk w = Some (c', wk', w')" "link_inv V M req (client_sent es) (server_sent es) c' w'" by blast
  then show ?thesis by (intro exI [of _ c'] exI [of _ wk'] exI [of _ w']) (simp add: link_inv_def)
qed

text \<open>C17. Both sides of a tunnelled connection close together: after any run, a side that is closed leaves the
  other one open only as long as data is buffered for it. What the local socket has not yet sent plays no part:
  the run is the same whatever the length of its send queue, so the test of that length in \<open>remote_to_local\<close>,
  which its comment asks for, has no effect.\<close>

theorem tun_tcp_half_close:
  assumes "tun_link S M V t h" and "tun_arrives M V h arrive" and "\<forall>b. 1500 \<le> spare b"
    and "\<forall>w. trojan_request_generate_endpoint cfg [] CONNECT (ts_local_endpoint M h w) = Some req"
    and "tun_tcp_new S token h t w0 = (c, w)" and "has_tcp M h w"
    and "up_tx V w = []" and "up_avail V w = []" and "dn_tx V w = []" and "dn_avail V w = []"
    and "tun_run S M spare cfg arrive es c wk w = Some (c', wk', w')"
  shows "(tt_lclosed c' \<and> \<not> tt_rclosed c' \<longrightarrow> tt_rbuffer c' \<noteq> []) \<and> (tt_rclosed c' \<and> \<not> tt_lclosed c' \<longrightarrow> tt_lbuffer c' \<noteq> []) \<and>
    (\<forall>q. tun_run S (M\<lparr>ts_send_queue := q\<rparr>) spare cfg arrive es c wk w = Some (c', wk', w'))"
  using tun_run_new [OF assms(1-10), of es wk] assms(11) by (simp add: half_ok_def tun_run_queue)

text \<open>C20. The end of a client's stream goes unnoticed: when the client has finished sending (nothing more can be
  received but the socket is still active) and the server is silent, a readable event leaves both sides open with
  empty buffers, so that the connection to the server stays until the server closes it or an hour has passed.\<close>

theorem tun_tcp_fin_ignored:
  assumes "has_tcp M (tt_local c) (snd (instant_now S w))" and "tt_established c" and "\<not> tt_lclosed c" and "\<not> tt_rclosed c"
    and "tt_rbuffer c = []" and "tun_is_readable e" and "\<not> tun_is_writable e"
    and "\<forall>w. \<not> ts_may_recv M (tt_local c) w \<and> ts_is_active M (tt_local c) w"
    and "\<forall>w. fst (tls_flush S (tt_remote c) w) = Inr ()" and "\<forall>w. has_tcp M (tt_local c) (snd (tls_flush S (tt_remote c) w)) = has_tcp M (tt_local c) w"
    and "\<forall>b. 1500 \<le> spare b"
  shows "\<exists>c' wk' w'. tun_tcp_local S M spare wk e c w = Some (c', wk', w') \<and> \<not> tt_lclosed c' \<and> \<not> tt_rclosed c' \<and> tt_rbuffer c' = []"
proof -
  obtain now w0 where n: "instant_now S w = (now, w0)" by (cases "instant_now S w")
  let ?c = "c\<lparr>tt_last_active := now\<rparr>"
  have sp: "spare [] \<noteq> 0" using assms(11) by (metis not_numeral_le_zero)
  have cp: "copy_stream spare (local_read M (tt_local c)) (tls_write S (tt_remote c)) [] w0 = Some (Inr RxBlock, [], w0)"
    by (subst copy_stream.simps) (use assms(8) sp in \<open>simp add: send_all_def read_once_def local_read_def\<close>)
  obtain w1 where f: "tls_flush S (tt_remote c) w0 = (Inr (), w1)" using assms(9) by (metis prod.collapse)
  have h: "has_tcp M (tt_local c) w0" "has_tcp M (tt_local c) w1" using assms(1,10) n f by (metis snd_conv)+
  have "local_to_remote S M spare DummyWaker ?c w0 = Some (?c, w1)"
    using assms(2-5) cp f h by (simp add: local_to_remote_def get_tcp_def flush_remote_def)
  moreover have "check_half_close S M DummyWaker ?c w1 = Some (?c, w1)" using assms(3,4) by (simp add: check_half_close_def)
  moreover obtain wk' w' where "reregister_local M wk ?c w1 = Some (wk', w')"
    using get_wakers_total [of wk "tt_local c"] h assms(3) by (fastforce simp: reregister_local_def get_tcp_def Let_def)
  ultimately show ?thesis using n assms(3-7) by (auto simp: tun_tcp_local_def Let_def)
qed

section \<open>An example\<close>

text \<open>A network stack in the small world: the streams of its sockets are those of the sockets with the same
  number.\<close>

definition no_endpoint :: ip_endpoint where
  "no_endpoint = \<lparr>addr = SmolIpv4 (Ipv4Addr 8 8 8 8), port = 80\<rparr>"

definition sim_smol :: "sim smol" where
  "sim_smol = \<lparr>channel_try_recv = (\<lambda>k w. (None, w)), has_tcp = (\<lambda>h w. True), has_udp = (\<lambda>h w. True),
     add_tcp_socket = (\<lambda>r t w. (sim_next w, w\<lparr>sim_next := Suc (sim_next w)\<rparr>)),
     add_udp_socket = (\<lambda>r t e w. (sim_next w, w\<lparr>sim_next := Suc (sim_next w)\<rparr>)), remove_socket = (\<lambda>h w. w),
     register_recv_waker = (\<lambda>h k w. w), register_send_waker = (\<lambda>h k w. w), ts_listen = (\<lambda>h e w. (Some (), w)),
     ts_no_delay = (\<lambda>h w. w), ts_may_recv = (\<lambda>h w. True), ts_may_send = (\<lambda>h w. True), ts_is_active = (\<lambda>h w. True),
     ts_is_listening = (\<lambda>h w. False), ts_is_closed = (\<lambda>h w. False), ts_send_queue = (\<lambda>h w. 0),
     ts_local_endpoint = (\<lambda>h w. no_endpoint),
     ts_recv_slice = (\<lambda>h n w. (Inr (take n (sim_rx w h)), w\<lparr>sim_rx := (sim_rx w)(h := drop n (sim_rx w h))\<rparr>)),
     ts_send_slice = (\<lambda>h d w. let n = min (length d) (sim_room w h) in
        (Inr n, w\<lparr>sim_tx := (sim_tx w)(h := sim_tx w h @ take n d), sim_room := (sim_room w)(h := sim_room w h - n)\<rparr>)),
     ts_close = (\<lambda>h w. w), ts_abort = (\<lambda>h w. w), us_bind = (\<lambda>e. Some ()), us_endpoint = (\<lambda>h w. no_endpoint),
     us_endpoints = (\<lambda>w. []),
     us_recv = (\<lambda>h w. (Inl Exhausted, w)), us_send_slice = (\<lambda>h d e w. (Inr (), w)), us_close = (\<lambda>h w. w)\<rparr>"

definition sim_view :: "sim link_view" where
  "sim_view = \<lparr>up_tx = (\<lambda>w. sim_plain w 1), up_avail = (\<lambda>w. sim_rx w 20), dn_tx = (\<lambda>w. sim_tx w 20),
     dn_avail = (\<lambda>w. sim_tls_in w 1 @ sim_rx w 1)\<rparr>"

definition sim_arrive :: "bytes \<Rightarrow> bytes \<Rightarrow> sim \<Rightarrow> sim" where
  "sim_arrive l r w = w\<lparr>sim_rx := (sim_rx w)(20 := sim_rx w 20 @ l, 1 := sim_rx w 1 @ r)\<rparr>"

lemma sim_smol_simps [simp]:
  "has_tcp sim_smol = (\<lambda>h w. True)" "ts_may_recv sim_smol = (\<lambda>h w. True)" "ts_may_send sim_smol = (\<lambda>h w. True)"
  "ts_local_endpoint sim_smol = (\<lambda>h w. no_endpoint)" "ts_close sim_smol = (\<lambda>h w. w)"
  "register_recv_waker sim_smol = (\<lambda>h k w. w)" "register_send_waker sim_smol = (\<lambda>h k w. w)"
  "ts_recv_slice sim_smol = (\<lambda>h n w. (Inr (take n (sim_rx w h)), w\<lparr>sim_rx := (sim_rx w)(h := drop n (sim_rx w h))\<rparr>))"
  "ts_send_slice sim_smol = (\<lambda>h d w. let n = min (length d) (sim_room w h) in
        (Inr n, w\<lparr>sim_tx := (sim_tx w)(h := sim_tx w h @ take n d), sim_room := (sim_room w)(h := sim_room w h - n)\<rparr>))"
  by (simp_all add: sim_smol_def)

lemma sim_tls_write_all: "d \<noteq> [] \<Longrightarrow> tls_write sim_sys sample_tls d w = Some (Inr (length d), sim_write_plain 1 d w)"
  by (subst tls_write.simps) (simp add: sample_tls_def)

lemma sim_tls_read_cases:
  assumes "0 < n"
  shows "tls_read sim_sys sample_tls n w =
    (if sim_tls_in w 1 \<noteq> [] then Some (Inr (take n (sim_tls_in w 1)), w\<lparr>sim_tls_in := (sim_tls_in w)(1 := drop n (sim_tls_in w 1))\<rparr>)
     else if sim_rx w 1 = [] then Some (Inl WouldBlock, w)
     else Some (Inr (take n (sim_rx w 1)), w\<lparr>sim_rx := (sim_rx w)(1 := []), sim_tls_in := (sim_tls_in w)(1 := drop n (sim_rx w 1))\<rparr>))"
proof -
  have a: "tls_read sim_sys sample_tls n v = Some (Inr (take n (sim_tls_in v 1)), v\<lparr>sim_tls_in := (sim_tls_in v)(1 := drop n (sim_tls_in v 1))\<rparr>)"
    if "sim_tls_in v 1 \<noteq> []" for v
    by (subst tls_read.simps) (use that assms in \<open>simp add: sample_tls_def\<close>)
  show ?thesis
  proof (cases "sim_tls_in w 1 = []")
    case True
    let ?v = "w\<lparr>sim_rx := (sim_rx w)(1 := []), sim_tls_in := (sim_tls_in w)(1 := sim_rx w 1)\<rparr>"
    have "tls_read sim_sys sample_tls n w = (if sim_rx w 1 = [] then Some (Inl WouldBlock, w) else tls_read sim_sys sample_tls n ?v)"
      by (subst tls_read.simps) (use True assms in \<open>simp add: sample_tls_def sim_read_tls_def\<close>)
    with True a [of ?v] show ?thesis by simp
  qed (use a in simp)
qed

lemma sim_tun_link: "tun_link sim_sys sim_smol sim_view sample_tls 20"
proof -
  have z: "tls_write sim_sys sample_tls [] w = None" "tls_read sim_sys sample_tls 0 w = None" for w
    by (subst tls_write.simps, simp, subst tls_read.simps, simp)
  have wr: "tls_write sim_sys sample_tls d w = Some (r, w') \<Longrightarrow> r = Inr (length d) \<and> w' = sim_write_plain 1 d w" for d w r w'
    using sim_tls_write_all [of d w] z(1) [of w] by (cases "d = []") auto
  have rd: "tls_read sim_sys sample_tls n w = Some (r, w') \<Longrightarrow> sim_plain w' 1 = sim_plain w 1 \<and> sim_rx w' 20 = sim_rx w 20" for n w r w'
    using sim_tls_read_cases [of n w] z(2) [of w] by (cases "n = 0") (auto split: if_splits)
  have fl: "link_quiet sim_view sim_smol 20 w (snd (tls_flush sim_sys sample_tls w))" for w
    by (auto simp: link_quiet_def sim_view_def tls_flush_def sample_tls_def sim_write_tls_def sim_write_def Let_def split: prod.splits sum.splits)
  show ?thesis unfolding tun_link_def
  proof (intro conjI allI impI)
    show "writer_contract (tls_write sim_sys sample_tls) (up_tx sim_view) (up_avail sim_view)"
      by (auto simp: writer_contract_def sim_tls_write_all sim_view_def sim_write_plain_def)
    show "reader_contract (local_read sim_smol 20) (up_tx sim_view) (up_avail sim_view)"
      by (auto simp: reader_contract_def local_read_def sim_view_def)
    show "writer_contract (local_write sim_smol 20) (dn_tx sim_view) (dn_avail sim_view)"
      by (auto simp: writer_contract_def local_write_def sim_view_def Let_def min_def)
    show "reader_contract (tls_read sim_sys sample_tls) (dn_tx sim_view) (dn_avail sim_view)"
      by (auto simp: reader_contract_def sim_tls_read_cases sim_view_def)
    show "link_quiet sim_view sim_smol 20 w (snd (tls_flush sim_sys sample_tls w))" for w by (rule fl)
  qed (auto simp: sim_view_def link_quiet_def local_read_def local_write_def Let_def sim_write_plain_def tls_close_def
      dest!: wr rd split: prod.splits if_splits)
qed

lemma sim_tun_arrives: "tun_arrives sim_smol sim_view 20 sim_arrive"
  by (simp add: tun_arrives_def sim_view_def sim_arrive_def)

definition sample_tun :: tun_tcp where
  "sample_tun = \<lparr>tt_token = 8, tt_local = 20, tt_remote = sample_tls, tt_lbuffer = [], tt_rbuffer = [], tt_lclosed = False,
     tt_rclosed = False, tt_established = False, tt_last_active = 0\<rparr>"

definition tun_request :: bytes where
  "tun_request = get_pass sample_ready @ [CR, LF, CONNECT, IPV4, 8, 8, 8, 8, 0, 80, CR, LF]"

lemma sample_tun_start:
  "tun_tcp_new sim_sys 8 20 sample_tls sim_idle = (sample_tun, sim_idle)" "has_tcp sim_smol 20 sim_idle"
  "up_tx sim_view sim_idle = []" "up_avail sim_view sim_idle = []" "dn_tx sim_view sim_idle = []" "dn_avail sim_view sim_idle = []"
  by (simp_all add: tun_tcp_new_def sample_tun_def sim_idle_def sim_view_def)

lemma sample_tun_request:
  "\<forall>w. trojan_request_generate_endpoint sample_ready [] CONNECT (ts_local_endpoint sim_smol 20 w) = Some tun_request"
  by (simp add: trojan_request_generate_endpoint_def sock5_generate_endpoint_def no_endpoint_def tun_request_def u16_be_def)

abbreviation sample_steps :: "tun_step list" where
  "sample_steps \<equiv> [RemoteEvent \<lparr>ev_token = 8, ev_readable = False, ev_writable = True\<rparr>, Arrive [7] [9], LocalEvent (TunEvent 3)]"

theorem tun_tcp_relay_witness:
  "\<exists>c' wk' w'. tun_run sim_sys sim_smol (\<lambda>_. 1500) sample_ready sim_arrive sample_steps sample_tun (wakers_new 0) sim_idle =
       Some (c', wk', w') \<and>
    (\<not> tt_rclosed c' \<longrightarrow> (if tt_established c' then sim_plain w' 1 @ tt_rbuffer c' @ sim_rx w' 20 = tun_request @ [7]
       else sim_plain w' 1 = [] \<and> sim_rx w' 20 = [7])) \<and>
    (\<not> tt_lclosed c' \<longrightarrow> sim_tx w' 20 @ tt_lbuffer c' @ sim_tls_in w' 1 @ sim_rx w' 1 = [9])"
proof -
  have sp: "\<forall>b :: bytes. (1500 :: nat) \<le> 1500" by simp
  have st: "client_sent sample_steps = [7]" "server_sent sample_steps = [9]" by simp_all
  have v: "up_tx sim_view = (\<lambda>w. sim_plain w 1)" "up_avail sim_view = (\<lambda>w. sim_rx w 20)" "dn_tx sim_view = (\<lambda>w. sim_tx w 20)"
    "dn_avail sim_view = (\<lambda>w. sim_tls_in w 1 @ sim_rx w 1)" by (simp_all add: sim_view_def)
  show ?thesis
    using tun_tcp_relay [OF sim_tun_link sim_tun_arrives sp sample_tun_request sample_tun_start, of sample_steps "wakers_new 0"]
    unfolding st v .
qed

text \<open>A server that closes the connection, and a client's socket that always has something to send.\<close>

abbreviation eof_sys :: "sim sys" where
  "eof_sys \<equiv> sim_sys\<lparr>tls_read_tls := (\<lambda>c s w. (Inr 0, w))\<rparr>"

abbreviation busy_smol :: "sim smol" where
  "busy_smol \<equiv> sim_smol\<lparr>ts_send_queue := (\<lambda>h w. 5)\<rparr>"

lemma eof_tls_read:
  "0 < n \<Longrightarrow> tls_read eof_sys sample_tls n w = (if sim_tls_in w 1 \<noteq> []
     then Some (Inr (take n (sim_tls_in w 1)), w\<lparr>sim_tls_in := (sim_tls_in w)(1 := drop n (sim_tls_in w 1))\<rparr>) else Some (Inr [], w))"
  by (subst tls_read.simps) (simp add: sample_tls_def)

lemma eof_tun_link: "tun_link eof_sys busy_smol sim_view sample_tls 20"
proof -
  note l = sim_tun_link
  have z: "tls_read eof_sys sample_tls 0 w = None" for w by (subst tls_read.simps) simp
  have wr: "tls_write eof_sys sample_tls = tls_write sim_sys sample_tls"
  proof (intro ext)
    fix d w show "tls_write eof_sys sample_tls d w = tls_write sim_sys sample_tls d w"
      by (cases "d = []", subst (1 2) tls_write.simps, simp, subst (1 2) tls_write.simps, simp add: sample_tls_def)
  qed
  have v: "has_tcp busy_smol = has_tcp sim_smol" "link_quiet sim_view busy_smol = link_quiet sim_view sim_smol"
    by (simp_all add: fun_eq_iff link_quiet_def)
  have rc: "reader_contract (tls_read eof_sys sample_tls) (dn_tx sim_view) (dn_avail sim_view)"
    by (auto simp: reader_contract_def eof_tls_read sim_view_def)
  have rd: "up_of sim_view sim_smol 20 w' = up_of sim_view sim_smol 20 w" if "tls_read eof_sys sample_tls n w = Some (r, w')" for n w r w'
    using that z [of w] by (cases "n = 0") (auto simp: eof_tls_read sim_view_def split: if_splits)
  have fl: "tls_flush eof_sys = tls_flush sim_sys" "tls_close eof_sys = tls_close sim_sys"
    by (auto simp: fun_eq_iff tls_flush_def tls_close_def)
  have lo: "local_read busy_smol = local_read sim_smol" "local_write busy_smol = local_write sim_smol"
    by (simp_all add: queue_quiet)
  have mo: "ts_close busy_smol = ts_close sim_smol" "register_recv_waker busy_smol = register_recv_waker sim_smol"
    "register_send_waker busy_smol = register_send_waker sim_smol" "instant_now eof_sys = instant_now sim_sys" by simp_all
  show ?thesis using l rc rd unfolding tun_link_def wr fl lo mo v by blast
qed

lemma sim_tun_arrives_busy: "tun_arrives busy_smol sim_view 20 sim_arrive"
  by (simp add: tun_arrives_def sim_view_def sim_arrive_def)

theorem tun_tcp_half_close_witness:
  "\<exists>c' wk' w'. tun_run eof_sys busy_smol (\<lambda>_. 1500) sample_ready sim_arrive
       [RemoteEvent \<lparr>ev_token = 8, ev_readable = True, ev_writable = False\<rparr>] sample_tun (wakers_new 0) sim_idle = Some (c', wk', w') \<and>
     tt_rclosed c' \<and> tt_lclosed c' \<and> ts_send_queue busy_smol 20 w' = 5 \<and>
     tun_run eof_sys sim_smol (\<lambda>_. 1500) sample_ready sim_arrive
       [RemoteEvent \<lparr>ev_token = 8, ev_readable = True, ev_writable = False\<rparr>] sample_tun (wakers_new 0) sim_idle = Some (c', wk', w')"
proof -
  let ?es = "[RemoteEvent \<lparr>ev_token = 8, ev_readable = True, ev_writable = False\<rparr>]"
  have sp: "\<forall>b :: bytes. (1500 :: nat) \<le> 1500" by simp
  have req: "\<forall>w. trojan_request_generate_endpoint sample_ready [] CONNECT (ts_local_endpoint busy_smol 20 w) = Some tun_request"
    using sample_tun_request by simp
  have st: "tun_tcp_new eof_sys 8 20 sample_tls sim_idle = (sample_tun, sim_idle)" "has_tcp busy_smol 20 sim_idle"
    using sample_tun_start(1) by (simp_all add: tun_tcp_new_def)
  have cp: "copy_stream (\<lambda>_. 1500) (tls_read eof_sys sample_tls) (local_write busy_smol 20) [] w = Some (Inl (RxBreak None), [], w)"
    if "sim_tls_in w 1 = []" for w
    by (subst copy_stream.simps) (use that in \<open>simp add: send_all_def read_once_def eof_tls_read\<close>)
  have in0: "sim_tls_in sim_idle 1 = []" by (simp add: sim_idle_def)
  obtain c' wk' w' where r: "tun_run eof_sys busy_smol (\<lambda>_. 1500) sample_ready sim_arrive ?es sample_tun (wakers_new 0) sim_idle = Some (c', wk', w')"
    "tt_rclosed c'" "tt_lbuffer c' = []"
    by (simp add: tun_tcp_remote_def remote_to_local_def sample_tun_def get_tcp_def cp [OF in0] Let_def close_stream_def tls_close_def
        check_half_close_def reregister_local_def)
  from tun_tcp_half_close [OF eof_tun_link sim_tun_arrives_busy sp req st sample_tun_start(3-6) r(1)] r
  have "tt_lclosed c'" "\<forall>q. tun_run eof_sys (busy_smol\<lparr>ts_send_queue := q\<rparr>) (\<lambda>_. 1500) sample_ready sim_arrive ?es sample_tun (wakers_new 0) sim_idle =
      Some (c', wk', w')" by auto
  moreover have "busy_smol\<lparr>ts_send_queue := ts_send_queue sim_smol\<rparr> = sim_smol" by simp
  ultimately have "tun_run eof_sys sim_smol (\<lambda>_. 1500) sample_ready sim_arrive ?es sample_tun (wakers_new 0) sim_idle = Some (c', wk', w')"
    by metis
  with r \<open>tt_lclosed c'\<close> show ?thesis by simp
qed

text \<open>The same stack when the client has finished sending.\<close>

theorem tun_tcp_fin_ignored_witness:
  "\<exists>c' wk' w'. tun_tcp_local (sim_sys\<lparr>tls_write_tls := (\<lambda>c s w. (Inr 0, w))\<rparr>) (sim_smol\<lparr>ts_may_recv := (\<lambda>h w. False)\<rparr>) (\<lambda>_. 1500)
      (wakers_new 0) (TunEvent 1) (sample_tun\<lparr>tt_established := True\<rparr>) sim_idle = Some (c', wk', w') \<and>
     \<not> tt_lclosed c' \<and> \<not> tt_rclosed c'"
proof -
  have "ts_is_active (sim_smol\<lparr>ts_may_recv := (\<lambda>h w. False)\<rparr>) = (\<lambda>h w. True)" by (simp add: sim_smol_def)
  then show ?thesis
    using tun_tcp_fin_ignored [of "sim_smol\<lparr>ts_may_recv := (\<lambda>h w. False)\<rparr>" "sample_tun\<lparr>tt_established := True\<rparr>"
        "sim_sys\<lparr>tls_write_tls := (\<lambda>c s w. (Inr 0, w))\<rparr>" sim_idle "TunEvent 1" "\<lambda>_. 1500" "wakers_new 0"]
    by (auto simp: sample_tun_def tls_flush_def)
qed

end
