(* ===== verification/Tun_Udp_Stream.thy ===== *)
theory Tun_Udp_Stream
  imports Tun_Udp Tun_Tcp_Relay Backend "HOL-Library.Sublist"
begin

text \<open>
  What a UDP connection of the tunnel does with its streams: the plaintext written for the server is the request and
  then whole frames of the client's datagrams, as long as the session takes writes whole; frames from the server,
  cut anywhere, are delivered one by one. What goes wrong when the session blocks is stated too.
\<close>

section \<open>To the server\<close>

text \<open>A TLS session without buffer limit takes a write whole or fails for good, and nothing else writes to it.\<close>

definition takes_whole :: "'w sys \<Rightarrow> tls_conn \<Rightarrow> ('w \<Rightarrow> bytes) \<Rightarrow> bool" where
  "takes_whole S t plain \<longleftrightarrow>
     (\<forall>d w. d \<noteq> [] \<longrightarrow> (\<exists>w'. tls_write S t d w = Some (Inr (length d), w') \<and> plain w' = plain w @ d) \<or>
        (\<exists>e w'. tls_write S t d w = Some (Inl e, w') \<and> e \<noteq> WouldBlock)) \<and>
     (\<forall>w. plain (snd (tls_flush S t w)) = plain w \<and> plain (snd (instant_now S w)) = plain w)"

lemma takes_whole_cases:
  assumes "takes_whole S t plain" and "d \<noteq> []"
  obtains (taken) w' where "tls_write S t d w = Some (Inr (length d), w')" "plain w' = plain w @ d"
    | (failed) e w' where "tls_write S t d w = Some (Inl e, w')" "e \<noteq> WouldBlock"
  using assms unfolding takes_whole_def by blast

lemma takes_whole_quiet:
  assumes "takes_whole S t plain"
  shows "tls_flush S t w = (u, w') \<Longrightarrow> plain w' = plain w" and "instant_now S w = (i, w') \<Longrightarrow> plain w' = plain w"
  using assms unfolding takes_whole_def by (metis snd_conv)+

lemma tu_write_loop_whole:
  assumes "takes_whole S t plain" and "header \<noteq> []"
  shows "\<exists>r w'. tu_write_loop (tls_write S t) header body header 0 w = Some (r, w') \<and>
    (r = None \<or> r = Some ([], length header + length body) \<and> plain w' = plain w @ header @ body)"
proof (cases rule: takes_whole_cases [OF assms, of w, case_names taken failed])
  case (taken w1)
  then have l: "tu_write_loop (tls_write S t) header body header 0 w = tu_write_loop (tls_write S t) header body body (length header) w1"
    using assms(2) by (subst tu_write_loop.simps) simp
  show ?thesis
  proof (cases "body = []")
    case True
    with l taken(2) show ?thesis by (simp add: tu_write_loop.simps [of _ _ _ "[]"])
  next
    case ne: False
    show ?thesis
    proof (cases rule: takes_whole_cases [OF assms(1) ne, of w1, case_names taken2 failed2])
      case (taken2 w2)
      with l ne taken(2) assms(2) show ?thesis
        by (subst (asm) (2) tu_write_loop.simps) (simp add: tu_write_loop.simps [of _ _ _ "[]"])
    next
      case (failed2 e w2)
      with l ne show ?thesis by (subst (asm) (2) tu_write_loop.simps) simp
    qed
  qed
next
  case (failed e w1)
  with assms(2) show ?thesis by (subst tu_write_loop.simps) simp
qed

text \<open>The identity of a connection, and that closing is final.\<close>

definition tu_same :: "tun_udp \<Rightarrow> tun_udp \<Rightarrow> bool" where
  "tu_same c c' \<longleftrightarrow> tu_token c' = tu_token c \<and> tu_local c' = tu_local c \<and> tu_remote c' = tu_remote c \<and>
     tu_endpoint c' = tu_endpoint c \<and> (tu_rclosed c \<longrightarrow> tu_rclosed c')"

lemma tu_same_refl [simp]: "tu_same c c" and tu_same_trans: "tu_same a b \<Longrightarrow> tu_same b c \<Longrightarrow> tu_same a c"
  by (auto simp: tu_same_def)

lemma tu_close_remote_closed: "tu_close_remote S c w = (c', w') \<Longrightarrow> tu_rclosed c' \<and> tu_same c c'"
  by (auto simp: tu_close_remote_def tu_same_def split: if_splits)

text \<open>A step that is closed, or has moved or kept the bytes to be sent and appended \<open>x\<close>.\<close>

definition tu_sends :: "('w \<Rightarrow> bytes) \<Rightarrow> bytes \<Rightarrow> tun_udp \<Rightarrow> 'w \<Rightarrow> tun_udp \<Rightarrow> 'w \<Rightarrow> bool" where
  "tu_sends plain x c w c' w' \<longleftrightarrow> tu_same c c' \<and>
     (tu_rclosed c' \<or> plain w' @ tu_rbuffer c' = plain w @ tu_rbuffer c @ x \<and> tu_established c' = tu_established c)"

lemma tu_flush_remote_sends:
  assumes "takes_whole S (tu_remote c) plain" and "tu_flush_remote S c w = (c', w')"
  shows "tu_same c c' \<and> (tu_rclosed c' \<or> c' = c \<and> plain w' = plain w)"
  using assms(2) takes_whole_quiet(1) [OF assms(1)] tu_close_remote_closed
  by (fastforce simp: tu_flush_remote_def split: prod.splits sum.splits if_splits)

lemma tu_send_packet_sends:
  assumes "takes_whole S (tu_remote c) plain" and "header \<noteq> [] \<or> body = []" and "tu_rbuffer c = []"
  shows "\<exists>c' w'. tu_send_packet S header body c w = Some (c', w') \<and> tu_sends plain (header @ body) c w c' w'"
proof (cases "header = []")
  case True
  obtain c' w' where f: "tu_flush_remote S c w = (c', w')" by (cases "tu_flush_remote S c w")
  with True assms(2) tu_flush_remote_sends [OF assms(1) f] show ?thesis
    by (auto simp: tu_send_packet_def tu_write_loop.simps [of _ _ _ "[]"] tu_sends_def Let_def)
next
  case False
  from tu_write_loop_whole [OF assms(1) False, of body w] obtain r w1 where
    l: "tu_write_loop (tls_write S (tu_remote c)) header body header 0 w = Some (r, w1)"
    and r: "r = None \<or> r = Some ([], length header + length body) \<and> plain w1 = plain w @ header @ body" by blast
  show ?thesis
  proof (cases r)
    case None
    obtain c' w' where f: "tu_close_remote S c w1 = (c', w')" by (cases "tu_close_remote S c w1")
    with None l tu_close_remote_closed [OF f] show ?thesis by (simp add: tu_send_packet_def tu_sends_def)
  next
    case (Some x)
    obtain c' w' where f: "tu_flush_remote S c w1 = (c', w')" by (cases "tu_flush_remote S c w1")
    with Some r l tu_flush_remote_sends [OF assms(1) f] assms(3) show ?thesis by (auto simp: tu_send_packet_def tu_sends_def Let_def)
  qed
qed

lemma tu_local_to_remote_sends:
  assumes "takes_whole S (tu_remote c) plain" and "header \<noteq> [] \<or> body = []"
  shows "\<exists>c' w'. tu_local_to_remote S header body c w = Some (c', w') \<and> tu_sends plain (header @ body) c w c' w'"
proof (cases "tu_rbuffer c = []")
  case True
  with tu_send_packet_sends [OF assms True] show ?thesis by (simp add: tu_local_to_remote_def)
next
  case ne: False
  show ?thesis
  proof (cases rule: takes_whole_cases [OF assms(1) ne, of w, case_names taken failed])
    case (taken w1)
    have sa: "send_all (tls_write S (tu_remote c)) (tu_rbuffer c) w = Some (Inr True, [], w1)"
      using taken(1) ne by (simp add: send_all_def send_all_loop.simps [of _ "tu_rbuffer c"] send_all_loop.simps [of _ "[]"])
    let ?c = "c\<lparr>tu_rbuffer := []\<rparr>"
    obtain c' w' where p: "tu_send_packet S header body ?c w1 = Some (c', w')" "tu_sends plain (header @ body) ?c w1 c' w'"
      using tu_send_packet_sends [of S ?c plain header body w1] assms by auto
    with sa ne taken(2) show ?thesis by (auto simp: tu_local_to_remote_def tu_sends_def tu_same_def)
  next
    case (failed e w1)
    have sa: "send_all (tls_write S (tu_remote c)) (tu_rbuffer c) w = Some (Inl (TxBreak (Some e)), [], w1)"
      using failed ne by (simp add: send_all_def send_all_loop.simps [of _ "tu_rbuffer c"])
    obtain c' w' where f: "tu_close_remote S (c\<lparr>tu_rbuffer := []\<rparr>) w1 = (c', w')" by (cases "tu_close_remote S (c\<lparr>tu_rbuffer := []\<rparr>) w1")
    with sa ne tu_close_remote_closed [OF f] show ?thesis by (auto simp: tu_local_to_remote_def tu_sends_def tu_same_def)
  qed
qed

lemma tun_udp_local_sends:
  assumes "takes_whole S (tu_remote c) plain" and "header \<noteq> []"
  shows "\<exists>c' w' x. tun_udp_local S header body c w = Some (c', w') \<and> tu_sends plain x c w c' w' \<and> 
    (x = header @ body \<or> x = [] \<and> tu_rbuffer c \<noteq> []) \<and> (tu_established c \<or> tu_rclosed c' \<or> plain w' = plain w)"
proof -
  obtain now w0 where n: "instant_now S w = (now, w0)" by (cases "instant_now S w")
  note q = takes_whole_quiet(2) [OF assms(1) n]
  consider (old) "120 < as_secs (now - tu_last_remote c)" | (blocked) "\<not> 120 < as_secs (now - tu_last_remote c)" "tu_rbuffer c \<noteq> []"
    | (early) "\<not> 120 < as_secs (now - tu_last_remote c)" "tu_rbuffer c = []" "\<not> tu_established c"
    | (send) "\<not> 120 < as_secs (now - tu_last_remote c)" "tu_rbuffer c = []" "tu_established c" by blast
  then show ?thesis
  proof cases
    case old
    obtain c' w' where f: "tu_close_remote S c w0 = (c', w')" by (cases "tu_close_remote S c w0")
    with old n tu_close_remote_closed [OF f] show ?thesis by (auto simp: tun_udp_local_def tu_sends_def)
  next
    case blocked
    with n q show ?thesis by (auto simp: tun_udp_local_def tu_sends_def)
  next
    case early
    with n q show ?thesis by (auto simp: tun_udp_local_def tu_sends_def tu_same_def)
  next
    case send
    from tu_local_to_remote_sends [OF assms(1), of header body w0] assms(2) obtain c' w' where
      "tu_local_to_remote S header body c w0 = Some (c', w')" "tu_sends plain (header @ body) c w0 c' w'" by blast
    with send n q show ?thesis by (auto simp: tun_udp_local_def tu_sends_def)
  qed
qed

text \<open>What is kept, with \<open>req\<close> the request and \<open>F\<close> the frames accepted so far.\<close>

definition tu_stream_inv :: "('w \<Rightarrow> bytes) \<Rightarrow> bytes \<Rightarrow> bytes \<Rightarrow> tun_udp \<Rightarrow> 'w \<Rightarrow> bool" where
  "tu_stream_inv plain req F c w \<longleftrightarrow> tu_rclosed c \<or>
     (if tu_established c then plain w @ tu_rbuffer c = req @ F else plain w = [] \<and> tu_rbuffer c = F)"

lemma tu_sends_established:
  assumes "tu_sends plain x c w c' w'" and "tu_stream_inv plain req F c w" and "tu_established c"
  shows "tu_stream_inv plain req (F @ x) c' w'"
proof -
  have "plain w @ tu_rbuffer c @ x = req @ F @ x" if "plain w @ tu_rbuffer c = req @ F"
    using arg_cong [OF that, of "\<lambda>y. y @ x"] by simp
  with assms show ?thesis by (auto simp: tu_sends_def tu_stream_inv_def tu_same_def)
qed

lemma tu_remote_writable_inv:
  assumes "takes_whole S (tu_remote c) plain" and "empty_addr cfg = Some a" and "tu_stream_inv plain (trojan_request_generate cfg [] UDP_ASSOCIATE a) F c w"
  shows "\<exists>ok c' w'. tu_remote_writable S cfg c w = Some (ok, c', w') \<and> tu_same c c' \<and>
    tu_stream_inv plain (trojan_request_generate cfg [] UDP_ASSOCIATE a) F c' w'"
proof -
  let ?req = "trojan_request_generate cfg [] UDP_ASSOCIATE a"
  have go: "\<exists>c' w'. tu_local_to_remote S [] [] d v = Some (c', w') \<and> tu_same c c' \<and> tu_stream_inv plain ?req F c' w'"
    if "tu_same c d" "tu_stream_inv plain ?req F d v" "tu_established d" for d v
  proof -
    have "takes_whole S (tu_remote d) plain" using assms(1) that(1) by (simp add: tu_same_def)
    from tu_local_to_remote_sends [OF this, of "[]" "[]" v] obtain c' w' where
      r: "tu_local_to_remote S [] [] d v = Some (c', w')" "tu_sends plain [] d v c' w'" by auto
    from tu_sends_established [OF r(2) that(2,3)] r tu_same_trans [OF that(1)] show ?thesis by (auto simp: tu_sends_def)
  qed
  show ?thesis
  proof (cases "tu_established c")
    case True
    with go [OF _ assms(3) True] show ?thesis by (auto simp: tu_remote_writable_def)
  next
    case new: False
    have ne: "?req \<noteq> []" by (simp add: trojan_request_generate_eq)
    show ?thesis
    proof (cases rule: takes_whole_cases [OF assms(1) ne, of w, case_names taken failed])
      case (taken w1)
      have "tu_stream_inv plain ?req F (c\<lparr>tu_established := True\<rparr>) w1"
        using assms(3) new taken(2) by (auto simp: tu_stream_inv_def)
      from go [OF _ this] new taken(1) assms(2) show ?thesis by (auto simp: tu_remote_writable_def unwrap_def tu_same_def)
    next
      case (failed e w1)
      obtain c' w' where f: "tu_close_remote S c w1 = (c', w')" by (cases "tu_close_remote S c w1")
      with new failed(1) assms(2) tu_close_remote_closed [OF f] show ?thesis
        by (auto simp: tu_remote_writable_def unwrap_def tu_stream_inv_def)
    qed
  qed
qed

text \<open>The life of a connection on this side: datagrams of the client, to any IPv4 address, and events that report that
  the TLS connection can be written.\<close>

datatype tu_step = Datagram ipv4_addr u16 bytes | Writable

fun tu_run :: "'w sys \<Rightarrow> 'w smol \<Rightarrow> smoltcp_ops \<Rightarrow> (bytes \<Rightarrow> nat) \<Rightarrow> opts \<Rightarrow> tu_step list \<Rightarrow> tun_udp \<Rightarrow> 'w \<Rightarrow> (tun_udp \<times> 'w) rs" where
  "tu_run S M SM spare cfg [] c w = Some (c, w)"
| "tu_run S M SM spare cfg (Datagram ip p d # es) c w = do {
     header \<leftarrow> udp_generate_endpoint [] \<lparr>addr = SmolIpv4 ip, port = p\<rparr> (of_nat (length d));
     (c, w) \<leftarrow> tun_udp_local S header d c w;
     tu_run S M SM spare cfg es c w }"
| "tu_run S M SM spare cfg (Writable # es) c w = do {
     (c, w) \<leftarrow> tun_udp_remote S M SM spare cfg (tu_local c) \<lparr>ev_token = tu_token c, ev_readable = False, ev_writable = True\<rparr> c w;
     tu_run S M SM spare cfg es c w }"

fun tu_datagrams :: "tu_step list \<Rightarrow> (socket_addr \<times> bytes) list" where
  "tu_datagrams (Datagram ip p d # es) = (V4 ip p, d) # tu_datagrams es"
| "tu_datagrams (Writable # es) = tu_datagrams es"
| "tu_datagrams [] = []"

lemma tu_run_inv:
  assumes "empty_addr cfg = Some a"
  shows "takes_whole S (tu_remote c) plain \<Longrightarrow> tu_stream_inv plain (trojan_request_generate cfg [] UDP_ASSOCIATE a) F c w \<Longrightarrow>
    \<exists>c' w' xs. tu_run S M SM spare cfg es c w = Some (c', w') \<and> subseq xs (tu_datagrams es) \<and>
      tu_stream_inv plain (trojan_request_generate cfg [] UDP_ASSOCIATE a) (F @ udp_stream xs) c' w'"
proof (induction es arbitrary: c w F)
  case Nil
  then show ?case by (intro exI [of _ c] exI [of _ w] exI [of _ "[]"]) (simp_all add: udp_stream_def)
next
  case (Cons e es)
  let ?req = "trojan_request_generate cfg [] UDP_ASSOCIATE a"
  show ?case
  proof (cases e)
    case (Datagram ip p d)
    let ?h = "udp_generate [] (V4 ip p) (of_nat (length d))"
    have h: "udp_generate_endpoint [] \<lparr>addr = SmolIpv4 ip, port = p\<rparr> (of_nat (length d)) = Some ?h" "?h \<noteq> []"
      by (simp_all add: udp_generate_endpoint_def sock5_generate_endpoint_def udp_generate_def)
    from tun_udp_local_sends [OF Cons.prems(1) h(2), of d w] obtain c1 w1 x where
      l: "tun_udp_local S ?h d c w = Some (c1, w1)" "tu_sends plain x c w c1 w1" "x = ?h @ d \<or> x = []"
      "tu_established c \<or> tu_rclosed c1 \<or> plain w1 = plain w" by blast
    have i: "tu_stream_inv plain ?req (F @ x) c1 w1"
      using tu_sends_established [OF l(2) Cons.prems(2)] l(2,4) Cons.prems(2)
      by (cases "tu_established c") (auto simp: tu_sends_def tu_stream_inv_def tu_same_def)
    have t: "takes_whole S (tu_remote c1) plain" using Cons.prems(1) l(2) by (simp add: tu_sends_def tu_same_def)
    from Cons.IH [OF t i] obtain c' w' xs where r: "tu_run S M SM spare cfg es c1 w1 = Some (c', w')" "subseq xs (tu_datagrams es)"
      "tu_stream_inv plain ?req ((F @ x) @ udp_stream xs) c' w'" by blast
    have run: "tu_run S M SM spare cfg (e # es) c w = Some (c', w')" using Datagram h(1) l(1) r(1) by simp
    from l(3) show ?thesis
    proof
      assume "x = ?h @ d"
      with run r(2,3) show ?thesis
        by (intro exI [of _ c'] exI [of _ w'] exI [of _ "(V4 ip p, d) # xs"])
          (simp add: Datagram udp_stream_def udp_frame_bytes_def)
    next
      assume "x = []"
      with run r(2,3) show ?thesis by (intro exI [of _ c'] exI [of _ w'] exI [of _ xs]) (auto simp: Datagram)
    qed
  next
    case Writable
    obtain now w0 where n: "instant_now S w = (now, w0)" by (cases "instant_now S w")
    let ?c = "c\<lparr>tu_last_remote := now\<rparr>"
    have i0: "tu_stream_inv plain ?req F ?c w0" "takes_whole S (tu_remote ?c) plain"
      using Cons.prems takes_whole_quiet(2) [OF Cons.prems(1) n] by (auto simp: tu_stream_inv_def)
    from tu_remote_writable_inv [OF i0(2) assms i0(1)] obtain ok c1 w1 where
      l: "tu_remote_writable S cfg ?c w0 = Some (ok, c1, w1)" "tu_same ?c c1" "tu_stream_inv plain ?req F c1 w1" by blast
    have t: "takes_whole S (tu_remote c1) plain" using Cons.prems(1) l(2) by (simp add: tu_same_def)
    from Cons.IH [OF t l(3)] n l(1) Writable show ?thesis by (simp add: tun_udp_remote_def Let_def)
  qed
qed

section \<open>From the server\<close>

lemma udp_parse_endpoint_frame:
  assumes "udp_sendable x"
  shows "\<exists>e. udp_parse_endpoint SM (udp_frame_bytes x @ r) =
    Some (Packet \<lparr>udp_address = e, udp_length = length (snd x), udp_payload = snd x @ r\<rparr>)"
proof -
  obtain ip p where x: "fst x = V4 ip p" using assms by (cases "fst x") (auto simp: udp_sendable_def)
  from endpoint_frame.frame_roundtrip [of "\<lparr>addr = SmolIpv4 ip, port = p\<rparr>" "of_nat (length (snd x))" "snd x @ r" SM] assms
  show ?thesis
    by (simp add: udp_parse_endpoint_def udp_frame_bytes_def udp_generate_def x udp_sendable_length endpoint_is_v4_def endpoint_body_def)
      (auto simp: udp_sendable_def)
qed

lemma udp_parse_endpoint_cut:
  assumes "udp_sendable x" and "c @ c' = udp_frame_bytes x" and "c' \<noteq> []"
  shows "udp_parse_endpoint SM c = Some Continued"
proof (cases "length c < 11")
  case True
  then show ?thesis by (simp add: udp_parse_endpoint_def udp_parse_with_def)
next
  case False
  obtain ip p where x: "fst x = V4 ip p" using assms(1) by (cases "fst x") (auto simp: udp_sendable_def)
  let ?e = "\<lparr>addr = SmolIpv4 ip, port = p\<rparr>" and ?len = "of_nat (length (snd x)) :: u16"
  let ?h = "IPV4 # endpoint_body ?e"
  have eq: "?h @ (u16_be ?len @ [CR, LF] @ snd x) = c @ c'"
    using assms(2) by (simp add: udp_frame_bytes_def udp_generate_def x endpoint_body_def)
  have "length ?h = 7" by (simp add: endpoint_body_def)
  with arg_cong [OF eq, of "take 7"] False have "?h = take 7 c" by simp
  then obtain b where c: "c = ?h @ b" by (metis append_take_drop_id)
  with eq have "u16_be ?len @ [CR, LF] @ snd x = b @ c'" by simp
  moreover have "unat ?len \<le> MAX_PACKET_SIZE" "length (snd x) = unat ?len"
    using assms(1) by (simp_all add: udp_sendable_length) (simp add: udp_sendable_def)
  ultimately show ?thesis using endpoint_frame.frame_prefix [of ?e ?len "snd x" b c' SM] assms(3)
    by (simp add: c udp_parse_endpoint_def endpoint_is_v4_def)
qed

text \<open>\<open>out w\<close> is what the socket has sent. It takes a datagram or refuses it; reading from the TLS connection and closing it do
  not touch it, and sending does not touch the TLS connection.\<close>

definition tu_down_link :: "'w sys \<Rightarrow> 'w smol \<Rightarrow> tls_conn \<Rightarrow> handle \<Rightarrow> ('w \<Rightarrow> (bytes \<times> ip_endpoint) list) \<Rightarrow> ('w \<Rightarrow> bytes) \<Rightarrow> bool" where
  "tu_down_link S M t h out avail \<longleftrightarrow> reader_contract (tls_read S t) (\<lambda>_. []) avail \<and>
     (\<forall>n w r w'. tls_read S t n w = Some (r, w') \<longrightarrow> out w' = out w) \<and> (\<forall>w. out (tls_close S t w) = out w) \<and>
     (\<forall>d e w. avail (snd (us_send_slice M h d e w)) = avail w \<and>
        out (snd (us_send_slice M h d e w)) = out w @ (case fst (us_send_slice M h d e w) of Inr _ \<Rightarrow> [(d, e)] | Inl _ \<Rightarrow> []))"

definition socket_takes :: "'w smol \<Rightarrow> handle \<Rightarrow> bool" where
  "socket_takes M h \<longleftrightarrow> (\<forall>d e w. fst (us_send_slice M h d e w) = Inr ())"

text \<open>What the socket has sent of the datagrams \<open>qs\<close>: each at most once, in order, and all if it refuses none; every
  one to the address the connection belongs to.\<close>

definition tu_delivered :: "'w smol \<Rightarrow> handle \<Rightarrow> ip_endpoint \<Rightarrow> ('w \<Rightarrow> (bytes \<times> ip_endpoint) list) \<Rightarrow> (socket_addr \<times> bytes) list \<Rightarrow> 'w \<Rightarrow> 'w \<Rightarrow> bool" where
  "tu_delivered M h ep out qs w w' \<longleftrightarrow> (\<exists>ys. out w' = out w @ ys \<and> subseq ys (map (\<lambda>x. (snd x, ep)) qs) \<and>
     (socket_takes M h \<longrightarrow> ys = map (\<lambda>x. (snd x, ep)) qs))"

lemma tu_delivered_trans:
  assumes "tu_delivered M h ep out qs w v" and "tu_delivered M h ep out rs v u"
  shows "tu_delivered M h ep out (qs @ rs) w u"
proof -
  from assms obtain ys zs where "out v = out w @ ys" "subseq ys (map (\<lambda>x. (snd x, ep)) qs)" "socket_takes M h \<longrightarrow> ys = map (\<lambda>x. (snd x, ep)) qs"
    "out u = out v @ zs" "subseq zs (map (\<lambda>x. (snd x, ep)) rs)" "socket_takes M h \<longrightarrow> zs = map (\<lambda>x. (snd x, ep)) rs"
    unfolding tu_delivered_def by blast
  then show ?thesis unfolding tu_delivered_def by (intro exI [of _ "ys @ zs"]) (simp add: list_emb_append_mono)
qed

lemma tu_delivered_one:
  assumes "tu_down_link S M t h out avail"
  shows "tu_delivered M h ep out [x] w (snd (us_send_slice M h (snd x) ep w))"
proof -
  have "out (snd (us_send_slice M h (snd x) ep w)) = out w @ (case fst (us_send_slice M h (snd x) ep w) of Inr _ \<Rightarrow> [(snd x, ep)] | Inl _ \<Rightarrow> [])"
    using assms by (simp add: tu_down_link_def)
  then show ?thesis unfolding tu_delivered_def
    by (cases "fst (us_send_slice M h (snd x) ep w)") (auto simp: socket_takes_def intro!: exI [of _ "snd x"] exI [of _ ep] exI [of _ w])
qed

text \<open>The rest of a buffer is the front of the next frame.\<close>

definition tu_rest :: "bytes \<Rightarrow> bytes \<Rightarrow> (socket_addr \<times> bytes) list \<Rightarrow> bool" where
  "tu_rest b rest rs \<longleftrightarrow> b @ rest = udp_stream rs \<and> (case rs of [] \<Rightarrow> b = [] | x # _ \<Rightarrow> length b < length (udp_frame_bytes x))"

lemma tu_deliver_stream:
  assumes "tu_down_link S M t h out avail"
  shows "list_all udp_sendable xs \<Longrightarrow> buffer @ rest = udp_stream xs \<Longrightarrow>
    \<exists>b w' qs rs. tu_deliver SM M h ep buffer w = Some (Some b, w') \<and> xs = qs @ rs \<and> tu_rest b rest rs \<and>
      tu_delivered M h ep out qs w w' \<and> avail w' = avail w"
proof (induction xs arbitrary: buffer w)
  case Nil
  then have "buffer = []" by (simp add: udp_stream_def)
  then have "tu_deliver SM M h ep buffer w = Some (Some [], w)"
    by (subst tu_deliver.simps) (simp add: udp_parse_endpoint_def udp_parse_with_def)
  with Nil \<open>buffer = []\<close> show ?case by (auto simp: tu_rest_def tu_delivered_def)
next
  case (Cons x xs)
  from Cons.prems have x: "udp_sendable x" and eq: "buffer @ rest = udp_frame_bytes x @ udp_stream xs"
    by (simp_all add: udp_stream_def)
  show ?case
  proof (cases "length buffer < length (udp_frame_bytes x)")
    case True
    with eq obtain c' where "buffer @ c' = udp_frame_bytes x" "c' \<noteq> []" using append_cut_before by blast
    from udp_parse_endpoint_cut [OF x this] have "tu_deliver SM M h ep buffer w = Some (Some buffer, w)"
      by (subst tu_deliver.simps) simp
    moreover have "tu_rest buffer rest (x # xs)" using True Cons.prems(2) by (simp add: tu_rest_def)
    ultimately show ?thesis by (intro exI [of _ buffer] exI [of _ w] exI [of _ "[]"] exI [of _ "x # xs"]) (simp add: tu_delivered_def)
  next
    case False
    with eq obtain b2 where b2: "buffer = udp_frame_bytes x @ b2" "b2 @ rest = udp_stream xs"
      using append_cut_after by blast
    let ?w = "snd (us_send_slice M h (snd x) ep w)"
    from udp_parse_endpoint_frame [OF x, of SM b2] have "tu_deliver SM M h ep buffer w = tu_deliver SM M h ep b2 ?w"
      by (subst tu_deliver.simps) (auto simp: b2(1) slice_to_def slice_from_def Let_def)
    moreover from Cons.IH [of b2 ?w] Cons.prems(1) b2(2) obtain b w' qs rs where
      "tu_deliver SM M h ep b2 ?w = Some (Some b, w')" "xs = qs @ rs" "tu_rest b rest rs" "tu_delivered M h ep out qs ?w w'" "avail w' = avail ?w"
      by auto
    moreover have "avail ?w = avail w" using assms by (simp add: tu_down_link_def)
    ultimately show ?thesis using tu_delivered_trans [OF tu_delivered_one [OF assms, of ep x w], of qs w']
      by (intro exI [of _ b] exI [of _ w'] exI [of _ "x # qs"] exI [of _ rs]) simp
  qed
qed

lemma tu_remote_to_local_stream:
  assumes "\<forall>b. 0 < spare b"
  shows "tu_down_link S M (tu_remote c) h out avail \<Longrightarrow> list_all udp_sendable xs \<Longrightarrow> tu_rest (tu_lbuffer c) (avail w @ later) xs \<Longrightarrow>
    \<exists>c' w' qs rs. tu_remote_to_local S M SM spare h c w = Some (c', w') \<and> xs = qs @ rs \<and>
      tu_delivered M h (tu_endpoint c) out qs w w' \<and> (tu_rclosed c' \<or> tu_rest (tu_lbuffer c') (avail w' @ later) rs)"
proof (induction "length (avail w)" arbitrary: c w xs rule: less_induct)
  case less
  let ?rd = "tls_read S (tu_remote c)"
  have rc: "reader_contract ?rd (\<lambda>_. []) avail" and keep: "\<And>n w r w'. ?rd n w = Some (r, w') \<Longrightarrow> out w' = out w"
    and cl: "\<And>w. out (tls_close S (tu_remote c) w) = out w"
    using less.prems(1) unfolding tu_down_link_def by blast+
  from read_once_spec [OF rc, of spare "tu_lbuffer c" w] assms obtain ret b w1 where
    ro: "read_once spare ?rd (tu_lbuffer c) w = Some (ret, b, w1)" "b @ avail w1 = tu_lbuffer c @ avail w"
    and out1: "case ret of
       Inr ok \<Rightarrow> (if ok then length (avail w1) < length (avail w) else b = tu_lbuffer c)
     | Inl e \<Rightarrow> (\<exists>x. e = RxBreak x) \<and> b = tu_lbuffer c" by auto
  have o1: "out w1 = out w" by (rule read_once_keeps [where f = out, OF keep ro(1)])
  let ?c = "c\<lparr>tu_lbuffer := b\<rparr>"
  have shut: "out w' = out v \<and> tu_rclosed c'" if "tu_close_remote S d v = (c', w')" "tu_remote d = tu_remote c" for d v c' w'
    using that cl by (auto simp: tu_close_remote_def split: if_splits)
  have none: "tu_delivered M h ep out [] w v" if "out v = out w" for v ep using that by (simp add: tu_delivered_def)
  show ?case
  proof (cases ret)
    case (Inl e)
    obtain c' w' where f: "tu_close_remote S ?c w1 = (c', w')" by (cases "tu_close_remote S ?c w1")
    have "tu_remote_to_local S M SM spare h c w = Some (c', w')" by (subst tu_remote_to_local.simps) (simp add: ro(1) Inl f Let_def)
    with shut [OF f] o1 none show ?thesis by (intro exI [of _ c'] exI [of _ w'] exI [of _ "[]"] exI [of _ xs]) simp
  next
    case (Inr got)
    show ?thesis
    proof (cases got)
      case False
      have "tu_remote_to_local S M SM spare h c w = Some (?c, w1)" by (subst tu_remote_to_local.simps) (simp add: ro(1) Inr False Let_def)
      moreover have "b = tu_lbuffer c" "avail w1 = avail w" using out1 ro(2) Inr False by simp_all
      ultimately show ?thesis using o1 none less.prems(3) by (intro exI [of _ ?c] exI [of _ w1] exI [of _ "[]"] exI [of _ xs]) simp
    next
      case True
      have "b @ (avail w1 @ later) = udp_stream xs" using ro(2) less.prems(3) by (simp add: tu_rest_def flip: append_assoc)
      from tu_deliver_stream [OF less.prems(1,2) this, of SM "tu_endpoint c" w1] obtain b2 w2 qs rs where
        d: "tu_deliver SM M h (tu_endpoint c) b w1 = Some (Some b2, w2)" "xs = qs @ rs" "tu_rest b2 (avail w1 @ later) rs"
        "tu_delivered M h (tu_endpoint c) out qs w1 w2" "avail w2 = avail w1" by blast
      let ?d = "?c\<lparr>tu_lbuffer := b2\<rparr>"
      have step: "tu_remote_to_local S M SM spare h c w = tu_remote_to_local S M SM spare h ?d w2"
        by (subst tu_remote_to_local.simps) (simp add: ro(1) Inr True d(1) Let_def)
      have "length (avail w2) < length (avail w)" using out1 Inr True d(5) by simp
      from less.hyps [OF this, of ?d rs] less.prems(1,2) d(2,3,5) obtain c' w' qs2 rs2 where
        r: "tu_remote_to_local S M SM spare h ?d w2 = Some (c', w')" "rs = qs2 @ rs2" "tu_delivered M h (tu_endpoint c) out qs2 w2 w'"
        "tu_rclosed c' \<or> tu_rest (tu_lbuffer c') (avail w' @ later) rs2" by auto
      have "tu_delivered M h (tu_endpoint c) out qs w w2" using d(4) o1 by (simp add: tu_delivered_def)
      from tu_delivered_trans [OF this r(3)] step r d(2) show ?thesis
        by (intro exI [of _ c'] exI [of _ w'] exI [of _ "qs @ qs2"] exI [of _ rs2]) simp
    qed
  qed
qed

section \<open>Properties\<close>

text \<open>C15. What the tunnel sends to the server for a client's UDP traffic is well-formed: through any sequence of
  datagrams to IPv4 addresses and of writable events, every handler returns, and unless the connection is closed, the
  plaintext in the session followed by what is buffered is the request and then the frames of some of the datagrams,
  each whole and in order; nothing is written before the request.\<close>

theorem tun_udp_frames:
  assumes "takes_whole S t plain" and "tu_remote c = t" and "empty_addr cfg = Some a"
    and "\<not> tu_established c" and "tu_rbuffer c = []" and "plain w = []"
  shows "\<exists>c' w' xs. tu_run S M SM spare cfg es c w = Some (c', w') \<and> subseq xs (tu_datagrams es) \<and>
    (tu_rclosed c' \<or> (if tu_established c' then plain w' @ tu_rbuffer c' = trojan_request_generate cfg [] UDP_ASSOCIATE a @ udp_stream xs
       else plain w' = [] \<and> tu_rbuffer c' = udp_stream xs))"
proof -
  have "tu_stream_inv plain (trojan_request_generate cfg [] UDP_ASSOCIATE a) [] c w" using assms(4-6) by (simp add: tu_stream_inv_def)
  from tu_run_inv [OF assms(3) _ this, of S M SM spare es] assms(1,2) show ?thesis by (simp add: tu_stream_inv_def)
qed

text \<open>C16. Answers are delivered, but without their sender: the frames of IPv4 datagrams that have arrived, cut anywhere,
  are taken off the stream one by one, and the socket of the connection sends each payload to the client in order;
  the address in the frame has no influence, so an answer from another server than the one the client wrote to
  first appears to come from that one.\<close>

theorem tun_udp_answers:
  assumes "tu_down_link S M (tu_remote c) h out avail" and "list_all udp_sendable xs" and "tu_lbuffer c = []"
    and "avail w @ later = udp_stream xs" and "\<forall>b. 1500 \<le> spare b"
  shows "\<exists>c' w' qs rs ys. tu_remote_to_local S M SM spare h c w = Some (c', w') \<and> xs = qs @ rs \<and> out w' = out w @ ys \<and>
    subseq ys (map (\<lambda>x. (snd x, tu_endpoint c)) qs) \<and>
    ((\<forall>d e w. fst (us_send_slice M h d e w) = Inr ()) \<longrightarrow> ys = map (\<lambda>x. (snd x, tu_endpoint c)) qs) \<and>
    (tu_rclosed c' \<or> tu_lbuffer c' @ avail w' @ later = udp_stream rs)"
proof -
  have sp: "\<forall>b. 0 < spare b" using assms(5) by (metis gr0I not_numeral_le_zero)
  have "tu_rest (tu_lbuffer c) (avail w @ later) xs" using assms(3,4) by (auto simp: tu_rest_def udp_stream_def udp_frame_bytes_def udp_generate_def split: list.splits)
  from tu_remote_to_local_stream [OF sp assms(1,2) this, of SM] obtain c' w' qs rs where
    r: "tu_remote_to_local S M SM spare h c w = Some (c', w')" "xs = qs @ rs" "tu_delivered M h (tu_endpoint c) out qs w w'"
    "tu_rclosed c' \<or> tu_rest (tu_lbuffer c') (avail w' @ later) rs" by blast
  from r(3) obtain ys where "out w' = out w @ ys" "subseq ys (map (\<lambda>x. (snd x, tu_endpoint c)) qs)"
    "socket_takes M h \<longrightarrow> ys = map (\<lambda>x. (snd x, tu_endpoint c)) qs" unfolding tu_delivered_def by blast
  with r(1,2,4) show ?thesis unfolding socket_takes_def
    by (intro exI [of _ c'] exI [of _ w'] exI [of _ qs] exI [of _ rs] exI [of _ ys]) (auto simp: tu_rest_def)
qed

text \<open>A session that blocks tears a frame apart: when the TLS session refuses the header for the moment, only the
  header is kept, the body is lost, and the next bytes on the stream will be taken for it.\<close>

theorem tun_udp_body_lost:
  assumes "header \<noteq> []" and "body \<noteq> []" and "tu_rbuffer c = []"
    and "tls_write S (tu_remote c) header w = Some (Inl WouldBlock, w1)" and "tls_flush S (tu_remote c) w1 = (Inr (), w2)"
  shows "tu_local_to_remote S header body c w = Some (c\<lparr>tu_rbuffer := header\<rparr>, w2)"
  using assms by (simp add: tu_local_to_remote_def tu_send_packet_def tu_write_loop.simps [of _ _ _ header] tu_flush_remote_def Let_def)

section \<open>An example\<close>

definition sample_tun_udp :: tun_udp where
  "sample_tun_udp = \<lparr>tu_token = 7, tu_local = 20, tu_remote = sample_tls, tu_rclosed = False, tu_rbuffer = [], tu_lbuffer = [],
     tu_endpoint = \<lparr>addr = SmolIpv4 (Ipv4Addr 10 0 0 2), port = 4000\<rparr>, tu_established = False, tu_last_remote = 0\<rparr>"

lemma sim_takes_whole: "takes_whole sim_sys sample_tls (\<lambda>w. sim_plain w 1)"
proof -
  have "sim_plain (snd (tls_flush sim_sys sample_tls w)) 1 = sim_plain w 1" for w
    by (auto simp: tls_flush_def sample_tls_def sim_write_tls_def sim_write_def Let_def split: prod.splits sum.splits)
  then show ?thesis by (auto simp: takes_whole_def sim_tls_write_all sim_write_plain_def)
qed

abbreviation sample_tu_steps :: "tu_step list" where
  "sample_tu_steps \<equiv> [Datagram (Ipv4Addr 8 8 8 8) 53 [1], Writable, Datagram (Ipv4Addr 9 9 9 9) 53 [2]]"

theorem tun_udp_frames_witness:
  "\<exists>c' w' xs. tu_run sim_sys sim_smol \<lparr>ipv6_from_bytes = Some, ip_address_from = (\<lambda>_. SmolOther)\<rparr> (\<lambda>_. 1500) sample_ready sample_tu_steps
       sample_tun_udp sim_idle = Some (c', w') \<and> subseq xs [(V4 (Ipv4Addr 8 8 8 8) 53, [1]), (V4 (Ipv4Addr 9 9 9 9) 53, [2])] \<and>
     (tu_rclosed c' \<or> (if tu_established c' then sim_plain w' 1 @ tu_rbuffer c' =
         trojan_request_generate sample_ready [] UDP_ASSOCIATE unspecified_v4 @ udp_stream xs
       else sim_plain w' 1 = [] \<and> tu_rbuffer c' = udp_stream xs))"
proof -
  have e: "empty_addr sample_ready = Some unspecified_v4" by (simp add: sample_ready_def)
  have d: "tu_datagrams sample_tu_steps = [(V4 (Ipv4Addr 8 8 8 8) 53, [1]), (V4 (Ipv4Addr 9 9 9 9) 53, [2])]" by simp
  have c: "tu_remote sample_tun_udp = sample_tls" "\<not> tu_established sample_tun_udp" "tu_rbuffer sample_tun_udp = []" "sim_plain sim_idle 1 = []"
    by (simp_all add: sample_tun_udp_def sim_idle_def)
  show ?thesis using tun_udp_frames [OF sim_takes_whole c(1) e c(2,3) c(4), where es = sample_tu_steps] unfolding d .
qed

text \<open>A stack that sends to IPv4 addresses.\<close>

definition send_smol :: "sim smol" where
  "send_smol = sim_smol\<lparr>us_send_slice := (\<lambda>h d e w. case addr e of
     SmolIpv4 ip \<Rightarrow> (Inr (), w\<lparr>sim_dgrams_out := (sim_dgrams_out w)(h := sim_dgrams_out w h @ [(d, V4 ip (port e))])\<rparr>)
   | _ \<Rightarrow> (Inl Exhausted, w))\<rparr>"

fun sock_endpoint :: "socket_addr \<Rightarrow> ip_endpoint" where
  "sock_endpoint (V4 ip p) = \<lparr>addr = SmolIpv4 ip, port = p\<rparr>"
| "sock_endpoint (V6 ip p fl sc) = \<lparr>addr = SmolOther, port = p\<rparr>"

definition send_out :: "sim \<Rightarrow> (bytes \<times> ip_endpoint) list" where
  "send_out w = map (\<lambda>(d, a). (d, sock_endpoint a)) (sim_dgrams_out w 20)"

lemma sim_down_link: "tu_down_link sim_sys send_smol sample_tls 20 send_out (\<lambda>w. sim_tls_in w 1 @ sim_rx w 1)"
proof -
  have z: "tls_read sim_sys sample_tls 0 w = None" for w by (subst tls_read.simps) simp
  have rd: "tls_read sim_sys sample_tls n w = Some (r, w') \<Longrightarrow> sim_dgrams_out w' = sim_dgrams_out w" for n w r w'
    using sim_tls_read_cases [of n w] z [of w] by (cases "n = 0") (auto split: if_splits)
  have "reader_contract (tls_read sim_sys sample_tls) (\<lambda>_. []) (\<lambda>w. sim_tls_in w 1 @ sim_rx w 1)"
    by (auto simp: reader_contract_def sim_tls_read_cases)
  then show ?thesis
    by (auto simp: tu_down_link_def send_out_def send_smol_def tls_close_def dest!: rd split: ip_address.splits)
qed

abbreviation sample_answers :: "(socket_addr \<times> bytes) list" where
  "sample_answers \<equiv> [(V4 (Ipv4Addr 9 9 9 9) 53, [1, 2])]"

theorem tun_udp_answers_witness:
  "\<exists>c' w' qs rs ys. tu_remote_to_local sim_sys send_smol \<lparr>ipv6_from_bytes = Some, ip_address_from = (\<lambda>_. SmolOther)\<rparr> (\<lambda>_. 1500) 20
       sample_tun_udp (sim_idle\<lparr>sim_rx := (\<lambda>_. [])(1 := udp_stream sample_answers)\<rparr>) = Some (c', w') \<and> sample_answers = qs @ rs \<and>
     send_out w' = ys \<and> subseq ys (map (\<lambda>x. (snd x, \<lparr>addr = SmolIpv4 (Ipv4Addr 10 0 0 2), port = 4000\<rparr>)) qs)"
proof -
  let ?w = "sim_idle\<lparr>sim_rx := (\<lambda>_. [])(1 := udp_stream sample_answers)\<rparr>"
  have l: "tu_down_link sim_sys send_smol (tu_remote sample_tun_udp) 20 send_out (\<lambda>w. sim_tls_in w 1 @ sim_rx w 1)"
    using sim_down_link by (simp add: sample_tun_udp_def)
  have s: "list_all udp_sendable sample_answers" "tu_lbuffer sample_tun_udp = []" by (simp_all add: udp_sendable_def MAX_PACKET_SIZE_def sample_tun_udp_def)
  have a: "(sim_tls_in ?w 1 @ sim_rx ?w 1) @ [] = udp_stream sample_answers" by (simp add: sim_idle_def)
  have o: "send_out ?w = []" "tu_endpoint sample_tun_udp = \<lparr>addr = SmolIpv4 (Ipv4Addr 10 0 0 2), port = 4000\<rparr>"
    by (simp_all add: send_out_def sim_idle_def sample_tun_udp_def)
  have sp: "\<forall>b :: bytes. (1500 :: nat) \<le> 1500" by simp
  note t = tun_udp_answers [where w = ?w and later = "[]" and avail = "\<lambda>w. sim_tls_in w 1 @ sim_rx w 1" and xs = sample_answers and
    SM = "\<lparr>ipv6_from_bytes = Some, ip_address_from = (\<lambda>_. SmolOther)\<rparr>" and spare = "\<lambda>_. 1500" and S = sim_sys and M = send_smol and
    c = sample_tun_udp and h = 20 and out = send_out, OF l s a sp]
  from t show ?thesis unfolding o append_Nil by (elim exE conjE) (intro exI conjI, assumption+)
qed

text \<open>A session that blocks.\<close>

theorem tun_udp_body_lost_witness:
  "tu_local_to_remote (sim_sys\<lparr>tls_writer_write := (\<lambda>c d w. (Inl WouldBlock, w)), tls_write_tls := (\<lambda>c s w. (Inr 0, w))\<rparr>) [1, 2] [3]
     sample_tun_udp sim_idle = Some (sample_tun_udp\<lparr>tu_rbuffer := [1, 2]\<rparr>, sim_idle)"
proof (rule tun_udp_body_lost)
  show "tls_write (sim_sys\<lparr>tls_writer_write := (\<lambda>c d w. (Inl WouldBlock, w)), tls_write_tls := (\<lambda>c s w. (Inr 0, w))\<rparr>)
      (tu_remote sample_tun_udp) [1, 2] sim_idle = Some (Inl WouldBlock, sim_idle)"
    by (subst tls_write.simps) simp
qed (simp_all add: sample_tun_udp_def tls_flush_def)

end
