(* ===== verification/Shared_Table.thy ===== *)
theory Shared_Table
  imports Prelude
begin

text \<open>
  Connections that two tables share, as the servers of the tunnel keep them: a store of connections, and two hash
  maps, under different keys of a connection, of references into the store.
\<close>

definition shared_ok :: "('c \<Rightarrow> 'a) \<Rightarrow> ('c \<Rightarrow> 'b) \<Rightarrow> (nat \<rightharpoonup> 'c) \<Rightarrow> nat \<Rightarrow> ('a \<rightharpoonup> nat) \<Rightarrow> ('b \<rightharpoonup> nat) \<Rightarrow> bool" where
  "shared_ok ka kb heap fresh A B \<longleftrightarrow> finite (dom A) \<and> (\<forall>r. fresh \<le> r \<longrightarrow> heap r = None) \<and>
     (\<forall>a r. A a = Some r \<longrightarrow> (\<exists>c. heap r = Some c \<and> ka c = a \<and> B (kb c) = Some r)) \<and>
     (\<forall>b r. B b = Some r \<longrightarrow> (\<exists>c. heap r = Some c \<and> kb c = b \<and> A (ka c) = Some r))"

lemma shared_empty: "shared_ok ka kb Map.empty 0 Map.empty Map.empty"
  by (simp add: shared_ok_def)

lemma shared_first: "shared_ok ka kb heap fresh A B \<Longrightarrow> A a = Some r \<Longrightarrow> \<exists>c. heap r = Some c \<and> ka c = a \<and> B (kb c) = Some r"
  by (simp add: shared_ok_def)

lemma shared_second: "shared_ok ka kb heap fresh A B \<Longrightarrow> B b = Some r \<Longrightarrow> \<exists>c. heap r = Some c \<and> kb c = b \<and> A (ka c) = Some r"
  by (simp add: shared_ok_def)

lemma shared_second_iff:
  "shared_ok ka kb heap fresh A B \<Longrightarrow> B b = Some r \<longleftrightarrow> (\<exists>c. heap r = Some c \<and> kb c = b \<and> A (ka c) = Some r)"
  using shared_first [of ka kb heap fresh A B] shared_second [of ka kb heap fresh A B] by fastforce

lemma shared_heap: "shared_ok ka kb heap fresh A B \<Longrightarrow> heap r = Some c \<Longrightarrow> r < fresh"
  by (metis not_le option.distinct(1) shared_ok_def)

text \<open>A connection may change as long as its keys stay.\<close>

lemma shared_update:
  assumes "shared_ok ka kb heap fresh A B" and "heap r = Some c" and "ka c' = ka c" and "kb c' = kb c"
  shows "shared_ok ka kb (heap(r \<mapsto> c')) fresh A B"
proof -
  have "\<exists>d. (heap(r \<mapsto> c')) q = Some d \<and> ka d = a \<and> B (kb d) = Some q" if "A a = Some q" for a q
    using shared_first [OF assms(1) that] assms(2-4) by auto
  moreover have "\<exists>d. (heap(r \<mapsto> c')) q = Some d \<and> kb d = b \<and> A (ka d) = Some q" if "B b = Some q" for b q
    using shared_second [OF assms(1) that] assms(2-4) by auto
  moreover have "r < fresh" by (rule shared_heap [OF assms(1,2)])
  ultimately show ?thesis using assms(1) by (auto simp: shared_ok_def)
qed

text \<open>A new connection under keys that are not in use.\<close>

lemma shared_add:
  assumes "shared_ok ka kb heap fresh A B" and "A (ka c) = None" and "B (kb c) = None"
  shows "shared_ok ka kb (heap(fresh \<mapsto> c)) (Suc fresh) (A(ka c \<mapsto> fresh)) (B(kb c \<mapsto> fresh))"
proof -
  have old: "q \<noteq> fresh \<and> ka d \<noteq> ka c \<and> kb d \<noteq> kb c" if "heap q = Some d" "A (ka d) = Some q" "B (kb d) = Some q" for q d
    using shared_heap [OF assms(1) that(1)] that assms(2,3) by auto
  have "\<exists>d. (heap(fresh \<mapsto> c)) q = Some d \<and> ka d = a \<and> (B(kb c \<mapsto> fresh)) (kb d) = Some q" if "(A(ka c \<mapsto> fresh)) a = Some q" for a q
  proof (cases "a = ka c")
    case False
    with that have "A a = Some q" by simp
    from shared_first [OF assms(1) this] obtain d where d: "heap q = Some d" "ka d = a" "B (kb d) = Some q" by blast
    with old [of q d] \<open>A a = Some q\<close> show ?thesis by auto
  qed (use that in simp)
  moreover have "\<exists>d. (heap(fresh \<mapsto> c)) q = Some d \<and> kb d = b \<and> (A(ka c \<mapsto> fresh)) (ka d) = Some q" if "(B(kb c \<mapsto> fresh)) b = Some q" for b q
  proof (cases "b = kb c")
    case False
    with that have "B b = Some q" by simp
    from shared_second [OF assms(1) this] obtain d where d: "heap q = Some d" "kb d = b" "A (ka d) = Some q" by blast
    with old [of q d] \<open>B b = Some q\<close> show ?thesis by auto
  qed (use that in simp)
  moreover have "finite (dom (A(ka c \<mapsto> fresh)))" "\<forall>r\<ge>Suc fresh. (heap(fresh \<mapsto> c)) r = None"
    using assms(1) by (auto simp: shared_ok_def)
  ultimately show ?thesis unfolding shared_ok_def by blast
qed

text \<open>Removal from both tables.\<close>

lemma shared_remove:
  assumes "shared_ok ka kb heap fresh A B" and "heap r = Some c" and "A (ka c) = Some r" and "B (kb c) = Some r"
  shows "shared_ok ka kb heap fresh (A(ka c := None)) (B(kb c := None))"
proof -
  have "\<exists>d. heap q = Some d \<and> ka d = a \<and> (B(kb c := None)) (kb d) = Some q" if "(A(ka c := None)) a = Some q" for a q
  proof -
    from that have "A a = Some q" "a \<noteq> ka c" by (auto split: if_splits)
    from shared_first [OF assms(1) this(1)] obtain d where d: "heap q = Some d" "ka d = a" "B (kb d) = Some q" by blast
    with assms(2,4) \<open>a \<noteq> ka c\<close> show ?thesis by (cases "kb d = kb c") auto
  qed
  moreover have "\<exists>d. heap q = Some d \<and> kb d = b \<and> (A(ka c := None)) (ka d) = Some q" if "(B(kb c := None)) b = Some q" for b q
  proof -
    from that have "B b = Some q" "b \<noteq> kb c" by (auto split: if_splits)
    from shared_second [OF assms(1) this(1)] obtain d where d: "heap q = Some d" "kb d = b" "A (ka d) = Some q" by blast
    with assms(2,3) \<open>b \<noteq> kb c\<close> show ?thesis by (cases "ka d = ka c") auto
  qed
  ultimately show ?thesis using assms(1) by (auto simp: shared_ok_def)
qed

text \<open>The connections of a table, by reference.\<close>

lemma shared_inj: "shared_ok ka kb heap fresh A B \<Longrightarrow> inj_on A (dom A)"
proof (rule inj_onI)
  fix a b assume s: "shared_ok ka kb heap fresh A B" and "a \<in> dom A" "b \<in> dom A" "A a = A b"
  then obtain r where "A a = Some r" "A b = Some r" by auto
  from shared_first [OF s this(1)] shared_first [OF s this(2)] show "a = b" by auto
qed


section \<open>Counted use\<close>

text \<open>The connections of a table that use a resource: those of the first table whose \<open>kl\<close> is the resource.\<close>

definition users :: "('c \<Rightarrow> 'r) \<Rightarrow> (nat \<rightharpoonup> 'c) \<Rightarrow> ('a \<rightharpoonup> nat) \<Rightarrow> 'r \<Rightarrow> 'a set" where
  "users kl heap A x = {a. \<exists>r c. A a = Some r \<and> heap r = Some c \<and> kl c = x}"

lemma users_finite: "shared_ok ka kb heap fresh A B \<Longrightarrow> finite (users kl heap A x)"
  by (rule finite_subset [of _ "dom A"]) (auto simp: users_def shared_ok_def)

lemma users_update: "heap r = Some c \<Longrightarrow> kl c' = kl c \<Longrightarrow> users kl (heap(r \<mapsto> c')) A x = users kl heap A x"
  by (auto simp: users_def)

lemma users_add:
  assumes "shared_ok ka kb heap fresh A B" and "A (ka c) = None"
  shows "users kl (heap(fresh \<mapsto> c)) (A(ka c \<mapsto> fresh)) x =
    (if x = kl c then insert (ka c) (users kl heap A x) else users kl heap A x)"
proof -
  have "A a = Some r \<Longrightarrow> r \<noteq> fresh" for a r
    using shared_first [OF assms(1)] shared_heap [OF assms(1)] by fastforce
  with assms(2) show ?thesis by (auto simp: users_def)
qed

lemma users_remove:
  assumes "heap r = Some c" and "A (ka c) = Some r"
  shows "users kl heap (A(ka c := None)) x = users kl heap A x - {ka c}" and "ka c \<in> users kl heap A (kl c)"
    and "x \<noteq> kl c \<Longrightarrow> ka c \<notin> users kl heap A x"
  using assms by (auto simp: users_def)

end
