(* ===== verification/Token_Table.thy ===== *)
theory Token_Table
  imports Tun_Base Shared_Table
begin

text \<open>
  What the two servers of the tunnel share: a store of connections that are found by their token and by a second key,
  where the tokens come from a counter that starts over after a third of all words. A server provides the parts of
  its state; the locale gives the rules by which operations keep the invariant.
\<close>

locale token_store =
  fixes heap :: "'s \<Rightarrow> nat \<rightharpoonup> 'c" and fresh :: "'s \<Rightarrow> nat" and tokens :: "'s \<Rightarrow> usize \<rightharpoonup> nat" and second :: "'s \<Rightarrow> 'b \<rightharpoonup> nat"
    and counter :: "'s \<Rightarrow> usize" and token :: "'c \<Rightarrow> usize" and key :: "'c \<Rightarrow> 'b" and channel :: usize and extra :: "'s \<Rightarrow> bool" and inv :: "'s \<Rightarrow> bool"
  assumes channel_small: "unat channel < 3"
    and inv_iff: "inv s \<longleftrightarrow> shared_ok token key (heap s) (fresh s) (tokens s) (second s) \<and> unat (counter s) = fresh s + 2 \<and>
      (\<forall>r c. heap s r = Some c \<longrightarrow> unat (token c) = 3 * (r + 2) + unat channel) \<and> extra s"
begin

text \<open>The reference of a connection is also the number of connections made before it, and its token is computed from
  it; \<open>bound\<close> says that the counter has not started over.\<close>

definition bound :: "'s \<Rightarrow> bool" where
  "bound s \<longleftrightarrow> fresh s + 2 < unat TUN_MAX_INDEX"

text \<open>What every operation keeps.\<close>

definition keeps :: "'s \<Rightarrow> 's \<Rightarrow> bool" where
  "keeps s s' \<longleftrightarrow> fresh s \<le> fresh s' \<and> (inv s \<longrightarrow> bound s' \<longrightarrow> inv s')"

lemma keeps_refl: "keeps s s"
  by (simp add: keeps_def)

lemma keeps_trans: "keeps a b \<Longrightarrow> keeps b c \<Longrightarrow> keeps a c"
  by (auto simp: keeps_def bound_def)

lemma keepsI: "fresh s \<le> fresh s' \<Longrightarrow> (inv s \<Longrightarrow> bound s' \<Longrightarrow> inv s') \<Longrightarrow> keeps s s'"
  by (simp add: keeps_def)

lemma keeps_inv: "keeps s s' \<Longrightarrow> inv s \<Longrightarrow> bound s' \<Longrightarrow> inv s'"
  by (simp add: keeps_def)

lemma shared: "inv s \<Longrightarrow> shared_ok token key (heap s) (fresh s) (tokens s) (second s)"
  by (simp add: inv_iff)

lemma inv_token:
  assumes "inv s" and "tokens s t = Some r"
  shows "unat t = 3 * (r + 2) + unat channel"
  using shared_first [OF shared [OF assms(1)] assms(2)] assms(1) by (auto simp: inv_iff)

text \<open>A connection found by its second key is also found by its token.\<close>

lemma second_listed:
  assumes "inv s" and "second s b = Some r" and "heap s r = Some c"
  shows "tokens s (token c) = Some r"
  using shared_second [OF shared [OF assms(1)] assms(2)] assms(3) by auto

text \<open>The token of a new connection is not in use.\<close>

lemma next_token:
  assumes "inv s" and "tun_next_token channel (counter s) = Some (t, i)" and "Suc (fresh s) + 2 < unat TUN_MAX_INDEX"
  shows "unat t = 3 * (fresh s + 2) + unat channel" and "unat i = Suc (fresh s) + 2" and "tokens s t = None"
proof -
  have "unat (counter s) = fresh s + 2" using assms(1) by (simp add: inv_iff)
  with tun_next_token_next [OF assms(2) _ channel_small] assms(3)
  show t: "unat t = 3 * (fresh s + 2) + unat channel" and "unat i = Suc (fresh s) + 2" by auto
  show "tokens s t = None"
  proof (rule ccontr)
    assume "tokens s t \<noteq> None"
    then obtain r where r: "tokens s t = Some r" by blast
    from shared_first [OF shared [OF assms(1)] r] obtain c where "heap s r = Some c" by blast
    from shared_heap [OF shared [OF assms(1)] this] inv_token [OF assms(1) r] t show False by simp
  qed
qed

text \<open>The three changes an operation makes to the tables: a connection is updated, entered, or removed.\<close>

lemma keeps_update:
  assumes "heap s r = Some c" and "token c' = token c" and "key c' = key c"
    and "heap s' = (heap s)(r \<mapsto> c')" and "fresh s' = fresh s" and "tokens s' = tokens s" and "second s' = second s"
    and "counter s' = counter s" and "inv s \<Longrightarrow> extra s'"
  shows "keeps s s'"
  using shared_update [of token key "heap s" "fresh s" "tokens s" "second s" r c c'] assms
  by (auto simp: keeps_def inv_iff)

lemma keeps_add:
  assumes "second s (key c) = None" and "tun_next_token channel (counter s) = Some (token c, i)"
    and "heap s' = (heap s)(fresh s \<mapsto> c)" and "fresh s' = Suc (fresh s)" and "tokens s' = (tokens s)(token c \<mapsto> fresh s)"
    and "second s' = (second s)(key c \<mapsto> fresh s)" and "counter s' = i" and "inv s \<Longrightarrow> tokens s (token c) = None \<Longrightarrow> extra s'"
  shows "keeps s s'"
proof (rule keepsI)
  show "fresh s \<le> fresh s'" using assms(4) by simp
  assume i: "inv s" and b: "bound s'"
  then have "Suc (fresh s) + 2 < unat TUN_MAX_INDEX" using assms(4) by (simp add: bound_def)
  note n = next_token [OF i assms(2) this]
  from shared_add [OF shared [OF i] n(3) assms(1)] n i assms(3-8) show "inv s'" by (auto simp: inv_iff)
qed

end

end
