(* ===== verification/Tun_Udp_Table.thy ===== *)
theory Tun_Udp_Table
  imports Tun_Tcp_Relay Tun_Udp Token_Table
begin

text \<open>
  The tables of the tunnel's UDP server: the connections by token and by source address are the same ones, and the
  counter kept with every socket is the number of connections that use it, whatever the network, the pool and the
  stack do, up to the number of connections after which the tokens start over.
\<close>

section \<open>Operations keep the identity of a connection\<close>

definition tu_ident :: "tun_udp \<Rightarrow> tun_udp \<Rightarrow> bool" where
  "tu_ident c c' \<longleftrightarrow> tu_token c' = tu_token c \<and> tu_endpoint c' = tu_endpoint c \<and> tu_local c' = tu_local c"

named_theorems tu_idents \<open>operations of a connection keep its token, address and socket\<close>

lemma tu_ident_refl [simp]: "tu_ident c c"
  and tu_ident_trans: "tu_ident a b \<Longrightarrow> tu_ident b c \<Longrightarrow> tu_ident a c"
  and tu_ident_update [simp]: "tu_ident a (b\<lparr>tu_rbuffer := x\<rparr>) = tu_ident a b" "tu_ident a (b\<lparr>tu_lbuffer := x\<rparr>) = tu_ident a b"
    "tu_ident a (b\<lparr>tu_established := y\<rparr>) = tu_ident a b" "tu_ident a (b\<lparr>tu_last_remote := z\<rparr>) = tu_ident a b"
    "tu_ident (b\<lparr>tu_rbuffer := x\<rparr>) a = tu_ident b a" "tu_ident (b\<lparr>tu_lbuffer := x\<rparr>) a = tu_ident b a"
    "tu_ident (b\<lparr>tu_established := y\<rparr>) a = tu_ident b a" "tu_ident (b\<lparr>tu_last_remote := z\<rparr>) a = tu_ident b a"
  by (auto simp: tu_ident_def)

lemma tu_close_remote_ident [tu_idents]: "tu_close_remote S c w = (c', w') \<Longrightarrow> tu_ident c c'"
  by (auto simp: tu_close_remote_def tu_ident_def split: if_splits)

lemma tu_flush_remote_ident [tu_idents]: "tu_flush_remote S c w = (c', w') \<Longrightarrow> tu_ident c c'"
  by (auto simp: tu_flush_remote_def split: prod.splits sum.splits if_splits dest!: tu_idents)

lemma tu_send_packet_ident [tu_idents]: "tu_send_packet S header body c w = Some (c', w') \<Longrightarrow> tu_ident c c'"
  by (auto simp: tu_send_packet_def Let_def split: bind_splits option.splits if_splits dest!: tu_idents)

lemma tu_local_to_remote_ident [tu_idents]: "tu_local_to_remote S header body c w = Some (c', w') \<Longrightarrow> tu_ident c c'"
  by (auto simp: tu_local_to_remote_def Let_def split: bind_splits sum.splits bool.splits if_splits dest!: tu_idents)

lemma tun_udp_local_ident [tu_idents]: "tun_udp_local S header body c w = Some (c', w') \<Longrightarrow> tu_ident c c'"
  by (auto simp: tun_udp_local_def split: prod.splits if_splits dest!: tu_idents)

lemma tu_remote_to_local_ident [tu_idents]: "tu_remote_to_local S M SM spare h c w = Some (c', w') \<Longrightarrow> tu_ident c c'"
proof -
  have "tu_ident c (fst r)" if "tu_remote_to_local S M SM spare h c w = Some r" for r
  proof (rule tu_remote_to_local.raw_induct [where P = "\<lambda>S M SM spare h c w r. tu_ident c (fst r)", OF _ that], goal_cases)
    case (1 f S M SM spare h c w r)
    have "tu_ident d (fst (tu_close_remote S c w)) = tu_ident d c" for d c w by (auto simp: tu_close_remote_def tu_ident_def)
    with 1(2) show ?case
      by (auto simp: Let_def split: bind_splits sum.splits option.splits if_splits dest!: 1(1))
  qed
  then show "tu_remote_to_local S M SM spare h c w = Some (c', w') \<Longrightarrow> tu_ident c c'" by fastforce
qed

lemma tu_remote_writable_ident [tu_idents]: "tu_remote_writable S cfg c w = Some (ok, c', w') \<Longrightarrow> tu_ident c c'"
  by (auto simp: tu_remote_writable_def split: bind_splits sum.splits prod.splits if_splits dest!: tu_idents)

lemma tun_udp_remote_ident [tu_idents]: "tun_udp_remote S M SM spare cfg h event c w = Some (c', w') \<Longrightarrow> tu_ident c c'"
  by (auto simp: tun_udp_remote_def Let_def split: bind_splits prod.splits if_splits dest!: tu_idents intro: tu_ident_trans)

section \<open>The invariant\<close>

definition tus_tables :: "tun_udp_server \<Rightarrow> bool" where
  "tus_tables srv \<longleftrightarrow> shared_ok tu_token tu_endpoint (tus_heap srv) (tus_fresh srv) (tus_token2conns srv) (tus_addr2conns srv)"

definition tus_count :: "tun_udp_server \<Rightarrow> handle \<Rightarrow> nat" where
  "tus_count srv h = (case tus_handles srv h of None \<Rightarrow> 0 | Some (last_active, ref_count) \<Rightarrow> ref_count)"

definition tus_users :: "tun_udp_server \<Rightarrow> handle \<Rightarrow> usize set" where
  "tus_users srv h = users tu_local (tus_heap srv) (tus_token2conns srv) h"

definition tus_counts :: "tun_udp_server \<Rightarrow> bool" where
  "tus_counts srv \<longleftrightarrow> (\<forall>h. tus_count srv h = card (tus_users srv h))"

definition tus_inv :: "tun_udp_server \<Rightarrow> bool" where
  "tus_inv srv \<longleftrightarrow> tus_tables srv \<and> unat (tus_next_index srv) = tus_fresh srv + 2 \<and>
     (\<forall>r c. tus_heap srv r = Some c \<longrightarrow> unat (tu_token c) = 3 * (r + 2) + unat TUN_CHANNEL_UDP) \<and> tus_counts srv"

interpretation tus: token_store tus_heap tus_fresh tus_token2conns tus_addr2conns tus_next_index tu_token tu_endpoint TUN_CHANNEL_UDP
  tus_counts tus_inv
  by unfold_locales (simp_all add: TUN_CHANNEL_UDP_def tus_inv_def tus_tables_def)

declare tus.keeps_refl [simp]

lemmas tus_inv_defs = tus_inv_def tus_tables_def tus_counts_def tus_users_def

lemma tus_inv_new: "tus_inv tun_udp_server_new"
  by (simp add: tus_inv_defs tun_udp_server_new_def shared_empty users_def tus_count_def TUN_MIN_INDEX_def)

lemma tus_keeps_removed [simp]: "tus.keeps a (b\<lparr>tus_removed := x\<rparr>) = tus.keeps a b"
  by (simp add: tus.keeps_def tus_inv_defs tus.bound_def tus_count_def)

lemma tus_keeps_note [simp]: "tus.keeps a (tu_note_closed b c) = tus.keeps a b"
  by (simp add: tu_note_closed_def)

lemma tus_keeps_update:
  assumes "tus_heap srv r = Some c" and "tu_ident c c'"
  shows "tus.keeps srv (srv\<lparr>tus_heap := (tus_heap srv)(r \<mapsto> c')\<rparr>)"
proof (rule tus.keeps_update [OF assms(1)])
  have "tu_local c' = tu_local c" using assms(2) by (simp add: tu_ident_def)
  from users_update [of "tus_heap srv", OF assms(1) this, of "tus_token2conns srv"]
  show "tus_inv srv \<Longrightarrow> tus_counts (srv\<lparr>tus_heap := (tus_heap srv)(r \<mapsto> c')\<rparr>)" by (simp add: tus_inv_defs tus_count_def)
qed (use assms(2) in \<open>simp_all add: tu_ident_def\<close>)

lemma tus_keeps_add:
  assumes "tus_addr2conns srv (tu_endpoint c) = None" and "tun_next_token TUN_CHANNEL_UDP (tus_next_index srv) = Some (tu_token c, i)"
    and "tus_handles srv (tu_local c) = Some (l, n)"
  shows "tus.keeps srv (srv\<lparr>tus_heap := (tus_heap srv)(tus_fresh srv \<mapsto> c), tus_fresh := Suc (tus_fresh srv),
    tus_handles := (tus_handles srv)(tu_local c \<mapsto> (l, Suc n)), tus_addr2conns := (tus_addr2conns srv)(tu_endpoint c \<mapsto> tus_fresh srv),
    tus_next_index := i, tus_token2conns := (tus_token2conns srv)(tu_token c \<mapsto> tus_fresh srv)\<rparr>)" (is "tus.keeps srv ?srv")
proof (rule tus.keeps_add [OF assms(1,2)])
  assume i: "tus_inv srv" and fr: "tus_token2conns srv (tu_token c) = None"
  note sh = tus.shared [OF i]
  have u: "tus_users ?srv h = (if h = tu_local c then insert (tu_token c) (tus_users srv h) else tus_users srv h)" for h
    using users_add [OF sh, of c tu_local] fr by (simp add: tus_users_def)
  have "tu_token c \<notin> tus_users srv h" "finite (tus_users srv h)" for h
    using fr users_finite [OF sh] by (auto simp: tus_users_def users_def)
  moreover have "tus_count srv h = card (tus_users srv h)" for h using i by (simp add: tus_inv_def tus_counts_def)
  moreover have "n = tus_count srv (tu_local c)" using assms(3) by (simp add: tus_count_def)
  moreover have "tus_count ?srv h = (if h = tu_local c then Suc n else tus_count srv h)" for h by (simp add: tus_count_def)
  ultimately show "tus_counts ?srv" unfolding tus_counts_def u by simp
qed simp_all

section \<open>The operations of the server\<close>

text \<open>A connection is made together with its entry in the table of addresses; the entry in the table of tokens follows.\<close>

lemma tun_udp_entry_new:
  assumes "tun_udp_entry S srv pool resolver h src w = Some (r, srv', pool', resolver', w')" and "tus_addr2conns srv src = None"
  shows "\<exists>c l n i. tus_handles srv (tu_local c) = Some (l, n) \<and> tun_next_token TUN_CHANNEL_UDP (tus_next_index srv) = Some (tu_token c, i) \<and>
    tu_endpoint c = src \<and> r = tus_fresh srv \<and> srv' = srv\<lparr>tus_heap := (tus_heap srv)(tus_fresh srv \<mapsto> c), tus_fresh := Suc (tus_fresh srv),
      tus_handles := (tus_handles srv)(tu_local c \<mapsto> (l, Suc n)), tus_addr2conns := (tus_addr2conns srv)(src \<mapsto> tus_fresh srv),
      tus_next_index := i\<rparr>"
proof -
  from assms obtain l n tls t i now where *: "tus_handles srv h = Some (l, n)"
    "tun_next_token TUN_CHANNEL_UDP (tus_next_index srv) = Some (t, i)"
    "r = tus_fresh srv" "srv' = srv\<lparr>tus_heap := (tus_heap srv)(tus_fresh srv \<mapsto>
      \<lparr>tu_token = t, tu_local = h, tu_remote = tls\<lparr>tc_token := t\<rparr>, tu_rclosed = False, tu_rbuffer = [],
       tu_lbuffer = [], tu_endpoint = src, tu_established = False, tu_last_remote = now\<rparr>), tus_fresh := Suc (tus_fresh srv),
      tus_handles := (tus_handles srv)(h \<mapsto> (l, Suc n)), tus_addr2conns := (tus_addr2conns srv)(src \<mapsto> tus_fresh srv),
      tus_next_index := i\<rparr>"
    by (auto simp: tun_udp_entry_def tls_set_token_def Let_def split: bind_splits prod.splits sum.splits)
  then show ?thesis
    by (intro exI [of _ "\<lparr>tu_token = t, tu_local = h, tu_remote = tls\<lparr>tc_token := t\<rparr>, tu_rclosed = False, tu_rbuffer = [],
       tu_lbuffer = [], tu_endpoint = src, tu_established = False, tu_last_remote = now\<rparr>"] exI [of _ l] exI [of _ n] exI [of _ i]) simp
qed

lemma tun_udp_datagram_keeps:
  assumes "tun_udp_datagram S srv pool resolver h dst data src w = Some (srv', pool', resolver', w')"
  shows "tus.keeps srv srv'"
proof -
  from assms obtain r srv1 p1 rs1 w1 c c' w2 header where e: "tun_udp_entry S srv pool resolver h src w = Some (r, srv1, p1, rs1, w1)"
    and c: "tus_heap srv1 r = Some c" and l: "tun_udp_local S header data c w1 = Some (c', w2)"
    and s: "srv' = tu_note_closed ((if tus_token2conns srv1 (tu_token c) = None
      then srv1\<lparr>tus_token2conns := (tus_token2conns srv1)(tu_token c \<mapsto> r)\<rparr> else srv1)\<lparr>tus_heap := (tus_heap srv1)(r \<mapsto> c')\<rparr>) c'"
    by (auto simp: tun_udp_datagram_def Let_def split: bind_splits)
  note ident = tun_udp_local_ident [OF l]
  show ?thesis
  proof (cases "tus_addr2conns srv src")
    case (Some q)
    with e have q: "r = q" "srv1 = srv" by (simp_all add: tun_udp_entry_def)
    have "tus_token2conns srv (tu_token c) = Some r" if "tus_inv srv"
      using tus.second_listed [OF that Some] c q by simp
    with tus_keeps_update [OF c ident] q show ?thesis unfolding s tus_keeps_note by (auto simp: tus.keeps_def tus.bound_def)
  next
    case None
    from tun_udp_entry_new [OF e None] obtain d l n i where d: "tus_handles srv (tu_local d) = Some (l, n)"
      "tun_next_token TUN_CHANNEL_UDP (tus_next_index srv) = Some (tu_token d, i)" "tu_endpoint d = src" "r = tus_fresh srv"
      "srv1 = srv\<lparr>tus_heap := (tus_heap srv)(tus_fresh srv \<mapsto> d), tus_fresh := Suc (tus_fresh srv),
        tus_handles := (tus_handles srv)(tu_local d \<mapsto> (l, Suc n)), tus_addr2conns := (tus_addr2conns srv)(src \<mapsto> tus_fresh srv),
        tus_next_index := i\<rparr>" by blast
    let ?srv = "srv1\<lparr>tus_token2conns := (tus_token2conns srv1)(tu_token d \<mapsto> tus_fresh srv)\<rparr>"
    have dc: "d = c" using d(4,5) c by simp
    have k: "tus.keeps srv ?srv" using tus_keeps_add [OF _ d(2,1)] None d(3,5) by simp
    have u: "tus.keeps ?srv (?srv\<lparr>tus_heap := (tus_heap ?srv)(r \<mapsto> c')\<rparr>)"
      by (rule tus_keeps_update [OF _ ident]) (use c in simp)
    have f: "tus_token2conns srv1 (tu_token c) = None" if "tus_inv srv" "tus.bound srv1"
      using tus.next_token(3) [OF that(1) d(2)] that(2) d(5) by (simp add: tus.bound_def dc)
    from tus.keeps_trans [OF k u] f d(4,5) show ?thesis unfolding s tus_keeps_note by (auto simp: tus.keeps_def tus.bound_def dc)
  qed
qed

lemma tun_udp_receive_keeps: "tun_udp_receive S M srv pool resolver h dst w = Some (srv', x) \<Longrightarrow> tus.keeps srv srv'"
proof -
  have "tus.keeps srv (fst r)" if "tun_udp_receive S M srv pool resolver h dst w = Some r" for r
  proof (rule tun_udp_receive.raw_induct [where P = "\<lambda>S M srv pool resolver h dst w r. tus.keeps srv (fst r)", OF _ that], goal_cases)
    case (1 f S M srv pool resolver h dst w r)
    from 1(2) show ?case
      by (auto split: prod.splits sum.splits bind_splits dest!: tun_udp_datagram_keeps 1(1) intro: tus.keeps_trans)
  qed
  then show "tun_udp_receive S M srv pool resolver h dst w = Some (srv', x) \<Longrightarrow> tus.keeps srv srv'" by fastforce
qed

text \<open>A handle may be entered, or its time renewed, as long as its counter stays.\<close>

lemma tus_keeps_handle: "n = tus_count srv h \<Longrightarrow> tus.keeps srv (srv\<lparr>tus_handles := (tus_handles srv)(h \<mapsto> (l, n))\<rparr>)"
  by (auto simp: tus.keeps_def tus_inv_defs tus_count_def)

lemma tun_udp_handle_keeps:
  assumes "tun_udp_handle S M srv pool resolver wk h w = Some (srv', x)"
  shows "tus.keeps srv srv'"
proof -
  from assms obtain n l dst w1 y where n: "n = tus_count srv h"
    and r: "tun_udp_receive S M (srv\<lparr>tus_handles := (tus_handles srv)(h \<mapsto> (l, n))\<rparr>) pool resolver h dst w1 = Some (srv', y)"
    by (cases "tus_handles srv h") (auto simp: tun_udp_handle_def tus_count_def Let_def split: bind_splits prod.splits)
  from tus.keeps_trans [OF tus_keeps_handle [OF n] tun_udp_receive_keeps [OF r]] show ?thesis .
qed

lemma tun_udp_sockets_keeps: "tun_udp_sockets S M srv pool resolver wk hs w = Some (srv', x) \<Longrightarrow> tus.keeps srv srv'"
  by (induction S M srv pool resolver wk hs w rule: tun_udp_sockets.induct)
     (auto split: bind_splits dest!: tun_udp_handle_keeps intro: tus.keeps_trans)

lemma tun_udp_server_local_keeps: "tun_udp_server_local order S M srv pool resolver wk w = Some (srv', x) \<Longrightarrow> tus.keeps srv srv'"
  by (auto simp: tun_udp_server_local_def split: bind_splits dest!: tun_udp_sockets_keeps)

lemma tun_udp_server_remote_keeps:
  "tun_udp_server_remote S M SM spare cfg srv event w = Some (srv', w') \<Longrightarrow> tus.keeps srv srv'"
  by (auto simp: tun_udp_server_remote_def split: option.splits bind_splits dest!: tun_udp_remote_ident intro: tus_keeps_update)


text \<open>\<open>remove_closed\<close> never panics: the socket of a connection in the table has an entry, and its counter is positive.\<close>

lemma tus_drop_step:
  assumes "tus_inv srv" and "tus_token2conns srv token = Some r"
  shows "\<exists>c l n. tus_heap srv r = Some c \<and> tu_token c = token \<and> tus_handles srv (tu_local c) = Some (l, Suc n) \<and>
    tus_inv (srv\<lparr>tus_handles := (tus_handles srv)(tu_local c \<mapsto> (l, n)), tus_token2conns := (tus_token2conns srv)(tu_token c := None),
      tus_addr2conns := (tus_addr2conns srv)(tu_endpoint c := None)\<rparr>)"
proof -
  have sh: "shared_ok tu_token tu_endpoint (tus_heap srv) (tus_fresh srv) (tus_token2conns srv) (tus_addr2conns srv)"
    using assms(1) by (simp add: tus_inv_defs)
  from shared_first [OF sh assms(2)] obtain c where c: "tus_heap srv r = Some c" "tu_token c = token"
    "tus_addr2conns srv (tu_endpoint c) = Some r" by blast
  have t: "tus_token2conns srv (tu_token c) = Some r" using c assms(2) by simp
  note u = users_remove [where ka = tu_token and kl = tu_local and heap = "tus_heap srv" and r = r and c = c and A = "tus_token2conns srv", OF c(1) t]
  have n: "tus_count srv h = card (tus_users srv h)" "finite (tus_users srv h)" for h
    using assms(1) users_finite [OF sh] by (auto simp: tus_inv_def tus_counts_def tus_users_def)
  have "0 < tus_count srv (tu_local c)" using n [of "tu_local c"] u(2) by (auto simp: tus_users_def card_gt_0_iff)
  then obtain l m where h: "tus_handles srv (tu_local c) = Some (l, Suc m)"
    by (auto simp: tus_count_def gr0_conv_Suc split: option.splits)
  let ?srv = "srv\<lparr>tus_handles := (tus_handles srv)(tu_local c \<mapsto> (l, m)), tus_token2conns := (tus_token2conns srv)(tu_token c := None),
      tus_addr2conns := (tus_addr2conns srv)(tu_endpoint c := None)\<rparr>"
  have us: "tus_users ?srv x = tus_users srv x - {tu_token c}" for x using u(1) by (simp add: tus_users_def)
  have "tus_count ?srv x = card (tus_users ?srv x)" for x
  proof (cases "x = tu_local c")
    case True
    have "card (tus_users srv x) = Suc m" "tu_token c \<in> tus_users srv x"
      using n(1) [of x] u(2) h True by (simp_all add: tus_count_def tus_users_def)
    then show ?thesis using True unfolding us by (simp add: tus_count_def card_Diff_singleton)
  next
    case False
    then have "tu_token c \<notin> tus_users srv x" using u(3) by (simp add: tus_users_def)
    then show ?thesis using False n(1) [of x] unfolding us by (simp add: tus_count_def)
  qed
  moreover have "tus_tables ?srv" using shared_remove [OF sh c(1) t c(3)] by (simp add: tus_tables_def)
  ultimately have "tus_inv ?srv" using assms(1) by (simp add: tus_inv_def tus_counts_def)
  with c h show ?thesis by blast
qed

lemma tun_udp_drop_total:
  "tus_inv srv \<Longrightarrow> \<exists>srv'. tun_udp_drop ts srv = Some srv' \<and> tus_inv srv' \<and> tus_fresh srv' = tus_fresh srv \<and>
    tus_token2conns srv' = (tus_token2conns srv) |` (- set ts) \<and> tus_heap srv' = tus_heap srv"
proof (induction ts arbitrary: srv)
  case (Cons t ts)
  show ?case
  proof (cases "tus_token2conns srv t")
    case None
    from Cons.IH [OF Cons.prems] None show ?thesis by (auto simp: restrict_map_def fun_eq_iff)
  next
    case (Some r)
    from tus_drop_step [OF Cons.prems Some] obtain c l n where c: "tus_heap srv r = Some c" "tu_token c = t"
      "tus_handles srv (tu_local c) = Some (l, Suc n)" "tus_inv (srv\<lparr>tus_handles := (tus_handles srv)(tu_local c \<mapsto> (l, n)),
         tus_token2conns := (tus_token2conns srv)(tu_token c := None), tus_addr2conns := (tus_addr2conns srv)(tu_endpoint c := None)\<rparr>)"
      by blast
    from Cons.IH [OF c(4)] c(1-3) Some show ?thesis by (auto simp: unwrap_def restrict_map_def fun_eq_iff)
  qed
qed (simp add: restrict_map_def)

lemma tun_udp_drop_fresh: "tun_udp_drop ts srv = Some srv' \<Longrightarrow> tus_fresh srv' = tus_fresh srv"
  by (induction ts srv rule: tun_udp_drop.induct) (auto split: option.splits bind_splits if_splits)

lemma tun_udp_remove_closed_keeps: "tun_udp_remove_closed sorder srv = Some srv' \<Longrightarrow> tus.keeps srv srv'"
proof -
  have "tus.keeps srv s" if "tun_udp_drop ts srv = Some s" for ts s
    using that tun_udp_drop_total [of srv ts] tun_udp_drop_fresh [OF that] by (auto simp: tus.keeps_def)
  then show "tun_udp_remove_closed sorder srv = Some srv' \<Longrightarrow> tus.keeps srv srv'"
    by (auto simp: tun_udp_remove_closed_def split: bind_splits)
qed

text \<open>\<open>check_timeout\<close> drops sockets that are not in use.\<close>

lemma tun_udp_close_all_keeps:
  "tun_udp_close_all M wkr hs srv w = Some (srv', w') \<Longrightarrow> \<forall>h\<in>set hs. tus_count srv h = 0 \<Longrightarrow> tus.keeps srv srv'"
proof (induction M wkr hs srv w rule: tun_udp_close_all.induct)
  case (2 M wkr h hs srv w)
  let ?srv = "srv\<lparr>tus_handles := (tus_handles srv)(h := None)\<rparr>"
  have "tus.keeps srv ?srv" using 2(3) by (auto simp: tus.keeps_def tus_inv_defs tus_count_def)
  moreover have "\<forall>h\<in>set hs. tus_count ?srv h = 0" using 2(3) by (auto simp: tus_count_def)
  ultimately show ?case using 2 by (auto simp: Let_def split: bind_splits intro: tus.keeps_trans)
qed simp

lemma tun_udp_check_timeout_keeps: "tun_udp_check_timeout horder M srv now wkr w = Some (srv', w') \<Longrightarrow> tus.keeps srv srv'"
  unfolding tun_udp_check_timeout_def
  by (erule tun_udp_close_all_keeps) (auto simp: tus_count_def tu_expired_def split: option.splits)

section \<open>Runs\<close>

text \<open>The states of the server under any sequence of calls, whatever the network, the pool and the stack answer.\<close>

inductive tus_reachable :: "'w sys \<Rightarrow> 'w smol \<Rightarrow> smoltcp_ops \<Rightarrow> tun_udp_server \<Rightarrow> bool" for S M SM where
  tus_new: "tus_reachable S M SM tun_udp_server_new"
| tus_local: "tus_reachable S M SM srv \<Longrightarrow> tun_udp_server_local order S M srv pool resolver wk w = Some (srv', x) \<Longrightarrow>
    tus_reachable S M SM srv'"
| tus_remote: "tus_reachable S M SM srv \<Longrightarrow> tun_udp_server_remote S M SM spare cfg srv event w = Some (srv', w') \<Longrightarrow>
    tus_reachable S M SM srv'"
| tus_remove: "tus_reachable S M SM srv \<Longrightarrow> tun_udp_remove_closed sorder srv = Some srv' \<Longrightarrow> tus_reachable S M SM srv'"
| tus_timeout: "tus_reachable S M SM srv \<Longrightarrow> tun_udp_check_timeout horder M srv now wkr w = Some (srv', w') \<Longrightarrow>
    tus_reachable S M SM srv'"

lemma tus_reachable_keeps: "tus_reachable S M SM srv \<Longrightarrow> tus.keeps tun_udp_server_new srv"
  by (induction rule: tus_reachable.induct)
     (auto dest!: tun_udp_server_local_keeps tun_udp_server_remote_keeps tun_udp_remove_closed_keeps tun_udp_check_timeout_keeps
       intro: tus.keeps_trans)

lemma tus_reachable_inv: "tus_reachable S M SM srv \<Longrightarrow> tus.bound srv \<Longrightarrow> tus_inv srv"
  using tus_reachable_keeps [of S M SM srv] tus_inv_new by (simp add: tus.keeps_def)

text \<open>C9. The counters of the sockets are right: in every state the UDP server of the tunnel can reach before its tokens
  start over, the two tables hold the same connections under their token and their source address, and the counter
  kept with a socket is the number of connections that use it; so the socket of a connection is never dropped by
  \<open>check_timeout\<close>.\<close>

theorem tun_udp_counters:
  assumes "tus_reachable S M SM srv" and "tus_fresh srv + 2 < (2 ^ 64 - 1) div 3"
  shows "tus_tables srv \<and> (\<forall>h. tus_count srv h = card (tus_users srv h))"
  using tus_reachable_inv [OF assms(1)] assms(2) by (auto simp: tus.bound_def unat_TUN_MAX tus_inv_def tus_counts_def)

text \<open>Removing closed connections neither panics nor leaves anything behind: in such a state \<open>remove_closed\<close> finds the
  socket of every connection it drops and a positive counter, and afterwards exactly the connections that were not
  reported closed are left, in both tables.\<close>

theorem tun_udp_remove_closed_total:
  assumes "tus_reachable S M SM srv" and "tus_fresh srv + 2 < (2 ^ 64 - 1) div 3" and "set (sorder (tus_removed srv)) = tus_removed srv"
  shows "\<exists>srv'. tun_udp_remove_closed sorder srv = Some srv' \<and> tus_removed srv' = {} \<and> tus_tables srv' \<and>
    tus_token2conns srv' = (tus_token2conns srv) |` (- tus_removed srv) \<and>
    (\<forall>a r. tus_addr2conns srv' a = Some r \<longleftrightarrow> tus_addr2conns srv a = Some r \<and>
       (\<exists>c. tus_heap srv r = Some c \<and> tu_token c \<notin> tus_removed srv))"
proof -
  have i: "tus_inv srv" using tus_reachable_inv [OF assms(1)] assms(2) by (simp add: tus.bound_def unat_TUN_MAX)
  from tun_udp_drop_total [OF i, of "sorder (tus_removed srv)"] obtain srv' where d: "tun_udp_drop (sorder (tus_removed srv)) srv = Some srv'"
    "tus_inv srv'" "tus_token2conns srv' = (tus_token2conns srv) |` (- tus_removed srv)" "tus_heap srv' = tus_heap srv"
    using assms(3) by auto
  have "tus_addr2conns srv' a = Some r \<longleftrightarrow> tus_addr2conns srv a = Some r \<and>
       (\<exists>c. tus_heap srv r = Some c \<and> tu_token c \<notin> tus_removed srv)" for a r
  proof -
    have sh: "shared_ok tu_token tu_endpoint (tus_heap srv) (tus_fresh srv) (tus_token2conns srv) (tus_addr2conns srv)"
      "shared_ok tu_token tu_endpoint (tus_heap srv) (tus_fresh srv') ((tus_token2conns srv) |` (- tus_removed srv)) (tus_addr2conns srv')"
      using i d(2) unfolding tus_inv_def tus_tables_def d(3,4) by auto
    show ?thesis unfolding shared_second_iff [OF sh(1), of a r] shared_second_iff [OF sh(2), of a r]
      by (cases "tus_heap srv r") (auto simp: restrict_map_def)
  qed
  with d show ?thesis by (auto simp: tun_udp_remove_closed_def tus_inv_defs)
qed

section \<open>An example\<close>

text \<open>A stack in which a datagram of a client waits at the socket 20, and the server after it was received.\<close>

abbreviation client_endpoint :: ip_endpoint where
  "client_endpoint \<equiv> \<lparr>addr = SmolIpv4 (Ipv4Addr 10 0 0 2), port = 4000\<rparr>"

abbreviation dst_v4 :: ip_endpoint where
  "dst_v4 \<equiv> \<lparr>addr = SmolIpv4 (Ipv4Addr 8 8 8 8), port = 53\<rparr>"

definition recv_smol :: "sim smol" where
  "recv_smol = sim_smol\<lparr>
     channel_try_recv := (\<lambda>k w. if sim_rx w k = [] then (None, w) else (Some (20, tun_event_rx), w\<lparr>sim_rx := (sim_rx w)(k := [])\<rparr>)),
     us_endpoint := (\<lambda>h w. dst_v4),
     us_recv := (\<lambda>h w. case sim_dgrams_in w h of [] \<Rightarrow> (Inl Exhausted, w)
       | (d, a) # ds \<Rightarrow> (Inr (d, client_endpoint), w\<lparr>sim_dgrams_in := (sim_dgrams_in w)(h := ds)\<rparr>))\<rparr>"

definition recv_world :: sim where
  "recv_world = sim_idle\<lparr>sim_rx := (\<lambda>_. [])(0 := [1]), sim_dgrams_in := (\<lambda>_. [])(20 := [([1, 2], V4 (Ipv4Addr 10 0 0 2) 4000)])\<rparr>"

definition events_order :: "(handle \<rightharpoonup> tun_event) \<Rightarrow> handle list" where
  "events_order events = filter (\<lambda>h. events h \<noteq> None) [20]"

lemma recv_events: "get_events recv_smol (wakers_new 0) recv_world = Some ([20 \<mapsto> TunEvent 1], sim_idle\<lparr>sim_rx := (\<lambda>_. []), sim_dgrams_in := sim_dgrams_in recv_world\<rparr>)"
  apply (simp add: get_events_def wakers_new_def)
  apply (subst get_events_loop.simps, simp add: recv_smol_def recv_world_def)
  apply (subst get_events_loop.simps, simp add: note_event_def tun_event_rx_def)
  apply (simp add: sim_idle_def fun_eq_iff)
  done

lemma first_udp_token: "tun_next_token TUN_CHANNEL_UDP TUN_MIN_INDEX = Some (7, 3)"
  by (simp add: tun_next_token_def tun_next_index_def add_checked_def mul_checked_def TUN_MIN_INDEX_def TUN_CHANNEL_CNT_def TUN_CHANNEL_UDP_def
      word_le_nat_alt unat_TUN_MAX)

text \<open>The server with the connection of the client.\<close>

definition one_conn :: "tun_udp \<Rightarrow> tun_udp_server" where
  "one_conn c = \<lparr>tus_heap = [0 \<mapsto> c], tus_fresh = 1, tus_token2conns = [7 \<mapsto> 0], tus_addr2conns = [client_endpoint \<mapsto> 0],
     tus_handles = [20 \<mapsto> (0, 1)], tus_removed = {}, tus_next_index = 3\<rparr>"

lemma sample_datagram:
  assumes "sim_now w = 0" and "full_pool pool"
  shows "\<exists>c p. tun_udp_datagram sim_sys (tun_udp_server_new\<lparr>tus_handles := [20 \<mapsto> (0, 0)]\<rparr>) pool resolver 20 dst_v4 [1, 2]
      client_endpoint w = Some (one_conn c, p, resolver, w) \<and> tu_local c = 20 \<and> tu_token c = 7"
proof -
  obtain t p where g: "pool_get sim_sys pool resolver w = Some (Some t, p, resolver, w)"
    using full_pool_get [OF assms(2), of sim_sys resolver w] by blast
  obtain header where h: "udp_generate_endpoint [] dst_v4 2 = Some header" by (simp add: udp_generate_endpoint_def sock5_generate_endpoint_def)
  show ?thesis
    using assms(1) by (auto simp: tun_udp_datagram_def h tun_udp_entry_def tun_udp_server_new_def g unwrap_def first_udp_token tls_set_token_def
        tun_udp_local_def as_secs_def tu_note_closed_def one_conn_def)
qed

lemma sample_local:
  assumes "full_pool pool"
  shows "\<exists>c p wk. tun_udp_server_local events_order sim_sys recv_smol tun_udp_server_new pool resolver (wakers_new 0) recv_world =
     Some (one_conn c, p, resolver, wk, sim_idle\<lparr>sim_rx := (\<lambda>_. []), sim_dgrams_in := (\<lambda>_. [])\<rparr>) \<and> tu_local c = 20 \<and> tu_token c = 7"
proof -
  let ?w = "sim_idle\<lparr>sim_rx := (\<lambda>_. []), sim_dgrams_in := sim_dgrams_in recv_world\<rparr>" and ?v = "sim_idle\<lparr>sim_rx := (\<lambda>_. []), sim_dgrams_in := (\<lambda>_. [])\<rparr>"
  let ?srv = "tun_udp_server_new\<lparr>tus_handles := [20 \<mapsto> (0, 0)]\<rparr>"
  have now: "sim_now ?v = 0" "sim_now ?w = 0" by (simp_all add: sim_idle_def)
  obtain c p where d: "tun_udp_datagram sim_sys ?srv pool resolver 20 dst_v4 [1, 2] client_endpoint ?v =
      Some (one_conn c, p, resolver, ?v)" and c: "tu_local c = 20" "tu_token c = 7"
    using sample_datagram [OF now(1) assms] by blast
  have e: "us_recv recv_smol 20 ?w = (Inr ([1, 2], client_endpoint), ?v)" "us_recv recv_smol 20 ?v = (Inl Exhausted, ?v)"
    by (simp_all add: recv_smol_def recv_world_def fun_upd_def cong: if_cong)
  have "tun_udp_receive sim_sys recv_smol ?srv pool resolver 20 dst_v4 ?w = Some (one_conn c, p, resolver, ?v)"
    by (subst tun_udp_receive.simps, subst e, simp add: d, subst tun_udp_receive.simps, subst e, simp)
  then have "tun_udp_handle sim_sys recv_smol tun_udp_server_new pool resolver (wakers_new 0) 20 ?w =
      Some (one_conn c, p, resolver, snd (the (get_wakers (wakers_new 0) 20)), ?v)"
    using now(2) by (simp add: tun_udp_handle_def get_udp_def get_wakers_def wakers_new_def unwrap_def tun_udp_server_new_def recv_smol_def sim_smol_def)
  then show ?thesis using c unfolding tun_udp_server_local_def recv_events by (auto simp: events_order_def)
qed

lemma sample_reachable: "\<exists>c. tus_reachable sim_sys recv_smol SM (one_conn c) \<and> tu_local c = 20 \<and> tu_token c = 7"
  using sample_local [OF sample_pool_full] by (blast intro: tus_local tus_new)

theorem tun_udp_counters_witness:
  "\<exists>c. tus_tables (one_conn c) \<and> (\<forall>h. tus_count (one_conn c) h = card (tus_users (one_conn c) h)) \<and> tus_count (one_conn c) 20 = 1"
proof -
  obtain c where "tus_reachable sim_sys recv_smol \<lparr>ipv6_from_bytes = Some, ip_address_from = (\<lambda>_. SmolOther)\<rparr> (one_conn c)"
    using sample_reachable by blast
  from tun_udp_counters [OF this] show ?thesis by (auto simp: one_conn_def tus_count_def)
qed

theorem tun_udp_remove_closed_total_witness:
  "\<exists>c srv'. tun_udp_remove_closed (\<lambda>_. []) (one_conn c) = Some srv' \<and> tus_removed srv' = {} \<and> tus_tables srv' \<and>
     tus_token2conns srv' = [7 \<mapsto> 0]"
proof -
  obtain c where "tus_reachable sim_sys recv_smol \<lparr>ipv6_from_bytes = Some, ip_address_from = (\<lambda>_. SmolOther)\<rparr> (one_conn c)"
    using sample_reachable by blast
  from tun_udp_remove_closed_total [OF this, of "\<lambda>_. []"] show ?thesis by (auto simp: one_conn_def)
qed

end
