(* ===== verification/Tun_Tcp_Table.thy ===== *)
theory Tun_Tcp_Table
  imports Tun_Udp_Table
begin

text \<open>
  The tables of the tunnel's TCP server: the connections by token and by socket are the same ones, and no socket is
  served twice, whatever the network, the pool and the stack do, up to the number of connections after which the
  tokens start over.
\<close>

section \<open>Operations keep the identity of a connection\<close>

definition tt_ident :: "tun_tcp \<Rightarrow> tun_tcp \<Rightarrow> bool" where
  "tt_ident c c' \<longleftrightarrow> tt_token c' = tt_token c \<and> tt_local c' = tt_local c"

named_theorems tt_idents \<open>operations of a connection keep its token and socket\<close>

lemma tt_ident_refl [simp]: "tt_ident c c"
  and tt_ident_trans: "tt_ident a b \<Longrightarrow> tt_ident b c \<Longrightarrow> tt_ident a c"
  and tt_ident_update [simp]: "tt_ident a (b\<lparr>tt_rbuffer := x\<rparr>) = tt_ident a b" "tt_ident a (b\<lparr>tt_lbuffer := x\<rparr>) = tt_ident a b"
    "tt_ident a (b\<lparr>tt_established := y\<rparr>) = tt_ident a b" "tt_ident a (b\<lparr>tt_last_active := z\<rparr>) = tt_ident a b"
    "tt_ident (b\<lparr>tt_rbuffer := x\<rparr>) a = tt_ident b a" "tt_ident (b\<lparr>tt_lbuffer := x\<rparr>) a = tt_ident b a"
    "tt_ident (b\<lparr>tt_established := y\<rparr>) a = tt_ident b a" "tt_ident (b\<lparr>tt_last_active := z\<rparr>) a = tt_ident b a"
  by (auto simp: tt_ident_def)

lemma close_stream_ident [tt_idents]: "close_stream S M l wkr c w = Some (c', w') \<Longrightarrow> tt_ident c c'"
  by (auto simp: close_stream_def tt_ident_def Let_def split: if_splits bind_splits)

lemma flush_remote_ident [tt_idents]: "flush_remote S M wkr c w = Some (c', w') \<Longrightarrow> tt_ident c c'"
  by (auto simp: flush_remote_def split: prod.splits sum.splits if_splits dest: tt_idents)

lemma local_to_remote_ident [tt_idents]: "local_to_remote S M spare wkr c w = Some (c', w') \<Longrightarrow> tt_ident c c'"
  by (auto simp: local_to_remote_def tt_ident_def Let_def split: bind_splits if_splits sum.splits copy_result.splits trojan_error.splits
      dest!: tt_idents)

lemma remote_to_local_ident [tt_idents]: "remote_to_local S M spare wkr c w = Some (c', w') \<Longrightarrow> tt_ident c c'"
  by (auto simp: remote_to_local_def tt_ident_def Let_def split: bind_splits if_splits sum.splits copy_result.splits trojan_error.splits
      dest!: tt_idents)

lemma check_half_close_ident [tt_idents]: "check_half_close S M wkr c w = Some (c', w') \<Longrightarrow> tt_ident c c'"
  by (auto simp: check_half_close_def tt_ident_def split: bind_splits if_splits dest!: tt_idents)

lemma tun_tcp_close_ident [tt_idents]: "tun_tcp_close S M wkr c w = Some (c', w') \<Longrightarrow> tt_ident c c'"
  by (auto simp: tun_tcp_close_def tt_ident_def split: bind_splits dest!: tt_idents)

lemma tun_tcp_local_ident [tt_idents]: "tun_tcp_local S M spare wk event c w = Some (c', wk', w') \<Longrightarrow> tt_ident c c'"
  by (auto simp: tun_tcp_local_def tt_ident_def Let_def split: prod.splits bind_splits if_splits dest!: tt_idents)

lemma remote_writable_ident [tt_idents]: "remote_writable S M spare cfg c w = Some (ok, c', w') \<Longrightarrow> tt_ident c c'"
  by (auto simp: remote_writable_def tt_ident_def split: bind_splits if_splits sum.splits dest!: tt_idents)

lemma tun_tcp_remote_ident [tt_idents]: "tun_tcp_remote S M spare cfg wk event c w = Some (c', wk', w') \<Longrightarrow> tt_ident c c'"
  by (auto simp: tun_tcp_remote_def tt_ident_def Let_def split: prod.splits bind_splits if_splits dest!: tt_idents)

section \<open>The invariant\<close>

definition tts_inv :: "tun_tcp_server \<Rightarrow> bool" where
  "tts_inv srv \<longleftrightarrow> shared_ok tt_token tt_local (tts_heap srv) (tts_fresh srv) (tts_token2conns srv) (tts_handle2conns srv) \<and>
     unat (tts_next_index srv) = tts_fresh srv + 2 \<and>
     (\<forall>r c. tts_heap srv r = Some c \<longrightarrow> unat (tt_token c) = 3 * (r + 2) + unat TUN_CHANNEL_TCP)"

interpretation tts: token_store tts_heap tts_fresh tts_token2conns tts_handle2conns tts_next_index tt_token tt_local TUN_CHANNEL_TCP
  "\<lambda>_. True" tts_inv
  by unfold_locales (simp_all add: TUN_CHANNEL_TCP_def tts_inv_def)

declare tts.keeps_refl [simp]

lemma tts_inv_new: "tts_inv tun_tcp_server_new"
  by (simp add: tts_inv_def tun_tcp_server_new_def shared_empty TUN_MIN_INDEX_def)

lemma tts_keeps_removed [simp]: "tts.keeps a (b\<lparr>tts_removed := x\<rparr>) = tts.keeps a b"
  by (simp add: tts.keeps_def tts_inv_def tts.bound_def)

lemma tun_note_closed_keeps: "tun_note_closed M b c w = Some srv \<Longrightarrow> tts.keeps a srv = tts.keeps a b"
  by (auto simp: tun_note_closed_def split: bind_splits if_splits)

lemma tts_keeps_update:
  assumes "tts_heap srv r = Some c" and "tt_ident c c'"
  shows "tts.keeps srv (srv\<lparr>tts_heap := (tts_heap srv)(r \<mapsto> c')\<rparr>)"
  by (rule tts.keeps_update [OF assms(1)]) (use assms(2) in \<open>simp_all add: tt_ident_def\<close>)

lemma tts_keeps_add:
  assumes "tts_handle2conns srv (tt_local c) = None" and "tun_next_token TUN_CHANNEL_TCP (tts_next_index srv) = Some (tt_token c, i)"
  shows "tts.keeps srv (srv\<lparr>tts_heap := (tts_heap srv)(tts_fresh srv \<mapsto> c), tts_fresh := Suc (tts_fresh srv),
    tts_handle2conns := (tts_handle2conns srv)(tt_local c \<mapsto> tts_fresh srv), tts_next_index := i,
    tts_token2conns := (tts_token2conns srv)(tt_token c \<mapsto> tts_fresh srv)\<rparr>)"
  by (rule tts.keeps_add [OF assms]) simp_all

section \<open>The operations of the server\<close>

lemma tun_tcp_entry_new:
  assumes "tun_tcp_entry S srv pool resolver h w = Some (r, srv', x)" and "tts_handle2conns srv h = None"
  shows "\<exists>c i. tun_next_token TUN_CHANNEL_TCP (tts_next_index srv) = Some (tt_token c, i) \<and> tt_local c = h \<and> r = tts_fresh srv \<and>
    srv' = srv\<lparr>tts_heap := (tts_heap srv)(tts_fresh srv \<mapsto> c), tts_fresh := Suc (tts_fresh srv),
      tts_handle2conns := (tts_handle2conns srv)(h \<mapsto> tts_fresh srv), tts_next_index := i\<rparr>"
proof -
  from assms obtain t i remote now where "tun_next_token TUN_CHANNEL_TCP (tts_next_index srv) = Some (t, i)" "r = tts_fresh srv"
    "srv' = srv\<lparr>tts_heap := (tts_heap srv)(tts_fresh srv \<mapsto> \<lparr>tt_token = t, tt_local = h, tt_remote = remote, tt_lbuffer = [],
       tt_rbuffer = [], tt_lclosed = False, tt_rclosed = False, tt_established = False, tt_last_active = now\<rparr>),
      tts_fresh := Suc (tts_fresh srv), tts_handle2conns := (tts_handle2conns srv)(h \<mapsto> tts_fresh srv), tts_next_index := i\<rparr>"
    by (auto simp: tun_tcp_entry_def tun_tcp_new_def split: bind_splits prod.splits)
  then show ?thesis
    by (intro exI [of _ "\<lparr>tt_token = t, tt_local = h, tt_remote = remote, tt_lbuffer = [], tt_rbuffer = [], tt_lclosed = False,
       tt_rclosed = False, tt_established = False, tt_last_active = now\<rparr>"] exI [of _ i]) simp
qed

lemma tun_tcp_handle_keeps:
  assumes "tun_tcp_handle S M spare srv pool resolver wk h event w = Some (srv', x)"
  shows "tts.keeps srv srv'"
proof (cases "ts_is_listening M h w \<and> tts_handle2conns srv h = None")
  case True
  with assms show ?thesis by (auto simp: tun_tcp_handle_def split: bind_splits)
next
  case False
  with assms obtain r srv1 p1 rs1 w1 c c' wk' w2 where e: "tun_tcp_entry S srv pool resolver h w = Some (r, srv1, p1, rs1, w1)"
    and c: "tts_heap srv1 r = Some c" and l: "tun_tcp_local S M spare wk event c w1 = Some (c', wk', w2)"
    and s: "tun_note_closed M ((if tts_token2conns srv1 (tt_token c) = None
      then srv1\<lparr>tts_token2conns := (tts_token2conns srv1)(tt_token c \<mapsto> r)\<rparr> else srv1)\<lparr>tts_heap := (tts_heap srv1)(r \<mapsto> c')\<rparr>) c' w2 = Some srv'"
    by (auto simp: tun_tcp_handle_def Let_def if_distrib [of tts_heap] cong: if_cong split: bind_splits)
  note ident = tun_tcp_local_ident [OF l] and closed = tun_note_closed_keeps [OF s]
  show ?thesis
  proof (cases "tts_handle2conns srv h")
    case (Some q)
    with e have q: "r = q" "srv1 = srv" by (simp_all add: tun_tcp_entry_def)
    have "tts_token2conns srv (tt_token c) = Some r" if "tts_inv srv"
      using tts.second_listed [OF that Some] c q by simp
    with tts_keeps_update [OF c ident] q show ?thesis unfolding closed by (auto simp: tts.keeps_def tts.bound_def)
  next
    case None
    from tun_tcp_entry_new [OF e None] obtain d i where d:
      "tun_next_token TUN_CHANNEL_TCP (tts_next_index srv) = Some (tt_token d, i)" "tt_local d = h" "r = tts_fresh srv"
      "srv1 = srv\<lparr>tts_heap := (tts_heap srv)(tts_fresh srv \<mapsto> d), tts_fresh := Suc (tts_fresh srv),
        tts_handle2conns := (tts_handle2conns srv)(h \<mapsto> tts_fresh srv), tts_next_index := i\<rparr>" by blast
    let ?srv = "srv1\<lparr>tts_token2conns := (tts_token2conns srv1)(tt_token d \<mapsto> tts_fresh srv)\<rparr>"
    have dc: "d = c" using d(3,4) c by simp
    have k: "tts.keeps srv ?srv" using tts_keeps_add [OF _ d(1)] None d(2,4) by simp
    have u: "tts.keeps ?srv (?srv\<lparr>tts_heap := (tts_heap ?srv)(r \<mapsto> c')\<rparr>)"
      by (rule tts_keeps_update [OF _ ident]) (use c in simp)
    have f: "tts_token2conns srv1 (tt_token c) = None" if "tts_inv srv" "tts.bound srv1"
      using tts.next_token(3) [OF that(1) d(1)] that(2) d(4) by (simp add: tts.bound_def dc)
    from tts.keeps_trans [OF k u] f d(3,4) show ?thesis unfolding closed by (auto simp: tts.keeps_def tts.bound_def dc)
  qed
qed

lemma tun_tcp_handles_keeps: "tun_tcp_handles S M spare srv pool resolver wk events hs w = Some (srv', x) \<Longrightarrow> tts.keeps srv srv'"
  by (induction hs arbitrary: srv pool resolver wk w)
     (auto split: bind_splits dest!: tun_tcp_handle_keeps intro: tts.keeps_trans)

lemma tun_tcp_server_local_keeps: "tun_tcp_server_local order S M spare srv pool resolver wk w = Some (srv', x) \<Longrightarrow> tts.keeps srv srv'"
  by (auto simp: tun_tcp_server_local_def split: bind_splits dest!: tun_tcp_handles_keeps)

lemma tun_tcp_server_remote_keeps: "tun_tcp_server_remote S M spare cfg srv wk event w = Some (srv', x) \<Longrightarrow> tts.keeps srv srv'"
  by (auto simp: tun_tcp_server_remote_def tun_note_closed_keeps split: option.splits bind_splits dest!: tun_tcp_remote_ident
      intro: tts_keeps_update)

lemma tts_keeps_drop:
  assumes "tts_handle2conns srv h = Some r" and "tts_heap srv r = Some c"
  shows "tts.keeps srv (srv\<lparr>tts_handle2conns := (tts_handle2conns srv)(h := None),
    tts_token2conns := (tts_token2conns srv)(tt_token c := None)\<rparr>)"
proof -
  have "shared_ok tt_token tt_local (tts_heap srv) (tts_fresh srv) ((tts_token2conns srv)(tt_token c := None)) ((tts_handle2conns srv)(h := None))"
    if sh: "shared_ok tt_token tt_local (tts_heap srv) (tts_fresh srv) (tts_token2conns srv) (tts_handle2conns srv)"
  proof -
    from shared_second [OF sh assms(1)] assms have "tt_local c = h" "tts_token2conns srv (tt_token c) = Some r" by auto
    with shared_remove [OF sh assms(2)] assms show ?thesis by simp
  qed
  then show ?thesis by (auto simp: tts.keeps_def tts_inv_def)
qed

lemma tun_tcp_drop_keeps: "tun_tcp_drop M hs srv w = Some (srv', w') \<Longrightarrow> tts.keeps srv srv'"
  by (induction M hs srv w rule: tun_tcp_drop.induct)
     (auto split: option.splits bind_splits intro: tts.keeps_trans tts_keeps_drop)

lemma tun_tcp_remove_closed_keeps: "tun_tcp_remove_closed sorder M srv w = Some (srv', w') \<Longrightarrow> tts.keeps srv srv'"
  by (auto simp: tun_tcp_remove_closed_def split: bind_splits dest: tun_tcp_drop_keeps)

lemma tun_tcp_close_all_keeps: "tun_tcp_close_all S M wkr refs srv w = Some (srv', w') \<Longrightarrow> tts.keeps srv srv'"
proof (induction S M wkr refs srv w rule: tun_tcp_close_all.induct)
  case (2 S M wkr r refs srv w)
  from 2(2) obtain c c' v where c: "tts_heap srv r = Some c" "tun_tcp_close S M wkr c w = Some (c', v)"
    "tun_tcp_close_all S M wkr refs (srv\<lparr>tts_heap := (tts_heap srv)(r \<mapsto> c'), tts_removed := insert (tt_local c') (tts_removed srv)\<rparr>) v =
       Some (srv', w')"
    by (auto split: bind_splits)
  have "tts.keeps srv (srv\<lparr>tts_heap := (tts_heap srv)(r \<mapsto> c'), tts_removed := insert (tt_local c') (tts_removed srv)\<rparr>)"
    using tts_keeps_update [OF c(1) tun_tcp_close_ident [OF c(2)]] by simp
  from tts.keeps_trans [OF this] 2(1) c show ?case by auto
qed simp

lemma tun_tcp_check_timeout_keeps: "tun_tcp_check_timeout torder sorder S M srv now wkr w = Some (srv', w') \<Longrightarrow> tts.keeps srv srv'"
  by (auto simp: tun_tcp_check_timeout_def split: bind_splits dest!: tun_tcp_close_all_keeps tun_tcp_remove_closed_keeps intro: tts.keeps_trans)

section \<open>Runs\<close>

inductive tts_reachable :: "'w sys \<Rightarrow> 'w smol \<Rightarrow> tun_tcp_server \<Rightarrow> bool" for S M where
  tts_new: "tts_reachable S M tun_tcp_server_new"
| tts_local: "tts_reachable S M srv \<Longrightarrow> tun_tcp_server_local order S M spare srv pool resolver wk w = Some (srv', x) \<Longrightarrow> tts_reachable S M srv'"
| tts_remote: "tts_reachable S M srv \<Longrightarrow> tun_tcp_server_remote S M spare cfg srv wk event w = Some (srv', x) \<Longrightarrow> tts_reachable S M srv'"
| tts_remove: "tts_reachable S M srv \<Longrightarrow> tun_tcp_remove_closed sorder M srv w = Some (srv', w') \<Longrightarrow> tts_reachable S M srv'"
| tts_timeout: "tts_reachable S M srv \<Longrightarrow> tun_tcp_check_timeout torder sorder S M srv now wkr w = Some (srv', w') \<Longrightarrow> tts_reachable S M srv'"

lemma tts_reachable_keeps: "tts_reachable S M srv \<Longrightarrow> tts.keeps tun_tcp_server_new srv"
  by (induction rule: tts_reachable.induct)
     (auto dest!: tun_tcp_server_local_keeps tun_tcp_server_remote_keeps tun_tcp_remove_closed_keeps tun_tcp_check_timeout_keeps
       intro: tts.keeps_trans)

lemma tts_reachable_inv: "tts_reachable S M srv \<Longrightarrow> tts.bound srv \<Longrightarrow> tts_inv srv"
  using tts_reachable_keeps [of S M srv] tts_inv_new by (simp add: tts.keeps_def)

text \<open>The two tables of the tunnel's TCP server agree: in every state it can reach before its tokens start over, a
  connection found under a token is found under its socket and the other way round, so every event of the server's
  side reaches the connection of exactly one socket.\<close>

theorem tun_tcp_tables:
  assumes "tts_reachable S M srv" and "tts_fresh srv + 2 < (2 ^ 64 - 1) div 3"
  shows "tts_token2conns srv token = Some r \<longleftrightarrow>
      (\<exists>c. tts_heap srv r = Some c \<and> tt_token c = token \<and> tts_handle2conns srv (tt_local c) = Some r)"
proof -
  have "tts.bound srv" using assms(2) by (simp add: tts.bound_def unat_TUN_MAX)
  then have "tts_inv srv" by (rule tts_reachable_inv [OF assms(1)])
  then have sh: "shared_ok tt_token tt_local (tts_heap srv) (tts_fresh srv) (tts_token2conns srv) (tts_handle2conns srv)"
    by (simp add: tts_inv_def)
  show ?thesis
  proof
    assume "tts_token2conns srv token = Some r"
    from shared_first [OF sh this] show "\<exists>c. tts_heap srv r = Some c \<and> tt_token c = token \<and> tts_handle2conns srv (tt_local c) = Some r" .
  next
    assume "\<exists>c. tts_heap srv r = Some c \<and> tt_token c = token \<and> tts_handle2conns srv (tt_local c) = Some r"
    then obtain c where c: "tts_heap srv r = Some c" "tt_token c = token" "tts_handle2conns srv (tt_local c) = Some r" by blast
    from shared_second [OF sh c(3)] c(1,2) show "tts_token2conns srv token = Some r" by auto
  qed
qed


section \<open>An example\<close>

lemma first_tcp_token: "tun_next_token TUN_CHANNEL_TCP TUN_MIN_INDEX = Some (8, 3)"
  by (simp add: tun_next_token_def tun_next_index_def add_checked_def mul_checked_def TUN_MIN_INDEX_def TUN_CHANNEL_CNT_def TUN_CHANNEL_TCP_def
      word_le_nat_alt unat_TUN_MAX)

definition one_tcp :: "tun_tcp \<Rightarrow> tun_tcp_server" where
  "one_tcp c = \<lparr>tts_heap = [0 \<mapsto> c], tts_fresh = 1, tts_token2conns = [8 \<mapsto> 0], tts_handle2conns = [20 \<mapsto> 0], tts_removed = {},
     tts_next_index = 3\<rparr>"

lemma sample_tcp_handle:
  assumes "sim_now w = 0" and "full_pool pool"
  shows "\<exists>c x. tun_tcp_handle sim_sys recv_smol spare tun_tcp_server_new pool resolver (wakers_new 0) 20 (TunEvent 1) w =
     Some (one_tcp c, x) \<and> tt_local c = 20 \<and> tt_token c = 8"
proof -
  obtain t p where g: "pool_get sim_sys pool resolver w = Some (Some t, p, resolver, w)"
    using full_pool_get [OF assms(2), of sim_sys resolver w] by blast
  show ?thesis
    using assms(1) by (auto simp: tun_tcp_handle_def get_tcp_def recv_smol_def sim_smol_def tun_tcp_entry_def tun_tcp_server_new_def
        first_tcp_token g unwrap_def tls_set_token_def tun_tcp_new_def tun_tcp_local_def local_to_remote_def check_half_close_def
        reregister_local_def get_wakers_def wakers_new_def tun_note_closed_def tun_tcp_is_closed_def one_tcp_def)
qed

theorem tun_tcp_tables_witness:
  "\<exists>c. tts_token2conns (one_tcp c) 8 = Some 0 \<longleftrightarrow>
     (\<exists>d. tts_heap (one_tcp c) 0 = Some d \<and> tt_token d = 8 \<and> tts_handle2conns (one_tcp c) (tt_local d) = Some 0)"
proof -
  let ?w = "sim_idle\<lparr>sim_rx := (\<lambda>_. []), sim_dgrams_in := sim_dgrams_in recv_world\<rparr>"
  have "sim_now ?w = 0" by (simp add: sim_idle_def)
  from sample_tcp_handle [OF this sample_pool_full, of "\<lambda>_. 1500" "resolver_new 3 None"] obtain c x where
    h: "tun_tcp_handle sim_sys recv_smol (\<lambda>_. 1500) tun_tcp_server_new sample_pool (resolver_new 3 None) (wakers_new 0) 20 (TunEvent 1) ?w =
     Some (one_tcp c, x)" by blast
  have "tun_tcp_server_local events_order sim_sys recv_smol (\<lambda>_. 1500) tun_tcp_server_new sample_pool (resolver_new 3 None) (wakers_new 0) recv_world =
      Some (one_tcp c, x)"
    unfolding tun_tcp_server_local_def recv_events by (cases x) (simp add: events_order_def h)
  from tts_local [OF tts_new this] have "tts_reachable sim_sys recv_smol (one_tcp c)" .
  moreover have "tts_fresh (one_tcp c) + 2 < (2 ^ 64 - 1) div 3" by (simp add: one_tcp_def)
  ultimately show ?thesis using tun_tcp_tables [of sim_sys recv_smol "one_tcp c" 8 0] by blast
qed

end
