(* ===== verification/Tun_Device.thy ===== *)
theory Tun_Device
  imports Tun_Base Ip_Set Config
begin

text \<open>
  The device of the tunnel (\<open>src/src/wintun/tun.rs\<close>): every packet that the driver delivers is looked at before the
  user-space stack sees it, so that a socket for its destination exists by then. The packet formats are those of
  \<open>smoltcp::wire\<close>, whose \<open>new_checked\<close> functions are the fields of \<open>wire\<close>; the session with the driver is
  \<open>'w session\<close>.
\<close>

section \<open>Packets\<close>

datatype ip_version = VersionIpv4 | VersionIpv6 | VersionOther

datatype ip_protocol = ProtocolUdp | ProtocolTcp | ProtocolOther

record ip_packet =
  pk_src_addr :: ip_address
  pk_dst_addr :: ip_address
  pk_payload :: bytes
  pk_protocol :: ip_protocol

record udp_packet =
  up_src_port :: u16
  up_dst_port :: u16

record tcp_packet =
  tp_src_port :: u16
  tp_dst_port :: u16
  tp_syn :: bool
  tp_ack :: bool

record wire =
  of_packet :: "bytes \<Rightarrow> ip_version option"
  ipv4_new_checked :: "bytes \<Rightarrow> ip_packet option"
  ipv6_new_checked :: "bytes \<Rightarrow> ip_packet option"
  udp_new_checked :: "bytes \<Rightarrow> udp_packet option"
  tcp_new_checked :: "bytes \<Rightarrow> tcp_packet option"
  v4_tests :: smoltcp_v4

text \<open>The two \<open>match\<close> expressions at the start of \<open>preprocess_packet\<close>; \<open>Some None\<close> is the early \<open>return\<close>.\<close>

definition ip_part :: "wire \<Rightarrow> bytes \<Rightarrow> ip_packet option rs" where
  "ip_part W bs = do {
     version \<leftarrow> unwrap (of_packet W bs);
     (case version of
        VersionIpv4 \<Rightarrow> do { p \<leftarrow> unwrap (ipv4_new_checked W bs); Some (Some p) }
      | VersionIpv6 \<Rightarrow> do { p \<leftarrow> unwrap (ipv6_new_checked W bs); Some (Some p) }
      | VersionOther \<Rightarrow> Some None) }"

definition transport_part :: "wire \<Rightarrow> ip_packet \<Rightarrow> (u16 \<times> u16 \<times> bool option) option rs" where
  "transport_part W p =
     (case pk_protocol p of
        ProtocolUdp \<Rightarrow> do {
          u \<leftarrow> unwrap (udp_new_checked W (pk_payload p));
          Some (Some (up_src_port u, up_dst_port u, None)) }
      | ProtocolTcp \<Rightarrow> do {
          t \<leftarrow> unwrap (tcp_new_checked W (pk_payload p));
          Some (Some (tp_src_port t, tp_dst_port t, Some (tp_syn t \<and> \<not> tp_ack t))) }
      | ProtocolOther \<Rightarrow> Some None)"

section \<open>Sockets for new destinations\<close>

definition listen_tcp :: "'w smol \<Rightarrow> opts \<Rightarrow> ip_endpoint \<Rightarrow> wakers \<Rightarrow> 'w \<Rightarrow> (wakers \<times> 'w) rs" where
  "listen_tcp M cfg dst_endpoint wk w = do {
     args \<leftarrow> get_wintun_args cfg;
     let (h, w) = add_tcp_socket M (wa_tcp_rx_buffer_size args) (wa_tcp_tx_buffer_size args) w;
     get_tcp M h w;
     ((_, tx), wk) \<leftarrow> get_wakers wk h;
     let w = register_send_waker M h tx w;
     let (r, w) = ts_listen M h dst_endpoint w;
     unwrap r;
     Some (wk, ts_no_delay M h w) }"

text \<open>Both buffers of a UDP socket get the number of packet slots configured for the receiving side.\<close>

definition bind_udp :: "'w smol \<Rightarrow> opts \<Rightarrow> ip_endpoint \<Rightarrow> wakers \<Rightarrow> 'w \<Rightarrow> (wakers \<times> 'w) rs" where
  "bind_udp M cfg dst_endpoint wk w = do {
     args \<leftarrow> get_wintun_args cfg;
     unwrap (us_bind M dst_endpoint);
     let (h, w) = add_udp_socket M (wa_udp_rx_meta_size args, wa_udp_rx_buffer_size args)
       (wa_udp_rx_meta_size args, wa_udp_tx_buffer_size args) dst_endpoint w;
     get_udp M h w;
     ((rx, tx), wk) \<leftarrow> get_wakers wk h;
     let w = register_recv_waker M h rx w;
     let w = register_send_waker M h tx w;
     Some (wk, w) }"

definition preprocess_packet :: "wire \<Rightarrow> 'w smol \<Rightarrow> opts \<Rightarrow> bytes \<Rightarrow> wakers \<Rightarrow> wakers \<Rightarrow> 'w \<Rightarrow> (wakers \<times> wakers \<times> 'w) rs" where
  "preprocess_packet W M cfg packet tcp_wakers udp_wakers w = do {
     p \<leftarrow> ip_part W packet;
     (case p of
        None \<Rightarrow> Some (tcp_wakers, udp_wakers, w)
      | Some p \<Rightarrow> do {
          t \<leftarrow> transport_part W p;
          (case t of
             None \<Rightarrow> Some (tcp_wakers, udp_wakers, w)
           | Some (src_port, dst_port, connect) \<Rightarrow>
               let dst_endpoint = \<lparr>addr = pk_dst_addr p, port = dst_port\<rparr>
               in if is_private (v4_tests W) dst_endpoint then Some (tcp_wakers, udp_wakers, w)
                  else case connect of
                    Some syn \<Rightarrow>
                      if syn then do {
                        (tcp_wakers, w) \<leftarrow> listen_tcp M cfg dst_endpoint tcp_wakers w;
                        Some (tcp_wakers, udp_wakers, w) }
                      else Some (tcp_wakers, udp_wakers, w)
                  | None \<Rightarrow>
                      if dst_endpoint \<notin> set (us_endpoints M w) then do {
                        (udp_wakers, w) \<leftarrow> bind_udp M cfg dst_endpoint udp_wakers w;
                        Some (tcp_wakers, udp_wakers, w) }
                      else Some (tcp_wakers, udp_wakers, w)) }) }"

section \<open>The device\<close>

record 'w session =
  try_receive :: "'w \<Rightarrow> bytes option option \<times> 'w"
  allocate_send_packet :: "u16 \<Rightarrow> 'w \<Rightarrow> bytes option \<times> 'w"
  send_packet :: "bytes \<Rightarrow> 'w \<Rightarrow> 'w"

definition tun_receive :: "'w session \<Rightarrow> wire \<Rightarrow> 'w smol \<Rightarrow> opts \<Rightarrow> wakers \<times> wakers \<Rightarrow> 'w \<Rightarrow>
    (bytes option \<times> (wakers \<times> wakers) \<times> 'w) rs" where
  "tun_receive N W M cfg wks w =
     (case try_receive N w of
        (Some (Some packet), w) \<Rightarrow> do {
          (tcp_wakers, udp_wakers, w) \<leftarrow> preprocess_packet W M cfg packet (fst wks) (snd wks) w;
          Some (Some packet, (tcp_wakers, udp_wakers), w) }
      | (_, w) \<Rightarrow> Some (None, wks, w))"

definition rx_consume :: "bytes \<Rightarrow> (bytes \<Rightarrow> (smol_error + 'r) \<times> bytes) \<Rightarrow> smol_error + 'r" where
  "rx_consume packet f = fst (f packet)"

definition tx_consume :: "'w session \<Rightarrow> nat \<Rightarrow> (bytes \<Rightarrow> (smol_error + 'r) \<times> bytes) \<Rightarrow> 'w \<Rightarrow> (smol_error + 'r) \<times> 'w" where
  "tx_consume N len f w =
     (case allocate_send_packet N (of_nat len) w of
        (Some packet, w) \<Rightarrow> (case f packet of (r, packet) \<Rightarrow> (r, send_packet N packet w))
      | (None, w) \<Rightarrow> (Inl Exhausted, w))"

section \<open>What the preparation of a packet guarantees\<close>

text \<open>A packet that parses.\<close>

definition well_formed :: "wire \<Rightarrow> bytes \<Rightarrow> bool" where
  "well_formed W bs \<longleftrightarrow> (case ip_part W bs of None \<Rightarrow> False | Some None \<Rightarrow> True | Some (Some p) \<Rightarrow> transport_part W p \<noteq> None)"

text \<open>What the documentation of smoltcp says of new sockets: a fresh one can be fetched, \<open>listen\<close> and \<open>bind\<close> fail only for
  the port 0 (or, which a fresh one is not, an open socket), and the endpoints of the UDP sockets grow with them.\<close>

definition stack_contract :: "'w smol \<Rightarrow> bool" where
  "stack_contract M \<longleftrightarrow>
     (\<forall>r t w h w'. add_tcp_socket M r t w = (h, w') \<longrightarrow> has_tcp M h w' \<and> us_endpoints M w' = us_endpoints M w) \<and>
     (\<forall>r t e w h w'. add_udp_socket M r t e w = (h, w') \<longrightarrow> has_udp M h w' \<and> us_endpoints M w' = us_endpoints M w @ [e]) \<and>
     (\<forall>e. port e \<noteq> 0 \<longrightarrow> us_bind M e = Some ()) \<and>
     (\<forall>h e w. port e \<noteq> 0 \<longrightarrow> fst (ts_listen M h e w) = Some () \<and> us_endpoints M (snd (ts_listen M h e w)) = us_endpoints M w) \<and>
     (\<forall>h k w. us_endpoints M (register_recv_waker M h k w) = us_endpoints M w) \<and>
     (\<forall>h k w. us_endpoints M (register_send_waker M h k w) = us_endpoints M w) \<and>
     (\<forall>h w. us_endpoints M (ts_no_delay M h w) = us_endpoints M w)"

lemma public_endpoint: "\<not> is_private V e \<Longrightarrow> port e \<noteq> 0 \<and> (\<exists>ip. addr e = SmolIpv4 ip)"
  by (auto simp: is_private_def split: ip_address.splits ipv4_addr.splits)

lemma listen_tcp_total:
  assumes "stack_contract M" and "get_wintun_args cfg = Some args" and "port e \<noteq> 0"
  shows "\<exists>wk' w'. listen_tcp M cfg e wk w = Some (wk', w') \<and> us_endpoints M w' = us_endpoints M w"
proof -
  obtain h w1 where a: "add_tcp_socket M (wa_tcp_rx_buffer_size args) (wa_tcp_tx_buffer_size args) w = (h, w1)"
    by (cases "add_tcp_socket M (wa_tcp_rx_buffer_size args) (wa_tcp_tx_buffer_size args) w")
  obtain p wk' where g: "get_wakers wk h = Some (p, wk')" using get_wakers_total by blast
  let ?w = "register_send_waker M h (snd p) w1"
  obtain w2 where l: "ts_listen M h e ?w = (Some (), w2)" "us_endpoints M w2 = us_endpoints M ?w"
    using assms(1,3) unfolding stack_contract_def by (metis prod.collapse)
  show ?thesis using assms a g l
    by (cases p) (auto simp: listen_tcp_def get_tcp_def stack_contract_def unwrap_def)
qed

lemma bind_udp_total:
  assumes "stack_contract M" and "get_wintun_args cfg = Some args" and "port e \<noteq> 0"
  shows "\<exists>wk' w'. bind_udp M cfg e wk w = Some (wk', w') \<and> us_endpoints M w' = us_endpoints M w @ [e]"
proof -
  let ?r = "(wa_udp_rx_meta_size args, wa_udp_rx_buffer_size args)" and ?t = "(wa_udp_rx_meta_size args, wa_udp_tx_buffer_size args)"
  obtain h w1 where a: "add_udp_socket M ?r ?t e w = (h, w1)" by (cases "add_udp_socket M ?r ?t e w")
  obtain p wk' where g: "get_wakers wk h = Some (p, wk')" using get_wakers_total by blast
  show ?thesis using assms a g
    by (cases p) (auto simp: bind_udp_def get_udp_def stack_contract_def unwrap_def Let_def)
qed

text \<open>The destination of a UDP packet that the tunnel serves.\<close>

definition udp_destination :: "wire \<Rightarrow> bytes \<Rightarrow> ip_endpoint option" where
  "udp_destination W bs =
     (case ip_part W bs of
        Some (Some p) \<Rightarrow>
          (case transport_part W p of
             Some (Some (s, d, None)) \<Rightarrow>
               if is_private (v4_tests W) \<lparr>addr = pk_dst_addr p, port = d\<rparr> then None else Some \<lparr>addr = pk_dst_addr p, port = d\<rparr>
           | _ \<Rightarrow> None)
      | _ \<Rightarrow> None)"

text \<open>C18. Packets that parse never stop the tunnel, and every destination gets one socket: preparing a well-formed packet
  returns, whatever its addresses, ports and flags are; the public IPv4 destination of a UDP packet has a socket
  afterwards, made only if there was none; and nothing else, in particular nothing private and nothing of IPv6, adds
  or removes a UDP socket.\<close>

theorem preprocess_packet_sockets:
  assumes "stack_contract M" and "get_wintun_args cfg = Some args" and "well_formed W packet"
  shows "\<exists>twk uwk w'. preprocess_packet W M cfg packet tcp_wakers udp_wakers w = Some (twk, uwk, w') \<and>
    us_endpoints M w' = us_endpoints M w @
      (case udp_destination W packet of None \<Rightarrow> [] | Some e \<Rightarrow> if e \<in> set (us_endpoints M w) then [] else [e])"
proof -
  from assms(3) obtain x where ip: "ip_part W packet = Some x" by (auto simp: well_formed_def split: option.splits)
  show ?thesis
  proof (cases x)
    case None
    with ip show ?thesis by (simp add: preprocess_packet_def udp_destination_def)
  next
    case (Some p)
    with assms(3) ip obtain y where t: "transport_part W p = Some y" by (auto simp: well_formed_def)
    show ?thesis
    proof (cases y)
      case None
      with ip Some t show ?thesis by (simp add: preprocess_packet_def udp_destination_def)
    next
      case y: (Some z)
      obtain s d conn where z: "z = (s, d, conn)" by (cases z)
      let ?e = "\<lparr>addr = pk_dst_addr p, port = d\<rparr>"
      note listen = listen_tcp_total [OF assms(1,2), of ?e tcp_wakers w] and bind = bind_udp_total [OF assms(1,2), of ?e udp_wakers w]
      from listen bind public_endpoint [of "v4_tests W" ?e] ip Some t y z show ?thesis
        by (auto simp: preprocess_packet_def udp_destination_def Let_def split: option.splits)
    qed
  qed
qed

text \<open>A packet that does not parse stops the program: whatever the driver delivers with a header that smoltcp rejects,
  such as a fragment whose payload is no complete UDP header, is unwrapped.\<close>

theorem malformed_packet_panics:
  assumes "\<not> well_formed W packet" and "try_receive N w = (Some (Some packet), w')"
  shows "tun_receive N W M cfg wks w = None"
proof -
  have "preprocess_packet W M cfg packet (fst wks) (snd wks) w' = None"
    using assms(1) by (auto simp: well_formed_def preprocess_packet_def split: option.splits bind_splits)
  with assms(2) show ?thesis by (simp add: tun_receive_def)
qed

section \<open>An example\<close>

text \<open>A stack that keeps the endpoints of its UDP sockets and nothing else.\<close>

definition listing_smol :: "ip_endpoint list smol" where
  "listing_smol = \<lparr>channel_try_recv = (\<lambda>k w. (None, w)), has_tcp = (\<lambda>h w. True), has_udp = (\<lambda>h w. True),
     add_tcp_socket = (\<lambda>r t w. (0, w)), add_udp_socket = (\<lambda>r t e w. (length w, w @ [e])), remove_socket = (\<lambda>h w. w),
     register_recv_waker = (\<lambda>h k w. w), register_send_waker = (\<lambda>h k w. w),
     ts_listen = (\<lambda>h e w. (if port e = 0 then None else Some (), w)), ts_no_delay = (\<lambda>h w. w),
     ts_may_recv = (\<lambda>h w. False), ts_may_send = (\<lambda>h w. False), ts_is_active = (\<lambda>h w. False), ts_is_listening = (\<lambda>h w. True),
     ts_is_closed = (\<lambda>h w. False), ts_send_queue = (\<lambda>h w. 0), ts_local_endpoint = (\<lambda>h w. \<lparr>addr = SmolOther, port = 0\<rparr>),
     ts_recv_slice = (\<lambda>h n w. (Inl Exhausted, w)), ts_send_slice = (\<lambda>h d w. (Inl Exhausted, w)), ts_close = (\<lambda>h w. w),
     ts_abort = (\<lambda>h w. w), us_bind = (\<lambda>e. if port e = 0 then None else Some ()),
     us_endpoint = (\<lambda>h w. if h < length w then w ! h else \<lparr>addr = SmolOther, port = 0\<rparr>), us_endpoints = (\<lambda>w. w),
     us_recv = (\<lambda>h w. (Inl Exhausted, w)), us_send_slice = (\<lambda>h d e w. (Inl Exhausted, w)), us_close = (\<lambda>h w. w)\<rparr>"

lemma listing_contract: "stack_contract listing_smol"
  by (simp add: stack_contract_def listing_smol_def)

text \<open>Headers without options, and a UDP packet to port 53 of 8.8.8.8.\<close>

definition u16_at :: "bytes \<Rightarrow> nat \<Rightarrow> u16" where
  "u16_at bs i = of_nat (unat (bs ! i) * 256 + unat (bs ! Suc i))"

definition plain_wire :: wire where
  "plain_wire = \<lparr>
     of_packet = (\<lambda>bs. case bs of [] \<Rightarrow> None | b # _ \<Rightarrow> Some (if b = 0x45 then VersionIpv4 else VersionOther)),
     ipv4_new_checked = (\<lambda>bs. if length bs < 20 then None
       else Some \<lparr>pk_src_addr = SmolIpv4 (Ipv4Addr (bs ! 12) (bs ! 13) (bs ! 14) (bs ! 15)),
         pk_dst_addr = SmolIpv4 (Ipv4Addr (bs ! 16) (bs ! 17) (bs ! 18) (bs ! 19)), pk_payload = drop 20 bs,
         pk_protocol = if bs ! 9 = 17 then ProtocolUdp else if bs ! 9 = 6 then ProtocolTcp else ProtocolOther\<rparr>),
     ipv6_new_checked = (\<lambda>bs. None),
     udp_new_checked = (\<lambda>bs. if length bs < 8 then None else Some \<lparr>up_src_port = u16_at bs 0, up_dst_port = u16_at bs 2\<rparr>),
     tcp_new_checked = (\<lambda>bs. if length bs < 20 then None else Some \<lparr>tp_src_port = u16_at bs 0, tp_dst_port = u16_at bs 2,
       tp_syn = bit (bs ! 13) 1, tp_ack = bit (bs ! 13) 4\<rparr>),
     v4_tests = smoltcp_v4_std\<rparr>"

abbreviation dns_packet :: bytes where
  "dns_packet \<equiv> [0x45, 0, 0, 28, 0, 0, 0, 0, 64, 17, 0, 0, 10, 0, 0, 2, 8, 8, 8, 8, 200, 0, 0, 53, 0, 8, 0, 0]"

definition tun_cfg :: opts where
  "tun_cfg = sample_ready\<lparr>mode := mode.Wintun \<lparr>wa_wintun = [], wa_name = [], wa_buffer_size = 0, wa_hostname = [97], wa_port = 443, wa_pool_size = 1,
     wa_mtu = 1500, wa_udp_rx_meta_size = 200, wa_udp_rx_buffer_size = 10240, wa_udp_tx_meta_size = 10000,
     wa_udp_tx_buffer_size = 1024000, wa_tcp_rx_buffer_size = 102400, wa_tcp_tx_buffer_size = 102400, wa_route_ipset = None,
     wa_inverse_route = False, wa_dns_server_addr = None\<rparr>\<rparr>"

theorem preprocess_packet_sockets_witness:
  "\<exists>twk uwk. preprocess_packet plain_wire listing_smol tun_cfg dns_packet (wakers_new 0) (wakers_new 1) [] =
     Some (twk, uwk, [\<lparr>addr = SmolIpv4 (Ipv4Addr 8 8 8 8), port = 53\<rparr>])"
proof -
  have ip: "ip_part plain_wire dns_packet = Some (Some \<lparr>pk_src_addr = SmolIpv4 (Ipv4Addr 10 0 0 2), pk_dst_addr = SmolIpv4 (Ipv4Addr 8 8 8 8),
      pk_payload = [200, 0, 0, 53, 0, 8, 0, 0], pk_protocol = ProtocolUdp\<rparr>)"
    by (simp add: ip_part_def plain_wire_def unwrap_def)
  have tr: "transport_part plain_wire \<lparr>pk_src_addr = SmolIpv4 (Ipv4Addr 10 0 0 2), pk_dst_addr = SmolIpv4 (Ipv4Addr 8 8 8 8),
      pk_payload = [200, 0, 0, 53, 0, 8, 0, 0], pk_protocol = ProtocolUdp\<rparr> = Some (Some (51200, 53, None))"
    by (simp add: transport_part_def plain_wire_def unwrap_def u16_at_def)
  have a: "\<exists>args. get_wintun_args tun_cfg = Some args" by (simp add: get_wintun_args_def tun_cfg_def)
  have "\<not> is_private (v4_tests plain_wire) \<lparr>addr = SmolIpv4 (Ipv4Addr 8 8 8 8), port = 53\<rparr>"
    by (simp add: is_private_def plain_wire_def smoltcp_v4_std_def)
  then have d: "udp_destination plain_wire dns_packet = Some \<lparr>addr = SmolIpv4 (Ipv4Addr 8 8 8 8), port = 53\<rparr>"
    by (simp add: udp_destination_def ip tr)
  from a obtain args where "get_wintun_args tun_cfg = Some args" by blast
  from preprocess_packet_sockets [OF listing_contract this, of plain_wire dns_packet "wakers_new 0" "wakers_new 1" "[]"] show ?thesis
    by (simp add: well_formed_def ip tr d) (simp add: listing_smol_def)
qed

text \<open>The same packet cut behind its first header.\<close>

theorem malformed_packet_panics_witness:
  "tun_receive \<lparr>try_receive = (\<lambda>w. (Some (Some (take 24 dns_packet)), w)), allocate_send_packet = (\<lambda>n w. (None, w)), send_packet = (\<lambda>p w. w)\<rparr>
     plain_wire listing_smol tun_cfg (wakers_new 0, wakers_new 1) [] = None"
proof (rule malformed_packet_panics)
  show "\<not> well_formed plain_wire (take 24 dns_packet)"
    by (simp add: well_formed_def ip_part_def transport_part_def plain_wire_def unwrap_def)
qed simp

end
