(* ===== verification/Tun.thy ===== *)
theory Tun
  imports Tun_Tcp_Table Tun_Device Routes Dns_Server Resolver
begin

text \<open>
  The tunnel as a whole (\<open>run\<close> in \<open>src/src/wintun/mod.rs\<close>): the start, with the routes it installs, and the event
  loop over the user-space stack, the two servers, the idle pool and the resolver.
\<close>

section \<open>Start\<close>

text \<open>The driver (the crate \<open>wintun\<close>): loading its library, creating the adapter, opening a session, and the index of the
  adapter.\<close>

record 'w driver =
  load_from_path :: "bytes \<Rightarrow> 'w \<Rightarrow> bool \<times> 'w"
  create_adapter :: "bytes \<Rightarrow> 'w \<Rightarrow> bool \<times> 'w"
  start_session :: "'w \<Rightarrow> bool \<times> 'w"
  adapter_index :: "'w \<Rightarrow> u32 option"

text \<open>The server itself stays reachable through the main adapter.\<close>

definition protect_server :: "'w winapi \<Rightarrow> opts \<Rightarrow> 'w \<Rightarrow> (unit tr \<times> 'w) rs" where
  "protect_server A cfg w = do {
     main \<leftarrow> get_main_adapter_gwif A w;
     Some (case main of
        None \<Rightarrow> (Inr (), w)
      | Some (main_gw, main_index) \<Rightarrow>
          (case parse_ipv4 main_gw of
             None \<Rightarrow> (Inl AddrParse, w)
           | Some gw \<Rightarrow>
               (case back_addr cfg of
                  Some (V4 ip p) \<Rightarrow> route_add_with_if A (ipv4_to_u32 ip) (NOT 0) (ipv4_to_u32 gw) main_index w
                | _ \<Rightarrow> (Inr (), w)))) }"

text \<open>\<open>name_ok\<close> is the conversion of the host name to a \<open>ServerName\<close> of rustls.\<close>

definition prepare_idle_pool :: "'w sys \<Rightarrow> (bytes \<Rightarrow> bool) \<Rightarrow> opts \<Rightarrow> dns_resolver \<Rightarrow> 'w \<Rightarrow> ((idle_pool \<times> dns_resolver) tr \<times> 'w) rs" where
  "prepare_idle_pool S name_ok cfg resolver w = do {
     args \<leftarrow> get_wintun_args cfg;
     if \<not> name_ok (wa_hostname args) then Some (Inl InvalidDnsName, w)
     else do {
       pool \<leftarrow> pool_new cfg (wa_pool_size args + 1) (wa_port args) (wa_hostname args);
       let pool = pool_init_index pool TUN_CHANNEL_CNT TUN_CHANNEL_IDLE TUN_MIN_INDEX TUN_MAX_INDEX;
       (pool, resolver, w) \<leftarrow> pool_init S pool resolver w;
       Some (Inr (pool, resolver), w) } }"

record tun_loop =
  tl_tcp :: tun_tcp_server
  tl_udp :: tun_udp_server
  tl_pool :: idle_pool
  tl_resolver :: dns_resolver
  tl_tcp_wakers :: wakers
  tl_udp_wakers :: wakers
  tl_last_check_time :: instant

text \<open>The routes of \<open>run\<close>: the one to the server and those of the address list.\<close>

definition tun_routes :: "'w winapi \<Rightarrow> 'w driver \<Rightarrow> opts \<Rightarrow> (bytes \<Rightarrow> bytes list io) \<Rightarrow> 'w \<Rightarrow> (unit tr \<times> 'w) rs" where
  "tun_routes A D cfg open_file w = do {
     args \<leftarrow> get_wintun_args cfg;
     (r, w) \<leftarrow> protect_server A cfg w;
     (case r of
        Inl e \<Rightarrow> Some (Inl e, w)
      | Inr _ \<Rightarrow>
          (case adapter_index D w of
             None \<Rightarrow> Some (Inl Wintun, w)
           | Some index \<Rightarrow>
               (case wa_route_ipset args of
                  None \<Rightarrow> Some (Inr (), w)
                | Some file \<Rightarrow> apply_ipset A cfg (open_file file) index (wa_inverse_route args) w))) }"

text \<open>Everything in front of the loop. Creating the poll, its waker, the TLS configuration and the interface are calls
  into the libraries without effect on the state below.\<close>

definition tun_start :: "'w sys \<Rightarrow> 'w winapi \<Rightarrow> 'w driver \<Rightarrow> (bytes \<Rightarrow> bool) \<Rightarrow> ('w \<Rightarrow> 'w) \<Rightarrow> opts \<Rightarrow> (bytes \<Rightarrow> bytes list io) \<Rightarrow> 'w \<Rightarrow>
    (tun_loop tr \<times> 'w) rs" where
  "tun_start S A D name_ok sleep cfg open_file w = do {
     args \<leftarrow> get_wintun_args cfg;
     let (ok, w) = load_from_path D (wa_wintun args) w;
     if \<not> ok then Some (Inl LibLoading, w)
     else do {
       let (ok, w) = create_adapter D (wa_name args) w;
       if \<not> ok then Some (Inl Wintun, w)
       else do {
         let (ok, w) = start_session D w;
         if \<not> ok then Some (Inl Wintun, w)
         else do {
           (r, w) \<leftarrow> tun_routes A D cfg open_file w;
           (case r of
              Inl e \<Rightarrow> Some (Inl e, w)
            | Inr _ \<Rightarrow> do {
                (r, w) \<leftarrow> prepare_idle_pool S name_ok cfg (resolver_new TUN_RESOLVER (wa_dns_server_addr args)) w;
                (case r of
                   Inl e \<Rightarrow> Some (Inl e, w)
                 | Inr (pool, resolver) \<Rightarrow> do {
                     w \<leftarrow> wait_adapter A sleep (wa_name args) w;
                     ip \<leftarrow> get_adapter_ip A (wa_name args) w;
                     unwrap ip;
                     let (now, w) = instant_now S w;
                     Some (Inr \<lparr>tl_tcp = tun_tcp_server_new, tl_udp = tun_udp_server_new, tl_pool = pool, tl_resolver = resolver,
                       tl_tcp_wakers = wakers_new 1, tl_udp_wakers = wakers_new 0, tl_last_check_time = now\<rparr>, w) }) }) } } } }"

section \<open>The loop\<close>

definition tun_handle_event :: "'w sys \<Rightarrow> 'w smol \<Rightarrow> smoltcp_ops \<Rightarrow> (bytes \<Rightarrow> nat) \<Rightarrow> opts \<Rightarrow> tun_loop \<Rightarrow> net_event \<Rightarrow> 'w \<Rightarrow> (tun_loop \<times> 'w) rs" where
  "tun_handle_event S M SM spare cfg l event w =
     (if ev_token event = TUN_RESOLVER then do {
        (resolver, pool, w) \<leftarrow> consume S (\<lambda>_ ip pool w. Some (pool_resolve pool ip, w)) (tl_resolver l) (tl_pool l) w;
        Some (l\<lparr>tl_resolver := resolver, tl_pool := pool\<rparr>, w) }
      else if ev_token event mod TUN_CHANNEL_CNT = TUN_CHANNEL_IDLE then do {
        (pool, w) \<leftarrow> pool_ready S (tl_pool l) event w;
        Some (l\<lparr>tl_pool := pool\<rparr>, w) }
      else if ev_token event mod TUN_CHANNEL_CNT = TUN_CHANNEL_UDP then do {
        (udp, w) \<leftarrow> tun_udp_server_remote S M SM spare cfg (tl_udp l) event w;
        Some (l\<lparr>tl_udp := udp\<rparr>, w) }
      else do {
        (tcp, wk, w) \<leftarrow> tun_tcp_server_remote S M spare cfg (tl_tcp l) (tl_tcp_wakers l) event w;
        Some (l\<lparr>tl_tcp := tcp, tl_tcp_wakers := wk\<rparr>, w) })"

fun tun_events :: "'w sys \<Rightarrow> 'w smol \<Rightarrow> smoltcp_ops \<Rightarrow> (bytes \<Rightarrow> nat) \<Rightarrow> opts \<Rightarrow> tun_loop \<Rightarrow> net_event list \<Rightarrow> 'w \<Rightarrow> (tun_loop \<times> 'w) rs" where
  "tun_events S M SM spare cfg l [] w = Some (l, w)"
| "tun_events S M SM spare cfg l (e # es) w = do {
     (l, w) \<leftarrow> tun_handle_event S M SM spare cfg l e w;
     tun_events S M SM spare cfg l es w }"

text \<open>The orders in which the hash tables are iterated.\<close>

record orders =
  or_events :: "(handle \<rightharpoonup> tun_event) \<Rightarrow> handle list"
  or_tokens :: "(usize \<rightharpoonup> nat) \<Rightarrow> usize list"
  or_closed_handles :: "handle set \<Rightarrow> handle list"
  or_closed_tokens :: "usize set \<Rightarrow> usize list"
  or_handles :: "(handle \<rightharpoonup> instant \<times> nat) \<Rightarrow> handle list"

text \<open>What happens once a minute.\<close>

definition tun_sweep :: "orders \<Rightarrow> 'w sys \<Rightarrow> 'w smol \<Rightarrow> tun_loop \<Rightarrow> instant \<Rightarrow> 'w \<Rightarrow> (tun_loop \<times> 'w) rs" where
  "tun_sweep ord S M l now w = do {
     (tcp, w) \<leftarrow> tun_tcp_check_timeout (or_tokens ord) (or_closed_handles ord) S M (tl_tcp l) now DummyWaker w;
     (udp, w) \<leftarrow> tun_udp_check_timeout (or_handles ord) M (tl_udp l) now DummyWaker w;
     (pool, w) \<leftarrow> pool_check_timeout S (tl_pool l) w;
     Some (l\<lparr>tl_tcp := tcp, tl_udp := udp, tl_pool := pool, tl_last_check_time := now\<rparr>, w) }"

text \<open>\<open>Interface::poll\<close> of smoltcp, which calls back into the device, and the wait of \<open>mio\<close> for events.\<close>

type_synonym 'w iface_poll =
  "(wakers \<times> wakers \<Rightarrow> 'w \<Rightarrow> (bytes option \<times> (wakers \<times> wakers) \<times> 'w) rs) \<Rightarrow> wakers \<times> wakers \<Rightarrow> 'w \<Rightarrow> ((wakers \<times> wakers) \<times> 'w) rs"

text \<open>One round; \<open>Inl\<close> is the error with which \<open>run\<close> ends.\<close>

definition tun_round :: "orders \<Rightarrow> 'w sys \<Rightarrow> 'w smol \<Rightarrow> smoltcp_ops \<Rightarrow> wire \<Rightarrow> 'w session \<Rightarrow> 'w iface_poll \<Rightarrow> ('w \<Rightarrow> net_event list io \<times> 'w) \<Rightarrow>
    (bytes \<Rightarrow> nat) \<Rightarrow> opts \<Rightarrow> tun_loop \<Rightarrow> 'w \<Rightarrow> (tun_loop tr \<times> 'w) rs" where
  "tun_round ord S M SM W N interface_poll poll_poll spare cfg l w = do {
     ((tcp_wakers, udp_wakers), w) \<leftarrow> interface_poll (tun_receive N W M cfg) (tl_tcp_wakers l, tl_udp_wakers l) w;
     (udp, pool, resolver, udp_wakers, w) \<leftarrow>
       tun_udp_server_local (or_events ord) S M (tl_udp l) (tl_pool l) (tl_resolver l) udp_wakers w;
     (tcp, pool, resolver, tcp_wakers, w) \<leftarrow>
       tun_tcp_server_local (or_events ord) S M spare (tl_tcp l) pool resolver tcp_wakers w;
     let l = l\<lparr>tl_tcp := tcp, tl_udp := udp, tl_pool := pool, tl_resolver := resolver, tl_tcp_wakers := tcp_wakers, tl_udp_wakers := udp_wakers\<rparr>;
     (case poll_poll w of
        (Inl e, w) \<Rightarrow> Some (Inl (StdIo e), w)
      | (Inr events, w) \<Rightarrow> do {
          (l, w) \<leftarrow> tun_events S M SM spare cfg l events w;
          (tcp, w) \<leftarrow> tun_tcp_remove_closed (or_closed_handles ord) M (tl_tcp l) w;
          udp \<leftarrow> tun_udp_remove_closed (or_closed_tokens ord) (tl_udp l);
          let l = l\<lparr>tl_tcp := tcp, tl_udp := udp\<rparr>;
          let (now, w) = instant_now S w;
          (l, w) \<leftarrow> (if duration_from_secs 60 < now - tl_last_check_time l then tun_sweep ord S M l now w else Some (l, w));
          Some (Inr l, w) }) }"

section \<open>The route to the server\<close>

lemma host_route_matches: "row_matches (route_row ip (NOT 0) gw ix) x \<longleftrightarrow> x = ip"
  by (simp add: route_row_matches)

text \<open>C19. The tunnel does not swallow its own traffic: when the machine has a main gateway and the server an IPv4 address,
  starting the tunnel adds exactly one route before any other, which matches the server's address only and leads
  through the main adapter to its gateway.\<close>

theorem server_route:
  assumes "route_contract A rows" and "get_main_adapter_gwif A w = Some (Some (main_gw, ix))" and "parse_ipv4 main_gw = Some gw"
    and "back_addr cfg = Some (V4 ip p)" and "protect_server A cfg w = Some (Inr u, w')"
  shows "\<exists>row. rows w' = insert row (rows w) \<and> (\<forall>x. row_matches row x \<longleftrightarrow> x = ipv4_to_u32 ip) \<and> dwForwardIfIndex row = ix \<and>
    dwForwardNextHop row = u32_to_be (ipv4_to_u32 gw)"
proof -
  have r: "route_add_with_if A (ipv4_to_u32 ip) (NOT 0) (ipv4_to_u32 gw) ix w = (Inr u, w')" using assms(2-5) by (simp add: protect_server_def)
  let ?row = "route_row (ipv4_to_u32 ip) (NOT 0) (ipv4_to_u32 gw) ix"
  have "dwForwardIfIndex ?row = ix" "dwForwardNextHop ?row = u32_to_be (ipv4_to_u32 gw)" by (simp_all add: route_row_def)
  with route_add_ok [OF assms(1) r] host_route_matches [of "ipv4_to_u32 ip"] show ?thesis by blast
qed


section \<open>Runs of the loop\<close>

text \<open>The rounds of a run, with any order of the tables, any packets and any events.\<close>

inductive tun_runs :: "'w sys \<Rightarrow> 'w smol \<Rightarrow> smoltcp_ops \<Rightarrow> tun_loop \<Rightarrow> bool" for S M SM where
  started: "tun_start S A D name_ok sleep cfg open_file w = Some (Inr l, w') \<Longrightarrow> tun_runs S M SM l"
| round: "tun_runs S M SM l \<Longrightarrow> tun_round ord S M SM W N interface_poll poll_poll spare cfg l w = Some (Inr l', w') \<Longrightarrow> tun_runs S M SM l'"

text \<open>Both servers of the loop are in states that their own operations reach.\<close>

definition servers_reachable :: "'w sys \<Rightarrow> 'w smol \<Rightarrow> smoltcp_ops \<Rightarrow> tun_loop \<Rightarrow> bool" where
  "servers_reachable S M SM l \<longleftrightarrow> tus_reachable S M SM (tl_udp l) \<and> tts_reachable S M (tl_tcp l)"

lemma tun_start_reachable:
  "tun_start S A D name_ok sleep cfg open_file w = Some (Inr l, w') \<Longrightarrow> servers_reachable S M SM l"
  by (auto simp: tun_start_def servers_reachable_def Let_def intro: tus_new tts_new split: bind_splits prod.splits if_splits sum.splits)

lemma tun_event_reachable:
  assumes "servers_reachable S M SM l" and "tun_handle_event S M SM spare cfg l e w = Some (l', w')"
  shows "servers_reachable S M SM l'"
  using assms by (auto simp: tun_handle_event_def servers_reachable_def intro: tus_remote tts_remote split: bind_splits if_splits)

lemma tun_events_reachable:
  "tun_events S M SM spare cfg l es w = Some (l', w') \<Longrightarrow> servers_reachable S M SM l \<Longrightarrow> servers_reachable S M SM l'"
  by (induction es arbitrary: l w) (auto split: bind_splits dest: tun_event_reachable)

lemma tun_sweep_reachable:
  assumes "servers_reachable S M SM l" and "tun_sweep ord S M l now w = Some (l', w')"
  shows "servers_reachable S M SM l'"
  using assms by (auto simp: tun_sweep_def servers_reachable_def split: bind_splits) (erule (1) tus_timeout, erule (1) tts_timeout)

lemma tun_local_reachable:
  assumes "servers_reachable S M SM l" and "tun_udp_server_local order S M (tl_udp l) p k j w = Some (tl_udp l', x)"
    and "tun_tcp_server_local order S M spare (tl_tcp l) p' k' j' w' = Some (tl_tcp l', y)"
  shows "servers_reachable S M SM l'"
  using assms(1) tus_local [OF _ assms(2)] tts_local [OF _ assms(3)] by (simp add: servers_reachable_def)

lemma tun_closed_reachable:
  assumes "servers_reachable S M SM l" and "tun_tcp_remove_closed sorder M (tl_tcp l) w = Some (tl_tcp l', w')"
    and "tun_udp_remove_closed torder (tl_udp l) = Some (tl_udp l')"
  shows "servers_reachable S M SM l'"
  using assms(1) tts_remove [OF _ assms(2)] tus_remove [of S M SM, OF _ assms(3)] by (simp add: servers_reachable_def)

lemma tun_round_reachable:
  assumes "servers_reachable S M SM l" and "tun_round ord S M SM W N interface_poll poll_poll spare cfg l w = Some (Inr l', w')"
  shows "servers_reachable S M SM l'"
proof -
  have "servers_reachable S M SM l4"
    if u: "tun_udp_server_local (or_events ord) S M (tl_udp l) (tl_pool l) (tl_resolver l) q w1 = Some (udp, x)"
      and t: "tun_tcp_server_local (or_events ord) S M spare (tl_tcp l) p k j w2 = Some (tcp, y)"
      and e: "tun_events S M SM spare cfg (l\<lparr>tl_tcp := tcp, tl_udp := udp, tl_pool := a, tl_resolver := b, tl_tcp_wakers := c, tl_udp_wakers := d\<rparr>) es w3 = Some (l3, w4)"
      and c: "tun_tcp_remove_closed (or_closed_handles ord) M (tl_tcp l3) w4 = Some (tl_tcp l4, w5)"
        "tun_udp_remove_closed (or_closed_tokens ord) (tl_udp l3) = Some (tl_udp l4)"
    for q w1 udp x p k j w2 tcp y a b c d es w3 l3 w4 l4 w5
  proof -
    have "servers_reachable S M SM (l\<lparr>tl_tcp := tcp, tl_udp := udp, tl_pool := a, tl_resolver := b, tl_tcp_wakers := c, tl_udp_wakers := d\<rparr>)"
      by (rule tun_local_reachable [OF assms(1)]) (use u t in auto)
    from tun_closed_reachable [OF tun_events_reachable [OF e this] c] show ?thesis .
  qed
  note step = this
  from assms(2) show ?thesis
    by (auto simp: tun_round_def Let_def split: bind_splits prod.splits sum.splits if_splits
        elim!: tun_sweep_reachable [rotated] intro: step)
qed

lemma tun_runs_reachable: "tun_runs S M SM l \<Longrightarrow> servers_reachable S M SM l"
  by (induction rule: tun_runs.induct) (auto intro: tun_start_reachable tun_round_reachable)

text \<open>Tokens and the channels by which the loop tells them apart.\<close>

lemma token_mod: "unat (t :: usize) = 3 * n + k \<Longrightarrow> k < 3 \<Longrightarrow> unat (t mod TUN_CHANNEL_CNT) = k"
  by (simp add: TUN_CHANNEL_CNT_def unat_mod_distrib)

text \<open>C8. Events find their connection: in every round of the loop, before the tokens start over, an event with the token of
  a UDP connection is handled by the UDP server and changes nothing else, one with the token of a TCP connection by the
  TCP server; neither is taken for the resolver's or for one of an idle connection.\<close>

theorem tun_dispatch:
  assumes "tun_runs S M SM l" and "tus_fresh (tl_udp l) + 2 < (2 ^ 64 - 1) div 3" and "tts_fresh (tl_tcp l) + 2 < (2 ^ 64 - 1) div 3"
  shows "(tus_token2conns (tl_udp l) (ev_token e) \<noteq> None \<longrightarrow> tun_handle_event S M SM spare cfg l e w =
      map_option (\<lambda>(udp, w'). (l\<lparr>tl_udp := udp\<rparr>, w')) (tun_udp_server_remote S M SM spare cfg (tl_udp l) e w)) \<and>
    (tts_token2conns (tl_tcp l) (ev_token e) \<noteq> None \<longrightarrow> tun_handle_event S M SM spare cfg l e w =
      map_option (\<lambda>(tcp, wk, w'). (l\<lparr>tl_tcp := tcp, tl_tcp_wakers := wk\<rparr>, w'))
        (tun_tcp_server_remote S M spare cfg (tl_tcp l) (tl_tcp_wakers l) e w))"
proof (intro conjI impI)
  have r: "tus_reachable S M SM (tl_udp l)" "tts_reachable S M (tl_tcp l)"
    using tun_runs_reachable [OF assms(1)] by (auto simp: servers_reachable_def)
  {
    assume "tus_token2conns (tl_udp l) (ev_token e) \<noteq> None"
    then obtain q where q: "tus_token2conns (tl_udp l) (ev_token e) = Some q" by blast
    have "tus_inv (tl_udp l)" using tus_reachable_inv [OF r(1)] assms(2) by (simp add: tus.bound_def unat_TUN_MAX)
    then have "unat (ev_token e) = 3 * (q + 2) + 1" using tus.inv_token [OF _ q] by (simp add: TUN_CHANNEL_UDP_def)
    with token_mod [OF this] have "ev_token e \<noteq> TUN_RESOLVER" "ev_token e mod TUN_CHANNEL_CNT = TUN_CHANNEL_UDP"
      by (auto simp: TUN_RESOLVER_def TUN_CHANNEL_UDP_def word_unat_eq_iff)
    then show "tun_handle_event S M SM spare cfg l e w =
      map_option (\<lambda>(udp, w'). (l\<lparr>tl_udp := udp\<rparr>, w')) (tun_udp_server_remote S M SM spare cfg (tl_udp l) e w)"
      by (cases "tun_udp_server_remote S M SM spare cfg (tl_udp l) e w") (auto simp: tun_handle_event_def TUN_CHANNEL_IDLE_def TUN_CHANNEL_UDP_def)
  next
    assume "tts_token2conns (tl_tcp l) (ev_token e) \<noteq> None"
    then obtain q where q: "tts_token2conns (tl_tcp l) (ev_token e) = Some q" by blast
    have "tts_inv (tl_tcp l)" using tts_reachable_inv [OF r(2)] assms(3) by (simp add: tts.bound_def unat_TUN_MAX)
    then have "unat (ev_token e) = 3 * (q + 2) + 2" using tts.inv_token [OF _ q] by (simp add: TUN_CHANNEL_TCP_def)
    with token_mod [OF this] have "ev_token e \<noteq> TUN_RESOLVER" "unat (ev_token e mod TUN_CHANNEL_CNT) = 2"
      by (auto simp: TUN_RESOLVER_def word_unat_eq_iff)
    then show "tun_handle_event S M SM spare cfg l e w =
      map_option (\<lambda>(tcp, wk, w'). (l\<lparr>tl_tcp := tcp, tl_tcp_wakers := wk\<rparr>, w'))
        (tun_tcp_server_remote S M spare cfg (tl_tcp l) (tl_tcp_wakers l) e w)"
      by (cases "tun_tcp_server_remote S M spare cfg (tl_tcp l) (tl_tcp_wakers l) e w")
         (auto simp: tun_handle_event_def TUN_CHANNEL_IDLE_def TUN_CHANNEL_UDP_def word_unat_eq_iff)
  }
qed


section \<open>An example\<close>

text \<open>Two adapters: a network card whose gateway is 10.0.0.1, and the tunnel's own.\<close>

abbreviation net_card :: ip_adapter where
  "net_card \<equiv> \<lparr>ad_AdapterName = [1, 0], ad_Description = [1, 0], ad_Index = 7, ad_Type = 6, ad_IpAddress = [49, 0],
     ad_Gateway = [49, 48, 46, 48, 46, 48, 46, 49, 0]\<rparr>"

lemma adapter_texts: "get_string [49, 48, 46, 48, 46, 48, 46, 49, 0] = Some [49, 48, 46, 48, 46, 48, 46, 49]" "get_string [49, 0] = Some [49]"
  "get_string [1, 0] = Some [1]" "unspecified_text = [48, 46, 48, 46, 48, 46, 48]"
  by code_simp+

lemma net_card_gwif:
  "get_main_adapter_gwif (table_api\<lparr>GetAdaptersInfo := (\<lambda>n w. (NO_ERROR, [net_card]))\<rparr>) w = Some (Some ([49, 48, 46, 48, 46, 48, 46, 49], 7))"
  by (simp add: get_main_adapter_gwif_def get_adapters_def table_api_def winapi_consts adapter_texts)

theorem server_route_witness:
  "\<exists>w' row. protect_server (table_api\<lparr>GetAdaptersInfo := (\<lambda>n w. (NO_ERROR, [net_card]))\<rparr>) sample_ready {} = Some (Inr (), w') \<and> w' = {row} \<and>
     (\<forall>x. row_matches row x \<longleftrightarrow> x = ipv4_to_u32 (Ipv4Addr 127 0 0 1)) \<and> dwForwardIfIndex row = 7"
proof -
  let ?A = "table_api\<lparr>GetAdaptersInfo := (\<lambda>n w. (NO_ERROR, [net_card]))\<rparr>"
  have c: "route_contract ?A (\<lambda>w. w)" by (simp add: route_contract_def table_api_def winapi_consts)
  have g: "parse_ipv4 [49, 48, 46, 48, 46, 48, 46, 49] = Some (Ipv4Addr 10 0 0 1)" by code_simp
  have b: "back_addr sample_ready = Some (V4 (Ipv4Addr 127 0 0 1) 80)" by (simp add: sample_ready_def)
  obtain w' where p: "protect_server ?A sample_ready {} = Some (Inr (), w')"
    unfolding protect_server_def net_card_gwif using b g
    by (simp add: route_add_with_if_def table_api_def route_result_def winapi_consts)
  from server_route [OF c net_card_gwif g b p] p show ?thesis by auto
qed

definition tun_api :: "sim winapi" where
  "tun_api = \<lparr>CreateIpForwardEntry = (\<lambda>row w. (NO_ERROR, w)), GetAdaptersInfo_length = (\<lambda>w. (NO_ERROR, 0)),
     GetAdaptersInfo = (\<lambda>n w. (NO_ERROR, [net_card\<lparr>ad_Type := 53\<rparr>])), IIDFromString = (\<lambda>s. (S_OK, 0)),
     GetInterfaceDnsSettings = (\<lambda>g w. (NO_ERROR, w)), SetInterfaceDnsSettings = (\<lambda>g n w. (NO_ERROR, w))\<rparr>"

definition tun_driver :: "sim driver" where
  "tun_driver = \<lparr>load_from_path = (\<lambda>f w. (True, w)), create_adapter = (\<lambda>n w. (True, w)), start_session = (\<lambda>w. (True, w)),
     adapter_index = (\<lambda>w. Some 9)\<rparr>"

lemma tun_api_ip: "get_adapter_ip tun_api [] w = Some (Some [49])"
  by (simp add: get_adapter_ip_def get_adapters_def tun_api_def winapi_consts adapter_texts)

lemma tun_api_routes: "tun_routes tun_api tun_driver tun_cfg open_file w = Some (Inr (), w)"
  by (simp add: tun_routes_def protect_server_def get_main_adapter_gwif_def get_adapters_def tun_api_def winapi_consts tun_driver_def
      get_wintun_args_def tun_cfg_def)

lemma tun_pool_indices:
  "add_checked TUN_MIN_INDEX 1 = Some 3" "add_checked 3 1 = Some (4 :: usize)" "\<not> TUN_MAX_INDEX \<le> 3" "\<not> TUN_MAX_INDEX \<le> 4"
  "mul_checked TUN_MIN_INDEX TUN_CHANNEL_CNT = Some 6" "mul_checked 3 TUN_CHANNEL_CNT = Some 9"
  "add_checked 6 TUN_CHANNEL_IDLE = Some 6" "add_checked 9 TUN_CHANNEL_IDLE = Some 9"
  by (simp_all add: add_checked_def mul_checked_def TUN_MIN_INDEX_def TUN_CHANNEL_CNT_def TUN_CHANNEL_IDLE_def word_le_nat_alt unat_TUN_MAX)

lemma tun_pool:
  "\<exists>p w'. prepare_idle_pool sim_sys (\<lambda>_. True) tun_cfg resolver sim_idle = Some (Inr (p, resolver), w') \<and> full_pool p \<and> sim_now w' = 0"
  by (simp add: prepare_idle_pool_def get_wintun_args_def tun_cfg_def pool_new_def sample_ready_def unwrap_def pool_init_index_def
      pool_init_def pool_alloc_def numeral_2_eq_2 pool_alloc_one_def pool_new_conn_def sim_fresh_def pool_next_index_def tun_pool_indices
      tls_register_def tls_conn_new_def full_pool_def sim_idle_def split: prod.splits)

lemma tun_started: "\<exists>l. tun_runs sim_sys recv_smol SM l \<and> tl_tcp l = tun_tcp_server_new \<and> tl_udp l = tun_udp_server_new \<and> full_pool (tl_pool l) \<and>
    tl_tcp_wakers l = wakers_new 1 \<and> tl_udp_wakers l = wakers_new 0 \<and> tl_last_check_time l = 0"
proof -
  have args: "get_wintun_args tun_cfg = Some (case mode tun_cfg of mode.Wintun a \<Rightarrow> a)" "wa_name (case mode tun_cfg of mode.Wintun a \<Rightarrow> a) = []"
    by (simp_all add: get_wintun_args_def tun_cfg_def)
  obtain p w' where p: "prepare_idle_pool sim_sys (\<lambda>_. True) tun_cfg (resolver_new TUN_RESOLVER (wa_dns_server_addr (case mode tun_cfg of mode.Wintun a \<Rightarrow> a)))
      sim_idle = Some (Inr (p, resolver_new TUN_RESOLVER (wa_dns_server_addr (case mode tun_cfg of mode.Wintun a \<Rightarrow> a))), w')"
    "full_pool p" "sim_now w' = 0" using tun_pool by blast
  have w: "wait_adapter tun_api (\<lambda>w. w) [] v = Some v" for v by (subst wait_adapter.simps) (simp add: tun_api_ip)
  let ?l = "\<lparr>tl_tcp = tun_tcp_server_new, tl_udp = tun_udp_server_new, tl_pool = p,
    tl_resolver = resolver_new TUN_RESOLVER (wa_dns_server_addr (case mode tun_cfg of mode.Wintun a \<Rightarrow> a)),
    tl_tcp_wakers = wakers_new 1, tl_udp_wakers = wakers_new 0, tl_last_check_time = 0\<rparr>"
  have "tun_start sim_sys tun_api tun_driver (\<lambda>_. True) (\<lambda>w. w) tun_cfg (\<lambda>_. Inr []) sim_idle = Some (Inr ?l, w')"
    unfolding tun_start_def args using p by (simp add: tun_driver_def tun_api_routes [unfolded tun_driver_def] w tun_api_ip args(2) unwrap_def)
  from tun_runs.started [OF this] p(2) show ?thesis by (intro exI [of _ ?l]) simp
qed

text \<open>A round in which a datagram of a client arrives.\<close>

lemma tun_one_round:
  "\<exists>l c. tun_runs sim_sys recv_smol SM l \<and> tl_udp l = one_conn c \<and> tl_tcp l = tun_tcp_server_new"
proof -
  obtain l where l: "tun_runs sim_sys recv_smol SM l" "tl_tcp l = tun_tcp_server_new" "tl_udp l = tun_udp_server_new" "full_pool (tl_pool l)"
    "tl_tcp_wakers l = wakers_new 1" "tl_udp_wakers l = wakers_new 0" "tl_last_check_time l = 0" using tun_started by blast
  let ?v = "sim_idle\<lparr>sim_rx := (\<lambda>_. []), sim_dgrams_in := (\<lambda>_. [])\<rparr>"
  obtain c p wk where u: "tun_udp_server_local events_order sim_sys recv_smol tun_udp_server_new (tl_pool l) (tl_resolver l) (wakers_new 0) recv_world =
      Some (one_conn c, p, tl_resolver l, wk, ?v)" using sample_local [OF l(4)] by blast
  have g: "get_events recv_smol (wakers_new 1) ?v = Some (Map.empty, ?v)"
    unfolding get_events_def by (subst get_events_loop.simps) (simp add: recv_smol_def)
  have t: "tun_tcp_server_local events_order sim_sys recv_smol (\<lambda>_. 1500) tun_tcp_server_new p (tl_resolver l) (wakers_new 1) ?v =
      Some (tun_tcp_server_new, p, tl_resolver l, wakers_new 1, ?v)"
    unfolding tun_tcp_server_local_def g by (simp add: events_order_def)
  let ?ord = "\<lparr>or_events = events_order, or_tokens = (\<lambda>_. []), or_closed_handles = (\<lambda>_. []), or_closed_tokens = (\<lambda>_. []), or_handles = (\<lambda>_. [])\<rparr>"
  let ?l = "l\<lparr>tl_tcp := tun_tcp_server_new, tl_udp := one_conn c, tl_pool := p, tl_resolver := tl_resolver l, tl_tcp_wakers := wakers_new 1, tl_udp_wakers := wk\<rparr>"
  have r: "tun_tcp_server_new\<lparr>tts_removed := {}\<rparr> = tun_tcp_server_new" "(one_conn c)\<lparr>tus_removed := {}\<rparr> = one_conn c"
    by (simp_all add: tun_tcp_server_new_def one_conn_def)
  have n: "sim_now ?v = 0" by (simp add: sim_idle_def)
  have "tun_round ?ord sim_sys recv_smol SM plain_wire
      \<lparr>try_receive = (\<lambda>w. (None, w)), allocate_send_packet = (\<lambda>n w. (None, w)), send_packet = (\<lambda>p w. w)\<rparr>
      (\<lambda>rcv wks w. Some (wks, recv_world)) (\<lambda>w. (Inr [], w)) (\<lambda>_. 1500) tun_cfg l sim_idle = Some (Inr ?l, ?v)"
    using n by (simp add: tun_round_def l u t tun_tcp_remove_closed_def tun_udp_remove_closed_def r duration_from_secs_def del: One_nat_def)
  from tun_runs.round [OF l(1) this] show ?thesis by (intro exI [of _ ?l] exI [of _ c]) simp
qed

theorem tun_dispatch_witness:
  "\<exists>l SM. tus_token2conns (tl_udp l) 7 \<noteq> None \<and>
     tun_handle_event sim_sys recv_smol SM (\<lambda>_. 1500) sample_ready l \<lparr>ev_token = 7, ev_readable = False, ev_writable = True\<rparr> sim_idle =
       map_option (\<lambda>(udp, w'). (l\<lparr>tl_udp := udp\<rparr>, w')) (tun_udp_server_remote sim_sys recv_smol SM (\<lambda>_. 1500) sample_ready (tl_udp l)
         \<lparr>ev_token = 7, ev_readable = False, ev_writable = True\<rparr> sim_idle)"
proof -
  let ?SM = "\<lparr>ipv6_from_bytes = Some, ip_address_from = (\<lambda>_. SmolOther)\<rparr>"
  obtain l c where l: "tun_runs sim_sys recv_smol ?SM l" "tl_udp l = one_conn c" "tl_tcp l = tun_tcp_server_new" using tun_one_round by blast
  have "tus_token2conns (tl_udp l) 7 \<noteq> None" "tus_fresh (tl_udp l) + 2 < (2 ^ 64 - 1) div 3" "tts_fresh (tl_tcp l) + 2 < (2 ^ 64 - 1) div 3"
    by (simp_all add: l one_conn_def tun_tcp_server_new_def)
  with tun_dispatch [OF l(1), of "\<lparr>ev_token = 7, ev_readable = False, ev_writable = True\<rparr>" "\<lambda>_. 1500" sample_ready sim_idle]
  show ?thesis by (intro exI [of _ l] exI [of _ ?SM]) simp
qed

end
