(* ===== verification/Spec2Isabelle.thy ===== *)
theory Spec2Isabelle
  imports Tls_Server Domain_Map Ip_Set Utils Proxy Proxy_Sockets Proxy_Datagrams Dns_Answers Routes Tun_Udp_Stream Tun
begin

text \<open>
  A verification library for trojan-rs (\<open>src/src\<close>), an implementation of the Trojan protocol in Rust. The
  program runs in one of four modes: as the \<^emph>\<open>server\<close>, which accepts TLS connections, serves
  authenticated requests and passes everything else to a default target; as a transparent \<^emph>\<open>proxy\<close>,
  which relays intercepted TCP connections and UDP datagrams to a server; as \<^emph>\<open>wintun\<close>, which does the
  same for the packets of a virtual network interface; and as \<^emph>\<open>dns\<close>, a forwarder that separates
  blocked from other domains.

  \<^bold>\<open>How the code is modelled.\<close> A structure is a \<open>record\<close>, an enumeration a \<open>datatype\<close>, a function a
  definition that takes and returns the state it changes. \<open>usize\<close>, \<open>u16\<close>, \<open>u32\<close> are words; arithmetic that
  panics with overflow checks is checked (\<open>add_checked\<close>, \<open>mul_checked\<close>), statistics counters wrap. The
  result type \<open>'a rs\<close> is \<open>'a option\<close>: \<open>None\<close> is a panic (an index out of range, an \<open>unwrap\<close>) or a
  loop that does not end. Errors that the code handles are values of sum types. Everything outside the
  program (sockets, poll registry, TLS sessions, clock, name service) is a field of the record \<open>'w sys\<close> of
  theory World, a function on an arbitrary state of the world; theorems that rely on documented behaviour
  of such a call name it as a hypothesis. Loops that the environment ends are partial functions into
  \<open>option\<close>; that they return is proved from a measure on the world (\<open>tls_input_finite\<close>,
  \<open>tls_output_ends\<close> and the like), never from fuel.

  \<^bold>\<open>Theories and the code they model.\<close>
  \<^item> Prelude, Rust_Std, World, Sim_World: shared lemmas, the parts of the standard library the code uses,
    the outside world with its contracts, and a concrete world for the closed examples.
  \<^item> Config (\<open>config.rs\<close>), Proto (\<open>proto.rs\<close>): options and their setup; requests, addresses and UDP frames.
    Parsing inverts generation, the conditions under which parsing panics are exact.
  \<^item> Status (\<open>status.rs\<close>): the life cycle of a connection. The trait \<open>StatusProvider\<close> is a record of its
    required methods; the locales \<open>status_laws\<close> and \<open>status_frame\<close> prove its provided methods once,
    and are interpreted for TLS connections, backends, proxied TCP and UDP connections.
  \<^item> Tls_Conn (\<open>tls_conn.rs\<close>), Tcp_Util (\<open>tcp_util.rs\<close>), Utils (\<open>utils.rs\<close>, \<open>types.rs\<close>): reading, sending and
    copying; these loops end, and conserve the bytes.
  \<^item> Backend (\<open>server/tcp_backend.rs\<close>, \<open>server/udp_backend.rs\<close>), Resolver (\<open>resolver.rs\<close>),
    Server_Connection (\<open>server/connection.rs\<close>), Tls_Server (\<open>server/tls_server.rs\<close>, \<open>server/mod.rs\<close>): the
    server, from one connection's state machine to a round of the event loop. No unauthenticated client can
    make it panic; data is forwarded unchanged and in order; the tables stay well-formed.
  \<^item> Index_Alloc, Conn_Table: the locales of index allocation and of connection tables, which the server,
    the pool and the proxy instantiate.
  \<^item> Idle_Pool (\<open>idle_pool.rs\<close>), Sys_Unix (\<open>sys/unix/mod.rs\<close>), Proxy_Base, Proxy_Tcp, Proxy_Udp,
    Proxy_Sockets, Proxy (\<open>proxy/\<close>): the transparent proxy. The relay conserves both streams for any
    sequence of events, both sides close together, the UDP tables and the socket cache agree, and the loop
    keeps its tables and its pool in order from its start through any rounds.
  \<^item> Domain_Map (\<open>dns/domain.rs\<close>), Ip_Set (\<open>wintun/ipset.rs\<close>): domain lists and address sets. The blocks of a
    range cover it exactly once; the conditions under which inversion is exact, or wrong, are stated.
  \<^item> Winapi (\<open>wintun/route.rs\<close>, \<open>dns/adapter.rs\<close>), Routes: network adapters and routing entries; the Windows
    functions are the fields of \<open>'w winapi\<close>. Inverse routing sends exactly the addresses into the tunnel that are
    neither listed nor reserved.
  \<^item> Dns_Server (\<open>dns/server.rs\<close>, \<open>dns/mod.rs\<close>), Dns_Answers: the name server. Questions for listed domains only go
    to the trusted server; answers reach those who asked and are served from the cache until they expire.
  \<^item> Tun_Base (\<open>wintun/waker.rs\<close>, the tokens of \<open>wintun/\<close>): events, wakers, and the user-space stack smoltcp as the
    record \<open>'w smol\<close> of the calls the program makes.
  \<^item> Tun_Tcp (\<open>wintun/tcp.rs\<close>), Tun_Tcp_Relay, Tun_Tcp_Table: TCP through the tunnel. Both streams are relayed in order
    for any sequence of events, closing one side closes the other, and the tables by token and by socket agree.
    Connections are shared between the tables, so they live in a store; Shared_Table holds what both servers need of
    such tables, and the locale \<open>token_store\<close> of Token_Table states what their tokens promise, once for both.
  \<^item> Tun_Udp (\<open>wintun/udp.rs\<close>), Tun_Udp_Stream, Tun_Udp_Table: UDP through the tunnel. The plaintext is a request
    followed by whole frames, answers are delivered in order, and the counter of a socket is the number of connections
    that use it, so that removal never underflows and no socket in use is dropped.
  \<^item> Tun_Device (\<open>wintun/tun.rs\<close>), Tun (\<open>wintun/mod.rs\<close>): the device that prepares a socket for every new destination
    and the event loop. Packets that parse never stop the program, the server stays reachable outside the tunnel,
    and events reach the server that holds their connection.

  This theory joins the ends: what the proxy and the tunnel write for a client's connections and datagrams is what the
  server connects to and delivers.

  The tokens of the tunnel start over after a third of \<open>2 ^ 64\<close> connections; the theorems about its tables hold for
  states up to there, where the number of connections made is the size of the store.

  \<^bold>\<open>Not modelled.\<close> \<open>main.rs\<close>, \<open>bin/dns.rs\<close> and the log sinks of \<open>config.rs\<close> are glue and output; the
  TLS configuration is a sequence of calls into rustls, the interface of the tunnel one into smoltcp; \<open>sys/windows\<close>
  holds stubs that panic, since the proxy does not run there. The crates the program uses (mio, rustls, smoltcp, trust-dns,
  crossbeam, wintun) are parameters.
\<close>

section \<open>From the proxy to the server\<close>

text \<open>C3. A proxied TCP connection reaches its destination: when the proxy has set up a client's connection, the
  plaintext in the TLS session is a request that a server with the same password serves by connecting to the
  address the client was connecting to (in the form it has on the wire), and everything that the client sends behind it is
  forwarded there unchanged, or buffered, unless the target's socket fails.\<close>

theorem proxied_connect:
  assumes "tls_write_contract P plain" and "client_setup P pcfg x v = Some (True, x', v')"
    and "plain (tc_session (cc_server_conn x)) v = []" and "\<forall>k t w. plain k (snd (poll_register P s0 t w)) = plain k w"
    and "cc_client x = s0" and "sha_pass pcfg = sha_pass cfg"
    and "tcp_write_contract S tx" and "tcp_shutdown_quiet S tx" and "digest_ok cfg"
    and "conn_inv c" and "sc_status c = HandShake"
    and "tcp_connect S (wire_addr (cc_dst_addr x)) w = (Inr s, w1)" and "target_token c = Some t"
    and "tcp_backend_new S cfg s (sc_index c) t w1 = (Inr b, w2)"
  shows "\<exists>c' w' b'. conn_dispatch S cfg c (plain (tc_session (cc_server_conn x)) v' @ d) (Some rv) w = Some (c', Some rv, w') \<and>
    sc_status c' = TCPForward \<and> sc_backend c' = Some (TcpBackend b') \<and> tb_conn b' = s \<and>
    (is_shutdown (tb_status b') \<or> tx s w' @ tb_send_buffer b' = tx s w2 @ d)"
proof -
  let ?req = "trojan_request_generate cfg [] CONNECT (cc_dst_addr x)"
  have req: "trojan_request_generate pcfg [] CONNECT (cc_dst_addr x) = ?req"
    using assms(6) by (simp add: trojan_request_generate_def get_pass_def)
  obtain ok t1 v1 where ws: "tls_write_session P (cc_server_conn x) ?req v = (ok, t1, v1)"
    by (cases "tls_write_session P (cc_server_conn x) ?req v")
  from assms(2) ws req obtain tk u where ok: ok and r: "poll_register P (cc_client x) tk v1 = (u, v')"
    by (auto simp: client_setup_def Let_def split: bind_splits if_splits prod.splits sum.splits)
  have "plain (tc_session (cc_server_conn x)) v1 = ?req"
    using assms(1) [unfolded tls_write_contract_def, rule_format, where c = "tc_session (cc_server_conn x)" and d = ?req and w = v]
      ws ok assms(3) by (auto simp: tls_write_session_def split: prod.splits sum.splits)
  moreover have "plain (tc_session (cc_server_conn x)) v' = plain (tc_session (cc_server_conn x)) v1"
    using assms(4) r assms(5) by (metis snd_conv)
  ultimately have "plain (tc_session (cc_server_conn x)) v' = ?req" by simp
  with conn_dispatch_request [OF assms(7-14), of d rv] show ?thesis by simp
qed

theorem proxied_connect_witness:
  "\<exists>x' v' c' w' b'. client_setup sim_sys sample_ready sample_client sim_idle = Some (True, x', v') \<and>
     conn_dispatch sim_sys sample_ready sample_conn (sim_plain v' (tc_session (cc_server_conn sample_client)) @ [71, 69, 84])
       (Some (resolver_new 2 None)) sim_idle = Some (c', Some (resolver_new 2 None), w') \<and>
     sc_backend c' = Some (TcpBackend b') \<and> (is_shutdown (tb_status b') \<or> sim_tx w' 10 @ tb_send_buffer b' = [71, 69, 84])"
proof -
  obtain b where b: "tcp_backend_new sim_sys sample_ready 10 (sc_index sample_conn) 5 (sim_idle\<lparr>sim_next := 11\<rparr>) =
     (Inr b, sim_idle\<lparr>sim_next := 11\<rparr>)" using sample_target(3) by blast
  have hs: "sc_status sample_conn = HandShake" by (simp add: sample_conn_def)
  have tx: "sim_tx (sim_idle\<lparr>sim_next := 11\<rparr>) 10 = []" by (simp add: sim_idle_def)
  obtain x' v' where su: "client_setup sim_sys sample_ready sample_client sim_idle = Some (True, x', v')"
    by (simp add: client_setup_def client_token_def channel_token_def sample_client_def mul_checked_def add_checked_def proxy_consts
        tls_write_session_def Let_def)
  have e: "sim_plain sim_idle (tc_session (cc_server_conn sample_client)) = []" by (simp add: sim_idle_def)
  have q: "\<forall>k t w. sim_plain (snd (poll_register sim_sys (cc_client sample_client) t w)) k = sim_plain w k" by simp
  from proxied_connect [OF sim_tls_contract su e q refl refl sim_tcp_contract sim_shutdown_quiet sample_digest
      sample_ready_simps(8) hs sample_target(1,2) b, where d = "[71, 69, 84]" and rv = "resolver_new 2 None"] tx su
  show ?thesis by auto
qed

text \<open>A stream of whole frames, cut anywhere, at a backend with nothing buffered.\<close>

lemma udp_stream_delivered:
  assumes "udp_send_contract S sent" and "list_all udp_sendable xs" and "ub_send_buffer b = []" and "concat ds = udp_stream xs"
  shows "\<exists>b' w'. udp_backend_dispatches S b ds w = Some (b', w') \<and>
    (is_shutdown (ub_status b') \<or>
     (\<exists>qs rs. xs = qs @ rs \<and> sent (ub_socket b) w' = sent (ub_socket b) w @ map prod.swap qs \<and>
        ub_send_buffer b' = udp_stream rs))"
proof -
  have "udp_pending S (ub_socket b) (ub_send_buffer b) (concat ds) xs"
    using assms(3,4) udp_frame_nonempty by (auto simp: udp_pending_def)
  from udp_backend_dispatches_stream [OF assms(1,2) this, of w] show ?thesis
    by (elim exE conjE disjE) (auto simp: udp_pending_def)
qed

lemma subseq_set: "subseq xs ys \<Longrightarrow> set xs \<subseteq> set ys"
  by (induction rule: list_emb.induct) auto

text \<open>C4. Proxied datagrams reach their destinations: the frames that the proxy writes for a client's IPv4
  datagrams, as long as the TLS connection is not shut down, are delivered by the server's UDP backend in order,
  each to its own address and with its own bytes, however the stream between them is cut; what the
  server's socket refuses for the moment stays buffered, and unless the socket fails nothing else happens.\<close>

theorem proxied_datagrams:
  assumes "tls_write_contract P plain" and "udp_forwards P c xs v = (c', v')" and "\<not> is_shutdown (tc_status (uu_server_conn c'))"
    and "list_all udp_sendable xs" and "udp_send_contract S sent" and "ub_send_buffer b = []"
    and "plain (tc_session (uu_server_conn c)) v' = plain (tc_session (uu_server_conn c)) v @ concat ds"
  shows "\<exists>b' w'. udp_backend_dispatches S b ds w = Some (b', w') \<and>
    (is_shutdown (ub_status b') \<or>
     (\<exists>qs rs. xs = qs @ rs \<and> sent (ub_socket b) w' = sent (ub_socket b) w @ map prod.swap qs \<and>
        ub_send_buffer b' = udp_stream rs))"
proof -
  have "concat ds = udp_stream xs" using udp_forwards_plain [OF assms(1-3)] assms(7) by simp
  from udp_stream_delivered [OF assms(5,4,6) this] show ?thesis .
qed

theorem proxied_datagrams_witness:
  "\<exists>c' v' b' w'. udp_forwards sim_sys sample_udp_conn sample_datagrams sim_idle = (c', v') \<and>
     udp_backend_dispatches sim_sys sample_udp_backend [sim_plain v' (tc_session (uu_server_conn sample_udp_conn))] sim_idle = Some (b', w') \<and>
     (is_shutdown (ub_status b') \<or> (\<exists>qs rs. sample_datagrams = qs @ rs \<and> sim_dgrams_out w' 3 = map prod.swap qs))"
proof -
  obtain c' v' where f: "udp_forwards sim_sys sample_udp_conn sample_datagrams sim_idle = (c', v')"
    and ok: "\<not> is_shutdown (tc_status (uu_server_conn c'))"
    by (simp add: udp_forward_def tls_write_session_def sample_udp_conn_def sample_tls_def Let_def is_shutdown_def)
  have s: "list_all udp_sendable sample_datagrams" by (simp add: udp_sendable_def MAX_PACKET_SIZE_def)
  have e: "ub_send_buffer sample_udp_backend = []" "sim_dgrams_out sim_idle (ub_socket sample_udp_backend) = []"
    "ub_socket sample_udp_backend = 3" by (simp_all add: sample_udp_backend_def sim_idle_def)
  have c: "sim_plain v' (tc_session (uu_server_conn sample_udp_conn)) = sim_plain sim_idle (tc_session (uu_server_conn sample_udp_conn))
      @ concat [sim_plain v' (tc_session (uu_server_conn sample_udp_conn))]" by (simp add: sim_idle_def)
  from proxied_datagrams [OF sim_tls_contract f ok s sim_udp_contract e(1) c, of sim_idle] f e(2,3) show ?thesis by auto
qed

section \<open>From the tunnel to the server\<close>

lemma request_endpoint_v4:
  "trojan_request_generate_endpoint cfg [] cmd \<lparr>addr = SmolIpv4 ip, port = p\<rparr> = Some (trojan_request_generate cfg [] cmd (V4 ip p))"
  by (simp add: trojan_request_generate_endpoint_def trojan_request_generate_def sock5_generate_endpoint_def sock5_generate_eq)

lemma request_same_password: "sha_pass tcfg = sha_pass cfg \<Longrightarrow> trojan_request_generate tcfg b cmd a = trojan_request_generate cfg b cmd a"
  by (simp add: trojan_request_generate_def get_pass_def)

text \<open>C5. A TCP connection through the tunnel reaches its destination: after any run of events on both sides, once the tunnel has
  passed on all that its client has sent, the plaintext in the TLS session is served by a server with the same password
  by connecting to the address the client was connecting to and forwarding exactly what the client has sent, or
  buffering it, unless the target's socket fails.\<close>

theorem tunnelled_connect:
  assumes "tun_link P M V t h" and "tun_arrives M V h arrive" and "\<forall>b. 1500 \<le> spare b"
    and "\<forall>w. ts_local_endpoint M h w = \<lparr>addr = SmolIpv4 ip, port = p\<rparr>"
    and "tun_tcp_new P token h t v0 = (tc, v)" and "has_tcp M h v"
    and "up_tx V v = []" and "up_avail V v = []" and "dn_tx V v = []" and "dn_avail V v = []"
    and "tun_run P M spare tcfg arrive es tc wk v = Some (tc', wk', v')" and "tt_established tc'" and "\<not> tt_rclosed tc'"
    and "tt_rbuffer tc' = []" and "up_avail V v' = []" and "sha_pass tcfg = sha_pass cfg"
    and "tcp_write_contract S tx" and "tcp_shutdown_quiet S tx" and "digest_ok cfg" and "conn_inv c" and "sc_status c = HandShake"
    and "tcp_connect S (V4 ip p) w = (Inr s, w1)" and "target_token c = Some tk"
    and "tcp_backend_new S cfg s (sc_index c) tk w1 = (Inr b, w2)"
  shows "\<exists>c' w' b'. conn_dispatch S cfg c (up_tx V v') (Some rv) w = Some (c', Some rv, w') \<and> sc_status c' = TCPForward \<and>
    sc_backend c' = Some (TcpBackend b') \<and> tb_conn b' = s \<and>
    (is_shutdown (tb_status b') \<or> tx s w' @ tb_send_buffer b' = tx s w2 @ client_sent es)"
proof -
  let ?req = "trojan_request_generate cfg [] CONNECT (V4 ip p)"
  have req: "\<forall>w. trojan_request_generate_endpoint tcfg [] CONNECT (ts_local_endpoint M h w) = Some ?req"
    using assms(4) by (simp add: request_endpoint_v4 request_same_password [OF assms(16)])
  from tun_run_new [OF assms(1-3) req assms(5-10), of es wk] assms(11-15) have "up_tx V v' = ?req @ client_sent es"
    by (simp add: link_inv_def)
  moreover have "tcp_connect S (wire_addr (V4 ip p)) w = (Inr s, w1)" using assms(22) by simp
  ultimately show ?thesis using conn_dispatch_request [OF assms(17-21) _ assms(23,24), of "V4 ip p" w "client_sent es" rv] by simp
qed

text \<open>A client that sends one byte, and the run that takes it to the TLS session.\<close>

abbreviation one_byte_steps :: "tun_step list" where
  "one_byte_steps \<equiv> [Arrive [7] [], RemoteEvent \<lparr>ev_token = 8, ev_readable = False, ev_writable = True\<rparr>]"

lemma sim_copy_byte:
  assumes "sim_rx w 20 = [7]"
  shows "copy_stream (\<lambda>_. 1500) (local_read sim_smol 20) (tls_write sim_sys sample_tls) [] w =
    Some (Inr RxBlock, [], sim_write_plain 1 [7] (w\<lparr>sim_rx := (sim_rx w)(20 := [])\<rparr>))"
proof -
  let ?v = "w\<lparr>sim_rx := (sim_rx w)(20 := [])\<rparr>"
  have rd: "local_read sim_smol 20 1500 w = Some (Inr [7], ?v)" using assms by (simp add: local_read_def)
  have rd0: "local_read sim_smol 20 1500 u = Some (Inl WouldBlock, u)" if "sim_rx u 20 = []" for u
    using that by (auto simp: local_read_def fun_upd_idem_iff)
  have sa: "send_all (tls_write sim_sys sample_tls) [7] ?v = Some (Inr True, [], sim_write_plain 1 [7] ?v)"
    by (simp add: send_all_def send_all_loop.simps sim_tls_write_all)
  have "sim_rx (sim_write_plain 1 [7] ?v) 20 = []" by (simp add: sim_write_plain_def)
  from rd0 [OF this] show ?thesis
    by (subst copy_stream.simps) (simp add: send_all_def [of _ "[]"] read_once_def rd copy_stream.simps [of _ _ _ "[7]"] sa)
qed

lemma sim_flush_open:
  "\<exists>u v. tls_flush sim_sys sample_tls w = (u, v) \<and> (u = Inr () \<or> u = Inl WouldBlock) \<and> sim_rx v = sim_rx w"
  by (auto simp: tls_flush_def sim_write_tls_def sim_write_def Let_def split: prod.splits sum.splits if_splits)

lemma sim_one_byte:
  "\<exists>tc' wk' v'. tun_run sim_sys sim_smol (\<lambda>_. 1500) sample_ready sim_arrive one_byte_steps sample_tun (wakers_new 0) sim_idle = Some (tc', wk', v') \<and>
     tt_established tc' \<and> \<not> tt_rclosed tc' \<and> tt_rbuffer tc' = [] \<and> up_avail sim_view v' = []"
proof -
  let ?w = "sim_arrive [7] [] sim_idle"
  let ?w1 = "sim_write_plain 1 tun_request ?w"
  let ?c = "sample_tun\<lparr>tt_last_active := sim_now ?w, tt_established := True\<rparr>"
  have c: "tt_remote sample_tun = sample_tls" "tt_local sample_tun = 20" "\<not> tt_lclosed sample_tun" "\<not> tt_rclosed sample_tun"
    "tt_rbuffer sample_tun = []" "\<not> tt_established sample_tun" "tt_lbuffer sample_tun = []" by (simp_all add: sample_tun_def)
  have "tun_request \<noteq> []" by (simp add: tun_request_def)
  note wr = sim_tls_write_all [OF this, of ?w]
  have rx: "sim_rx ?w1 20 = [7]" by (simp add: sim_write_plain_def sim_arrive_def sim_idle_def)
  let ?w2 = "sim_write_plain 1 [7] (?w1\<lparr>sim_rx := (sim_rx ?w1)(20 := [])\<rparr>)"
  obtain u v where f: "tls_flush sim_sys sample_tls ?w2 = (u, v)" "u = Inr () \<or> u = Inl WouldBlock" "sim_rx v = sim_rx ?w2"
    using sim_flush_open by blast
  have lr: "local_to_remote sim_sys sim_smol (\<lambda>_. 1500) DummyWaker ?c ?w1 = Some (?c, v)"
    using f(1,2) by (auto simp: local_to_remote_def sample_tun_def sim_copy_byte [OF rx] flush_remote_def get_tcp_def simp del: One_nat_def)
  have rw: "remote_writable sim_sys sim_smol (\<lambda>_. 1500) sample_ready (sample_tun\<lparr>tt_last_active := sim_now ?w\<rparr>) ?w = Some (True, ?c, v)"
    using sample_tun_request wr lr by (simp add: remote_writable_def c get_tcp_def del: One_nat_def)
  obtain q wk where "get_wakers (wakers_new 0) 20 = Some (q, wk)" using get_wakers_total by blast
  then have "reregister_local sim_smol (wakers_new 0) ?c v = Some (wk, v)"
    by (cases q) (simp add: reregister_local_def c get_tcp_def Let_def)
  moreover have "up_avail sim_view v = []" using f(3) by (simp add: sim_view_def sim_write_plain_def)
  ultimately show ?thesis by (simp add: tun_tcp_remote_def rw check_half_close_def c Let_def)
qed

theorem tunnelled_connect_witness:
  "\<exists>tc' wk' v' c' w' b'. tun_run sim_sys sim_smol (\<lambda>_. 1500) sample_ready sim_arrive one_byte_steps sample_tun (wakers_new 0) sim_idle =
       Some (tc', wk', v') \<and>
     conn_dispatch sim_sys sample_ready sample_conn (sim_plain v' 1) (Some (resolver_new 2 None)) sim_idle =
       Some (c', Some (resolver_new 2 None), w') \<and>
     sc_backend c' = Some (TcpBackend b') \<and> (is_shutdown (tb_status b') \<or> sim_tx w' 10 @ tb_send_buffer b' = [7])"
proof -
  obtain b where b: "tcp_backend_new sim_sys sample_ready 10 (sc_index sample_conn) 5 (sim_idle\<lparr>sim_next := 11\<rparr>) =
     (Inr b, sim_idle\<lparr>sim_next := 11\<rparr>)" using sample_target(3) by blast
  have hs: "sc_status sample_conn = HandShake" by (simp add: sample_conn_def)
  have tx: "sim_tx (sim_idle\<lparr>sim_next := 11\<rparr>) 10 = []" by (simp add: sim_idle_def)
  have sp: "\<forall>b :: bytes. (1500 :: nat) \<le> 1500" by simp
  have ep: "\<forall>w. ts_local_endpoint sim_smol 20 w = \<lparr>addr = SmolIpv4 (Ipv4Addr 8 8 8 8), port = 80\<rparr>" by (simp add: no_endpoint_def)
  obtain tc' wk' v' where r: "tun_run sim_sys sim_smol (\<lambda>_. 1500) sample_ready sim_arrive one_byte_steps sample_tun (wakers_new 0) sim_idle =
      Some (tc', wk', v')" "tt_established tc'" "\<not> tt_rclosed tc'" "tt_rbuffer tc' = []" "up_avail sim_view v' = []"
    using sim_one_byte by blast
  have cn: "tcp_connect sim_sys (V4 (Ipv4Addr 8 8 8 8) 80) sim_idle = (Inr 10, sim_idle\<lparr>sim_next := 11\<rparr>)"
    by (simp add: sim_fresh_def sim_idle_def)
  have v: "up_tx sim_view v' = sim_plain v' 1" by (simp add: sim_view_def)
  have cs: "client_sent one_byte_steps = [7]" by simp
  from tunnelled_connect [OF sim_tun_link sim_tun_arrives sp ep sample_tun_start r refl sim_tcp_contract sim_shutdown_quiet sample_digest
      sample_ready_simps(8) hs cn sample_target(2) b, where rv = "resolver_new 2 None"] tx r(1)
  show ?thesis unfolding v cs by auto
qed

text \<open>C6. Datagrams through the tunnel reach their destinations: after any run, once the tunnel has passed on all it
  has accepted, the plaintext of the connection is the association request followed by a stream which, however it
  is cut, the server's UDP backend delivers in order, each datagram to its own address and with its own bytes, and
  which holds a subsequence of the client's datagrams; what the server's socket refuses for the moment stays buffered.\<close>

theorem tunnelled_datagrams:
  assumes "takes_whole P t plain" and "tu_remote c = t" and "empty_addr cfg = Some a"
    and "\<not> tu_established c" and "tu_rbuffer c = []" and "plain v = []"
    and "tu_run P M SM spare cfg es c v = Some (c', v')" and "tu_established c'" and "\<not> tu_rclosed c'" and "tu_rbuffer c' = []"
    and "list_all udp_sendable (tu_datagrams es)" and "udp_send_contract S sent" and "ub_send_buffer b = []"
    and "plain v' = trojan_request_generate cfg [] UDP_ASSOCIATE a @ concat ds"
  shows "\<exists>b' w'. udp_backend_dispatches S b ds w = Some (b', w') \<and>
    (is_shutdown (ub_status b') \<or>
     (\<exists>qs rs. subseq (qs @ rs) (tu_datagrams es) \<and> sent (ub_socket b) w' = sent (ub_socket b) w @ map prod.swap qs \<and>
        ub_send_buffer b' = udp_stream rs))"
proof -
  have "tu_stream_inv plain (trojan_request_generate cfg [] UDP_ASSOCIATE a) [] c v" using assms(4-6) by (simp add: tu_stream_inv_def)
  from tu_run_inv [OF assms(3) _ this, of P M SM spare es] assms(1,2,7) obtain xs where xs: "subseq xs (tu_datagrams es)"
    "tu_stream_inv plain (trojan_request_generate cfg [] UDP_ASSOCIATE a) (udp_stream xs) c' v'" by auto
  from xs(2) assms(8-10,14) have "concat ds = udp_stream xs" by (simp add: tu_stream_inv_def)
  moreover have "list_all udp_sendable xs" using assms(11) subseq_set [OF xs(1)] by (auto simp: list_all_iff)
  ultimately show ?thesis using udp_stream_delivered [OF assms(12) _ assms(13), of xs ds w] xs(1) by blast
qed

text \<open>A client that sends one datagram before the connection stands.\<close>

abbreviation one_datagram_steps :: "tu_step list" where
  "one_datagram_steps \<equiv> [Datagram (Ipv4Addr 8 8 8 8) 53 [1], Writable]"

abbreviation no_v6 :: smoltcp_ops where
  "no_v6 \<equiv> \<lparr>ipv6_from_bytes = Some, ip_address_from = (\<lambda>_. SmolOther)\<rparr>"

lemma sim_one_datagram:
  "\<exists>c' v'. tu_run sim_sys sim_smol no_v6 (\<lambda>_. 1500) sample_ready one_datagram_steps sample_tun_udp sim_idle = Some (c', v') \<and>
     tu_established c' \<and> \<not> tu_rclosed c' \<and> tu_rbuffer c' = []"
proof -
  let ?f = "udp_generate [] (V4 (Ipv4Addr 8 8 8 8) 53) 1 @ [1]"
  let ?req = "trojan_request_generate sample_ready [] UDP_ASSOCIATE unspecified_v4"
  let ?c = "sample_tun_udp\<lparr>tu_rbuffer := ?f\<rparr>" and ?d = "sample_tun_udp\<lparr>tu_established := True\<rparr>"
  let ?w1 = "sim_write_plain 1 ?req sim_idle"
  let ?w2 = "sim_write_plain 1 ?f ?w1"
  have ne: "?f \<noteq> []" "?req \<noteq> []" by (simp_all add: udp_generate_def trojan_request_generate_def)
  have loc: "tun_udp_local sim_sys (udp_generate [] (V4 (Ipv4Addr 8 8 8 8) 53) 1) [1] sample_tun_udp sim_idle = Some (?c, sim_idle)"
    by (simp add: tun_udp_local_def sample_tun_udp_def sim_idle_def as_secs_def)
  have sa: "send_all (tls_write sim_sys sample_tls) ?f ?w1 = Some (Inr True, [], ?w2)"
    using sim_tls_write_all [OF ne(1)] ne(1) by (simp add: send_all_def send_all_loop.simps)
  obtain u v where f: "tls_flush sim_sys sample_tls ?w2 = (u, v)" "u = Inr () \<or> u = Inl WouldBlock"
    using sim_flush_open by blast
  have "tu_local_to_remote sim_sys [] [] (?c\<lparr>tu_established := True\<rparr>) ?w1 = Some (?d, v)"
    using f sa ne(1) by (auto simp: tu_local_to_remote_def tu_send_packet_def tu_write_loop.simps tu_flush_remote_def sample_tun_udp_def)
  moreover have "empty_addr sample_ready = Some unspecified_v4" by (simp add: sample_ready_def)
  moreover have "tls_write sim_sys sample_tls ?req sim_idle = Some (Inr (length ?req), ?w1)" by (rule sim_tls_write_all [OF ne(2)])
  ultimately have "tu_remote_writable sim_sys sample_ready ?c sim_idle = Some (True, ?d, v)"
    by (simp add: tu_remote_writable_def unwrap_def sample_tun_udp_def)
  moreover have "?c\<lparr>tu_last_remote := sim_now sim_idle\<rparr> = ?c" by (simp add: sample_tun_udp_def sim_idle_def)
  moreover have "\<not> tu_rclosed sample_tun_udp" "tu_rbuffer sample_tun_udp = []" by (simp_all add: sample_tun_udp_def)
  ultimately show ?thesis
    using loc by (simp add: tun_udp_remote_def udp_generate_endpoint_def sock5_generate_endpoint_def udp_generate_def)
qed

theorem tunnelled_datagrams_witness:
  "\<exists>c' v' b' w' ds. tu_run sim_sys sim_smol no_v6 (\<lambda>_. 1500) sample_ready one_datagram_steps sample_tun_udp sim_idle = Some (c', v') \<and>
     sim_plain v' 1 = trojan_request_generate sample_ready [] UDP_ASSOCIATE unspecified_v4 @ concat ds \<and>
     udp_backend_dispatches sim_sys sample_udp_backend ds sim_idle = Some (b', w') \<and>
     (is_shutdown (ub_status b') \<or>
      (\<exists>qs rs. subseq (qs @ rs) [(V4 (Ipv4Addr 8 8 8 8) 53, [1])] \<and> sim_dgrams_out w' 3 = map prod.swap qs))"
proof -
  have e: "empty_addr sample_ready = Some unspecified_v4" by (simp add: sample_ready_def)
  have c: "tu_remote sample_tun_udp = sample_tls" "\<not> tu_established sample_tun_udp" "tu_rbuffer sample_tun_udp = []" "sim_plain sim_idle 1 = []"
    by (simp_all add: sample_tun_udp_def sim_idle_def)
  have s: "list_all udp_sendable (tu_datagrams one_datagram_steps)" by (simp add: udp_sendable_def MAX_PACKET_SIZE_def)
  have b: "ub_send_buffer sample_udp_backend = []" "ub_socket sample_udp_backend = 3" "sim_dgrams_out sim_idle 3 = []"
    by (simp_all add: sample_udp_backend_def sim_idle_def)
  obtain c' v' where r: "tu_run sim_sys sim_smol no_v6 (\<lambda>_. 1500) sample_ready one_datagram_steps sample_tun_udp sim_idle = Some (c', v')"
    "tu_established c'" "\<not> tu_rclosed c'" "tu_rbuffer c' = []" using sim_one_datagram by blast
  have "tu_stream_inv (\<lambda>w. sim_plain w 1) (trojan_request_generate sample_ready [] UDP_ASSOCIATE unspecified_v4) [] sample_tun_udp sim_idle"
    using c(2-4) by (simp add: tu_stream_inv_def)
  from tu_run_inv [OF e _ this, of sim_sys sim_smol no_v6 "\<lambda>_. 1500" one_datagram_steps] sim_takes_whole c(1) r obtain xs where
    "sim_plain v' 1 = trojan_request_generate sample_ready [] UDP_ASSOCIATE unspecified_v4 @ concat [udp_stream xs]"
    by (auto simp: tu_stream_inv_def)
  then obtain ds where p: "sim_plain v' 1 = trojan_request_generate sample_ready [] UDP_ASSOCIATE unspecified_v4 @ concat ds" by blast
  from tunnelled_datagrams [OF sim_takes_whole c(1) e c(2-4) r s sim_udp_contract b(1) p, of sim_idle] r(1) p b(2,3) show ?thesis by force
qed

end
